(* ===== verification/Tn_Prelude.thy ===== *)
theory Tn_Prelude
  imports Main "HOL-Library.Word" "HOL-Library.Signed_Division"
begin

text \<open>
  Shared vocabulary of the treenity development: the machine types of the C sources, the byte
  arrays and table searches every component uses, and the generic lemmas about them.

  C arrays are lists of a fixed length. A store of several bytes at an offset is
  \<open>put_bytes\<close>; when the store would leave the array the list grows, so \<open>length\<close> being
  preserved is exactly the statement that the store stayed inside the array. A first-match
  \<open>for\<close> loop over a table is \<open>find_index\<close>; a pointer into a table is the index of its entry,
  and a \<open>NULL\<close> result is \<open>None\<close>. The recycling loops of the tables are \<open>oldest_loop\<close>.
\<close>

unbundle bit_operations_syntax

section \<open>Machine types\<close>

type_synonym u8 = "8 word"
type_synonym u16 = "16 word"
type_synonym u32 = "32 word"
type_synonym u64 = "64 word"

text \<open>
  \<open>i8\<close> and \<open>i16\<close> are two's complement values, read with \<open>sint\<close>. A C \<open>int32_t\<close> that the code
  only uses for intermediate arithmetic is an \<open>int\<close>; where its range matters it is proved.
\<close>

type_synonym i8 = "8 word"
type_synonym i16 = "16 word"

abbreviation UINT32_MAX :: u32 where "UINT32_MAX \<equiv> 0xFFFFFFFF"

named_theorems config "default values of the compile-time configuration"
named_theorems tn_length "lengths of the arrays the operations return"
named_theorems tn_frame "fields an operation leaves alone"
named_theorems tn_inv "invariant preservation"

section \<open>Byte arrays\<close>

definition put_bytes :: "'a list \<Rightarrow> nat \<Rightarrow> 'a list \<Rightarrow> 'a list" where
  "put_bytes dst off bs = take off dst @ bs @ drop (off + length bs) dst"

text \<open>\<open>memcpy(dst + off, src, n)\<close>.\<close>

definition memcpy :: "'a list \<Rightarrow> nat \<Rightarrow> 'a list \<Rightarrow> nat \<Rightarrow> 'a list" where
  "memcpy dst off src n = put_bytes dst off (take n src)"

lemma length_put_bytes [simp, tn_length]:
  "off + length bs \<le> length dst \<Longrightarrow> length (put_bytes dst off bs) = length dst"
  by (simp add: put_bytes_def)

lemma put_bytes_in_range_iff:
  "off \<le> length dst \<Longrightarrow>
   length (put_bytes dst off bs) = length dst \<longleftrightarrow> off + length bs \<le> length dst"
  by (auto simp: put_bytes_def)

lemma nth_put_bytes:
  "off + length bs \<le> length dst \<Longrightarrow> i < length dst \<Longrightarrow>
   put_bytes dst off bs ! i = (if off \<le> i \<and> i < off + length bs then bs ! (i - off) else dst ! i)"
  by (auto simp: put_bytes_def nth_append min_def)

lemma put_bytes_Nil [simp]: "off \<le> length dst \<Longrightarrow> put_bytes dst off [] = dst"
  by (simp add: put_bytes_def)

lemma drop_put_bytes:
  "off \<le> length dst \<Longrightarrow> drop off (put_bytes dst off bs) = bs @ drop (off + length bs) dst"
  by (simp add: put_bytes_def)

lemma take_put_bytes_before [simp]:
  "n \<le> off \<Longrightarrow> off \<le> length dst \<Longrightarrow> take n (put_bytes dst off bs) = take n dst"
  by (simp add: put_bytes_def min_def)

lemma take_put_bytes_exact:
  "off \<le> length dst \<Longrightarrow> n = off + length bs \<Longrightarrow> take n (put_bytes dst off bs) = take off dst @ bs"
  by (simp add: put_bytes_def)

lemma put_bytes_put_bytes_adjacent:
  "off \<le> length dst \<Longrightarrow> off' = off + length bs \<Longrightarrow>
   put_bytes (put_bytes dst off bs) off' cs = put_bytes dst off (bs @ cs)"
  by (simp add: put_bytes_def ac_simps)

lemma length_memcpy [simp, tn_length]:
  "n \<le> length src \<Longrightarrow> off + n \<le> length dst \<Longrightarrow> length (memcpy dst off src n) = length dst"
  by (simp add: memcpy_def)

lemma nth_memcpy:
  "n \<le> length src \<Longrightarrow> off + n \<le> length dst \<Longrightarrow> i < length dst \<Longrightarrow>
   memcpy dst off src n ! i = (if off \<le> i \<and> i < off + n then src ! (i - off) else dst ! i)"
  by (auto simp: memcpy_def nth_put_bytes)

lemma mod_add_cases:
  fixes p i c :: nat
  assumes "i < c"
  shows "(p + i) mod c = (if p mod c + i < c then p mod c + i else p mod c + i - c)"
proof -
  have "(p + i) mod c = (p mod c + i) mod c" by (simp add: mod_add_left_eq)
  also have "\<dots> = (if p mod c + i < c then p mod c + i else p mod c + i - c)"
  proof (cases "p mod c + i < c")
    case False
    moreover have "p mod c < c" using assms by simp
    ultimately have "p mod c + i - c < c" using assms by linarith
    with False show ?thesis by (simp add: le_mod_geq)
  qed simp
  finally show ?thesis .
qed
lemma memcpy_split_nth:
  fixes buf :: "'a list"
  assumes "idx < length buf" and "n \<le> length buf" and "n \<le> length src" and "i < length buf"
  defines "f \<equiv> min n (length buf - idx)"
  defines "b1 \<equiv> memcpy buf idx src f"
  shows "(if n > f then memcpy b1 0 (drop f src) (n - f) else b1) ! ((idx + i) mod length buf) =
     (if i < n then src ! i else buf ! ((idx + i) mod length buf))"
proof -
  let ?j = "(idx + i) mod length buf"
  have len1: "length b1 = length buf"
    using assms by (simp add: b1_def f_def)
  have b1: "b1 ! j = (if idx \<le> j \<and> j < idx + f then src ! (j - idx) else buf ! j)"
    if "j < length buf" for j
    unfolding b1_def using that assms(1-3) by (intro nth_memcpy) (simp_all add: f_def)
  have j: "?j = (if idx + i < length buf then idx + i else idx + i - length buf)"
    using mod_add_cases [OF assms(4), of idx] assms(1) by simp
  have "?j < length buf" by (rule mod_less_divisor) (use assms(1) in linarith)
  show ?thesis
  proof (cases "n > f")
    case True
    then have f: "f = length buf - idx" by (simp add: f_def)
    have "memcpy b1 0 (drop f src) (n - f) ! ?j = (if ?j < n - f then drop f src ! ?j else b1 ! ?j)"
      using assms(2,3) len1 \<open>?j < length buf\<close> by (subst nth_memcpy) auto
    with True f show ?thesis using assms(1-4) by (auto simp: j b1)
  next
    case False
    then show ?thesis using assms(1-4) by (auto simp: j b1 f_def)
  qed
qed
lemma memcpy_split_read:
  fixes buf :: "'a list"
  assumes "idx < length buf" and "n \<le> length buf" and "n \<le> length dst"
  defines "f \<equiv> min n (length buf - idx)"
  defines "d1 \<equiv> memcpy dst 0 (drop idx buf) f"
  shows "(if n > f then memcpy d1 f buf (n - f) else d1) =
     map (\<lambda>i. buf ! ((idx + i) mod length buf)) [0..<n] @ drop n dst"
    (is "?l = ?r")
proof (rule nth_equalityI)
  have len1: "length d1 = length dst"
    using assms by (simp add: d1_def f_def)
  show len: "length ?l = length ?r"
    using assms(1-3) len1 by (simp add: f_def)
  fix i assume "i < length ?l"
  then have i: "i < length dst" using len assms(3) by simp
  have d1: "d1 ! j = (if j < f then buf ! (idx + j) else dst ! j)" if "j < length dst" for j
    unfolding d1_def using that assms(1-3) by (subst nth_memcpy) (auto simp: f_def)
  have l: "?l ! i = (if i < f then buf ! (idx + i) else if i < n then buf ! (i - f) else dst ! i)"
  proof (cases "n > f")
    case True
    have "memcpy d1 f buf (n - f) ! i = (if f \<le> i \<and> i < f + (n - f) then buf ! (i - f) else d1 ! i)"
      using True i assms(1-3) len1 by (subst nth_memcpy) (auto simp: f_def)
    with True show ?thesis by (auto simp: d1 i)
  next
    case False
    then show ?thesis by (auto simp: d1 i)
  qed
  have "(idx + i) mod length buf = (if idx + i < length buf then idx + i else idx + i - length buf)"
    if "i < n"
    using mod_add_cases [of i "length buf" idx] that assms(1,2) by simp
  then show "?l ! i = ?r ! i"
    using i assms(1-3) unfolding l by (auto simp: nth_append f_def add.commute)
qed

section \<open>Table searches\<close>

lemma list_all_update: "list_all P xs \<Longrightarrow> P x \<Longrightarrow> list_all P (xs[i := x])"
  unfolding list_all_iff using set_update_subset_insert [of xs i x] by auto

fun find_index :: "('a \<Rightarrow> bool) \<Rightarrow> 'a list \<Rightarrow> nat option" where
  "find_index P [] = None"
| "find_index P (x # xs) = (if P x then Some 0 else map_option Suc (find_index P xs))"

lemma find_index_None_iff [simp]: "find_index P xs = None \<longleftrightarrow> (\<forall>x\<in>set xs. \<not> P x)"
  by (induction xs) auto

lemma find_index_Some_iff:
  "find_index P xs = Some i \<longleftrightarrow> i < length xs \<and> P (xs ! i) \<and> (\<forall>j<i. \<not> P (xs ! j))"
  by (induction xs arbitrary: i) (auto simp: nth_Cons less_Suc_eq_0_disj split: nat.splits)

lemma find_index_SomeD:
  assumes "find_index P xs = Some i"
  shows "i < length xs" and "P (xs ! i)" and "\<And>j. j < i \<Longrightarrow> \<not> P (xs ! j)"
  using assms by (auto simp: find_index_Some_iff)

lemma find_index_unique:
  assumes "i < length xs" and "P (xs ! i)"
    and "\<And>j. j < length xs \<Longrightarrow> P (xs ! j) \<Longrightarrow> j = i"
  shows "find_index P xs = Some i"
proof -
  have "\<not> P (xs ! j)" if "j < i" for j
    using that assms(1) assms(3) [of j] by auto
  with assms(1,2) show ?thesis by (simp add: find_index_Some_iff)
qed

lemma find_index_cong:
  "length xs = length ys \<Longrightarrow> (\<And>i. i < length xs \<Longrightarrow> P (xs ! i) = Q (ys ! i)) \<Longrightarrow>
   find_index P xs = find_index Q ys"
proof (induction xs ys rule: list_induct2)
  case (Cons x xs y ys)
  have "P x = Q y" using Cons.prems [of 0] by simp
  moreover have "find_index P xs = find_index Q ys"
    using Cons.prems [of "Suc _"] by (intro Cons.IH) simp
  ultimately show ?case by simp
qed simp

text \<open>
  The recycling loop of a fixed table: scan from index \<open>i\<close>, stop at the first free entry,
  otherwise remember the entry of greatest age (the last one among equals, as the source
  compares with \<open>>=\<close>).
\<close>

fun oldest_loop :: "('a \<Rightarrow> bool) \<Rightarrow> ('a \<Rightarrow> u32) \<Rightarrow> nat \<Rightarrow> u32 \<Rightarrow> nat \<Rightarrow> 'a list \<Rightarrow> nat" where
  "oldest_loop free age oldest max_age i [] = oldest"
| "oldest_loop free age oldest max_age i (x # xs) =
     (if free x then i
      else if age x \<ge> max_age then oldest_loop free age i (age x) (Suc i) xs
      else oldest_loop free age oldest max_age (Suc i) xs)"

lemma oldest_loop_range:
  "oldest_loop free age oldest max_age i xs = oldest \<or>
   (i \<le> oldest_loop free age oldest max_age i xs \<and>
    oldest_loop free age oldest max_age i xs < i + length xs)"
proof (induction xs arbitrary: oldest max_age i)
  case (Cons x xs)
  show ?case
    using Cons.IH [of i "age x" "Suc i"] Cons.IH [of oldest max_age "Suc i"] by auto
qed simp

lemma oldest_loop_less:
  assumes "xs \<noteq> []"
  shows "oldest_loop free age 0 max_age 0 xs < length xs"
  using oldest_loop_range [of free age 0 max_age 0 xs] assms by (cases xs) auto

lemma oldest_loop_free:
  "find_index free xs = Some k \<Longrightarrow> oldest_loop free age oldest max_age i xs = i + k"
  by (induction xs arbitrary: oldest max_age i k) (auto split: if_splits)

lemma oldest_loop_max_aux:
  assumes "\<forall>x\<in>set xs. \<not> free x"
    and "oldest < length ys" and "max_age = age (ys ! oldest)"
    and "\<forall>y\<in>set ys. age y \<le> max_age"
  shows "\<forall>y\<in>set (ys @ xs).
    age y \<le> age ((ys @ xs) ! oldest_loop free age oldest max_age (length ys) xs)"
  using assms
proof (induction xs arbitrary: ys oldest max_age)
  case Nil
  then show ?case by simp
next
  case (Cons x xs)
  have step: "oldest_loop free age o' m (length (ys @ [x])) xs = oldest_loop free age o' m (Suc (length ys)) xs"
    for o' m by simp
  show ?case
  proof (cases "age x \<ge> max_age")
    case True
    have "\<forall>y\<in>set ((ys @ [x]) @ xs).
      age y \<le> age (((ys @ [x]) @ xs) ! oldest_loop free age (length ys) (age x) (length (ys @ [x])) xs)"
      using Cons.prems True by (intro Cons.IH) (auto intro: order_trans)
    then show ?thesis using Cons.prems True by simp
  next
    case False
    have "\<forall>y\<in>set ((ys @ [x]) @ xs).
      age y \<le> age (((ys @ [x]) @ xs) ! oldest_loop free age oldest max_age (length (ys @ [x])) xs)"
      using Cons.prems False by (intro Cons.IH) (auto simp: nth_append)
    then show ?thesis using Cons.prems False by simp
  qed
qed

lemma oldest_loop_max:
  assumes "\<forall>x\<in>set xs. \<not> free x" and "x \<in> set xs"
  shows "age x \<le> age (xs ! oldest_loop free age 0 0 0 xs)"
proof (cases xs)
  case Nil
  with assms show ?thesis by simp
next
  case (Cons y ys)
  have "\<forall>z\<in>set ([y] @ ys). age z \<le> age (([y] @ ys) ! oldest_loop free age 0 (age y) (length [y]) ys)"
    using assms(1) Cons by (intro oldest_loop_max_aux) auto
  with assms Cons show ?thesis by auto
qed

section \<open>Word arithmetic\<close>

lemma unat_diff_ge: "b \<le> a \<Longrightarrow> unat (a - b) = unat a - unat (b :: 'a::len word)"
  by (rule unat_sub)

lemma unat_of_nat_lt [simp]:
  "n < 2 ^ LENGTH('a) \<Longrightarrow> unat (of_nat n :: 'a::len word) = n"
  by (simp add: unat_of_nat)

lemma unat_u32_less: "unat (x :: u32) < 4294967296"
  using unsigned_less [of x] by simp

lemma unat_u16_less: "unat (x :: u16) < 65536"
  using unsigned_less [of x] by simp

lemma unat_u8_less: "unat (x :: u8) < 256"
  using unsigned_less [of x] by simp

lemma sint_i16_range: "- 32768 \<le> sint (x :: i16)" "sint (x :: i16) \<le> 32767"
  using sint_ge [of x] sint_lt [of x] by simp_all

lemma sint_i8_range: "- 128 \<le> sint (x :: i8)" "sint (x :: i8) \<le> 127"
  using sint_ge [of x] sint_lt [of x] by simp_all

lemma unat_ucast_u16_u32 [simp]: "unat (ucast (x :: u16) :: u32) = unat x"
  by (simp add: unsigned_ucast_eq take_bit_nat_eq_self unsigned_less [THEN less_trans])

lemma unat_ucast_u8_u32 [simp]: "unat (ucast (x :: u8) :: u32) = unat x"
  by (simp add: unsigned_ucast_eq take_bit_nat_eq_self unsigned_less [THEN less_trans])

lemma and_0xFF: "v AND 0xFF = take_bit 8 (v :: 'a::len word)"
proof -
  have "(0xFF :: 'a word) = mask 8" by (simp add: mask_numeral)
  then show ?thesis by (simp only: take_bit_eq_mask)
qed

lemma and_0x0F: "v AND 0x0F = take_bit 4 (v :: 'a::len word)"
proof -
  have "(0x0F :: 'a word) = mask 4" by (simp add: mask_numeral)
  then show ?thesis by (simp only: take_bit_eq_mask)
qed

lemma xor_eq_0_iff: "x XOR y = 0 \<longleftrightarrow> x = (y :: 'a::len word)"
  by (auto simp: bit_eq_iff bit_xor_iff)

lemma unat_take_bit_less: "unat (take_bit n (x :: 'a::len word)) < 2 ^ n"
  by (simp only: unsigned_take_bit_eq take_bit_nat_less_exp)

end
