(* ===== verification/Tn_Config.thy ===== *)
theory Tn_Config
  imports Tn_Prelude
begin

text \<open>
  The compile-time configuration (\<open>include/treenet/config.h\<close>) with its default values, and the
  constants of \<open>include/treenet/types.h\<close>. Array sizes and lengths are \<open>nat\<close>, durations are
  32-bit words as in the code that adds them to time stamps. The feature switches
  (statistics, fragmentation, frame CRC) are taken at their default, enabled.
\<close>

type_synonym treenet_addr_t = u32

definition TREENET_ADDR_BROADCAST :: treenet_addr_t where
  [config]: "TREENET_ADDR_BROADCAST = 0xFFFFFFFF"

definition TREENET_ADDR_INVALID :: treenet_addr_t where
  [config]: "TREENET_ADDR_INVALID = 0"

definition treenet_addr_is_broadcast :: "treenet_addr_t \<Rightarrow> bool" where
  "treenet_addr_is_broadcast addr = (addr = TREENET_ADDR_BROADCAST)"

definition TREENET_PROTOCOL_VERSION :: u8 where
  [config]: "TREENET_PROTOCOL_VERSION = 1"

section \<open>Sizes\<close>

definition TREENET_MTU :: nat where [config]: "TREENET_MTU = 200"

definition TREENET_MAX_HOPS :: u8 where [config]: "TREENET_MAX_HOPS = 8"

definition TREENET_MAX_FRAGMENTS :: nat where [config]: "TREENET_MAX_FRAGMENTS = 8"

definition TREENET_MAX_DATAGRAM :: nat where [config]: "TREENET_MAX_DATAGRAM = 1024"

definition TREENET_MAX_NEIGHBORS :: nat where [config]: "TREENET_MAX_NEIGHBORS = 32"

definition TREENET_DUP_CACHE_SIZE :: nat where [config]: "TREENET_DUP_CACHE_SIZE = 64"

definition TREENET_MAX_ROUTES :: nat where [config]: "TREENET_MAX_ROUTES = 128"

definition TREENET_RX_RING_BYTES :: nat where [config]: "TREENET_RX_RING_BYTES = 1024"

definition TREENET_TX_QUEUE_SIZE :: nat where [config]: "TREENET_TX_QUEUE_SIZE = 8"

definition TREENET_EVENT_QUEUE_SIZE :: nat where [config]: "TREENET_EVENT_QUEUE_SIZE = 16"

definition TREENET_REASSEMBLY_SLOTS :: nat where [config]: "TREENET_REASSEMBLY_SLOTS = 2"

section \<open>Timing (milliseconds)\<close>

definition TREENET_BEACON_MIN_MS :: u32 where [config]: "TREENET_BEACON_MIN_MS = 3000"

definition TREENET_BEACON_MAX_MS :: u32 where [config]: "TREENET_BEACON_MAX_MS = 12000"

definition TREENET_NEIGHBOR_TIMEOUT_MS :: u32 where [config]: "TREENET_NEIGHBOR_TIMEOUT_MS = 54000"

definition TREENET_PARENT_TIMEOUT_MS :: u32 where [config]: "TREENET_PARENT_TIMEOUT_MS = 36000"

definition TREENET_PARENT_DWELL_MS :: u32 where [config]: "TREENET_PARENT_DWELL_MS = 10000"

definition TREENET_SLOT_MS :: u32 where [config]: "TREENET_SLOT_MS = 10"

definition TREENET_CW_MAX :: u32 where [config]: "TREENET_CW_MAX = 32"

definition TREENET_ACK_TIMEOUT_MS :: u32 where [config]: "TREENET_ACK_TIMEOUT_MS = 2000"

definition TREENET_MAX_RETRIES :: u8 where [config]: "TREENET_MAX_RETRIES = 3"

definition TREENET_ACK_FAIL_THRESHOLD :: u8 where [config]: "TREENET_ACK_FAIL_THRESHOLD = 2"

definition TREENET_LINK_SUSPECT_MS :: u32 where [config]: "TREENET_LINK_SUSPECT_MS = 30000"

definition TREENET_ROUTE_REFRESH_MS :: u32 where [config]: "TREENET_ROUTE_REFRESH_MS = 45000"

definition TREENET_ROUTE_TIMEOUT_MS :: u32 where [config]: "TREENET_ROUTE_TIMEOUT_MS = 135000"

definition TREENET_DUP_TTL_MS :: u32 where [config]: "TREENET_DUP_TTL_MS = 60000"

definition TREENET_PROBE_INTERVAL_MS :: u32 where [config]: "TREENET_PROBE_INTERVAL_MS = 3000"

definition TREENET_REASM_TIMEOUT_MS :: u32 where [config]: "TREENET_REASM_TIMEOUT_MS = 8000"

definition TREENET_FLOOD_CW_MS :: int where [config]: "TREENET_FLOOD_CW_MS = 500"

section \<open>Link quality and rank\<close>

definition TREENET_OF_W_SNR :: u32 where [config]: "TREENET_OF_W_SNR = 120"

definition TREENET_OF_W_ETX :: u32 where [config]: "TREENET_OF_W_ETX = 96"

definition TREENET_PARENT_HYSTERESIS_PCT :: u32 where [config]: "TREENET_PARENT_HYSTERESIS_PCT = 25"

definition TREENET_EWMA_SHIFT :: nat where [config]: "TREENET_EWMA_SHIFT = 3"

definition TREENET_RANK_STEP :: u32 where [config]: "TREENET_RANK_STEP = 8"

definition TREENET_RANK_INFINITE :: u16 where [config]: "TREENET_RANK_INFINITE = 0xFFFF"

section \<open>Enumerations\<close>

text \<open>
  A C enumeration object can hold a value outside its enumerators; \<open>TREENET_ROLE_OTHER\<close> is
  such a role, which \<open>treenet_init\<close> refuses.
\<close>

datatype treenet_role_t =
    TREENET_ROLE_NODE
  | TREENET_ROLE_MASTER
  | TREENET_ROLE_REPEATER
  | TREENET_ROLE_LEAF
  | TREENET_ROLE_OTHER int

definition TREENET_FRAME_BEACON :: u8 where [config]: "TREENET_FRAME_BEACON = 0"
definition TREENET_FRAME_DATA :: u8 where [config]: "TREENET_FRAME_DATA = 1"
definition TREENET_FRAME_ACK :: u8 where [config]: "TREENET_FRAME_ACK = 2"
definition TREENET_FRAME_FLOOD :: u8 where [config]: "TREENET_FRAME_FLOOD = 3"
definition TREENET_FRAME_PROBE :: u8 where [config]: "TREENET_FRAME_PROBE = 4"
definition TREENET_FRAME_DAO :: u8 where [config]: "TREENET_FRAME_DAO = 5"

datatype treenet_event_t =
    TREENET_EV_NETWORK_READY
  | TREENET_EV_JOINED
  | TREENET_EV_PARENT_CHANGED
  | TREENET_EV_NEIGHBOR_ADDED
  | TREENET_EV_NEIGHBOR_REMOVED
  | TREENET_EV_ROUTE_LOST
  | TREENET_EV_TX_DONE
  | TREENET_EV_TX_FAILED
  | TREENET_EV_DISCONNECTED

text \<open>The preprocessor checks of \<open>config.h\<close>: no table or queue is empty.\<close>

definition config_checks :: bool where
  "config_checks \<longleftrightarrow> TREENET_MAX_NEIGHBORS \<ge> 1 \<and> TREENET_MAX_ROUTES \<ge> 1 \<and> TREENET_DUP_CACHE_SIZE \<ge> 1 \<and>
     TREENET_TX_QUEUE_SIZE \<ge> 1 \<and> TREENET_EVENT_QUEUE_SIZE \<ge> 1 \<and> TREENET_REASSEMBLY_SLOTS \<ge> 1"

lemma config_checks_pass: config_checks
  by (simp add: config_checks_def config)

end
