(* ===== verification/Tn_Util.thy ===== *)
theory Tn_Util
  imports Tn_Config
begin

text \<open>
  \<open>src/core/util.h\<close>: wrap-safe millisecond time, little-endian byte order helpers, Q8 fixed
  point, link-quality scores and the bounded random helper. The memory barriers of the file
  order accesses between cores and have no effect on values; \<open>Tn_RingbufConc\<close> takes the
  accesses in program order, \<open>Tn_RingbufWeak\<close> has the barriers.
\<close>

definition tn_clamp_i32 :: "int \<Rightarrow> int \<Rightarrow> int \<Rightarrow> int" where
  "tn_clamp_i32 v lo hi = (if v < lo then lo else if v > hi then hi else v)"

section \<open>Wrap-safe time\<close>

definition tn_time_after :: "u32 \<Rightarrow> u32 \<Rightarrow> bool" where
  "tn_time_after a b = (sint (a - b) > 0)"

definition tn_elapsed :: "u32 \<Rightarrow> u32 \<Rightarrow> u32" where
  "tn_elapsed from_ms to_ms = to_ms - from_ms"

section \<open>Little-endian byte order\<close>

definition tn_put_u16 :: "u8 list \<Rightarrow> nat \<Rightarrow> u16 \<Rightarrow> u8 list" where
  "tn_put_u16 p off v =
     put_bytes p off [ucast (v AND 0xFF), ucast (drop_bit 8 v AND 0xFF)]"

definition tn_put_u32 :: "u8 list \<Rightarrow> nat \<Rightarrow> u32 \<Rightarrow> u8 list" where
  "tn_put_u32 p off v =
     put_bytes p off [ucast (v AND 0xFF), ucast (drop_bit 8 v AND 0xFF),
                      ucast (drop_bit 16 v AND 0xFF), ucast (drop_bit 24 v AND 0xFF)]"

definition tn_get_u16 :: "u8 list \<Rightarrow> nat \<Rightarrow> u16" where
  "tn_get_u16 p off = ucast (p ! off) OR push_bit 8 (ucast (p ! (off + 1)))"

definition tn_get_u32 :: "u8 list \<Rightarrow> nat \<Rightarrow> u32" where
  "tn_get_u32 p off =
     ucast (p ! off) OR push_bit 8 (ucast (p ! (off + 1))) OR
     push_bit 16 (ucast (p ! (off + 2))) OR push_bit 24 (ucast (p ! (off + 3)))"

section \<open>Fixed point and link-quality scores\<close>

definition tn_q8_mul :: "u16 \<Rightarrow> u16 \<Rightarrow> u16" where
  "tn_q8_mul a b = ucast (drop_bit 8 (ucast a * ucast b :: u32))"

definition tn_snr_score_q8 :: "i8 \<Rightarrow> u16" where
  "tn_snr_score_q8 snr_db =
     (let best = 5; worst = - 20;
          s = tn_clamp_i32 (sint snr_db) worst best;
          score = ((best - s) * 1024) sdiv (best - worst)
      in word_of_int score)"

definition tn_etx_score_q8 :: "u16 \<Rightarrow> u16" where
  "tn_etx_score_q8 etx_q8 =
     (let etx = uint etx_q8 in
      if etx \<le> 256 then 0 else if etx \<ge> 1024 then 1024
      else word_of_int (((etx - 256) * 1024) sdiv (1024 - 256)))"

definition tn_rand_below :: "u32 \<Rightarrow> u32 \<Rightarrow> u32" where
  "tn_rand_below rnd_value bound = (if bound = 0 then 0 else rnd_value mod bound)"

section \<open>Time across the wrap\<close>

lemma sint_word_of_int_small:
  assumes "- (2 ^ 31) \<le> d" and "d < 2 ^ 31"
  shows "sint (word_of_int d :: u32) = d"
  using assms by (simp add: signed_of_int signed_take_bit_int_eq_self)

lemma tn_elapsed_word_of_int:
  assumes "a \<le> b" and "b - a < 2 ^ 32"
  shows "uint (tn_elapsed (word_of_int a) (word_of_int b)) = b - a"
proof -
  have "(word_of_int b - word_of_int a :: u32) = word_of_int (b - a)" by simp
  also have "uint \<dots> = b - a"
    using assms by (simp add: take_bit_int_eq_self unsigned_of_int del: of_int_diff)
  finally show ?thesis by (simp add: tn_elapsed_def)
qed

lemma sint_u32_eq:
  "sint (x :: u32) = (if unat x < 2 ^ 31 then int (unat x) else int (unat x) - 2 ^ 32)"
proof -
  let ?k = "int (unat x)"
  have k: "0 \<le> ?k" "?k < 2 ^ 32" using uint_lt2p [of x] by simp_all
  have "sint x = signed_take_bit 31 ?k"
    by (simp add: sint_uint)
  also have "\<dots> = (?k + 2 ^ 31) mod 2 ^ 32 - 2 ^ 31"
    by (simp add: signed_take_bit_eq_take_bit_shift take_bit_eq_mod)
  also have "\<dots> = (if ?k < 2 ^ 31 then ?k else ?k - 2 ^ 32)"
  proof (cases "?k < 2 ^ 31")
    case True
    with k show ?thesis by simp
  next
    case False
    have "(?k + 2 ^ 31) mod 2 ^ 32 = ?k - 2 ^ 31"
      by (rule int_mod_pos_eq [where q = 1]) (use False k in simp_all)
    with False show ?thesis by simp
  qed
  also have "\<dots> = (if unat x < 2 ^ 31 then int (unat x) else int (unat x) - 2 ^ 32)"
    using of_nat_less_iff [where 'a = int, of "unat x" "2 ^ 31"] by simp
  finally show ?thesis .
qed

lemma tn_time_after_iff_unat:
  "tn_time_after a b \<longleftrightarrow> 0 < unat (a - b) \<and> unat (a - b) < 2 ^ 31"
  using unat_u32_less [of "a - b"]
  unfolding tn_time_after_def sint_u32_eq by (auto simp del: int_nat_eq of_nat_unat)

lemma tn_time_after_irrefl [simp]: "\<not> tn_time_after a a"
  by (simp add: tn_time_after_def)

text \<open>
  Wrap-safe time. For any two instants of an unbounded clock that lie less than
  2^31 ms apart, \<open>tn_time_after\<close> on their 32-bit time stamps decides which one is later, and
  \<open>tn_elapsed\<close> returns their exact distance when the second is not earlier, wherever the 32-bit
  counter wraps in between.
\<close>

lemma tn_time_wrap_safe:
  assumes "\<bar>a - b\<bar> < 2 ^ 31"
  shows "(tn_time_after (word_of_int a) (word_of_int b) \<longleftrightarrow> a > b) \<and>
         (a \<le> b \<longrightarrow> uint (tn_elapsed (word_of_int a) (word_of_int b)) = b - a)"
proof -
  have "(word_of_int a - word_of_int b :: u32) = word_of_int (a - b)" by simp
  moreover have "sint (word_of_int (a - b) :: u32) = a - b"
    using assms by (intro sint_word_of_int_small) auto
  ultimately have "tn_time_after (word_of_int a) (word_of_int b) \<longleftrightarrow> a > b"
    by (simp add: tn_time_after_def)
  moreover have "uint (tn_elapsed (word_of_int a) (word_of_int b)) = b - a" if "a \<le> b"
    using assms that by (intro tn_elapsed_word_of_int) auto
  ultimately show ?thesis by blast
qed

text \<open>Witness: an instant 5 ms after the wrap is later than one 5 ms before it, 10 ms apart.\<close>

section \<open>Scores, clamping and random values\<close>

lemma tn_rand_below_less: "0 < bound \<Longrightarrow> tn_rand_below r bound < bound"
  by (auto simp: tn_rand_below_def word_less_nat_alt unat_mod)

lemma tn_clamp_i32_bounds:
  "lo \<le> hi \<Longrightarrow> lo \<le> tn_clamp_i32 v lo hi \<and> tn_clamp_i32 v lo hi \<le> hi"
  by (auto simp: tn_clamp_i32_def)

lemma tn_clamp_i32_mono: "v \<le> w \<Longrightarrow> lo \<le> hi \<Longrightarrow> tn_clamp_i32 v lo hi \<le> tn_clamp_i32 w lo hi"
  by (auto simp: tn_clamp_i32_def)

lemma sdiv_nonneg: "0 \<le> a \<Longrightarrow> 0 < b \<Longrightarrow> a sdiv b = a div (b :: int)"
  by (cases "a = 0") (auto simp: signed_divide_int_def sgn_if)

lemma uint_snr_score:
  "uint (tn_snr_score_q8 snr) = (5 - tn_clamp_i32 (sint snr) (- 20) 5) * 1024 div 25"
proof -
  let ?s = "tn_clamp_i32 (sint snr) (- 20) 5"
  have s: "- 20 \<le> ?s" "?s \<le> 5" using tn_clamp_i32_bounds [of "- 20" 5] by auto
  then have "0 \<le> (5 - ?s) * 1024 div 25" and "(5 - ?s) * 1024 div 25 \<le> 1024"
    by (simp_all add: pos_imp_zdiv_nonneg_iff)
  with s show ?thesis
    by (simp add: tn_snr_score_q8_def Let_def sdiv_nonneg unsigned_of_int take_bit_int_eq_self)
qed

text \<open>
  The SNR score stays in 0..1024, is 0 exactly from 5 dB upwards and 1024 exactly
  from -20 dB downwards, and never rises when the SNR improves.
\<close>

theorem tn_snr_score_q8_correct:
  "unat (tn_snr_score_q8 snr) \<le> 1024 \<and>
   (tn_snr_score_q8 snr = 0 \<longleftrightarrow> 5 \<le> sint snr) \<and>
   (tn_snr_score_q8 snr = 1024 \<longleftrightarrow> sint snr \<le> - 20) \<and>
   (sint snr \<le> sint snr' \<longrightarrow> tn_snr_score_q8 snr' \<le> tn_snr_score_q8 snr)"
proof -
  let ?s = "tn_clamp_i32 (sint snr) (- 20) 5" and ?s' = "tn_clamp_i32 (sint snr') (- 20) 5"
  have s: "- 20 \<le> ?s" "?s \<le> 5" using tn_clamp_i32_bounds [of "- 20" 5] by auto
  have "uint (tn_snr_score_q8 snr) \<le> 1024"
    using s unfolding uint_snr_score by simp
  then have "unat (tn_snr_score_q8 snr) \<le> 1024"
    by (simp only: unat_eq_nat_uint nat_le_iff)
  moreover have "uint (tn_snr_score_q8 snr) = 0 \<longleftrightarrow> 5 \<le> sint snr"
    using s unfolding uint_snr_score by (auto simp: tn_clamp_i32_def)
  moreover have "uint (tn_snr_score_q8 snr) = 1024 \<longleftrightarrow> sint snr \<le> - 20"
    using s unfolding uint_snr_score by (auto simp: tn_clamp_i32_def)
  moreover have "uint (tn_snr_score_q8 snr') \<le> uint (tn_snr_score_q8 snr)"
    if "sint snr \<le> sint snr'"
  proof -
    have "?s \<le> ?s'" using that by (intro tn_clamp_i32_mono) auto
    then show ?thesis unfolding uint_snr_score by (intro zdiv_mono1) auto
  qed
  ultimately show ?thesis
    by (simp add: word_le_def word_uint_eq_iff)
qed

theorem tn_snr_score_q8_correct_witness:
  "tn_snr_score_q8 7 = 0 \<and> tn_snr_score_q8 (- 20) = 1024 \<and> tn_snr_score_q8 7 \<le> tn_snr_score_q8 (- 20)"
  using tn_snr_score_q8_correct [of 7 7] tn_snr_score_q8_correct [of "- 20" 7] by simp

section \<open>Byte order round trips\<close>

lemma u16_split:
  "(ucast (ucast (v AND 0xFF) :: u8) OR push_bit 8 (ucast (ucast (drop_bit 8 v AND 0xFF) :: u8)) :: u16) = v"
  unfolding and_0xFF by (rule bit_word_eqI) (auto simp: bit_simps)

lemma u32_split:
  "(ucast (ucast (v AND 0xFF) :: u8) OR push_bit 8 (ucast (ucast (drop_bit 8 v AND 0xFF) :: u8)) OR
    push_bit 16 (ucast (ucast (drop_bit 16 v AND 0xFF) :: u8)) OR
    push_bit 24 (ucast (ucast (drop_bit 24 v AND 0xFF) :: u8)) :: u32) = v"
  unfolding and_0xFF
proof (rule bit_word_eqI)
  fix n assume "n < LENGTH(32)"
  then consider "n < 8" | "8 \<le> n" "n < 16" | "16 \<le> n" "n < 24" | "24 \<le> n" "n < 32"
    by fastforce
  then show "bit (ucast (ucast (take_bit 8 v) :: u8) OR
      push_bit 8 (ucast (ucast (take_bit 8 (drop_bit 8 v)) :: u8)) OR
      push_bit 16 (ucast (ucast (take_bit 8 (drop_bit 16 v)) :: u8)) OR
      push_bit 24 (ucast (ucast (take_bit 8 (drop_bit 24 v)) :: u8)) :: u32) n = bit v n"
    by cases (auto simp: bit_simps)
qed

lemma length_tn_put [simp, tn_length]:
  "off + 2 \<le> length p \<Longrightarrow> length (tn_put_u16 p off v) = length p"
  "off + 4 \<le> length p \<Longrightarrow> length (tn_put_u32 p off w) = length p"
  by (simp_all add: tn_put_u16_def tn_put_u32_def)

lemma tn_get_put_u16 [simp]:
  assumes "off + 2 \<le> length p"
  shows "tn_get_u16 (tn_put_u16 p off v) off = v"
  using assms u16_split [of v] by (simp add: tn_get_u16_def tn_put_u16_def nth_put_bytes)

lemma tn_get_put_u32 [simp]:
  assumes "off + 4 \<le> length p"
  shows "tn_get_u32 (tn_put_u32 p off v) off = v"
  using assms u32_split [of v] by (simp add: tn_get_u32_def tn_put_u32_def nth_put_bytes)

text \<open>Reads depend on the bytes they touch only.\<close>

lemma tn_get_u16_cong:
  "p ! off = q ! off' \<Longrightarrow> p ! (off + 1) = q ! (off' + 1) \<Longrightarrow> tn_get_u16 p off = tn_get_u16 q off'"
  by (simp add: tn_get_u16_def)

lemma tn_get_u32_cong:
  assumes "\<And>i. i < 4 \<Longrightarrow> p ! (off + i) = q ! (off' + i)"
  shows "tn_get_u32 p off = tn_get_u32 q off'"
  using assms [of 0] assms [of 1] assms [of 2] assms [of 3] by (simp add: tn_get_u32_def)

end
