(* ===== verification/Tn_Timer.thy ===== *)
theory Tn_Timer
  imports Tn_Util
begin

text \<open>
  \<open>src/core/timer.h\<close> and \<open>src/core/timer.c\<close>: the software timers evaluated by the poll loop.
  A timer operation takes the timer and returns the new one, with the C return value first
  where there is one.
\<close>

record tn_timer_t =
  tm_next_ms :: u32
  tm_interval :: u32
  tm_active :: bool

definition tn_timer_start :: "tn_timer_t \<Rightarrow> u32 \<Rightarrow> u32 \<Rightarrow> tn_timer_t" where
  "tn_timer_start tm now delay_ms =
     tm\<lparr>tm_next_ms := now + delay_ms, tm_interval := 0, tm_active := True\<rparr>"

definition tn_timer_start_periodic :: "tn_timer_t \<Rightarrow> u32 \<Rightarrow> u32 \<Rightarrow> tn_timer_t" where
  "tn_timer_start_periodic tm now interval_ms =
     tm\<lparr>tm_interval := interval_ms, tm_next_ms := now + interval_ms, tm_active := True\<rparr>"

definition tn_timer_stop :: "tn_timer_t \<Rightarrow> tn_timer_t" where
  "tn_timer_stop tm = tm\<lparr>tm_active := False, tm_interval := 0\<rparr>"

definition tn_timer_expired :: "tn_timer_t \<Rightarrow> u32 \<Rightarrow> bool" where
  "tn_timer_expired tm now = (if \<not> tm_active tm then False else \<not> tn_time_after (tm_next_ms tm) now)"

definition tn_timer_fire :: "tn_timer_t \<Rightarrow> u32 \<Rightarrow> bool \<times> tn_timer_t" where
  "tn_timer_fire tm now =
     (if \<not> tn_timer_expired tm now then (False, tm)
      else if tm_interval tm > 0 then
        (let tm1 = tm\<lparr>tm_next_ms := tm_next_ms tm + tm_interval tm\<rparr>
         in (True, if tn_time_after now (tm_next_ms tm1 + tm_interval tm1)
                   then tm1\<lparr>tm_next_ms := now + tm_interval tm1\<rparr> else tm1))
      else (True, tm\<lparr>tm_active := False\<rparr>))"

definition tn_timer_remaining :: "tn_timer_t \<Rightarrow> u32 \<Rightarrow> u32" where
  "tn_timer_remaining tm now =
     (if \<not> tm_active tm then UINT32_MAX
      else if tn_time_after now (tm_next_ms tm) then 0
      else tm_next_ms tm - now)"

section \<open>Deadlines\<close>

lemma tn_time_after_plus:
  assumes "unat d < 2 ^ 31" and "unat e < 2 ^ 31"
  shows "tn_time_after (now + d) (now + e) \<longleftrightarrow> e < d"
proof (cases "e \<le> d")
  case True
  then have "unat (d - e) = unat d - unat e" by (rule unat_sub)
  moreover have "now + d - (now + e) = d - e" by simp
  ultimately show ?thesis
    using assms True by (auto simp: tn_time_after_iff_unat word_less_nat_alt word_le_nat_alt)
next
  case False
  then have "unat (d - e) = unat d + 2 ^ 32 - unat e"
    by (simp add: unat_sub_if' word_le_nat_alt)
  moreover have "now + d - (now + e) = d - e" by simp
  ultimately show ?thesis
    using assms False by (auto simp: tn_time_after_iff_unat word_less_nat_alt word_le_nat_alt)
qed

lemma tn_timer_expired_start:
  assumes "unat d < 2 ^ 31" and "unat e < 2 ^ 31"
  shows "tn_timer_expired (tn_timer_start tm now d) (now + e) \<longleftrightarrow> d \<le> e"
  using tn_time_after_plus [OF assms, of now]
  by (auto simp: tn_timer_expired_def tn_timer_start_def)

text \<open>
  A one-shot timer fires exactly once. Armed at \<open>now\<close> with a delay \<open>d\<close>, it does not
  fire \<open>e\<close> ms later while \<open>e < d\<close> (and is left armed, unchanged), fires from \<open>e = d\<close> on, and once it
  has fired it never fires again; \<open>tn_timer_remaining\<close> is the time still missing, 0 exactly from
  the deadline on. Delays and elapsed times are below 2^31 ms; the clock may wrap in between.
\<close>

theorem tn_timer_one_shot:
  fixes tm0 :: tn_timer_t and now d e later :: u32
  assumes d: "unat d < 2 ^ 31" and e: "unat e < 2 ^ 31"
  defines "tm \<equiv> tn_timer_start tm0 now d"
  shows "(e < d \<longrightarrow> tn_timer_fire tm (now + e) = (False, tm)) \<and>
         (d \<le> e \<longrightarrow> fst (tn_timer_fire tm (now + e)) \<and>
                    \<not> fst (tn_timer_fire (snd (tn_timer_fire tm (now + e))) later)) \<and>
         tn_timer_remaining tm (now + e) = (if e < d then d - e else 0)"
proof (intro conjI impI)
  note exp = tn_timer_expired_start [OF d e, of tm0 now, folded tm_def]
  have iv: "tm_interval tm = 0" "tm_active tm" "tm_next_ms tm = now + d"
    by (simp_all add: tm_def tn_timer_start_def)
  show "tn_timer_fire tm (now + e) = (False, tm)" if "e < d"
    using exp that by (simp add: tn_timer_fire_def linorder_not_less [symmetric])
  show "fst (tn_timer_fire tm (now + e))" if "d \<le> e"
    using exp that iv by (simp add: tn_timer_fire_def)
  show "\<not> fst (tn_timer_fire (snd (tn_timer_fire tm (now + e))) later)" if "d \<le> e"
    using exp that iv by (simp add: tn_timer_fire_def) (simp add: tn_timer_expired_def)
  have "now + d - (now + e) = d - e" by simp
  then show "tn_timer_remaining tm (now + e) = (if e < d then d - e else 0)"
    using tn_time_after_plus [OF e d, of now] iv by (auto simp: tn_timer_remaining_def)
qed

theorem tn_timer_one_shot_witness:
  "tn_timer_fire (tn_timer_start \<lparr>tm_next_ms = 0, tm_interval = 0, tm_active = False\<rparr> (- 5) 10) (- 5 + 3)
     = (False, tn_timer_start \<lparr>tm_next_ms = 0, tm_interval = 0, tm_active = False\<rparr> (- 5) 10) \<and>
   fst (tn_timer_fire (tn_timer_start \<lparr>tm_next_ms = 0, tm_interval = 0, tm_active = False\<rparr> (- 5) 10) (- 5 + 12))"
  using tn_timer_one_shot [of 10 3 "\<lparr>tm_next_ms = 0, tm_interval = 0, tm_active = False\<rparr>" "- 5"]
    tn_timer_one_shot [of 10 12 "\<lparr>tm_next_ms = 0, tm_interval = 0, tm_active = False\<rparr>" "- 5"]
  by simp

text \<open>
  A periodic timer that fires late never falls more than two periods behind: either the next
  deadline is one period after the last one, or it is resynchronised to one period from now.
\<close>

lemma tn_timer_periodic_resync:
  assumes "tm_active tm" and "tm_interval tm = iv" and "0 < iv" and "unat iv < 2 ^ 29"
    and "now = tm_next_ms tm + late" and "unat late < 2 ^ 30"
  shows "fst (tn_timer_fire tm now) \<and>
         tm_next_ms (snd (tn_timer_fire tm now)) =
           (if late \<le> iv + iv then tm_next_ms tm + iv else now + iv) \<and>
         tm_active (snd (tn_timer_fire tm now))"
proof -
  have iv2: "unat (iv + iv) = unat iv + unat iv"
    using assms(4) by (intro unat_add_lem [THEN iffD1]) simp
  have "\<not> tn_time_after (tm_next_ms tm + 0) (tm_next_ms tm + late)"
    using assms(6) by (subst tn_time_after_plus) auto
  then have "tn_timer_expired tm now"
    using assms by (simp add: tn_timer_expired_def)
  moreover have "tn_time_after (tm_next_ms tm + late) (tm_next_ms tm + (iv + iv)) \<longleftrightarrow> iv + iv < late"
    using assms(4,6) iv2 by (intro tn_time_after_plus) simp_all
  ultimately show ?thesis
    using assms by (auto simp: tn_timer_fire_def Let_def add.assoc)
qed

end
