(* ===== verification/Tn_Dupcache.thy ===== *)
theory Tn_Dupcache
  imports Tn_Timer
begin

text \<open>
  \<open>src/mac/dupcache.h\<close> and \<open>src/mac/dupcache.c\<close>: the hash table of recently seen
  (source, sequence) pairs. It is direct mapped: a pair has one slot, and recording a pair
  overwrites whatever the slot held.
\<close>

record tn_dup_entry_t =
  du_src :: treenet_addr_t
  du_seq :: u16
  du_seen_ms :: u32
  du_valid :: bool

record tn_dupcache_t =
  du_entries :: "tn_dup_entry_t list"
  du_ttl_ms :: u32

definition dup_entry_zero :: tn_dup_entry_t where
  "dup_entry_zero = \<lparr>du_src = 0, du_seq = 0, du_seen_ms = 0, du_valid = False\<rparr>"

definition tn_dupcache_init :: "tn_dupcache_t \<Rightarrow> u32 \<Rightarrow> tn_dupcache_t" where
  "tn_dupcache_init c ttl_ms =
     c\<lparr>du_entries := replicate TREENET_DUP_CACHE_SIZE dup_entry_zero, du_ttl_ms := ttl_ms\<rparr>"

definition dup_slot :: "treenet_addr_t \<Rightarrow> u16 \<Rightarrow> nat" where
  "dup_slot src seq =
     (let h = src * 2654435761;
          h = h XOR (ucast seq * 40503)
      in unat h mod TREENET_DUP_CACHE_SIZE)"

definition tn_dupcache_check :: "tn_dupcache_t \<Rightarrow> treenet_addr_t \<Rightarrow> u16 \<Rightarrow> u32 \<Rightarrow> bool" where
  "tn_dupcache_check c src seq now =
     (let e = du_entries c ! dup_slot src seq
      in du_valid e \<and> du_src e = src \<and> du_seq e = seq \<and>
         \<not> tn_time_after now (du_seen_ms e + du_ttl_ms c))"

definition tn_dupcache_mark :: "tn_dupcache_t \<Rightarrow> treenet_addr_t \<Rightarrow> u16 \<Rightarrow> u32 \<Rightarrow> tn_dupcache_t" where
  "tn_dupcache_mark c src seq now =
     c\<lparr>du_entries := (du_entries c)[dup_slot src seq :=
         (du_entries c ! dup_slot src seq)
           \<lparr>du_valid := True, du_src := src, du_seq := seq, du_seen_ms := now\<rparr>]\<rparr>"

definition tn_dupcache_seen ::
    "tn_dupcache_t \<Rightarrow> treenet_addr_t \<Rightarrow> u16 \<Rightarrow> u32 \<Rightarrow> bool \<times> tn_dupcache_t" where
  "tn_dupcache_seen c src seq now =
     (let dup = tn_dupcache_check c src seq now
      in (dup, tn_dupcache_mark c src seq now))"

section \<open>Invariant\<close>

definition dupcache_wf :: "tn_dupcache_t \<Rightarrow> bool" where
  "dupcache_wf c \<longleftrightarrow> length (du_entries c) = TREENET_DUP_CACHE_SIZE"

lemma dup_slot_less: "dup_slot src seq < TREENET_DUP_CACHE_SIZE"
  by (simp add: dup_slot_def config Let_def)

lemma dupcache_wf_init [simp, tn_inv]: "dupcache_wf (tn_dupcache_init c ttl)"
  by (simp add: dupcache_wf_def tn_dupcache_init_def)

lemma dupcache_wf_mark [simp, tn_inv]: "dupcache_wf c \<Longrightarrow> dupcache_wf (tn_dupcache_mark c src seq now)"
  by (simp add: dupcache_wf_def tn_dupcache_mark_def)

lemma dupcache_wf_seen [simp, tn_inv]:
  "dupcache_wf c \<Longrightarrow> dupcache_wf (snd (tn_dupcache_seen c src seq now))"
  by (simp add: tn_dupcache_seen_def Let_def)

lemma ttl_mark [simp]: "du_ttl_ms (tn_dupcache_mark c src seq now) = du_ttl_ms c"
  by (simp add: tn_dupcache_mark_def)

lemma ttl_init [simp]: "du_ttl_ms (tn_dupcache_init c ttl) = ttl"
  by (simp add: tn_dupcache_init_def)

lemma check_init [simp]: "\<not> tn_dupcache_check (tn_dupcache_init c ttl) src seq now"
  using dup_slot_less [of src seq]
  by (simp add: tn_dupcache_check_def tn_dupcache_init_def dup_entry_zero_def Let_def)

text \<open>Recording a pair decides later checks of that pair and of the pairs that share its slot.\<close>

lemma check_mark:
  assumes "dupcache_wf c"
  shows "tn_dupcache_check (tn_dupcache_mark c src seq t) src' seq' now \<longleftrightarrow>
     (if src' = src \<and> seq' = seq then \<not> tn_time_after now (t + du_ttl_ms c)
      else dup_slot src' seq' \<noteq> dup_slot src seq \<and> tn_dupcache_check c src' seq' now)"
  using assms dup_slot_less [of src seq] dup_slot_less [of src' seq']
  by (auto simp: tn_dupcache_check_def tn_dupcache_mark_def dupcache_wf_def Let_def nth_list_update)

section \<open>Histories\<close>

type_synonym dup_mark = "treenet_addr_t \<times> u16 \<times> u32"

definition marks :: "tn_dupcache_t \<Rightarrow> dup_mark list \<Rightarrow> tn_dupcache_t" where
  "marks c ms = fold (\<lambda>(src, seq, t) c. tn_dupcache_mark c src seq t) ms c"

lemma marks_simps [simp]:
  "marks c [] = c"
  "marks c (ms @ [(src, seq, t)]) = tn_dupcache_mark (marks c ms) src seq t"
  by (simp_all add: marks_def)

lemma dupcache_wf_marks [simp, tn_inv]: "dupcache_wf c \<Longrightarrow> dupcache_wf (marks c ms)"
  by (induction ms rule: rev_induct) auto

lemma ttl_marks [simp]: "du_ttl_ms (marks c ms) = du_ttl_ms c"
  by (induction ms rule: rev_induct) auto

lemma marks_no_collision:
  assumes "dupcache_wf c"
    and "\<forall>(src', seq', t') \<in> set ms. dup_slot src' seq' \<noteq> dup_slot src seq"
  shows "tn_dupcache_check (marks c ms) src seq now = tn_dupcache_check c src seq now"
  using assms(2)
proof (induction ms rule: rev_induct)
  case (snoc m ms)
  obtain a b t where m: "m = (a, b, t)" by (cases m)
  with snoc.prems have "dup_slot a b \<noteq> dup_slot src seq" by simp
  then show ?case
    using snoc m assms(1) by (auto simp: check_mark)
qed simp

text \<open>
  No false suppression. Starting from an empty cache, whatever pairs were recorded
  since, the cache reports a frame as a duplicate only if that very (source, sequence) pair was
  recorded before, at a time \<open>t\<close> after which the entry lifetime has not run out; hash collisions never
  cause a fresh frame to be dropped.
\<close>

lemma dupcache_no_false_positive:
  assumes "tn_dupcache_check (marks (tn_dupcache_init c ttl) ms) src seq now"
  shows "\<exists>t. (src, seq, t) \<in> set ms \<and> \<not> tn_time_after now (t + ttl)"
  using assms
proof (induction ms rule: rev_induct)
  case (snoc m ms)
  obtain a b t where "m = (a, b, t)" by (cases m)
  with snoc show ?case by (auto simp: check_mark split: if_splits)
qed simp

text \<open>
  Duplicate suppression. A pair recorded at time \<open>t\<close> is reported as a duplicate for
  exactly the configured lifetime: \<open>e\<close> ms later the check succeeds if and only if \<open>e\<close> does not
  exceed the lifetime, as long as no other pair that hashes to the same slot was recorded in
  between, whatever other pairs were.
\<close>

lemma dupcache_suppresses:
  fixes t e :: u32
  assumes "dupcache_wf c" and "unat (du_ttl_ms c) < 2 ^ 31" and "unat e < 2 ^ 31"
    and "\<forall>(src', seq', t') \<in> set ms. dup_slot src' seq' \<noteq> dup_slot src seq"
  shows "tn_dupcache_check (marks (tn_dupcache_mark c src seq t) ms) src seq (t + e)
     \<longleftrightarrow> e \<le> du_ttl_ms c"
proof -
  have "tn_dupcache_check (marks (tn_dupcache_mark c src seq t) ms) src seq (t + e)
      = tn_dupcache_check (tn_dupcache_mark c src seq t) src seq (t + e)"
    using assms(1,4) by (intro marks_no_collision) simp_all
  also have "\<dots> \<longleftrightarrow> \<not> tn_time_after (t + e) (t + du_ttl_ms c)"
    using assms(1) by (simp add: check_mark)
  also have "\<dots> \<longleftrightarrow> e \<le> du_ttl_ms c"
    using assms(2,3) by (simp add: tn_time_after_plus linorder_not_less)
  finally show ?thesis .
qed

text \<open>
  Property C35: the exact lifetime of a cache entry over the whole clock. A pair is recorded at time
  \<open>t\<close>, and then any pairs that use other slots. \<open>e\<close> ms later the pair is reported as a
  duplicate exactly in two windows: while \<open>e\<close> does not exceed the configured lifetime, as intended,
  and again from 2^31 ms (24.9 days) after the lifetime ended until the 32-bit counter comes round.
  In between the entry has expired. The entry is never cleared and freshness is a signed
  comparison, so a stale entry comes back: in the second window a new frame that reuses the pair is
  suppressed although the recorded one is weeks old.
\<close>

theorem dupcache_stale_entry_resurrects:
  fixes t e :: u32
  assumes "dupcache_wf c" and "unat (du_ttl_ms c) < 2 ^ 31"
    and "\<forall>(src', seq', t') \<in> set ms. dup_slot src' seq' \<noteq> dup_slot src seq"
  shows "tn_dupcache_check (marks (tn_dupcache_mark c src seq t) ms) src seq (t + e) \<longleftrightarrow>
     unat e \<le> unat (du_ttl_ms c) \<or> 2 ^ 31 + unat (du_ttl_ms c) \<le> unat e"
proof -
  have diff: "t + e - (t + du_ttl_ms c) = e - du_ttl_ms c" by simp
  have "tn_dupcache_check (marks (tn_dupcache_mark c src seq t) ms) src seq (t + e) \<longleftrightarrow>
      \<not> tn_time_after (t + e) (t + du_ttl_ms c)"
    using assms(1,3) by (simp add: marks_no_collision check_mark)
  then show ?thesis
    using assms(2) unat_u32_less [of e] unat_sub_if' [of e "du_ttl_ms c"]
    unfolding tn_time_after_iff_unat diff by auto
qed

theorem dupcache_stale_entry_resurrects_witness:
  "let c = marks (tn_dupcache_mark (tn_dupcache_init \<lparr>du_entries = [], du_ttl_ms = 0\<rparr> 60000) 7 3 0) [(8, 3, 9)]
   in tn_dupcache_check c 7 3 (0 + 60000) \<and> \<not> tn_dupcache_check c 7 3 (0 + 60001) \<and>
      \<not> tn_dupcache_check c 7 3 (0 + 2147543647) \<and> tn_dupcache_check c 7 3 (0 + 2147543648)"
proof -
  have "\<forall>(src', seq', t') \<in> set [(8, 3, 9)]. dup_slot src' seq' \<noteq> dup_slot 7 3"
    by (simp add: dup_slot_def config Let_def)
  note life = dupcache_stale_entry_resurrects [of "tn_dupcache_init \<lparr>du_entries = [], du_ttl_ms = 0\<rparr> 60000",
      OF _ _ this]
  show ?thesis
    using life [of 0 60000] life [of 0 60001] life [of 0 2147543647] life [of 0 2147543648]
    unfolding Let_def by simp
qed

end
