(* ===== verification/Tn_Airtime.thy ===== *)
theory Tn_Airtime
  imports Tn_Util
begin

text \<open>
  \<open>src/mac/airtime.h\<close> and \<open>src/mac/airtime.c\<close>: time-on-air estimation. The intermediate values
  keep the C widths: 64 bits for the symbol duration and the preamble product, 32 bits for the
  rest, where additions and products wrap. The \<open>int32_t\<close> locals of the payload symbol count are
  \<open>int\<close>; for frame lengths below 2^27 they stay in range.
\<close>

record tn_lora_params_t =
  lo_sf :: u8
  lo_bw_hz :: u32
  lo_cr :: u8
  lo_preamble :: u16
  lo_explicit_hdr :: u8
  lo_crc :: u8

definition ceil_div :: "u32 \<Rightarrow> u32 \<Rightarrow> u32" where
  "ceil_div a b = (a + b - 1) div b"

definition tn_lora_toa_us :: "tn_lora_params_t option \<Rightarrow> nat \<Rightarrow> u32" where
  "tn_lora_toa_us p bytes =
     (case p of None \<Rightarrow> of_nat bytes * 1000
      | Some p \<Rightarrow>
        if lo_bw_hz p = 0 \<or> lo_sf p < 6 \<or> lo_sf p > 12 \<or> lo_cr p < 1 \<or> lo_cr p > 4
        then of_nat bytes * 1000
        else
          let sf = uint (lo_sf p);
              tsym_us = (ucast ((push_bit (nat sf) 1 :: u64) * 1000000 div ucast (lo_bw_hz p)) :: u32);
              de = (if sf \<ge> 11 \<and> lo_bw_hz p \<le> 125000 then 1 else 0);
              pl = int bytes;
              crc = (if lo_crc p \<noteq> 0 then 1 else 0);
              ih = (if lo_explicit_hdr p \<noteq> 0 then 0 else 1);
              cr = uint (lo_cr p);
              num = 8 * pl - 4 * sf + 28 + 16 * crc - 20 * ih;
              den = 4 * (sf - 2 * de);
              den = (if den \<le> 0 then 1 else den);
              n = sint (ceil_div (word_of_int (max num 0)) (word_of_int den) * word_of_int (cr + 4));
              n = (if n < 0 then 0 else n);
              payload_sym = 8 + n;
              t_preamble_us =
                (ucast (((ucast tsym_us :: u64) * ucast (ucast (lo_preamble p) * 4 + 17 :: u32)) div 4) :: u32);
              t_payload_us = word_of_int payload_sym * tsym_us
          in t_preamble_us + t_payload_us)"

definition tn_airtime_estimate_us :: "tn_lora_params_t option \<Rightarrow> nat \<Rightarrow> u32" where
  "tn_airtime_estimate_us lora bytes =
     (case lora of
        Some p \<Rightarrow>
          if lo_sf p \<ge> 6 \<and> lo_sf p \<le> 12 \<and> lo_bw_hz p \<noteq> 0 \<and> lo_cr p \<ge> 1 \<and> lo_cr p \<le> 4
          then tn_lora_toa_us lora bytes
          else of_nat bytes * 1000
      | None \<Rightarrow> of_nat bytes * 1000)"

section \<open>The Semtech AN1200.13 formula\<close>

text \<open>
  The formula of the application note over the integers: symbol time \<open>2^SF / BW\<close> in whole
  microseconds, a preamble of \<open>n + 4.25\<close> symbols, and
  \<open>8 + ceil(max(8 PL - 4 SF + 28 + 16 CRC - 20 IH, 0) / (4 (SF - 2 DE))) (CR + 4)\<close> payload symbols.
\<close>

definition an1200_tsym :: "tn_lora_params_t \<Rightarrow> int" where
  "an1200_tsym p = 2 ^ unat (lo_sf p) * 1000000 div uint (lo_bw_hz p)"

definition an1200_num :: "tn_lora_params_t \<Rightarrow> nat \<Rightarrow> int" where
  "an1200_num p bytes =
     8 * int bytes - 4 * uint (lo_sf p) + 28 + 16 * (if lo_crc p \<noteq> 0 then 1 else 0)
       - 20 * (if lo_explicit_hdr p \<noteq> 0 then 0 else 1)"

definition an1200_den :: "tn_lora_params_t \<Rightarrow> int" where
  "an1200_den p =
     4 * (uint (lo_sf p) - 2 * (if uint (lo_sf p) \<ge> 11 \<and> lo_bw_hz p \<le> 125000 then 1 else 0))"

definition ceiling_div :: "int \<Rightarrow> int \<Rightarrow> int" where
  "ceiling_div a b = - ((- a) div b)"

definition an1200_payload_symbols :: "tn_lora_params_t \<Rightarrow> nat \<Rightarrow> int" where
  "an1200_payload_symbols p bytes =
     8 + ceiling_div (max (an1200_num p bytes) 0) (an1200_den p) * (uint (lo_cr p) + 4)"

definition an1200_toa_us :: "tn_lora_params_t \<Rightarrow> nat \<Rightarrow> int" where
  "an1200_toa_us p bytes =
     an1200_tsym p * (4 * uint (lo_preamble p) + 17) div 4 + an1200_payload_symbols p bytes * an1200_tsym p"

definition lora_params_ok :: "tn_lora_params_t \<Rightarrow> bool" where
  "lora_params_ok p \<longleftrightarrow> 6 \<le> lo_sf p \<and> lo_sf p \<le> 12 \<and> 1 \<le> lo_cr p \<and> lo_cr p \<le> 4 \<and>
     7800 \<le> lo_bw_hz p \<and> lo_preamble p \<le> 1000"

section \<open>The code computes the formula\<close>

lemma uint_ceil_div:
  assumes "0 \<le> a" and "0 < b" and "a + b < 2 ^ 32"
  shows "uint (ceil_div (word_of_int a) (word_of_int b)) = ceiling_div a b"
proof -
  have "(word_of_int a + word_of_int b - 1 :: u32) = word_of_int (a + b - 1)" by simp
  then have "uint (ceil_div (word_of_int a) (word_of_int b)) = (a + b - 1) div b"
    using assms by (simp add: ceil_div_def uint_div uint_word_of_int del: of_int_add of_int_diff)
  also have "\<dots> = ceiling_div a b"
    unfolding ceiling_div_def
  proof (rule int_div_pos_eq [where r = "b - 1 - (- a) mod b"])
    show "a + b - 1 = b * - ((- a) div b) + (b - 1 - (- a) mod b)"
      unfolding mult_minus_right using mult_div_mod_eq [of b "- a"] by linarith
  qed (use assms(2) pos_mod_bound [of b "- a"] pos_mod_sign [of b "- a"] in linarith)+
  finally show ?thesis .
qed

lemma lora_params_okD:
  assumes "lora_params_ok p"
  shows "6 \<le> uint (lo_sf p)" and "uint (lo_sf p) \<le> 12" and "unat (lo_sf p) \<le> 12"
    and "1 \<le> uint (lo_cr p)" and "uint (lo_cr p) \<le> 4"
    and "7800 \<le> uint (lo_bw_hz p)" and "uint (lo_preamble p) \<le> 1000"
proof -
  show "6 \<le> uint (lo_sf p)" and "uint (lo_sf p) \<le> 12" and "1 \<le> uint (lo_cr p)" and "uint (lo_cr p) \<le> 4"
    and "7800 \<le> uint (lo_bw_hz p)" and "uint (lo_preamble p) \<le> 1000"
    using assms by (simp_all add: lora_params_ok_def word_le_def)
  show "unat (lo_sf p) \<le> 12"
    using assms by (simp add: lora_params_ok_def word_le_nat_alt)
qed

lemma tsym_bounds:
  assumes "lora_params_ok p"
  shows "0 \<le> an1200_tsym p" and "an1200_tsym p \<le> 525128"
proof -
  note sf = lora_params_okD(3) [OF assms] and bw = lora_params_okD(6) [OF assms]
  show "0 \<le> an1200_tsym p" using bw by (simp add: an1200_tsym_def pos_imp_zdiv_nonneg_iff)
  have "(2::int) ^ unat (lo_sf p) \<le> 2 ^ 12" using sf by (intro power_increasing) simp_all
  then have "2 ^ unat (lo_sf p) * 1000000 div uint (lo_bw_hz p) \<le> 2 ^ 12 * 1000000 div uint (lo_bw_hz p)"
    using bw by (intro zdiv_mono1) auto
  also have "\<dots> \<le> 2 ^ 12 * 1000000 div 7800" using bw by (intro zdiv_mono2) auto
  finally show "an1200_tsym p \<le> 525128" by (simp add: an1200_tsym_def)
qed

lemma uint_tsym:
  assumes "lora_params_ok p"
  shows "uint (ucast ((push_bit (unat (lo_sf p)) 1 :: u64) * 1000000 div ucast (lo_bw_hz p)) :: u32) = an1200_tsym p"
proof -
  note sf = lora_params_okD(3) [OF assms]
  have p2: "(2::int) ^ unat (lo_sf p) \<le> 2 ^ 12" using sf by (intro power_increasing) simp_all
  have "(push_bit (unat (lo_sf p)) 1 :: u64) * 1000000 = word_of_int (2 ^ unat (lo_sf p) * 1000000)"
    by (simp add: push_bit_eq_mult)
  moreover have "uint (word_of_int (2 ^ unat (lo_sf p) * 1000000) :: u64) = 2 ^ unat (lo_sf p) * 1000000"
    using p2 by (simp add: uint_word_of_int del: of_int_mult of_int_power)
  moreover have "uint (ucast (lo_bw_hz p) :: u64) = uint (lo_bw_hz p)"
    by (simp add: unsigned_ucast_eq take_bit_int_eq_self uint_lt2p [THEN less_trans])
  ultimately have "uint ((push_bit (unat (lo_sf p)) 1 :: u64) * 1000000 div ucast (lo_bw_hz p)) = an1200_tsym p"
    by (simp add: uint_div an1200_tsym_def)
  then show ?thesis using tsym_bounds [OF assms]
    by (simp add: unsigned_ucast_eq take_bit_int_eq_self)
qed

lemma ceiling_div_bounds:
  assumes "0 \<le> a" and "a \<le> 2080" and "16 \<le> b"
  shows "0 \<le> ceiling_div a b" and "ceiling_div a b \<le> 130"
proof -
  show "0 \<le> ceiling_div a b"
    using assms by (simp add: ceiling_div_def div_nonpos_pos_le0)
  have "- 2080 div 16 \<le> - a div 16" using assms by (intro zdiv_mono1) simp_all
  also have "\<dots> \<le> - a div b"
    using assms zdiv_mono2_neg [of "- a" 16 b] by (cases "a = 0") simp_all
  finally show "ceiling_div a b \<le> 130" by (simp add: ceiling_div_def)
qed

lemma an1200_bounds:
  assumes "lora_params_ok p" and "bytes \<le> 255"
  shows "16 \<le> an1200_den p" and "an1200_den p \<le> 48"
    and "0 \<le> max (an1200_num p bytes) 0" and "max (an1200_num p bytes) 0 \<le> 2080"
    and "8 \<le> an1200_payload_symbols p bytes" and "an1200_payload_symbols p bytes \<le> 1048"
proof -
  note d = lora_params_okD [OF assms(1)]
  show den: "16 \<le> an1200_den p" and "an1200_den p \<le> 48"
    using d(1,2) by (simp_all add: an1200_den_def)
  show num: "0 \<le> max (an1200_num p bytes) 0" "max (an1200_num p bytes) 0 \<le> 2080"
    using assms(2) d(1) by (auto simp: an1200_num_def)
  let ?q = "ceiling_div (max (an1200_num p bytes) 0) (an1200_den p)"
  have q: "0 \<le> ?q" "?q \<le> 130" using ceiling_div_bounds num den by blast+
  then have "?q * (uint (lo_cr p) + 4) \<le> 130 * 8"
    using d(4,5) by (intro mult_mono) simp_all
  moreover have "0 \<le> ?q * (uint (lo_cr p) + 4)" using q d(4) by simp
  ultimately show "8 \<le> an1200_payload_symbols p bytes" and "an1200_payload_symbols p bytes \<le> 1048"
    by (simp_all add: an1200_payload_symbols_def)
qed

lemma toa_symbols:
  assumes "lora_params_ok p" and "bytes \<le> 255"
  shows "sint (ceil_div (word_of_int (max (an1200_num p bytes) 0)) (word_of_int (an1200_den p)) *
           word_of_int (uint (lo_cr p) + 4)) = an1200_payload_symbols p bytes - 8"
proof -
  note b = an1200_bounds [OF assms]
  let ?q = "ceiling_div (max (an1200_num p bytes) 0) (an1200_den p)"
  have "uint (ceil_div (word_of_int (max (an1200_num p bytes) 0)) (word_of_int (an1200_den p))) = ?q"
    using b(1-4) by (intro uint_ceil_div) simp_all
  then have "ceil_div (word_of_int (max (an1200_num p bytes) 0)) (word_of_int (an1200_den p)) = word_of_int ?q"
    by (metis word_of_int_uint)
  then have "sint (ceil_div (word_of_int (max (an1200_num p bytes) 0)) (word_of_int (an1200_den p)) *
           word_of_int (uint (lo_cr p) + 4)) = sint (word_of_int (an1200_payload_symbols p bytes - 8) :: u32)"
    by (simp add: an1200_payload_symbols_def)
  also have "\<dots> = an1200_payload_symbols p bytes - 8"
    using b(5,6) by (intro sint_word_of_int_small) simp_all
  finally show ?thesis .
qed

lemma uint_mul_u64: "uint ((ucast (a :: u32) :: u64) * ucast (b :: u32)) = uint a * uint b"
proof -
  have "uint a * uint b < 2 ^ 32 * 2 ^ 32"
    using uint_lt2p [of a] uint_lt2p [of b] by (intro mult_strict_mono) simp_all
  then show ?thesis
    by (simp add: uint_word_ariths unsigned_ucast_eq take_bit_int_eq_self uint_lt2p [THEN less_trans])
qed

lemma toa_preamble:
  assumes "lora_params_ok p" and "uint (tsym :: u32) = an1200_tsym p"
  shows "uint (ucast (((ucast tsym :: u64) * ucast (ucast (lo_preamble p) * 4 + 17 :: u32)) div 4) :: u32)
       = an1200_tsym p * (4 * uint (lo_preamble p) + 17) div 4"
proof -
  note d = lora_params_okD [OF assms(1)] and t = tsym_bounds [OF assms(1)]
  let ?k = "4 * uint (lo_preamble p) + 17"
  have k: "uint (ucast (lo_preamble p) * 4 + 17 :: u32) = ?k"
    using d(7) by (simp add: uint_word_ariths unsigned_ucast_eq take_bit_int_eq_self)
  have bound: "an1200_tsym p * ?k \<le> 525128 * 4017"
    using t d(7) by (intro mult_mono) simp_all
  have "uint ((ucast tsym :: u64) * ucast (ucast (lo_preamble p) * 4 + 17 :: u32)) = an1200_tsym p * ?k"
    unfolding uint_mul_u64 k assms(2) ..
  then show ?thesis
    using bound t by (simp add: uint_div unsigned_ucast_eq take_bit_int_eq_self pos_imp_zdiv_nonneg_iff)
qed

lemma tn_lora_toa_us_eq:
  assumes "lora_params_ok p" and "bytes \<le> 255"
  shows "uint (tn_lora_toa_us (Some p) bytes) = an1200_toa_us p bytes"
proof -
  note d = lora_params_okD [OF assms(1)] and t = tsym_bounds [OF assms(1)]
    and b = an1200_bounds [OF assms]
  define tsym where "tsym = (ucast ((push_bit (unat (lo_sf p)) 1 :: u64) * 1000000 div ucast (lo_bw_hz p)) :: u32)"
  have tsym: "uint tsym = an1200_tsym p"
    unfolding tsym_def by (rule uint_tsym [OF assms(1)])
  have guards: "\<not> (lo_bw_hz p = 0 \<or> lo_sf p < 6 \<or> lo_sf p > 12 \<or> lo_cr p < 1 \<or> lo_cr p > 4)"
    using assms(1) by (auto simp: lora_params_ok_def not_less)
  have pay_le: "an1200_payload_symbols p bytes * an1200_tsym p \<le> 1048 * 525128"
    using b(5,6) t by (intro mult_mono) simp_all
  have pay_ge: "0 \<le> an1200_payload_symbols p bytes * an1200_tsym p"
    using b(5) t by simp
  have pre_le: "an1200_tsym p * (4 * uint (lo_preamble p) + 17) div 4 \<le> 525128 * 4017 div 4"
    using t d(7) by (intro zdiv_mono1 mult_mono) simp_all
  have pre_ge: "0 \<le> an1200_tsym p * (4 * uint (lo_preamble p) + 17) div 4"
    using t by (simp add: pos_imp_zdiv_nonneg_iff)
  have "tn_lora_toa_us (Some p) bytes =
      ucast (((ucast tsym :: u64) * ucast (ucast (lo_preamble p) * 4 + 17 :: u32)) div 4)
      + word_of_int (an1200_payload_symbols p bytes) * tsym"
    using guards toa_symbols [OF assms] b(1,5)
    unfolding tn_lora_toa_us_def option.case Let_def tsym_def an1200_num_def an1200_den_def
    by (simp add: nat_uint_eq)
  moreover have "uint (word_of_int (an1200_payload_symbols p bytes) * tsym)
      = an1200_payload_symbols p bytes * an1200_tsym p"
    using pay_le pay_ge tsym by (simp add: uint_word_ariths uint_word_of_int mod_mult_left_eq)
  ultimately show ?thesis
    using toa_preamble [OF assms(1) tsym] pay_le pay_ge pre_le pre_ge
    by (simp add: an1200_toa_us_def uint_word_ariths)
qed

text \<open>
  Property C36: time on air. For every LoRa setting of the modems (SF 6..12, coding rate 4/5..4/8,
  bandwidth from 7.8 kHz, preamble up to 1000 symbols) and every frame of up to 255 bytes the
  estimate is exactly the AN1200.13 formula over the integers: no intermediate value wraps. With
  no modem parameters it is 1 ms per byte.
\<close>

theorem tn_airtime_estimate_correct:
  assumes "lora_params_ok p" and "bytes \<le> 255"
  shows "uint (tn_airtime_estimate_us (Some p) bytes) = an1200_toa_us p bytes \<and>
         uint (tn_airtime_estimate_us None bytes) = 1000 * int bytes"
proof -
  have "tn_airtime_estimate_us (Some p) bytes = tn_lora_toa_us (Some p) bytes"
    using assms(1) by (auto simp: tn_airtime_estimate_us_def lora_params_ok_def)
  moreover have "uint (tn_airtime_estimate_us None bytes) = 1000 * int bytes"
    using assms(2) by (simp add: tn_airtime_estimate_us_def uint_word_ariths uint_nat [of "of_nat _"])
  ultimately show ?thesis using tn_lora_toa_us_eq [OF assms] by simp
qed

theorem tn_airtime_estimate_correct_witness:
  "uint (tn_airtime_estimate_us (Some \<lparr>lo_sf = 9, lo_bw_hz = 125000, lo_cr = 1, lo_preamble = 16,
     lo_explicit_hdr = 1, lo_crc = 1\<rparr>) 31) = 279552"
  using tn_airtime_estimate_correct [of "\<lparr>lo_sf = 9, lo_bw_hz = 125000, lo_cr = 1, lo_preamble = 16,
     lo_explicit_hdr = 1, lo_crc = 1\<rparr>" 31]
  by (simp add: lora_params_ok_def an1200_toa_us_def an1200_tsym_def an1200_payload_symbols_def
      an1200_num_def an1200_den_def ceiling_div_def)

end
