(* ===== verification/Tn_Fifo.thy ===== *)
theory Tn_Fifo
  imports Tn_Prelude
begin

text \<open>
  The interface of a bounded queue between a producer and a consumer, and what every provider of
  it guarantees to its clients: every run of operations answers what a plain list answers that takes
  an element whenever there is room and gives the oldest one back. The receive ring
  (\<open>Tn_Ringbuf\<close>) and the event queue (\<open>Tn_Events\<close>) are providers.
\<close>

datatype 'a fifo_op = Put 'a | Get

datatype 'a fifo_result = Stored bool | Got "'a option"

fun fifo_run :: "('q \<Rightarrow> 'a \<Rightarrow> bool \<times> 'q) \<Rightarrow> ('q \<Rightarrow> 'a option \<times> 'q) \<Rightarrow> 'q \<Rightarrow> 'a fifo_op list
    \<Rightarrow> 'a fifo_result list \<times> 'q" where
  "fifo_run push pop q [] = ([], q)"
| "fifo_run push pop q (Put x # ops) =
     (let (b, q') = push q x; (res, q'') = fifo_run push pop q' ops in (Stored b # res, q''))"
| "fifo_run push pop q (Get # ops) =
     (let (r, q') = pop q; (res, q'') = fifo_run push pop q' ops in (Got r # res, q''))"

fun fifo_op_all :: "('a \<Rightarrow> bool) \<Rightarrow> 'a fifo_op \<Rightarrow> bool" where
  "fifo_op_all ok (Put x) = ok x"
| "fifo_op_all ok Get = True"

text \<open>The elements a run accepted and the elements it delivered.\<close>

fun accepted :: "'a fifo_op list \<Rightarrow> 'a fifo_result list \<Rightarrow> 'a list" where
  "accepted (Put x # ops) (Stored True # res) = x # accepted ops res"
| "accepted (_ # ops) (_ # res) = accepted ops res"
| "accepted _ _ = []"

fun delivered :: "'a fifo_result list \<Rightarrow> 'a list" where
  "delivered [] = []"
| "delivered (Got (Some x) # res) = x # delivered res"
| "delivered (_ # res) = delivered res"

text \<open>The specification: a list that takes an element whenever there is room for it.\<close>

definition queue_put :: "('a list \<Rightarrow> 'a \<Rightarrow> bool) \<Rightarrow> 'a list \<Rightarrow> 'a \<Rightarrow> bool \<times> 'a list" where
  "queue_put room xs x = (if room xs x then (True, xs @ [x]) else (False, xs))"

fun queue_get :: "'a list \<Rightarrow> 'a option \<times> 'a list" where
  "queue_get [] = (None, [])"
| "queue_get (x # xs) = (Some x, xs)"

lemma queue_run_order:
  assumes "fifo_run (queue_put room) queue_get xs ops = (res, ys)"
  shows "xs @ accepted ops res = delivered res @ ys"
  using assms
proof (induction ops arbitrary: xs res)
  case Nil
  then show ?case by simp
next
  case (Cons op ops)
  show ?case
  proof (cases op)
    case (Put x)
    then show ?thesis
      using Cons.prems Cons.IH [of "snd (queue_put room xs x)"]
      by (auto simp: queue_put_def Let_def split: if_splits prod.splits)
  next
    case Get
    then show ?thesis
      using Cons.prems Cons.IH [of "snd (queue_get xs)"] by (cases xs) (auto split: prod.splits)
  qed
qed

locale bounded_fifo =
  fixes push :: "'q \<Rightarrow> 'a \<Rightarrow> bool \<times> 'q"
    and pop :: "'q \<Rightarrow> 'a option \<times> 'q"
    and repr :: "'q \<Rightarrow> 'a list \<Rightarrow> bool"
    and ok :: "'a \<Rightarrow> bool"
    and room :: "'a list \<Rightarrow> 'a \<Rightarrow> bool"
  assumes push_room: "repr q xs \<Longrightarrow> ok x \<Longrightarrow> fst (push q x) = room xs x"
    and push_repr:
      "repr q xs \<Longrightarrow> ok x \<Longrightarrow> repr (snd (push q x)) (if room xs x then xs @ [x] else xs)"
    and pop_Nil: "repr q [] \<Longrightarrow> fst (pop q) = None \<and> repr (snd (pop q)) []"
    and pop_Cons: "repr q (x # xs) \<Longrightarrow> fst (pop q) = Some x \<and> repr (snd (pop q)) xs"
begin

lemma pop_queue:
  assumes "repr q xs"
  shows "fst (pop q) = fst (queue_get xs)" and "repr (snd (pop q)) (snd (queue_get xs))"
  using assms pop_Nil [of q] pop_Cons [of q] by (cases xs; simp)+

lemma push_queue:
  assumes "repr q xs" and "ok x"
  shows "fst (push q x) = fst (queue_put room xs x)"
    and "repr (snd (push q x)) (snd (queue_put room xs x))"
  using push_room [OF assms] push_repr [OF assms] by (auto simp: queue_put_def)

theorem run_refines:
  assumes "repr q xs" and "list_all (fifo_op_all ok) ops"
  shows "fst (fifo_run push pop q ops) = fst (fifo_run (queue_put room) queue_get xs ops) \<and>
         repr (snd (fifo_run push pop q ops)) (snd (fifo_run (queue_put room) queue_get xs ops))"
  using assms
proof (induction ops arbitrary: q xs)
  case Nil
  then show ?case by simp
next
  case (Cons op ops)
  show ?case
  proof (cases op)
    case (Put x)
    then show ?thesis
      using push_queue [of q xs x] Cons.prems
        Cons.IH [of "snd (push q x)" "snd (queue_put room xs x)"]
      by (simp add: case_prod_unfold Let_def)
  next
    case Get
    then show ?thesis
      using pop_queue [of q xs] Cons.prems Cons.IH [of "snd (pop q)" "snd (queue_get xs)"]
      by (simp add: case_prod_unfold Let_def)
  qed
qed

end

section \<open>Queues that keep the most recent elements\<close>

text \<open>
  A bounded queue whose producer never fails: when the queue is full the oldest element makes
  room. The consumer drains it from the oldest element on.
\<close>

locale recent_fifo =
  fixes put :: "'q \<Rightarrow> 'a \<Rightarrow> 'q"
    and get :: "'q \<Rightarrow> 'a \<times> 'q"
    and size :: "'q \<Rightarrow> nat"
    and repr :: "'q \<Rightarrow> 'a list \<Rightarrow> bool"
    and cap :: nat
  assumes put_repr: "repr q xs \<Longrightarrow> repr (put q x) (drop (Suc (length xs) - cap) (xs @ [x]))"
    and get_repr: "repr q (x # xs) \<Longrightarrow> fst (get q) = x \<and> repr (snd (get q)) xs"
    and size_repr: "repr q xs \<Longrightarrow> size q = length xs"
    and repr_le: "repr q xs \<Longrightarrow> length xs \<le> cap"
    and cap_pos: "0 < cap"
begin

lemma puts_repr:
  assumes "repr q xs"
  shows "repr (foldl put q ys) (drop (length xs + length ys - cap) (xs @ ys))"
  using assms
proof (induction ys arbitrary: q xs)
  case Nil
  then show ?case using repr_le [OF Nil] by simp
next
  case (Cons y ys)
  let ?zs = "drop (Suc (length xs) - cap) (xs @ [y])"
  have le: "length xs \<le> cap" by (rule repr_le [OF Cons.prems])
  have "repr (foldl put (put q y) ys) (drop (length ?zs + length ys - cap) (?zs @ ys))"
    by (rule Cons.IH [OF put_repr [OF Cons.prems]])
  moreover have "drop (length ?zs + length ys - cap) (?zs @ ys) =
      drop (length xs + length (y # ys) - cap) (xs @ y # ys)"
  proof (cases "length xs = cap")
    case True
    then have "Suc (length xs) - cap = Suc 0" by simp
    then have "?zs = tl (xs @ [y])" by (simp only: drop_Suc drop_0)
    moreover have "tl (xs @ [y]) @ ys = tl (xs @ y # ys)" using True cap_pos by (cases xs) auto
    moreover have "length ?zs + length ys - cap = length ys" "length xs + length (y # ys) - cap = Suc (length ys)"
      using True cap_pos by auto
    ultimately show ?thesis by (simp only: drop_Suc)
  next
    case False
    with le show ?thesis by simp
  qed
  ultimately show ?case by simp
qed

text \<open>Draining the queue yields its elements in order and ends.\<close>

fun drain :: "nat \<Rightarrow> 'q \<Rightarrow> 'a list \<times> 'q" where
  "drain 0 q = ([], q)"
| "drain (Suc n) q = (if size q = 0 then ([], q) else
     let (x, q') = get q; (xs, q'') = drain n q' in (x # xs, q''))"

lemma drain_repr:
  assumes "repr q xs" and "length xs \<le> n"
  shows "fst (drain n q) = xs \<and> repr (snd (drain n q)) []"
  using assms
proof (induction n arbitrary: q xs)
  case 0
  then show ?case by simp
next
  case (Suc n)
  show ?case
  proof (cases xs)
    case Nil
    then show ?thesis using Suc.prems size_repr [OF Suc.prems(1)] by simp
  next
    case (Cons x ys)
    obtain x' q' where g: "get q = (x', q')" by (cases "get q")
    have "x' = x" "repr q' ys" using get_repr [of q x ys] Suc.prems(1) Cons g by auto
    moreover have "size q \<noteq> 0" using size_repr [OF Suc.prems(1)] Cons by simp
    ultimately show ?thesis
      using Suc.IH [of q' ys] Suc.prems(2) Cons g by (simp add: case_prod_unfold Let_def)
  qed
qed

end

end
