(* ===== verification/Tn_Ringbuf.thy ===== *)
theory Tn_Ringbuf
  imports Tn_Util Tn_Fifo
begin

text \<open>
  \<open>src/core/ringbuf.h\<close> and \<open>src/core/ringbuf.c\<close>: the single-producer single-consumer byte ring
  that moves received frames into the poll loop. Positions are free-running 32-bit counters;
  the storage belongs to the ring (\<open>rb_buf\<close>). This theory treats each operation as one step and
  proves that the ring is a bounded FIFO queue of framed records; \<open>Tn_RingbufConc\<close> interleaves
  the memory accesses of the two sides.
\<close>

record tn_rx_meta_t =
  rm_len :: u16
  rm_rssi_dbm :: i16
  rm_snr_db :: i8

record tn_ringbuf_t =
  rb_buf :: "u8 list"
  rb_capacity :: u32
  rb_head :: u32
  rb_tail :: u32
  rb_dropped :: u32

definition TN_RX_HDR :: nat where [config]: "TN_RX_HDR = 5"

definition is_pow2 :: "nat \<Rightarrow> bool" where
  "is_pow2 v \<longleftrightarrow> v \<noteq> 0 \<and> v AND (v - 1) = 0"

definition tn_ringbuf_init :: "tn_ringbuf_t \<Rightarrow> u8 list \<Rightarrow> nat \<Rightarrow> tn_ringbuf_t" where
  "tn_ringbuf_init rb storage capacity =
     rb\<lparr>rb_buf := storage, rb_capacity := (if is_pow2 capacity then of_nat capacity else 0),
        rb_head := 0, rb_tail := 0, rb_dropped := 0\<rparr>"

definition ring_write_at :: "tn_ringbuf_t \<Rightarrow> u32 \<Rightarrow> u8 list \<Rightarrow> u32 \<Rightarrow> tn_ringbuf_t" where
  "ring_write_at rb pos src n =
     (let idx = pos AND (rb_capacity rb - 1);
          first = rb_capacity rb - idx;
          first = (if first > n then n else first);
          buf = memcpy (rb_buf rb) (unat idx) src (unat first);
          buf = (if n > first then memcpy buf 0 (drop (unat first) src) (unat (n - first)) else buf)
      in rb\<lparr>rb_buf := buf\<rparr>)"

definition ring_read_at :: "tn_ringbuf_t \<Rightarrow> u32 \<Rightarrow> u8 list \<Rightarrow> u32 \<Rightarrow> u8 list" where
  "ring_read_at rb pos dst n =
     (let idx = pos AND (rb_capacity rb - 1);
          first = rb_capacity rb - idx;
          first = (if first > n then n else first);
          dst = memcpy dst 0 (drop (unat idx) (rb_buf rb)) (unat first)
      in (if n > first then memcpy dst (unat first) (rb_buf rb) (unat (n - first)) else dst))"

definition tn_ringbuf_push :: "tn_ringbuf_t \<Rightarrow> tn_rx_meta_t \<Rightarrow> u8 list \<Rightarrow> bool \<times> tn_ringbuf_t" where
  "tn_ringbuf_push rb meta data =
     (if rb_capacity rb = 0 then (False, rb\<lparr>rb_dropped := rb_dropped rb + 1\<rparr>)
      else
        let tail = rb_tail rb;
            head = rb_head rb;
            need = of_nat TN_RX_HDR + ucast (rm_len meta)
        in if rb_capacity rb - (tail - head) < need
           then (False, rb\<lparr>rb_dropped := rb_dropped rb + 1\<rparr>)
           else
             let hdr = replicate TN_RX_HDR 0;
                 hdr = tn_put_u16 hdr 0 (rm_len meta);
                 hdr = tn_put_u16 hdr 2 (rm_rssi_dbm meta);
                 hdr = hdr[4 := rm_snr_db meta];
                 rb = ring_write_at rb tail hdr (of_nat TN_RX_HDR);
                 rb = ring_write_at rb (tail + of_nat TN_RX_HDR) data (ucast (rm_len meta))
             in (True, rb\<lparr>rb_tail := tail + need\<rparr>))"

definition tn_ringbuf_pop ::
    "tn_ringbuf_t \<Rightarrow> tn_rx_meta_t \<Rightarrow> u8 list \<Rightarrow> nat \<Rightarrow> bool \<times> tn_ringbuf_t \<times> tn_rx_meta_t \<times> u8 list" where
  "tn_ringbuf_pop rb meta out cap =
     (if rb_capacity rb = 0 then (False, rb, meta, out)
      else
        let head = rb_head rb;
            tail = rb_tail rb;
            avail = tail - head
        in if avail < of_nat TN_RX_HDR then (False, rb, meta, out)
           else
             let hdr = ring_read_at rb head (replicate TN_RX_HDR 0) (of_nat TN_RX_HDR);
                 meta = meta\<lparr>rm_len := tn_get_u16 hdr 0, rm_rssi_dbm := tn_get_u16 hdr 2,
                             rm_snr_db := hdr ! 4\<rparr>
             in if unat (rm_len meta) > cap then (False, rb\<lparr>rb_head := tail\<rparr>, meta, out)
                else if avail < of_nat TN_RX_HDR + ucast (rm_len meta) then (False, rb, meta, out)
                else
                  let out = ring_read_at rb (head + of_nat TN_RX_HDR) out (ucast (rm_len meta))
                  in (True, rb\<lparr>rb_head := head + of_nat TN_RX_HDR + ucast (rm_len meta)\<rparr>, meta, out))"

definition tn_ringbuf_empty :: "tn_ringbuf_t \<Rightarrow> bool" where
  "tn_ringbuf_empty rb = (rb_head rb = rb_tail rb)"

definition tn_ringbuf_used :: "tn_ringbuf_t \<Rightarrow> nat" where
  "tn_ringbuf_used rb = unat (rb_tail rb - rb_head rb)"

section \<open>Specification: a queue of records\<close>

type_synonym rx_record = "tn_rx_meta_t \<times> u8 list"

definition rec_header :: "tn_rx_meta_t \<Rightarrow> u8 list" where
  "rec_header m =
     (tn_put_u16 (tn_put_u16 (replicate TN_RX_HDR 0) 0 (rm_len m)) 2 (rm_rssi_dbm m))[4 := rm_snr_db m]"

definition enc_rec :: "rx_record \<Rightarrow> u8 list" where
  "enc_rec r = rec_header (fst r) @ snd r"

definition rec_ok :: "rx_record \<Rightarrow> bool" where
  "rec_ok r \<longleftrightarrow> length (snd r) = unat (rm_len (fst r))"

text \<open>The bytes between the consumer and the producer position, oldest first.\<close>

definition ring_bytes :: "tn_ringbuf_t \<Rightarrow> u8 list" where
  "ring_bytes rb =
     map (\<lambda>i. rb_buf rb ! ((unat (rb_head rb) + i) mod length (rb_buf rb))) [0..<tn_ringbuf_used rb]"

definition ring_wf :: "tn_ringbuf_t \<Rightarrow> bool" where
  "ring_wf rb \<longleftrightarrow> (\<exists>k<32. length (rb_buf rb) = 2 ^ k) \<and> unat (rb_capacity rb) = length (rb_buf rb) \<and>
     tn_ringbuf_used rb \<le> length (rb_buf rb)"

definition ring_repr :: "tn_ringbuf_t \<Rightarrow> rx_record list \<Rightarrow> bool" where
  "ring_repr rb rs \<longleftrightarrow> ring_wf rb \<and> list_all rec_ok rs \<and> ring_bytes rb = concat (map enc_rec rs)"

section \<open>Positions\<close>

lemma is_pow2_power: "is_pow2 (2 ^ k)"
proof -
  have "(2::nat) ^ k AND (2 ^ k - 1) = take_bit k (2 ^ k)"
    by (simp only: take_bit_eq_mask mask_eq_exp_minus_1)
  then show ?thesis by (simp add: is_pow2_def take_bit_eq_mod)
qed

lemma ring_wf_capacity:
  assumes "ring_wf rb"
  obtains k where "k < 32" and "length (rb_buf rb) = 2 ^ k" and "rb_capacity rb = 2 ^ k"
    and "unat (rb_capacity rb) = 2 ^ k"
proof -
  from assms obtain k where k: "k < 32" "length (rb_buf rb) = 2 ^ k"
    by (auto simp: ring_wf_def)
  with assms have u: "unat (rb_capacity rb) = 2 ^ k" by (simp add: ring_wf_def)
  then have "rb_capacity rb = of_nat (2 ^ k)" by (metis of_nat_unat ucast_id)
  with k u show ?thesis by (intro that [of k]) simp_all
qed

lemma unat_and_mask: "unat ((p :: u32) AND (2 ^ k - 1)) = unat p mod 2 ^ k"
proof -
  have "p AND (2 ^ k - 1) = take_bit k p"
    by (simp only: take_bit_eq_mask mask_eq_exp_minus_1)
  then show ?thesis by (simp only: unsigned_take_bit_eq) (simp only: take_bit_eq_mod)
qed

lemma unat_add_mod_pow2:
  assumes "k \<le> 32"
  shows "unat (a + b :: u32) mod 2 ^ k = (unat a + unat b) mod 2 ^ k"
proof -
  have "(2::nat) ^ k dvd 2 ^ 32" using assms by (rule le_imp_power_dvd)
  then show ?thesis by (simp add: unat_word_ariths mod_mod_cancel)
qed

section \<open>Writing and reading across the wrap\<close>

text \<open>
  Both routines split at the end of the storage. Seen from the position, byte \<open>i\<close> of the storage
  (counted from the position, modulo the capacity) is written from \<open>src ! i\<close> for \<open>i < n\<close> and left
  alone otherwise.
\<close>

definition ring_slice :: "tn_ringbuf_t \<Rightarrow> nat \<Rightarrow> nat \<Rightarrow> u8 list" where
  "ring_slice rb p n = map (\<lambda>i. rb_buf rb ! ((p + i) mod length (rb_buf rb))) [0..<n]"

lemma ring_idx:
  assumes "ring_wf rb"
  shows "unat (pos AND (rb_capacity rb - 1)) = unat pos mod length (rb_buf rb)"
    and "unat pos mod length (rb_buf rb) < length (rb_buf rb)"
  using ring_wf_capacity [OF assms] unat_and_mask [of pos]
  by (metis, metis mod_less_divisor zero_less_power zero_less_numeral)

lemma ring_first:
  fixes pos n :: u32
  assumes "ring_wf rb" and "unat n \<le> length (rb_buf rb)"
  defines "idx \<equiv> pos AND (rb_capacity rb - 1)"
  defines "first \<equiv> (if rb_capacity rb - idx > n then n else rb_capacity rb - idx)"
    and "f \<equiv> min (unat n) (length (rb_buf rb) - unat idx)"
  shows "unat first = f" and "n > first \<longleftrightarrow> unat n > f" and "unat (n - first) = unat n - f"
proof -
  have "idx \<le> rb_capacity rb"
    using ring_idx [OF assms(1), of pos] assms(1)
    by (simp add: idx_def word_le_nat_alt ring_wf_def)
  then have "unat (rb_capacity rb - idx) = length (rb_buf rb) - unat idx"
    using assms(1) by (simp add: unat_sub ring_wf_def)
  then show first: "unat first = f"
    by (auto simp: first_def f_def word_less_nat_alt)
  then show "n > first \<longleftrightarrow> unat n > f"
    by (simp add: word_less_nat_alt)
  show "unat (n - first) = unat n - f"
    using first by (subst unat_sub) (auto simp: word_le_nat_alt f_def)
qed

lemma ring_write_at_nth:
  assumes "ring_wf rb" and "unat n \<le> length (rb_buf rb)" and "unat n \<le> length src"
    and "i < length (rb_buf rb)"
  shows "rb_buf (ring_write_at rb pos src n) ! ((unat pos + i) mod length (rb_buf rb)) =
    (if i < unat n then src ! i else rb_buf rb ! ((unat pos + i) mod length (rb_buf rb)))"
proof -
  let ?idx = "pos AND (rb_capacity rb - 1)"
  note idx = ring_idx [OF assms(1), of pos]
  show ?thesis
    using memcpy_split_nth [of "unat ?idx" "rb_buf rb" "unat n" src i] idx assms(2-4)
    unfolding ring_write_at_def Let_def ring_first [OF assms(1,2)]
    by (simp add: idx mod_add_left_eq)
qed

lemma length_ring_write_at [simp, tn_length]:
  assumes "ring_wf rb" and "unat n \<le> length (rb_buf rb)" and "unat n \<le> length src"
  shows "length (rb_buf (ring_write_at rb pos src n)) = length (rb_buf rb)"
proof -
  let ?idx = "pos AND (rb_capacity rb - 1)"
  note idx = ring_idx [OF assms(1), of pos]
  show ?thesis
    using idx assms(2,3) unfolding ring_write_at_def Let_def ring_first [OF assms(1,2)] by simp
qed

lemma ring_write_at_fields [simp, tn_frame]:
  "rb_capacity (ring_write_at rb pos src n) = rb_capacity rb"
  "rb_head (ring_write_at rb pos src n) = rb_head rb"
  "rb_tail (ring_write_at rb pos src n) = rb_tail rb"
  "rb_dropped (ring_write_at rb pos src n) = rb_dropped rb"
  by (simp_all add: ring_write_at_def Let_def)

lemma ring_read_at_eq:
  assumes "ring_wf rb" and "unat n \<le> length (rb_buf rb)" and "unat n \<le> length dst"
  shows "ring_read_at rb pos dst n = ring_slice rb (unat pos) (unat n) @ drop (unat n) dst"
proof -
  let ?idx = "pos AND (rb_capacity rb - 1)"
  note idx = ring_idx [OF assms(1), of pos]
  show ?thesis
    using memcpy_split_read [of "unat ?idx" "rb_buf rb" "unat n" dst] idx assms(2,3)
    unfolding ring_read_at_def Let_def ring_first [OF assms(1,2)]
    by (simp add: idx mod_add_left_eq ring_slice_def)
qed

section \<open>Slices of the ring\<close>

lemma length_ring_slice [simp]: "length (ring_slice rb p n) = n"
  by (simp add: ring_slice_def)

lemma ring_slice_append: "ring_slice rb p (m + n) = ring_slice rb p m @ ring_slice rb (p + m) n"
  by (intro nth_equalityI) (auto simp: ring_slice_def nth_append add.assoc)

lemma ring_slice_mod:
  "p mod length (rb_buf rb) = q mod length (rb_buf rb) \<Longrightarrow> ring_slice rb p n = ring_slice rb q n"
  unfolding ring_slice_def by (metis mod_add_left_eq)

lemma ring_bytes_slice: "ring_bytes rb = ring_slice rb (unat (rb_head rb)) (tn_ringbuf_used rb)"
  by (simp add: ring_bytes_def ring_slice_def)

lemma ring_slice_update [simp]:
  "ring_slice (rb\<lparr>rb_head := h\<rparr>) p n = ring_slice rb p n"
  "ring_slice (rb\<lparr>rb_tail := t\<rparr>) p n = ring_slice rb p n"
  "ring_slice (rb\<lparr>rb_dropped := d\<rparr>) p n = ring_slice rb p n"
  by (simp_all add: ring_slice_def)

lemma ring_slice_write_same:
  assumes "ring_wf rb" and "unat n \<le> length (rb_buf rb)" and "unat n \<le> length src"
  shows "ring_slice (ring_write_at rb pos src n) (unat pos) (unat n) = take (unat n) src"
  using assms by (intro nth_equalityI) (simp_all add: ring_slice_def ring_write_at_nth)

text \<open>A write leaves the \<open>m\<close> bytes before its position alone if both fit the ring together.\<close>

lemma ring_slice_write_before:
  assumes "ring_wf rb" and "m + unat n \<le> length (rb_buf rb)" and "unat n \<le> length src"
    and "unat pos mod length (rb_buf rb) = (p + m) mod length (rb_buf rb)"
  shows "ring_slice (ring_write_at rb pos src n) p m = ring_slice rb p m"
proof (rule nth_equalityI)
  let ?c = "length (rb_buf rb)"
  fix i assume "i < length (ring_slice (ring_write_at rb pos src n) p m)"
  then have i: "i < m" by simp
  define k where "k = i + ?c - m"
  have k: "k < ?c" "unat n \<le> k" using i assms(2) by (auto simp: k_def)
  have "(unat pos + k) mod ?c = (p + m + k) mod ?c"
    using assms(4) by (metis mod_add_left_eq)
  also have "\<dots> = (p + i) mod ?c"
    using i assms(2) by (simp add: k_def flip: add.assoc)
  finally have "(p + i) mod ?c = (unat pos + k) mod ?c" ..
  then show "ring_slice (ring_write_at rb pos src n) p m ! i = ring_slice rb p m ! i"
    using i k assms ring_write_at_nth [OF assms(1) _ assms(3) k(1), of pos]
    by (simp add: ring_slice_def)
qed simp

section \<open>Records\<close>

lemma rec_header_eq:
  "rec_header m = [ucast (rm_len m AND 0xFF), ucast (drop_bit 8 (rm_len m) AND 0xFF),
     ucast (rm_rssi_dbm m AND 0xFF), ucast (drop_bit 8 (rm_rssi_dbm m) AND 0xFF), rm_snr_db m]"
  by (simp add: rec_header_def tn_put_u16_def put_bytes_def config eval_nat_numeral)

lemma length_rec_header [simp]: "length (rec_header m) = 5"
  by (simp add: rec_header_eq)

lemma rec_header_fields:
  "tn_get_u16 (rec_header m @ xs) 0 = rm_len m" "tn_get_u16 (rec_header m @ xs) 2 = rm_rssi_dbm m"
  "(rec_header m @ xs) ! 4 = rm_snr_db m"
  using u16_split [of "rm_len m"] u16_split [of "rm_rssi_dbm m"]
  by (simp_all add: rec_header_eq tn_get_u16_def)

lemma length_enc_rec: "rec_ok r \<Longrightarrow> length (enc_rec r) = 5 + unat (rm_len (fst r))"
  by (simp add: enc_rec_def rec_ok_def)

section \<open>Push\<close>

lemma unat_rx_need: "unat (of_nat TN_RX_HDR + ucast (l :: u16) :: u32) = 5 + unat l"
  using unat_u16_less [of l] by (simp add: config unat_word_ariths)

lemma unat_free:
  assumes "ring_wf rb"
  shows "unat (rb_capacity rb - (rb_tail rb - rb_head rb)) = length (rb_buf rb) - tn_ringbuf_used rb"
  using assms by (subst unat_sub) (simp_all add: ring_wf_def tn_ringbuf_used_def word_le_nat_alt)

lemma ring_capacity_nonzero: "ring_wf rb \<Longrightarrow> rb_capacity rb \<noteq> 0"
  by (metis ring_wf_capacity unat_0 power_not_zero zero_neq_numeral)

lemma push_full:
  assumes "ring_wf rb" and "length (rb_buf rb) - tn_ringbuf_used rb < 5 + unat (rm_len m)"
  shows "tn_ringbuf_push rb m d = (False, rb\<lparr>rb_dropped := rb_dropped rb + 1\<rparr>)"
proof -
  have "rb_capacity rb - (rb_tail rb - rb_head rb) < of_nat TN_RX_HDR + ucast (rm_len m)"
    using assms by (simp only: word_less_nat_alt unat_free unat_rx_need)
  then show ?thesis by (simp add: tn_ringbuf_push_def)
qed

lemma push_room:
  assumes "ring_wf rb" and "5 + unat (rm_len m) \<le> length (rb_buf rb) - tn_ringbuf_used rb"
  shows "tn_ringbuf_push rb m d =
    (True, ring_write_at (ring_write_at rb (rb_tail rb) (rec_header m) (of_nat TN_RX_HDR))
        (rb_tail rb + of_nat TN_RX_HDR) d (ucast (rm_len m))
      \<lparr>rb_tail := rb_tail rb + (of_nat TN_RX_HDR + ucast (rm_len m))\<rparr>)"
proof -
  have "\<not> rb_capacity rb - (rb_tail rb - rb_head rb) < of_nat TN_RX_HDR + ucast (rm_len m)"
    using assms by (simp only: word_less_nat_alt unat_free unat_rx_need not_less)
  then show ?thesis
    using ring_capacity_nonzero [OF assms(1)]
    by (simp add: tn_ringbuf_push_def rec_header_def Let_def)
qed

lemma ring_wf_write [simp, tn_inv]:
  assumes "ring_wf rb" and "unat n \<le> length (rb_buf rb)" and "unat n \<le> length src"
  shows "ring_wf (ring_write_at rb pos src n)"
  using assms length_ring_write_at [OF assms, of pos]
  by (simp add: ring_wf_def tn_ringbuf_used_def)

lemma used_plus:
  assumes "ring_wf rb" and "n \<le> length (rb_buf rb) - tn_ringbuf_used rb" and "unat x = n"
  shows "unat (rb_tail rb + x - rb_head rb) = tn_ringbuf_used rb + n"
proof -
  obtain k where "k < 32" "length (rb_buf rb) = 2 ^ k" using ring_wf_capacity [OF assms(1)] .
  moreover from this have "(2::nat) ^ k \<le> 2 ^ 31" by (intro power_increasing) simp_all
  ultimately have "length (rb_buf rb) \<le> 2 ^ 31" by simp
  then have "tn_ringbuf_used rb + n < 2 ^ 32"
    using assms(1,2) by (auto simp: ring_wf_def)
  then have "unat (rb_tail rb - rb_head rb + x) = tn_ringbuf_used rb + n"
    using assms(3) by (simp add: tn_ringbuf_used_def unat_word_ariths(1))
  then show ?thesis by (simp add: algebra_simps)
qed

lemma tail_mod:
  assumes "ring_wf rb"
  shows "unat (rb_tail rb) mod length (rb_buf rb)
    = (unat (rb_head rb) + tn_ringbuf_used rb) mod length (rb_buf rb)"
proof -
  obtain k where k: "k < 32" "length (rb_buf rb) = 2 ^ k" using ring_wf_capacity [OF assms] .
  have "rb_tail rb = rb_head rb + (rb_tail rb - rb_head rb)" by simp
  then show ?thesis
    using unat_add_mod_pow2 [of k "rb_head rb" "rb_tail rb - rb_head rb"] k
    by (simp add: tn_ringbuf_used_def)
qed

text \<open>A push that finds room appends the record and nothing else changes.\<close>

lemma push_bytes:
  assumes "ring_wf rb" and "rec_ok (m, d)"
    and "5 + unat (rm_len m) \<le> length (rb_buf rb) - tn_ringbuf_used rb"
  defines "rb' \<equiv> snd (tn_ringbuf_push rb m d)"
  shows "fst (tn_ringbuf_push rb m d)" and "ring_wf rb'"
    and "ring_bytes rb' = ring_bytes rb @ enc_rec (m, d)"
proof -
  let ?c = "length (rb_buf rb)" and ?u = "tn_ringbuf_used rb" and ?l = "unat (rm_len m)"
  let ?rb1 = "ring_write_at rb (rb_tail rb) (rec_header m) (of_nat TN_RX_HDR)"
  let ?rb2 = "ring_write_at ?rb1 (rb_tail rb + of_nat TN_RX_HDR) d (ucast (rm_len m))"
  have hdr: "unat (of_nat TN_RX_HDR :: u32) = 5" by (simp add: config)
  have d: "length d = ?l" using assms(2) by (simp add: rec_ok_def)
  have fits: "?u + 5 + ?l \<le> ?c" using assms(1,3) by (simp add: ring_wf_def)
  note push = push_room [OF assms(1,3), of d]
  then show "fst (tn_ringbuf_push rb m d)" by simp
  have rb': "rb' = ?rb2\<lparr>rb_tail := rb_tail rb + (of_nat TN_RX_HDR + ucast (rm_len m))\<rparr>"
    by (simp add: rb'_def push)
  have wf1: "ring_wf ?rb1" and len1: "length (rb_buf ?rb1) = ?c"
    using assms(1) fits hdr by simp_all
  have wf2: "ring_wf ?rb2" and len2: "length (rb_buf ?rb2) = ?c"
    using wf1 len1 fits d by simp_all
  have used: "tn_ringbuf_used rb' = ?u + (5 + ?l)"
    using used_plus [OF assms(1,3) unat_rx_need] by (simp add: rb' tn_ringbuf_used_def)
  show "ring_wf rb'"
    using wf2 len2 used fits by (simp add: ring_wf_def rb' tn_ringbuf_used_def)
  let ?h = "unat (rb_head rb)"
  obtain k where k: "k < 32" "?c = 2 ^ k" using ring_wf_capacity [OF assms(1)] .
  have tail: "unat (rb_tail rb) mod ?c = (?h + ?u) mod ?c" by (rule tail_mod [OF assms(1)])
  have tail5: "unat (rb_tail rb + of_nat TN_RX_HDR) mod ?c = (?h + ?u + 5) mod ?c"
    using unat_add_mod_pow2 [of k "rb_tail rb" "of_nat TN_RX_HDR"] k hdr tail
    by (simp add: mod_add_left_eq) (metis mod_add_left_eq)
  have old: "ring_slice ?rb2 ?h ?u = ring_slice rb ?h ?u"
    using ring_slice_write_before [OF wf1, of "?u + 5" "ucast (rm_len m)" d
        "rb_tail rb + of_nat TN_RX_HDR" ?h]
      ring_slice_write_before [OF assms(1), of ?u "of_nat TN_RX_HDR" "rec_header m" "rb_tail rb" ?h]
      len1 fits d hdr tail tail5
    by (simp add: ring_slice_append add.assoc)
  have new_hdr: "ring_slice ?rb2 (?h + ?u) 5 = rec_header m"
    using ring_slice_write_before [OF wf1, of 5 "ucast (rm_len m)" d
        "rb_tail rb + of_nat TN_RX_HDR" "?h + ?u"]
      ring_slice_write_same [OF assms(1), of "of_nat TN_RX_HDR" "rec_header m" "rb_tail rb"]
      ring_slice_mod [of "?h + ?u" ?rb1 "unat (rb_tail rb)" 5]
      len1 fits d hdr tail tail5 by simp
  have new_data: "ring_slice ?rb2 (?h + ?u + 5) ?l = d"
    using ring_slice_write_same [OF wf1, of "ucast (rm_len m)" d "rb_tail rb + of_nat TN_RX_HDR"]
      ring_slice_mod [of "?h + ?u + 5" ?rb2 "unat (rb_tail rb + of_nat TN_RX_HDR)" ?l]
      len1 len2 fits d tail5 by simp
  show "ring_bytes rb' = ring_bytes rb @ enc_rec (m, d)"
    unfolding ring_bytes_slice used
    by (simp add: rb' ring_slice_append old new_hdr new_data enc_rec_def)
qed

section \<open>Pop\<close>

lemma used_minus:
  assumes "ring_wf rb" and "n \<le> tn_ringbuf_used rb" and "unat x = n"
  shows "unat (rb_tail rb - (rb_head rb + x)) = tn_ringbuf_used rb - n"
proof -
  have "x \<le> rb_tail rb - rb_head rb"
    using assms(2,3) by (simp add: word_le_nat_alt tn_ringbuf_used_def)
  then have "unat (rb_tail rb - rb_head rb - x) = tn_ringbuf_used rb - n"
    using assms(3) by (simp add: unat_sub tn_ringbuf_used_def)
  then show ?thesis by (simp add: diff_diff_eq)
qed

lemma head_mod:
  assumes "ring_wf rb" and "unat x = n"
  shows "unat (rb_head rb + x) mod length (rb_buf rb) = (unat (rb_head rb) + n) mod length (rb_buf rb)"
proof -
  obtain k where "k < 32" "length (rb_buf rb) = 2 ^ k" using ring_wf_capacity [OF assms(1)] .
  then show ?thesis
    using unat_add_mod_pow2 [of k "rb_head rb" x] assms(2) by simp
qed

text \<open>Advancing the consumer position by \<open>n\<close> bytes drops the \<open>n\<close> oldest bytes.\<close>

lemma ring_advance:
  assumes "ring_wf rb" and "n \<le> tn_ringbuf_used rb" and "unat x = n"
  defines "rb' \<equiv> rb\<lparr>rb_head := rb_head rb + x\<rparr>"
  shows "ring_wf rb'" and "ring_bytes rb' = drop n (ring_bytes rb)"
proof -
  have used: "tn_ringbuf_used rb' = tn_ringbuf_used rb - n"
    using used_minus [OF assms(1-3)] by (simp add: tn_ringbuf_used_def rb'_def)
  then show "ring_wf rb'"
    using assms(1) by (auto simp: ring_wf_def rb'_def)
  have "ring_bytes rb = ring_slice rb (unat (rb_head rb)) n @
      ring_slice rb (unat (rb_head rb) + n) (tn_ringbuf_used rb - n)"
    using ring_slice_append [of rb "unat (rb_head rb)" n "tn_ringbuf_used rb - n"] assms(2)
    by (simp add: ring_bytes_slice)
  moreover have "ring_bytes rb' = ring_slice rb (unat (rb_head rb) + n) (tn_ringbuf_used rb - n)"
    using ring_slice_mod [OF head_mod [OF assms(1,3)]] used by (simp add: ring_bytes_slice rb'_def)
  ultimately show "ring_bytes rb' = drop n (ring_bytes rb)" by simp
qed

lemma length_ring_bytes [simp]: "length (ring_bytes rb) = tn_ringbuf_used rb"
  by (simp add: ring_bytes_slice)

lemma ring_read_front:
  assumes "ring_wf rb" and "off + unat n \<le> tn_ringbuf_used rb" and "unat x = off"
    and "unat n \<le> length dst"
  shows "ring_read_at rb (rb_head rb + x) dst n
    = take (unat n) (drop off (ring_bytes rb)) @ drop (unat n) dst"
proof -
  let ?h = "unat (rb_head rb)"
  have "unat n \<le> length (rb_buf rb)" using assms(1,2) by (simp add: ring_wf_def)
  then have "ring_read_at rb (rb_head rb + x) dst n = ring_slice rb (?h + off) (unat n) @ drop (unat n) dst"
    using ring_read_at_eq [OF assms(1) _ assms(4)] ring_slice_mod [OF head_mod [OF assms(1,3)]]
    by simp
  moreover have "ring_bytes rb = ring_slice rb ?h off @ ring_slice rb (?h + off) (unat n) @
      ring_slice rb (?h + off + unat n) (tn_ringbuf_used rb - off - unat n)"
    using ring_slice_append [of rb ?h "off + unat n" "tn_ringbuf_used rb - off - unat n"]
      ring_slice_append [of rb ?h off "unat n"] assms(2)
    by (simp add: ring_bytes_slice add.assoc)
  ultimately show ?thesis by simp
qed

lemma pop_empty:
  "tn_ringbuf_used rb < 5 \<Longrightarrow> tn_ringbuf_pop rb meta out cap = (False, rb, meta, out)"
  by (simp add: tn_ringbuf_pop_def Let_def word_less_nat_alt tn_ringbuf_used_def config)

lemma pop_front:
  assumes "ring_wf rb" and "rec_ok (m, d)" and "ring_bytes rb = enc_rec (m, d) @ rest"
    and "unat (rm_len m) \<le> cap" and "cap \<le> length out"
  shows "tn_ringbuf_pop rb meta out cap =
    (True, rb\<lparr>rb_head := rb_head rb + of_nat TN_RX_HDR + ucast (rm_len m)\<rparr>, m,
     d @ drop (unat (rm_len m)) out)"
proof -
  have hdr5: "unat (of_nat TN_RX_HDR :: u32) = 5" by (simp add: config)
  have d: "length d = unat (rm_len m)" using assms(2) by (simp add: rec_ok_def)
  have used: "tn_ringbuf_used rb = 5 + unat (rm_len m) + length rest"
    using arg_cong [OF assms(3), of length] d by (simp add: enc_rec_def)
  have hdr: "ring_read_at rb (rb_head rb) (replicate TN_RX_HDR 0) (of_nat TN_RX_HDR) = rec_header m"
    using ring_read_front [OF assms(1), of 0 "of_nat TN_RX_HDR" 0 "replicate TN_RX_HDR 0"] used hdr5 assms(3)
    by (simp add: enc_rec_def config)
  have data: "ring_read_at rb (rb_head rb + of_nat TN_RX_HDR) out (ucast (rm_len m)) =
      d @ drop (unat (rm_len m)) out"
    using ring_read_front [OF assms(1), of 5 "ucast (rm_len m)" "of_nat TN_RX_HDR" out] used hdr5 assms(3-5) d
    by (simp add: enc_rec_def)
  have avail: "\<not> rb_tail rb - rb_head rb < of_nat TN_RX_HDR"
      "\<not> rb_tail rb - rb_head rb < of_nat TN_RX_HDR + ucast (rm_len m)"
    using used hdr5 unat_rx_need [of "rm_len m"] by (simp_all add: word_less_nat_alt tn_ringbuf_used_def)
  have meta: "meta\<lparr>rm_len := tn_get_u16 (rec_header m) 0, rm_rssi_dbm := tn_get_u16 (rec_header m) 2,
      rm_snr_db := rec_header m ! 4\<rparr> = m"
    using rec_header_fields [of m "[]"] by simp
  show ?thesis
    unfolding tn_ringbuf_pop_def Let_def hdr meta data
    using ring_capacity_nonzero [OF assms(1)] avail assms(4) by simp
qed

text \<open>A record longer than the reader's buffer empties the ring.\<close>

lemma pop_oversized:
  assumes "ring_wf rb" and "rec_ok (m, d)" and "ring_bytes rb = enc_rec (m, d) @ rest"
    and "cap < unat (rm_len m)"
  shows "tn_ringbuf_pop rb meta out cap = (False, rb\<lparr>rb_head := rb_tail rb\<rparr>, m, out)"
proof -
  have hdr5: "unat (of_nat TN_RX_HDR :: u32) = 5" by (simp add: config)
  have used: "tn_ringbuf_used rb = 5 + unat (rm_len m) + length rest"
    using arg_cong [OF assms(3), of length] assms(2) by (simp add: enc_rec_def rec_ok_def)
  have hdr: "ring_read_at rb (rb_head rb) (replicate TN_RX_HDR 0) (of_nat TN_RX_HDR) = rec_header m"
    using ring_read_front [OF assms(1), of 0 "of_nat TN_RX_HDR" 0 "replicate TN_RX_HDR 0"] used hdr5 assms(3)
    by (simp add: enc_rec_def config)
  have avail: "\<not> rb_tail rb - rb_head rb < of_nat TN_RX_HDR"
    using used hdr5 by (simp add: word_less_nat_alt tn_ringbuf_used_def)
  have meta: "meta\<lparr>rm_len := tn_get_u16 (rec_header m) 0, rm_rssi_dbm := tn_get_u16 (rec_header m) 2,
      rm_snr_db := rec_header m ! 4\<rparr> = m"
    using rec_header_fields [of m "[]"] by simp
  show ?thesis
    unfolding tn_ringbuf_pop_def Let_def hdr meta
    using ring_capacity_nonzero [OF assms(1)] avail assms(4) by simp
qed

section \<open>The ring is a bounded FIFO queue\<close>

lemma ring_repr_init:
  assumes "k < 32" and "length storage = 2 ^ k"
  shows "ring_repr (tn_ringbuf_init rb storage (2 ^ k)) []"
proof -
  have "(2::nat) ^ k < 2 ^ 32" using assms(1) by (intro power_strict_increasing) simp_all
  then have "unat (of_nat (2 ^ k) :: u32) = 2 ^ k" by (intro unat_of_nat_lt) simp
  with assms show ?thesis
    by (auto simp: ring_repr_def ring_wf_def tn_ringbuf_init_def is_pow2_power ring_bytes_def
        tn_ringbuf_used_def)
qed

lemma push_ring_repr:
  assumes "ring_repr rb rs" and "rec_ok (m, d)"
  shows "ring_repr (snd (tn_ringbuf_push rb m d))
    (if fst (tn_ringbuf_push rb m d) then rs @ [(m, d)] else rs)"
proof (cases "5 + unat (rm_len m) \<le> length (rb_buf rb) - tn_ringbuf_used rb")
  case True
  with assms show ?thesis
    using push_bytes [of rb m d] by (simp add: ring_repr_def)
next
  case False
  with assms have "tn_ringbuf_push rb m d = (False, rb\<lparr>rb_dropped := rb_dropped rb + 1\<rparr>)"
    by (intro push_full) (simp_all add: ring_repr_def)
  with assms(1) show ?thesis
    by (simp add: ring_repr_def ring_wf_def ring_bytes_def tn_ringbuf_used_def)
qed

lemma pop_ring_repr_Nil:
  assumes "ring_repr rb []"
  shows "tn_ringbuf_pop rb meta out cap = (False, rb, meta, out)"
proof -
  have "tn_ringbuf_used rb = 0"
    using assms by (simp add: ring_repr_def flip: length_ring_bytes)
  then show ?thesis by (intro pop_empty) simp
qed

lemma pop_ring_repr_Cons:
  assumes "ring_repr rb ((m, d) # rs)" and "unat (rm_len m) \<le> cap" and "cap \<le> length out"
  obtains rb' where "tn_ringbuf_pop rb meta out cap = (True, rb', m, d @ drop (unat (rm_len m)) out)"
    and "ring_repr rb' rs"
proof -
  let ?x = "of_nat TN_RX_HDR + ucast (rm_len m) :: u32"
  have ok: "rec_ok (m, d)" and wf: "ring_wf rb"
    and bytes: "ring_bytes rb = enc_rec (m, d) @ concat (map enc_rec rs)"
    using assms(1) by (simp_all add: ring_repr_def)
  have "5 + unat (rm_len m) \<le> tn_ringbuf_used rb"
    using arg_cong [OF bytes, of length] length_enc_rec [OF ok] by simp
  note adv = ring_advance [OF wf this unat_rx_need]
  have "ring_repr (rb\<lparr>rb_head := rb_head rb + ?x\<rparr>) rs"
    using adv bytes length_enc_rec [OF ok] assms(1) by (simp add: ring_repr_def)
  then show ?thesis
    using pop_front [OF wf ok bytes assms(2,3), of meta] by (intro that) (simp_all add: add.assoc)
qed

text \<open>The two operations as a queue of records, read with a buffer of \<open>TREENET_MTU\<close> bytes.\<close>

definition ring_put :: "tn_ringbuf_t \<Rightarrow> rx_record \<Rightarrow> bool \<times> tn_ringbuf_t" where
  "ring_put rb r = tn_ringbuf_push rb (fst r) (snd r)"

definition ring_get :: "tn_ringbuf_t \<Rightarrow> rx_record option \<times> tn_ringbuf_t" where
  "ring_get rb =
     (case tn_ringbuf_pop rb \<lparr>rm_len = 0, rm_rssi_dbm = 0, rm_snr_db = 0\<rparr> (replicate TREENET_MTU 0) TREENET_MTU of
        (ok, rb', m, out) \<Rightarrow> (if ok then Some (m, take (unat (rm_len m)) out) else None, rb'))"

definition rec_fits :: "rx_record \<Rightarrow> bool" where
  "rec_fits r \<longleftrightarrow> rec_ok r \<and> unat (rm_len (fst r)) \<le> TREENET_MTU"

text \<open>
  Push never blocks and never damages the ring. It accepts the frame exactly when the
  free space holds the 5 byte record header and the payload; otherwise it returns false, counts
  one dropped record and leaves the stored bytes and both positions untouched.
\<close>

lemma ringbuf_push_accepts_iff:
  assumes "ring_repr rb rs" and "rec_ok (m, d)"
  shows "(fst (tn_ringbuf_push rb m d) \<longleftrightarrow>
            length (concat (map enc_rec rs)) + 5 + unat (rm_len m) \<le> length (rb_buf rb)) \<and>
         (\<not> fst (tn_ringbuf_push rb m d) \<longrightarrow>
            snd (tn_ringbuf_push rb m d) = rb\<lparr>rb_dropped := rb_dropped rb + 1\<rparr>)"
proof -
  have wf: "ring_wf rb" and used: "length (concat (map enc_rec rs)) = tn_ringbuf_used rb"
    using assms(1) by (simp_all add: ring_repr_def flip: length_ring_bytes)
  then show ?thesis
    using push_room [OF wf, of m d] push_full [OF wf, of m d]
    by (cases "5 + unat (rm_len m) \<le> length (rb_buf rb) - tn_ringbuf_used rb")
      (auto simp: ring_wf_def)
qed

text \<open>
  The room a ring of \<open>c\<close> bytes has: every stored record takes its payload and 5 bytes of header.
\<close>

definition rec_bytes :: "rx_record \<Rightarrow> nat" where
  "rec_bytes r = 5 + length (snd r)"

definition ring_room :: "nat \<Rightarrow> rx_record list \<Rightarrow> rx_record \<Rightarrow> bool" where
  "ring_room c rs r \<longleftrightarrow> sum_list (map rec_bytes rs) + rec_bytes r \<le> c"

lemma length_stored:
  "list_all rec_ok rs \<Longrightarrow> length (concat (map enc_rec rs)) = sum_list (map rec_bytes rs)"
  by (induction rs) (auto simp: rec_bytes_def enc_rec_def rec_ok_def)

lemma ring_put_room:
  assumes "ring_repr rb rs" and "rec_fits r"
  shows "fst (ring_put rb r) = ring_room (unat (rb_capacity rb)) rs r"
  using ringbuf_push_accepts_iff [of rb rs "fst r" "snd r"] length_stored [of rs] assms
  by (auto simp: ring_put_def ring_room_def rec_bytes_def rec_fits_def rec_ok_def ring_repr_def
      ring_wf_def)

lemma ring_put_capacity [simp]: "rb_capacity (snd (ring_put rb r)) = rb_capacity rb"
  by (simp add: ring_put_def tn_ringbuf_push_def ring_write_at_def Let_def)

lemma ring_get_capacity [simp]: "rb_capacity (snd (ring_get rb)) = rb_capacity rb"
  by (simp add: ring_get_def tn_ringbuf_pop_def Let_def)

definition ring_holds :: "nat \<Rightarrow> tn_ringbuf_t \<Rightarrow> rx_record list \<Rightarrow> bool" where
  "ring_holds c rb rs \<longleftrightarrow> ring_repr rb rs \<and> list_all rec_fits rs \<and> unat (rb_capacity rb) = c"

interpretation rx_fifo: bounded_fifo ring_put ring_get "ring_holds c" rec_fits "ring_room c"
  for c
proof
  fix rb rs r
  assume *: "ring_holds c rb rs" "rec_fits r"
  then show room: "fst (ring_put rb r) = ring_room c rs r"
    by (auto simp: ring_holds_def ring_put_room)
  show "ring_holds c (snd (ring_put rb r)) (if ring_room c rs r then rs @ [r] else rs)"
    using push_ring_repr [of rb rs "fst r" "snd r"] * room ring_put_capacity [of rb r]
    by (auto simp: ring_holds_def ring_put_def rec_fits_def split: if_splits)
next
  fix rb
  assume "ring_holds c rb []"
  then show "fst (ring_get rb) = None \<and> ring_holds c (snd (ring_get rb)) []"
    by (simp add: ring_holds_def ring_get_def pop_ring_repr_Nil)
next
  fix rb r rs
  assume r: "ring_holds c rb (r # rs)"
  obtain m d where md: "r = (m, d)" by (cases r)
  then have "ring_repr rb ((m, d) # rs)" and "unat (rm_len m) \<le> TREENET_MTU"
    using r by (simp_all add: ring_holds_def rec_fits_def)
  then obtain rb' where "tn_ringbuf_pop rb \<lparr>rm_len = 0, rm_rssi_dbm = 0, rm_snr_db = 0\<rparr>
      (replicate TREENET_MTU 0) TREENET_MTU = (True, rb', m, d @ drop (unat (rm_len m)) (replicate TREENET_MTU 0))"
      and "ring_repr rb' rs"
    by (rule pop_ring_repr_Cons [where out = "replicate TREENET_MTU 0"]) simp_all
  then show "fst (ring_get rb) = Some r \<and> ring_holds c (snd (ring_get rb)) rs"
    using r md ring_get_capacity [of rb]
    by (simp add: ring_holds_def ring_get_def rec_fits_def rec_ok_def)
qed

text \<open>
  Property C14: the receive ring is a bounded FIFO queue of frames. Start from any ring that stores
  the records \<open>rs\<close>, wherever its 32 bit head and tail counters stand (the freshly initialised ring
  is the case \<open>rs = []\<close>), and run any sequence of pushes and pops of frames of at most the MTU.
  Every answer of the run is the answer of a plain list queue: a push is accepted exactly
  when the records stored, each with its 5 byte header, leave room for the new one in the storage,
  and a pop returns the oldest record with its RSSI, SNR and payload bytes, and fails only when the
  queue is empty. The ring ends up storing the content of that list. So the records stored first,
  followed by those accepted, are those delivered followed by those still stored: nothing is lost,
  duplicated, reordered or altered, however often the positions wrap.
\<close>

theorem ringbuf_fifo:
  assumes "ring_repr rb rs" and "list_all rec_fits rs" and "list_all (fifo_op_all rec_fits) ops"
    and "fifo_run ring_put ring_get rb ops = (results, rb')"
  shows "\<exists>pending.
      fifo_run (queue_put (ring_room (unat (rb_capacity rb)))) queue_get rs ops = (results, pending) \<and>
      ring_repr rb' pending \<and> rb_capacity rb' = rb_capacity rb \<and>
      rs @ accepted ops results = delivered results @ pending"
proof -
  let ?c = "unat (rb_capacity rb)"
  let ?q = "fifo_run (queue_put (ring_room ?c)) queue_get rs ops"
  have "results = fst ?q \<and> ring_holds ?c rb' (snd ?q)"
    using rx_fifo.run_refines [of ?c rb rs ops] assms by (simp add: ring_holds_def)
  moreover have "rs @ accepted ops (fst ?q) = delivered (fst ?q) @ snd ?q"
    by (rule queue_run_order) simp
  ultimately show ?thesis
    by (intro exI [of _ "snd ?q"]) (simp add: ring_holds_def word_unat_eq_iff)
qed

definition rec_example :: "u8 list \<Rightarrow> rx_record" where
  "rec_example bs = (\<lparr>rm_len = of_nat (length bs), rm_rssi_dbm = - 80, rm_snr_db = - 5\<rparr>, bs)"

definition ring_example :: tn_ringbuf_t where
  "ring_example = tn_ringbuf_init \<lparr>rb_buf = [], rb_capacity = 0, rb_head = 0, rb_tail = 0, rb_dropped = 0\<rparr>
     (replicate 16 0) (2 ^ 4)"

text \<open>A ring whose head counter is about to wrap: the record it stores spans the wrap.\<close>

definition ring_wrapping :: tn_ringbuf_t where
  "ring_wrapping = \<lparr>rb_buf = [0xFF, 0xFB, 1, 2, 3, 0, 0, 0, 0, 0, 0, 0, 0, 3, 0, 0xB0],
     rb_capacity = 16, rb_head = 0xFFFFFFFD, rb_tail = 5, rb_dropped = 0\<rparr>"

definition ops_example :: "rx_record fifo_op list" where
  "ops_example = [Put (rec_example [4, 5]), Put (rec_example [6]), Get, Put (rec_example [7, 8, 9]), Get, Get, Get]"

lemma ring_wrapping_repr: "ring_repr ring_wrapping [rec_example [1, 2, 3]]"
proof -
  have "length (rb_buf ring_wrapping) = 2 ^ 4" by (simp add: ring_wrapping_def)
  then have "\<exists>k<32. length (rb_buf ring_wrapping) = 2 ^ k" by (intro exI [of _ 4]) simp
  moreover have "enc_rec (rec_example [1, 2, 3]) = [3, 0, 0xB0, 0xFF, 0xFB, 1, 2, 3]" by code_simp
  moreover have "[0..<8] = [0, 1, 2, 3, 4, 5, 6, 7]" by (simp add: upt_rec)
  then have "ring_bytes ring_wrapping = [3, 0, 0xB0, 0xFF, 0xFB, 1, 2, 3]"
    by (simp add: ring_bytes_def tn_ringbuf_used_def ring_wrapping_def)
  ultimately show ?thesis
    by (simp add: ring_repr_def ring_wf_def tn_ringbuf_used_def ring_wrapping_def rec_example_def rec_ok_def)
qed

theorem ringbuf_fifo_witness:
  "fst (fifo_run ring_put ring_get ring_wrapping ops_example) =
     [Stored True, Stored False, Got (Some (rec_example [1, 2, 3])), Stored True,
      Got (Some (rec_example [4, 5])), Got (Some (rec_example [7, 8, 9])), Got None] \<and>
   ring_repr (snd (fifo_run ring_put ring_get ring_wrapping ops_example)) []"
proof -
  have fits: "list_all (fifo_op_all rec_fits) ops_example"
    by (simp add: ops_example_def rec_example_def rec_fits_def rec_ok_def config)
  have "list_all rec_fits [rec_example [1, 2, 3]]"
    by (simp add: rec_example_def rec_fits_def rec_ok_def config)
  from ringbuf_fifo [OF ring_wrapping_repr this fits prod.collapse [symmetric]]
  obtain pending where run: "fifo_run (queue_put (ring_room 16)) queue_get [rec_example [1, 2, 3]] ops_example
      = (fst (fifo_run ring_put ring_get ring_wrapping ops_example), pending)"
    and "ring_repr (snd (fifo_run ring_put ring_get ring_wrapping ops_example)) pending"
    by (auto simp: ring_wrapping_def)
  then show ?thesis
    using run [symmetric]
    by (simp add: ops_example_def queue_put_def ring_room_def rec_bytes_def rec_example_def)
qed

end
