(* ===== verification/Tn_Crc.thy ===== *)
theory Tn_Crc
  imports Tn_Util
begin

text \<open>
  The frame check sequence of \<open>src/mac/frame.c\<close> (\<open>crc16_nibble\<close>, \<open>tn_frame_crc\<close>), the bit-by-bit
  definition of CRC-16/CCITT-FALSE it has to agree with, and the algebra of the code: linearity
  and injectivity of the shift register, which give its error detection.
\<close>

definition crc16_nibble :: "u16 list" where
  "crc16_nibble =
    [0x0000, 0x1021, 0x2042, 0x3063, 0x4084, 0x50A5, 0x60C6, 0x70E7,
     0x8108, 0x9129, 0xA14A, 0xB16B, 0xC18C, 0xD1AD, 0xE1CE, 0xF1EF]"

definition crc_nibble_step :: "u16 \<Rightarrow> u8 \<Rightarrow> u16" where
  "crc_nibble_step crc n =
     push_bit 4 crc XOR crc16_nibble ! unat ((drop_bit 12 crc XOR ucast n) AND 0x0F)"

definition crc_byte_step :: "u16 \<Rightarrow> u8 \<Rightarrow> u16" where
  "crc_byte_step crc b =
     (let crc = crc_nibble_step crc (drop_bit 4 b)
      in crc_nibble_step crc (b AND 0x0F))"

definition tn_frame_crc :: "u8 list \<Rightarrow> nat \<Rightarrow> u16" where
  "tn_frame_crc data len = foldl crc_byte_step 0xFFFF (take len data)"

section \<open>Reference: the shift register\<close>

text \<open>Polynomial 0x1021, most significant bit first, initial value 0xFFFF, no final XOR.\<close>

definition crc_bit :: "u16 \<Rightarrow> u16" where
  "crc_bit x = push_bit 1 x XOR (if bit x 15 then 0x1021 else 0)"

definition crc16_ccitt_false :: "u8 list \<Rightarrow> u16" where
  "crc16_ccitt_false data =
     foldl (\<lambda>crc b. (crc_bit ^^ 8) (crc XOR push_bit 8 (ucast b))) 0xFFFF data"

lemma crc_bit_xor: "crc_bit (x XOR y) = crc_bit x XOR crc_bit y"
  by (simp add: crc_bit_def bit_xor_iff push_bit_xor ac_simps)

lemma crc_bits_xor: "(crc_bit ^^ n) (x XOR y) = (crc_bit ^^ n) x XOR (crc_bit ^^ n) y"
  by (induction n arbitrary: x y) (simp_all add: crc_bit_xor funpow_swap1)

lemma crc_bit_zero [simp]: "crc_bit 0 = 0"
  by (simp add: crc_bit_def)

lemma crc_bits_zero [simp]: "(crc_bit ^^ n) 0 = 0"
  by (induction n) simp_all

text \<open>While the high bits are clear the register only shifts.\<close>

lemma crc_bits_shift:
  assumes "n + k \<le> 16"
  shows "(crc_bit ^^ n) (take_bit k x) = push_bit n (take_bit k x)"
  using assms
proof (induction n)
  case (Suc n)
  have "\<not> bit (push_bit n (take_bit k x)) 15"
    using Suc.prems by (auto simp: bit_simps)
  then show ?case using Suc by (simp add: crc_bit_def push_bit_eq_mult ac_simps)
qed simp

text \<open>The register never forgets: a step is injective because the polynomial has the term 1.\<close>

lemma crc_bit_eq_0: "crc_bit x = 0 \<longleftrightarrow> x = 0"
proof
  assume *: "crc_bit x = 0"
  have "\<not> bit x 15"
  proof
    assume "bit x 15"
    with * have "push_bit 1 x XOR 0x1021 = 0" by (simp add: crc_bit_def)
    moreover have "bit (push_bit 1 x XOR 0x1021 :: u16) 0"
      unfolding bit_xor_iff bit_push_bit_iff by (simp add: bit_0)
    ultimately show False by simp
  qed
  with * have "push_bit 1 x = 0" by (simp add: crc_bit_def)
  show "x = 0"
  proof (rule bit_word_eqI)
    fix n assume "n < LENGTH(16)"
    then show "bit x n = bit (0 :: u16) n"
      using \<open>\<not> bit x 15\<close> \<open>push_bit 1 x = 0\<close> bit_push_bit_iff [of 1 x "Suc n"]
      by (cases "n = 15") (auto simp: bit_simps)
  qed
qed simp

lemma crc_bits_eq_0 [simp]: "(crc_bit ^^ n) x = 0 \<longleftrightarrow> x = 0"
  by (induction n) (simp_all add: crc_bit_eq_0)

lemma crc_bits_inj: "(crc_bit ^^ n) x = (crc_bit ^^ n) y \<longleftrightarrow> x = y"
  by (metis crc_bits_xor crc_bits_eq_0 xor_eq_0_iff)

section \<open>The nibble table computes four register steps\<close>

lemma crc16_nibble_table:
  assumes "h < 16"
  shows "crc16_nibble ! h = (crc_bit ^^ 4) (push_bit 12 (of_nat h))"
proof -
  have "\<forall>h\<in>set [0..<16]. crc16_nibble ! h = (crc_bit ^^ 4) (push_bit 12 (of_nat h))"
    by code_simp
  with assms show ?thesis by simp
qed

lemma split_nibble: "x = push_bit 12 (drop_bit 12 x) XOR take_bit 12 (x :: u16)"
  by (rule bit_word_eqI) (auto simp: bit_simps)

lemma crc_nibble_step_eq:
  assumes "unat n < 16"
  shows "crc_nibble_step crc n = (crc_bit ^^ 4) (crc XOR push_bit 12 (ucast n))"
proof -
  let ?h = "drop_bit 12 crc XOR ucast n :: u16"
  have idx: "?h AND 0x0F = ?h"
  proof (rule bit_word_eqI)
    fix i assume "i < LENGTH(16)"
    have "take_bit 4 n = n"
      using assms by (simp add: word_unat_eq_iff unsigned_take_bit_eq take_bit_nat_eq_self)
    then have "i < 4" if "bit n i" using that bit_take_bit_iff [of 4 n i] by simp
    moreover have "i < 4" if "bit crc (12 + i)" using bit_imp_le_length [OF that] by simp
    ultimately show "bit (?h AND 0x0F) i = bit ?h i"
      unfolding and_0x0F using \<open>i < LENGTH(16)\<close> by (auto simp: bit_simps)
  qed
  have "unat ?h < 16"
    using unat_take_bit_less [of 4 ?h] idx by (simp add: and_0x0F)
  have "crc XOR push_bit 12 (ucast n) = push_bit 12 ?h XOR take_bit 12 crc"
    by (rule bit_word_eqI) (auto simp: bit_simps)
  then have "(crc_bit ^^ 4) (crc XOR push_bit 12 (ucast n))
      = (crc_bit ^^ 4) (push_bit 12 ?h) XOR push_bit 4 (take_bit 12 crc)"
    by (simp only: crc_bits_xor crc_bits_shift)
  also have "push_bit 4 (take_bit 12 crc) = push_bit 4 crc"
    by (rule bit_word_eqI) (auto simp: bit_simps)
  also have "(crc_bit ^^ 4) (push_bit 12 ?h) = crc16_nibble ! unat ?h"
    using crc16_nibble_table [OF \<open>unat ?h < 16\<close>] by simp
  finally show ?thesis unfolding crc_nibble_step_def idx by (simp only: xor.commute)
qed

lemma crc_byte_step_eq: "crc_byte_step crc b = (crc_bit ^^ 8) (crc XOR push_bit 8 (ucast b))"
proof -
  let ?hi = "drop_bit 4 b" and ?lo = "b AND 0x0F"
  have hi: "unat ?hi < 16"
    using unat_u8_less [of b] by (simp add: drop_bit_eq_div unat_div)
  have lo: "unat ?lo < 16"
    using unat_take_bit_less [of 4 b] by (simp add: and_0x0F)
  have "crc XOR push_bit 8 (ucast b) = (crc XOR push_bit 12 (ucast ?hi)) XOR take_bit 12 (push_bit 8 (ucast ?lo))"
    unfolding and_0x0F by (rule bit_word_eqI) (auto simp: bit_simps)
  then have "(crc_bit ^^ 8) (crc XOR push_bit 8 (ucast b)) =
      (crc_bit ^^ 4) ((crc_bit ^^ 4) (crc XOR push_bit 12 (ucast ?hi)) XOR
        push_bit 4 (take_bit 12 (push_bit 8 (ucast ?lo))))"
    using funpow_add [of 4 4 crc_bit] by (simp add: crc_bits_xor crc_bits_shift)
  also have "push_bit 4 (take_bit 12 (push_bit 8 (ucast ?lo))) = (push_bit 12 (ucast ?lo) :: u16)"
    unfolding and_0x0F by (rule bit_word_eqI) (auto simp: bit_simps)
  finally show ?thesis
    by (simp add: crc_byte_step_def crc_nibble_step_eq [OF hi] crc_nibble_step_eq [OF lo] Let_def)
qed

text \<open>
  Property C28: the nibble-table routine is CRC-16/CCITT-FALSE. On every input it returns what the
  bit-serial shift register with polynomial 0x1021 and initial value 0xFFFF returns.
\<close>

theorem tn_frame_crc_correct: "tn_frame_crc data len = crc16_ccitt_false (take len data)"
  by (simp add: tn_frame_crc_def crc16_ccitt_false_def crc_byte_step_eq [abs_def])

section \<open>Error detection\<close>

definition crc_run :: "u16 \<Rightarrow> u8 list \<Rightarrow> u16" where
  "crc_run s data = foldl crc_byte_step s data"

lemma crc_run_simps [simp]:
  "crc_run s [] = s"
  "crc_run s (b # bs) = crc_run ((crc_bit ^^ 8) (s XOR push_bit 8 (ucast b))) bs"
  by (simp_all add: crc_run_def crc_byte_step_eq)

lemma crc_run_append: "crc_run s (xs @ ys) = crc_run (crc_run s xs) ys"
  by (simp add: crc_run_def)

definition xor_bytes :: "u8 list \<Rightarrow> u8 list \<Rightarrow> u8 list" where
  "xor_bytes xs ys = map2 (XOR) xs ys"

lemma length_xor_bytes [simp]: "length xs = length ys \<Longrightarrow> length (xor_bytes xs ys) = length ys"
  by (simp add: xor_bytes_def)

lemma crc_run_xor:
  "length xs = length ys \<Longrightarrow> crc_run (s XOR t) (xor_bytes xs ys) = crc_run s xs XOR crc_run t ys"
proof (induction xs ys arbitrary: s t rule: list_induct2)
  case (Cons x xs y ys)
  have "(crc_bit ^^ 8) ((s XOR t) XOR push_bit 8 (ucast (x XOR y))) =
      (crc_bit ^^ 8) (s XOR push_bit 8 (ucast x)) XOR (crc_bit ^^ 8) (t XOR push_bit 8 (ucast y))"
    by (simp add: unsigned_xor_eq push_bit_xor ac_simps flip: crc_bits_xor)
  with Cons show ?case by (simp add: xor_bytes_def)
qed (simp add: xor_bytes_def)

lemma crc_run_zeros [simp]: "crc_run 0 (replicate n 0) = 0"
  by (induction n) simp_all

lemma crc_run_zeros_eq_0 [simp]: "crc_run s (replicate n 0) = 0 \<longleftrightarrow> s = 0"
  by (induction n arbitrary: s) simp_all

text \<open>
  A burst: up to 16 consecutive bits, starting at bit \<open>k\<close> (counted from the most significant) of
  the first of three bytes.
\<close>

definition burst_bytes :: "nat \<Rightarrow> u16 \<Rightarrow> u8 list" where
  "burst_bytes k e =
     (let w = (push_bit (8 - k) (ucast e) :: u32)
      in [ucast (drop_bit 16 w), ucast (drop_bit 8 w), ucast w])"

lemma length_burst_bytes [simp]: "length (burst_bytes k e) = 3"
  by (simp add: burst_bytes_def Let_def)

lemma split_at: "push_bit k (drop_bit k e) XOR take_bit k e = (e :: u16)"
  by (rule bit_word_eqI) (auto simp: bit_simps)

lemma crc_run_three:
  "crc_run 0 [a, b, c] = 0 \<longleftrightarrow> (crc_bit ^^ 8) (push_bit 8 (ucast a) XOR ucast b) = (ucast c :: u16)"
proof -
  let ?T = "\<lambda>n. crc_bit ^^ n"
  have shift8: "push_bit 8 (ucast x :: u16) = ?T 8 (ucast x)" for x :: u8
  proof -
    have "take_bit 8 (ucast x :: u16) = ucast x"
      by (rule bit_word_eqI) (auto simp: bit_simps dest: bit_imp_le_length)
    then show ?thesis using crc_bits_shift [of 8 8 "ucast x"] by simp
  qed
  have "crc_run 0 [a, b, c] = 0 \<longleftrightarrow>
      ?T 8 (?T 8 (push_bit 8 (ucast a)) XOR push_bit 8 (ucast b)) = push_bit 8 (ucast c)"
    by (simp add: xor_eq_0_iff)
  also have "\<dots> \<longleftrightarrow> ?T 8 (push_bit 8 (ucast a) XOR ucast b) = ucast c"
    by (simp add: shift8 crc_bits_inj flip: crc_bits_xor)
  finally show ?thesis .
qed

lemma burst_words:
  fixes e :: u16
  assumes "k \<le> 8"
  defines "w \<equiv> (push_bit (8 - k) (ucast e) :: u32)"
  shows "push_bit 8 (ucast (ucast (drop_bit 16 w) :: u8)) XOR ucast (ucast (drop_bit 8 w) :: u8) = drop_bit k e"
    and "ucast (ucast w :: u8) = push_bit (8 - k) (take_bit k e)"
proof -
  show "push_bit 8 (ucast (ucast (drop_bit 16 w) :: u8)) XOR ucast (ucast (drop_bit 8 w) :: u8) = drop_bit k e"
  proof (rule bit_word_eqI)
    fix n assume n: "n < LENGTH(16)"
    have "n + 8 - (8 - k) = k + n" using assms(1) by simp
    then show "bit (push_bit 8 (ucast (ucast (drop_bit 16 w) :: u8)) XOR ucast (ucast (drop_bit 8 w) :: u8) :: u16) n
        = bit (drop_bit k e) n"
      using n assms(1) by (cases "n < 8") (auto simp: bit_simps w_def ac_simps dest: bit_imp_le_length)
  qed
  show "ucast (ucast w :: u8) = push_bit (8 - k) (take_bit k e)"
    by (rule bit_word_eqI) (use assms(1) in \<open>auto simp: bit_simps w_def\<close>)
qed

lemma crc_run_burst:
  assumes "k \<le> 8" and "e \<noteq> 0"
  shows "crc_run 0 (burst_bytes k e) \<noteq> 0"
proof
  let ?T = "\<lambda>n. crc_bit ^^ n"
  assume "crc_run 0 (burst_bytes k e) = 0"
  then have "?T 8 (drop_bit k e) = push_bit (8 - k) (take_bit k e)"
    using burst_words [OF assms(1), of e] unfolding burst_bytes_def Let_def crc_run_three by simp
  also have "\<dots> = ?T (8 - k) (take_bit k e)"
    using assms(1) by (simp add: crc_bits_shift)
  also have "?T 8 (drop_bit k e) = ?T (8 - k) (?T k (drop_bit k e))"
    using assms(1) by (metis comp_apply funpow_add le_add_diff_inverse2)
  also have "?T k (drop_bit k e) = push_bit k (drop_bit k e)"
  proof -
    have "take_bit (16 - k) (drop_bit k e) = drop_bit k e"
      by (rule bit_word_eqI) (auto simp: bit_simps dest: bit_imp_le_length)
    then show ?thesis
      using crc_bits_shift [of k "16 - k" "drop_bit k e"] assms(1) by simp
  qed
  finally have "push_bit k (drop_bit k e) = take_bit k e"
    by (simp add: crc_bits_inj)
  then have "e = 0" using split_at [of k e] by simp
  with assms(2) show False ..
qed

text \<open>The check value changes under every burst error inside the covered bytes.\<close>

lemma crc_detects_burst:
  assumes "k \<le> 8" and "e \<noteq> 0" and "length data = i + 3 + j"
  shows "crc_run s (xor_bytes data (replicate i 0 @ burst_bytes k e @ replicate j 0)) \<noteq> crc_run s data"
proof -
  let ?err = "replicate i 0 @ burst_bytes k e @ replicate j 0"
  have "crc_run (s XOR 0) (xor_bytes data ?err) = crc_run s data XOR crc_run 0 ?err"
    using assms(3) by (intro crc_run_xor) simp
  moreover have "crc_run 0 ?err \<noteq> 0"
    using crc_run_burst [OF assms(1,2)] by (simp add: crc_run_append)
  moreover have "x XOR y = x \<longleftrightarrow> y = 0" for x y :: u16
    by (auto simp: bit_eq_iff bit_xor_iff)
  ultimately show ?thesis by simp
qed

end
