(* ===== verification/Tn_Frame.thy ===== *)
theory Tn_Frame
  imports Tn_Crc
begin

text \<open>
  \<open>src/mac/frame.h\<close> and \<open>src/mac/frame.c\<close>: the wire format. Encoders store into a byte array and
  return it; a payload pointer is the list of bytes from the pointer on (\<open>None\<close> for \<open>NULL\<close>), of
  which \<open>fr_payload_len\<close> are the payload. Decoders return \<open>None\<close> for the C result \<open>false\<close>.
\<close>

definition TN_FRAME_HDR :: nat where [config]: "TN_FRAME_HDR = 20"

definition TN_FRAME_OFF_PREV :: nat where [config]: "TN_FRAME_OFF_PREV = 16"

definition TN_FRAME_TRAILER :: nat where [config]: "TN_FRAME_TRAILER = 2"

definition TN_FRAME_OVERHEAD :: nat where [config]: "TN_FRAME_OVERHEAD = TN_FRAME_HDR + TN_FRAME_TRAILER"

definition TN_FLAG_WANT_ACK :: u8 where [config]: "TN_FLAG_WANT_ACK = 0x01"

definition TN_FLAG_FRAG :: u8 where [config]: "TN_FLAG_FRAG = 0x04"

record tn_frame_t =
  fr_version :: u8
  fr_type :: u8
  fr_flags :: u8
  fr_src :: treenet_addr_t
  fr_dst :: treenet_addr_t
  fr_seq :: u16
  fr_net_id :: u16
  fr_hop_limit :: u8
  fr_sec :: u8
  fr_prev :: treenet_addr_t
  fr_payload :: "u8 list option"
  fr_payload_len :: nat

definition frame_zero :: tn_frame_t where
  "frame_zero = \<lparr>fr_version = 0, fr_type = 0, fr_flags = 0, fr_src = 0, fr_dst = 0, fr_seq = 0,
     fr_net_id = 0, fr_hop_limit = 0, fr_sec = 0, fr_prev = 0, fr_payload = None, fr_payload_len = 0\<rparr>"

section \<open>Frames\<close>

definition tn_frame_encode :: "u8 list \<Rightarrow> nat \<Rightarrow> tn_frame_t \<Rightarrow> nat \<times> u8 list" where
  "tn_frame_encode buf cap frame =
     (if fr_payload_len frame > 0 \<and> fr_payload frame = None then (0, buf)
      else
        let body = TN_FRAME_HDR + fr_payload_len frame;
            total = body + TN_FRAME_TRAILER
        in if total > cap \<or> total > TREENET_MTU then (0, buf)
           else
             let buf = put_bytes buf 0
                   [push_bit 4 (fr_version frame AND 0x0F) OR (fr_type frame AND 0x0F)];
                 buf = put_bytes buf 1 [fr_flags frame];
                 buf = tn_put_u32 buf 2 (fr_src frame);
                 buf = tn_put_u32 buf 6 (fr_dst frame);
                 buf = tn_put_u16 buf 10 (fr_seq frame);
                 buf = tn_put_u16 buf 12 (fr_net_id frame);
                 buf = put_bytes buf 14 [fr_hop_limit frame];
                 buf = put_bytes buf 15 [fr_sec frame];
                 buf = tn_put_u32 buf TN_FRAME_OFF_PREV (fr_prev frame);
                 buf = (case fr_payload frame of
                          Some p \<Rightarrow> if fr_payload_len frame > 0
                                    then memcpy buf TN_FRAME_HDR p (fr_payload_len frame) else buf
                        | None \<Rightarrow> buf);
                 buf = tn_put_u16 buf body (tn_frame_crc buf body)
             in (total, buf))"

definition tn_frame_decode :: "u8 list option \<Rightarrow> nat \<Rightarrow> tn_frame_t option" where
  "tn_frame_decode bufp len =
     (case bufp of None \<Rightarrow> None
      | Some buf \<Rightarrow>
        if len < TN_FRAME_OVERHEAD then None
        else
          let body = len - TN_FRAME_TRAILER
          in if tn_frame_crc buf body \<noteq> tn_get_u16 buf body then None
             else
               let version = drop_bit 4 (buf ! 0) AND 0x0F;
                   type = buf ! 0 AND 0x0F
               in if version \<noteq> TREENET_PROTOCOL_VERSION then None
                  else
                    let out = \<lparr>fr_version = version, fr_type = type, fr_flags = buf ! 1,
                               fr_src = tn_get_u32 buf 2, fr_dst = tn_get_u32 buf 6,
                               fr_seq = tn_get_u16 buf 10, fr_net_id = tn_get_u16 buf 12,
                               fr_hop_limit = buf ! 14, fr_sec = buf ! 15,
                               fr_prev = tn_get_u32 buf TN_FRAME_OFF_PREV,
                               fr_payload = None, fr_payload_len = 0\<rparr>
                    in if fr_src out = TREENET_ADDR_INVALID \<or> fr_src out = TREENET_ADDR_BROADCAST \<or>
                          fr_dst out = TREENET_ADDR_INVALID
                       then None
                       else Some (out\<lparr>fr_payload := Some (drop TN_FRAME_HDR buf),
                                      fr_payload_len := len - TN_FRAME_OVERHEAD\<rparr>))"

section \<open>Control payloads\<close>

record tn_beacon_payload_t =
  bp_rank :: u16
  bp_parent :: treenet_addr_t
  bp_flags :: u8
  bp_interval_100ms :: u16

definition TN_BEACON_PAYLOAD_LEN :: nat where [config]: "TN_BEACON_PAYLOAD_LEN = 9"

definition TN_BEACON_HAS_PARENT :: u8 where [config]: "TN_BEACON_HAS_PARENT = 0x01"

definition TN_BEACON_ROUTER :: u8 where [config]: "TN_BEACON_ROUTER = 0x02"

record tn_frag_hdr_t =
  fh_dgram_id :: u16
  fh_index :: u8
  fh_count :: u8

definition TN_FRAG_HDR_LEN :: nat where [config]: "TN_FRAG_HDR_LEN = 4"

record tn_dao_payload_t =
  da_origin :: treenet_addr_t
  da_hops :: u8

definition TN_DAO_PAYLOAD_LEN :: nat where [config]: "TN_DAO_PAYLOAD_LEN = 5"

definition tn_beacon_encode :: "u8 list \<Rightarrow> tn_beacon_payload_t \<Rightarrow> u8 list" where
  "tn_beacon_encode out b =
     (let out = tn_put_u16 out 0 (bp_rank b);
          out = tn_put_u32 out 2 (bp_parent b);
          out = put_bytes out 6 [bp_flags b]
      in tn_put_u16 out 7 (bp_interval_100ms b))"

definition tn_beacon_decode :: "u8 list option \<Rightarrow> nat \<Rightarrow> tn_beacon_payload_t option" where
  "tn_beacon_decode inp len =
     (case inp of None \<Rightarrow> None
      | Some p \<Rightarrow>
        if len < TN_BEACON_PAYLOAD_LEN then None
        else Some \<lparr>bp_rank = tn_get_u16 p 0, bp_parent = tn_get_u32 p 2, bp_flags = p ! 6,
                   bp_interval_100ms = tn_get_u16 p 7\<rparr>)"

definition tn_frag_encode :: "u8 list \<Rightarrow> tn_frag_hdr_t \<Rightarrow> u8 list" where
  "tn_frag_encode out f =
     (let out = tn_put_u16 out 0 (fh_dgram_id f);
          out = put_bytes out 2 [fh_index f]
      in put_bytes out 3 [fh_count f])"

definition tn_frag_decode :: "u8 list option \<Rightarrow> nat \<Rightarrow> tn_frag_hdr_t option" where
  "tn_frag_decode inp len =
     (case inp of None \<Rightarrow> None
      | Some p \<Rightarrow>
        if len < TN_FRAG_HDR_LEN then None
        else Some \<lparr>fh_dgram_id = tn_get_u16 p 0, fh_index = p ! 2, fh_count = p ! 3\<rparr>)"

definition tn_dao_encode :: "u8 list \<Rightarrow> tn_dao_payload_t \<Rightarrow> u8 list" where
  "tn_dao_encode out d =
     (let out = tn_put_u32 out 0 (da_origin d)
      in put_bytes out 4 [da_hops d])"

definition tn_dao_decode :: "u8 list option \<Rightarrow> nat \<Rightarrow> tn_dao_payload_t option" where
  "tn_dao_decode inp len =
     (case inp of None \<Rightarrow> None
      | Some p \<Rightarrow>
        if len < TN_DAO_PAYLOAD_LEN then None
        else Some \<lparr>da_origin = tn_get_u32 p 0, da_hops = p ! 4\<rparr>)"

section \<open>The codec interface\<close>

text \<open>
  What a client of a payload codec relies on: the encoder fills exactly \<open>width\<close> bytes of the array
  it is given, the decoder refuses anything shorter and recovers the value from the first
  \<open>width\<close> bytes whatever follows them.
\<close>

locale payload_codec =
  fixes encode :: "u8 list \<Rightarrow> 'a \<Rightarrow> u8 list"
    and decode :: "u8 list option \<Rightarrow> nat \<Rightarrow> 'a option"
    and width :: nat
  assumes encode_length: "length out = width \<Longrightarrow> length (encode out x) = width"
    and decode_encode: "length out = width \<Longrightarrow> width \<le> len \<Longrightarrow> decode (Some (encode out x @ rest)) len = Some x"
    and decode_short: "len < width \<Longrightarrow> decode inp len = None"
    and decode_null: "decode None len = None"
begin

lemma encode_inject:
  assumes "length out = width" and "length out' = width" and "encode out x @ r = encode out' y @ s"
  shows "x = y \<and> r = s"
proof -
  have "decode (Some (encode out x @ r)) width = Some x"
    and "decode (Some (encode out' y @ s)) width = Some y"
    using decode_encode [OF assms(1)] decode_encode [OF assms(2)] by auto
  with assms(3) have "x = y" by simp
  moreover have "length (encode out x) = length (encode out' y)"
    using encode_length assms(1,2) by simp
  ultimately show ?thesis using assms(3) by simp
qed

lemma decode_Some_iff:
  assumes "length out = width"
  shows "decode (Some (encode out x @ rest)) len = Some y \<longleftrightarrow> width \<le> len \<and> y = x"
  using decode_encode [OF assms, of len x rest] decode_short [of len] by (cases "width \<le> len") auto

end

lemma length_eq_numeral_cases:
  "length xs = 4 \<longleftrightarrow> (\<exists>a b c d. xs = [a, b, c, d])"
  "length xs = 5 \<longleftrightarrow> (\<exists>a b c d e. xs = [a, b, c, d, e])"
  "length xs = 9 \<longleftrightarrow> (\<exists>a b c d e f g h i. xs = [a, b, c, d, e, f, g, h, i])"
  by (auto simp: numeral_eq_Suc length_Suc_conv)

interpretation beacon_codec: payload_codec tn_beacon_encode tn_beacon_decode TN_BEACON_PAYLOAD_LEN
proof
  fix out :: "u8 list" and x len rest
  assume out: "length out = TN_BEACON_PAYLOAD_LEN"
  then show "length (tn_beacon_encode out x) = TN_BEACON_PAYLOAD_LEN"
    by (simp add: tn_beacon_encode_def config)
  assume "TN_BEACON_PAYLOAD_LEN \<le> len"
  with out u16_split [of "bp_rank x"] u32_split [of "bp_parent x"] u16_split [of "bp_interval_100ms x"]
  show "tn_beacon_decode (Some (tn_beacon_encode out x @ rest)) len = Some x"
    by (auto simp: tn_beacon_encode_def tn_beacon_decode_def config length_eq_numeral_cases
        tn_put_u16_def tn_put_u32_def tn_get_u16_def tn_get_u32_def put_bytes_def eval_nat_numeral)
qed (auto simp: tn_beacon_decode_def split: option.splits)

interpretation frag_codec: payload_codec tn_frag_encode tn_frag_decode TN_FRAG_HDR_LEN
proof
  fix out :: "u8 list" and x len rest
  assume out: "length out = TN_FRAG_HDR_LEN"
  then show "length (tn_frag_encode out x) = TN_FRAG_HDR_LEN"
    by (simp add: tn_frag_encode_def config)
  assume "TN_FRAG_HDR_LEN \<le> len"
  with out u16_split [of "fh_dgram_id x"]
  show "tn_frag_decode (Some (tn_frag_encode out x @ rest)) len = Some x"
    by (auto simp: tn_frag_encode_def tn_frag_decode_def config length_eq_numeral_cases
        tn_put_u16_def tn_get_u16_def put_bytes_def eval_nat_numeral)
qed (auto simp: tn_frag_decode_def split: option.splits)

interpretation dao_codec: payload_codec tn_dao_encode tn_dao_decode TN_DAO_PAYLOAD_LEN
proof
  fix out :: "u8 list" and x len rest
  assume out: "length out = TN_DAO_PAYLOAD_LEN"
  then show "length (tn_dao_encode out x) = TN_DAO_PAYLOAD_LEN"
    by (simp add: tn_dao_encode_def config)
  assume "TN_DAO_PAYLOAD_LEN \<le> len"
  with out u32_split [of "da_origin x"]
  show "tn_dao_decode (Some (tn_dao_encode out x @ rest)) len = Some x"
    by (auto simp: tn_dao_encode_def tn_dao_decode_def config length_eq_numeral_cases
        tn_put_u32_def tn_get_u32_def put_bytes_def eval_nat_numeral)
qed (auto simp: tn_dao_decode_def split: option.splits)

text \<open>
  Control payloads. The decoders of the beacon, fragment and destination-advertisement
  payloads recover exactly the value the matching encoder wrote, from any buffer that starts with
  the encoded bytes, as soon as the announced length covers the payload; and they refuse every
  shorter length.
\<close>

theorem payload_codecs_round_trip:
  "length ob = TN_BEACON_PAYLOAD_LEN \<Longrightarrow> length fo = TN_FRAG_HDR_LEN \<Longrightarrow> length od = TN_DAO_PAYLOAD_LEN \<Longrightarrow>
   tn_beacon_decode (Some (tn_beacon_encode ob b @ rest)) len =
     (if TN_BEACON_PAYLOAD_LEN \<le> len then Some b else None) \<and>
   tn_frag_decode (Some (tn_frag_encode fo f @ rest)) len =
     (if TN_FRAG_HDR_LEN \<le> len then Some f else None) \<and>
   tn_dao_decode (Some (tn_dao_encode od d @ rest)) len =
     (if TN_DAO_PAYLOAD_LEN \<le> len then Some d else None)"
  by (simp add: beacon_codec.decode_encode beacon_codec.decode_short frag_codec.decode_encode
      frag_codec.decode_short dao_codec.decode_encode dao_codec.decode_short)

theorem payload_codecs_round_trip_witness:
  "tn_beacon_decode (Some (tn_beacon_encode (replicate 9 0)
       \<lparr>bp_rank = 8, bp_parent = 1, bp_flags = 3, bp_interval_100ms = 30\<rparr> @ [7])) 10 =
     Some \<lparr>bp_rank = 8, bp_parent = 1, bp_flags = 3, bp_interval_100ms = 30\<rparr> \<and>
   tn_frag_decode (Some (tn_frag_encode (replicate 4 0)
       \<lparr>fh_dgram_id = 5, fh_index = 1, fh_count = 2\<rparr> @ [7])) 10 =
     Some \<lparr>fh_dgram_id = 5, fh_index = 1, fh_count = 2\<rparr> \<and>
   tn_dao_decode (Some (tn_dao_encode (replicate 5 0) \<lparr>da_origin = 3, da_hops = 4\<rparr> @ [7])) 10 =
     Some \<lparr>da_origin = 3, da_hops = 4\<rparr>"
  using payload_codecs_round_trip [of "replicate 9 0" "replicate 4 0" "replicate 5 0"
      "\<lparr>bp_rank = 8, bp_parent = 1, bp_flags = 3, bp_interval_100ms = 30\<rparr>" "[7]" 10
      "\<lparr>fh_dgram_id = 5, fh_index = 1, fh_count = 2\<rparr>" "\<lparr>da_origin = 3, da_hops = 4\<rparr>"]
  by (simp add: config)

section \<open>The wire image of a frame\<close>

definition u16_bytes :: "u16 \<Rightarrow> u8 list" where
  "u16_bytes v = [ucast (v AND 0xFF), ucast (drop_bit 8 v AND 0xFF)]"

definition u32_bytes :: "u32 \<Rightarrow> u8 list" where
  "u32_bytes v = [ucast (v AND 0xFF), ucast (drop_bit 8 v AND 0xFF),
                  ucast (drop_bit 16 v AND 0xFF), ucast (drop_bit 24 v AND 0xFF)]"

text \<open>The payload bytes a frame denotes.\<close>

definition frame_data :: "tn_frame_t \<Rightarrow> u8 list" where
  "frame_data f = (case fr_payload f of None \<Rightarrow> [] | Some p \<Rightarrow> take (fr_payload_len f) p)"

definition frame_header :: "tn_frame_t \<Rightarrow> u8 list" where
  "frame_header f = [push_bit 4 (fr_version f AND 0x0F) OR (fr_type f AND 0x0F), fr_flags f] @
     u32_bytes (fr_src f) @ u32_bytes (fr_dst f) @ u16_bytes (fr_seq f) @ u16_bytes (fr_net_id f) @
     [fr_hop_limit f, fr_sec f] @ u32_bytes (fr_prev f)"

definition frame_body :: "tn_frame_t \<Rightarrow> u8 list" where
  "frame_body f = frame_header f @ frame_data f"

definition frame_wire :: "tn_frame_t \<Rightarrow> u8 list" where
  "frame_wire f = frame_body f @ u16_bytes (crc16_ccitt_false (frame_body f))"

text \<open>The payload pointer covers the announced length.\<close>

definition payload_ok :: "tn_frame_t \<Rightarrow> bool" where
  "payload_ok f = (case fr_payload f of None \<Rightarrow> fr_payload_len f = 0 | Some p \<Rightarrow> fr_payload_len f \<le> length p)"

lemma length_frame_data: "payload_ok f \<Longrightarrow> length (frame_data f) = fr_payload_len f"
  by (auto simp: frame_data_def payload_ok_def split: option.splits)

lemma length_bytes [simp]: "length (u16_bytes v) = 2" "length (u32_bytes w) = 4"
  by (simp_all add: u16_bytes_def u32_bytes_def)

lemma length_frame_header [simp]: "length (frame_header f) = 20"
  by (simp add: frame_header_def)

lemma length_frame_body: "payload_ok f \<Longrightarrow> length (frame_body f) = 20 + fr_payload_len f"
  by (simp add: frame_body_def length_frame_data)

lemma length_frame_wire: "payload_ok f \<Longrightarrow> length (frame_wire f) = 22 + fr_payload_len f"
  by (simp add: frame_wire_def length_frame_body)

lemma tn_put_bytes: "tn_put_u16 p off v = put_bytes p off (u16_bytes v)"
    "tn_put_u32 p off w = put_bytes p off (u32_bytes w)"
  by (simp_all add: tn_put_u16_def tn_put_u32_def u16_bytes_def u32_bytes_def)

lemma tn_frame_encode_fail:
  "22 + fr_payload_len f > min cap TREENET_MTU \<Longrightarrow> tn_frame_encode buf cap f = (0, buf)"
  by (auto simp: tn_frame_encode_def config Let_def min_def split: if_splits)

text \<open>The field-by-field writes of the encoder put the header, and with the payload the body, in front of the buffer.\<close>

lemma header_written:
  "put_bytes (put_bytes (put_bytes (put_bytes (put_bytes (put_bytes (put_bytes (put_bytes
       (put_bytes buf 0 [push_bit 4 (fr_version f AND 0x0F) OR (fr_type f AND 0x0F)]) 1 [fr_flags f])
       2 (u32_bytes (fr_src f))) 6 (u32_bytes (fr_dst f))) 10 (u16_bytes (fr_seq f)))
       12 (u16_bytes (fr_net_id f))) 14 [fr_hop_limit f]) 15 [fr_sec f]) 16 (u32_bytes (fr_prev f)) =
     put_bytes buf 0 (frame_header f)"
  by (simp add: put_bytes_put_bytes_adjacent frame_header_def)

lemma body_written:
  assumes "payload_ok f"
  shows "(case fr_payload f of
       Some p \<Rightarrow> if fr_payload_len f > 0 then memcpy (put_bytes buf 0 (frame_header f)) 20 p (fr_payload_len f)
                 else put_bytes buf 0 (frame_header f)
     | None \<Rightarrow> put_bytes buf 0 (frame_header f)) = put_bytes buf 0 (frame_body f)"
  using assms
  by (auto simp: frame_body_def frame_data_def memcpy_def put_bytes_put_bytes_adjacent payload_ok_def split: option.splits)

lemma tn_frame_encode_wire:
  assumes "payload_ok f" and "22 + fr_payload_len f \<le> min cap TREENET_MTU" and "cap \<le> length buf"
  shows "tn_frame_encode buf cap f = (22 + fr_payload_len f, put_bytes buf 0 (frame_wire f))"
proof -
  let ?len = "fr_payload_len f"
  have crc: "tn_frame_crc (put_bytes buf 0 (frame_body f)) (20 + ?len) = crc16_ccitt_false (frame_body f)"
    using assms by (simp add: tn_frame_crc_def crc16_ccitt_false_def crc_byte_step_eq [abs_def]
        take_put_bytes_exact length_frame_body)
  have "\<not> (?len > 0 \<and> fr_payload f = None)" using assms(1) by (auto simp: payload_ok_def)
  moreover have "\<not> (22 + ?len > cap \<or> 22 + ?len > TREENET_MTU)" "20 + ?len + 2 = 22 + ?len"
    using assms(2) by auto
  ultimately show ?thesis
    unfolding tn_frame_encode_def Let_def TN_FRAME_HDR_def TN_FRAME_TRAILER_def TN_FRAME_OFF_PREV_def
      tn_put_bytes header_written body_written [OF assms(1)] crc
    by (simp add: put_bytes_put_bytes_adjacent length_frame_body [OF assms(1)] frame_wire_def)
qed

section \<open>Decoding\<close>

lemma nibbles:
  fixes v t :: u8
  shows "drop_bit 4 (push_bit 4 (v AND 0x0F) OR (t AND 0x0F)) AND 0x0F = v AND 0x0F"
    and "(push_bit 4 (v AND 0x0F) OR (t AND 0x0F)) AND 0x0F = t AND 0x0F"
  unfolding and_0x0F by (rule bit_word_eqI, auto simp: bit_simps)+

lemma nibbles_join:
  fixes v :: u8
  shows "push_bit 4 ((drop_bit 4 v AND 0x0F) AND 0x0F) OR ((v AND 0x0F) AND 0x0F) = v"
  unfolding and_0x0F
proof (rule bit_word_eqI)
  fix n assume "n < LENGTH(8)"
  then consider "n < 4" | "n \<in> {4, 5, 6, 7}" by fastforce
  then show "bit (push_bit 4 (take_bit 4 (take_bit 4 (drop_bit 4 v))) OR take_bit 4 (take_bit 4 v)) n = bit v n"
    by cases (auto simp: bit_simps)
qed

lemma get_u16_bytes [simp]:
  "tn_get_u16 (xs @ u16_bytes v @ ys) (length xs) = v"
  "n = length xs \<Longrightarrow> tn_get_u16 (xs @ u16_bytes v) n = v"
  using u16_split [of v] by (simp_all add: tn_get_u16_def u16_bytes_def nth_append)

text \<open>
  What the decoder requires of the fields: the protocol version, a type that fits its nibble, a
  source that is an individual address and a destination that is not the invalid address.
\<close>

definition frame_fields_ok :: "tn_frame_t \<Rightarrow> bool" where
  "frame_fields_ok f \<longleftrightarrow> fr_version f = TREENET_PROTOCOL_VERSION \<and> fr_type f AND 0x0F = fr_type f \<and>
     fr_src f \<noteq> TREENET_ADDR_INVALID \<and> fr_src f \<noteq> TREENET_ADDR_BROADCAST \<and>
     fr_dst f \<noteq> TREENET_ADDR_INVALID"

lemma frame_header_fields:
  shows "(frame_header f @ r) ! 0 = push_bit 4 (fr_version f AND 0x0F) OR (fr_type f AND 0x0F)"
    and "(frame_header f @ r) ! Suc 0 = fr_flags f"
    and "tn_get_u32 (frame_header f @ r) 2 = fr_src f"
    and "tn_get_u32 (frame_header f @ r) 6 = fr_dst f"
    and "tn_get_u16 (frame_header f @ r) 10 = fr_seq f"
    and "tn_get_u16 (frame_header f @ r) 12 = fr_net_id f"
    and "(frame_header f @ r) ! 14 = fr_hop_limit f"
    and "(frame_header f @ r) ! 15 = fr_sec f"
    and "tn_get_u32 (frame_header f @ r) 16 = fr_prev f"
  using u32_split [of "fr_src f"] u32_split [of "fr_dst f"] u16_split [of "fr_seq f"]
    u16_split [of "fr_net_id f"] u32_split [of "fr_prev f"]
  by (simp_all add: frame_header_def u32_bytes_def u16_bytes_def tn_get_u16_def tn_get_u32_def)

lemma tn_frame_decode_wire:
  assumes "payload_ok f" and "frame_fields_ok f"
  shows "tn_frame_decode (Some (frame_wire f @ rest)) (22 + fr_payload_len f) =
    Some (f\<lparr>fr_payload := Some (frame_data f @ u16_bytes (crc16_ccitt_false (frame_body f)) @ rest)\<rparr>)"
proof -
  let ?n = "fr_payload_len f" and ?c = "u16_bytes (crc16_ccitt_false (frame_body f))"
  have body: "frame_wire f @ rest = frame_header f @ frame_data f @ ?c @ rest"
    by (simp add: frame_wire_def frame_body_def)
  have "tn_frame_crc (frame_wire f @ rest) (20 + ?n) = crc16_ccitt_false (frame_body f)"
    using length_frame_body [OF assms(1)]
    by (simp add: tn_frame_crc_def crc16_ccitt_false_def crc_byte_step_eq [abs_def] frame_wire_def)
  moreover have "tn_get_u16 (frame_wire f @ rest) (20 + ?n) = crc16_ccitt_false (frame_body f)"
    using length_frame_body [OF assms(1)] get_u16_bytes(1) [of "frame_body f" _ rest]
    by (simp add: frame_wire_def)
  moreover have "drop_bit 4 ((frame_header f @ r) ! 0) AND 0x0F = TREENET_PROTOCOL_VERSION"
      "(frame_header f @ r) ! 0 AND 0x0F = fr_type f" for r
    using assms(2) unfolding frame_header_fields(1) nibbles by (auto simp: frame_fields_ok_def config)
  ultimately show ?thesis
    using assms(2) unfolding tn_frame_decode_def frame_fields_ok_def body
    by (simp add: config frame_header_fields(2-) Let_def)
qed

definition frame_example :: tn_frame_t where
  "frame_example = \<lparr>fr_version = 1, fr_type = 1, fr_flags = 1, fr_src = 7, fr_dst = 9, fr_seq = 258,
     fr_net_id = 0x4D54, fr_hop_limit = 8, fr_sec = 0, fr_prev = 7, fr_payload = Some [1, 2, 3],
     fr_payload_len = 3\<rparr>"

lemma u16_bytes_get:
  assumes "off + 2 \<le> length p"
  shows "u16_bytes (tn_get_u16 p off) = take 2 (drop off p)"
proof -
  have "take 2 (drop off p) = [p ! off, p ! (off + 1)]"
    using assms by (simp add: list_eq_iff_nth_eq nth_Cons' numeral_2_eq_2 less_Suc_eq)
  moreover have "ucast (tn_get_u16 p off AND 0xFF) = p ! off"
    "ucast (drop_bit 8 (tn_get_u16 p off) AND 0xFF) = p ! (off + 1)"
    unfolding tn_get_u16_def and_0xFF
    by (rule bit_word_eqI, auto simp: bit_simps dest: bit_imp_le_length)+
  ultimately show ?thesis by (simp add: u16_bytes_def)
qed

lemma u32_bytes_get:
  assumes "off + 4 \<le> length p"
  shows "u32_bytes (tn_get_u32 p off) = take 4 (drop off p)"
proof -
  have "take 4 (drop off p) = [p ! off, p ! (off + 1), p ! (off + 2), p ! (off + 3)]"
    using assms by (auto simp: list_eq_iff_nth_eq nth_Cons' eval_nat_numeral less_Suc_eq)
  moreover have "ucast (tn_get_u32 p off AND 0xFF) = p ! off"
    "ucast (drop_bit 8 (tn_get_u32 p off) AND 0xFF) = p ! (off + 1)"
    "ucast (drop_bit 16 (tn_get_u32 p off) AND 0xFF) = p ! (off + 2)"
    "ucast (drop_bit 24 (tn_get_u32 p off) AND 0xFF) = p ! (off + 3)"
    unfolding tn_get_u32_def and_0xFF
    by (rule bit_word_eqI, auto simp: bit_simps dest: bit_imp_le_length)+
  ultimately show ?thesis by (simp add: u32_bytes_def)
qed

lemma tn_frame_decode_fields:
  assumes "tn_frame_decode (Some buf) len = Some f"
  shows "22 \<le> len" and "frame_fields_ok f" and "fr_payload_len f = len - 22"
    and "fr_payload f = Some (drop 20 buf)"
    and "tn_get_u16 buf (len - 2) = crc16_ccitt_false (take (len - 2) buf)"
  using assms
  by (auto simp: tn_frame_decode_def Let_def config frame_fields_ok_def and.assoc tn_frame_crc_def
      crc16_ccitt_false_def crc_byte_step_eq [abs_def] split: if_splits)

lemma tn_frame_decode_header:
  assumes "tn_frame_decode (Some buf) len = Some f" and "len \<le> length buf"
  shows "frame_header f = take 20 buf"
proof -
  have len: "22 \<le> length buf" using assms tn_frame_decode_fields(1) by fastforce
  have f: "fr_version f = drop_bit 4 (buf ! 0) AND 0x0F" "fr_type f = buf ! 0 AND 0x0F"
    "fr_flags f = buf ! 1" "fr_src f = tn_get_u32 buf 2" "fr_dst f = tn_get_u32 buf 6"
    "fr_seq f = tn_get_u16 buf 10" "fr_net_id f = tn_get_u16 buf 12" "fr_hop_limit f = buf ! 14"
    "fr_sec f = buf ! 15" "fr_prev f = tn_get_u32 buf 16"
    using assms(1) by (auto simp: tn_frame_decode_def Let_def config split: if_splits)
  have two: "take 2 buf = [buf ! 0, buf ! 1]" "take 2 (drop 14 buf) = [buf ! 14, buf ! 15]"
    using len by (auto simp: list_eq_iff_nth_eq nth_Cons' eval_nat_numeral less_Suc_eq)
  have "frame_header f = take 2 buf @ take 4 (drop 2 buf) @ take 4 (drop 6 buf) @ take 2 (drop 10 buf) @
      take 2 (drop 12 buf) @ take 2 (drop 14 buf) @ take 4 (drop 16 buf)"
    unfolding frame_header_def f nibbles_join two using len
    by (simp add: u32_bytes_get u16_bytes_get)
  also have "\<dots> = take 20 buf"
    using take_add [of 16 4 buf] take_add [of 14 2 buf] take_add [of 12 2 buf] take_add [of 10 2 buf]
      take_add [of 6 4 buf] take_add [of 2 4 buf] by simp
  finally show ?thesis .
qed

lemma take_trailer: "2 \<le> len \<Longrightarrow> take len xs = take (len - 2) xs @ take 2 (drop (len - 2) xs)"
  using take_add [of "len - 2" 2 xs] by (simp only: le_add_diff_inverse2)

text \<open>
  Property C21: the decoder accepts a received buffer exactly when its bytes are the wire image
  (header, payload, CRC-16 of both) of a frame with valid fields, and then returns that frame with
  the payload pointer set into the buffer. Every other buffer, short ones included, is refused.
\<close>

theorem frame_decode_iff:
  assumes "len \<le> length buf"
  shows "tn_frame_decode (Some buf) len = Some f \<longleftrightarrow>
    TN_FRAME_OVERHEAD \<le> len \<and> take len buf = frame_wire f \<and> frame_fields_ok f \<and>
    fr_payload f = Some (drop TN_FRAME_HDR buf) \<and> fr_payload_len f = len - TN_FRAME_OVERHEAD"
    (is "?d \<longleftrightarrow> ?w")
proof
  assume d: ?d
  note fields = tn_frame_decode_fields [OF d]
  have data: "frame_data f = take (len - 22) (drop 20 buf)"
    using fields(3,4) by (simp add: frame_data_def)
  have body: "frame_body f = take (len - 2) buf"
    using take_add [of 20 "len - 22" buf] fields(1)
    by (simp add: frame_body_def data tn_frame_decode_header [OF d assms])
  have "u16_bytes (crc16_ccitt_false (frame_body f)) = take 2 (drop (len - 2) buf)"
    using fields(1,5) assms u16_bytes_get [of "len - 2" buf] by (simp add: body)
  then have "take len buf = frame_wire f"
    using take_trailer [of len buf] fields(1) by (simp add: frame_wire_def body)
  with fields show ?w by (simp add: config)
next
  assume w: ?w
  have "payload_ok f" using w assms by (auto simp: payload_ok_def config)
  moreover have buf: "buf = frame_wire f @ drop len buf" using w by (metis append_take_drop_id)
  moreover have "drop 20 buf = frame_data f @ u16_bytes (crc16_ccitt_false (frame_body f)) @ drop len buf"
    by (subst buf) (simp add: frame_wire_def frame_body_def)
  moreover have "22 + fr_payload_len f = len" using w by (simp add: config)
  ultimately show ?d
    using tn_frame_decode_wire [of f "drop len buf"] w by (simp add: config)
qed

definition wire_example :: "u8 list" where
  "wire_example = [0x11, 1, 7, 0, 0, 0, 9, 0, 0, 0, 2, 1, 0x54, 0x4D, 8, 0, 7, 0, 0, 0, 1, 2, 3] @
     u16_bytes (tn_frame_crc
       [0x11, 1, 7, 0, 0, 0, 9, 0, 0, 0, 2, 1, 0x54, 0x4D, 8, 0, 7, 0, 0, 0, 1, 2, 3] 23)"

theorem frame_decode_iff_witness:
  "tn_frame_decode (Some wire_example) 25 = Some (frame_example\<lparr>fr_payload := Some (drop 20 wire_example)\<rparr>) \<and>
   take 25 wire_example = frame_wire (frame_example\<lparr>fr_payload := Some (drop 20 wire_example)\<rparr>)"
proof -
  let ?f = "frame_example\<lparr>fr_payload := Some (drop 20 wire_example)\<rparr>"
  have "25 \<le> length wire_example" by code_simp
  moreover have "tn_frame_decode (Some wire_example) 25 = Some ?f" by code_simp
  ultimately show ?thesis using frame_decode_iff [of 25 wire_example ?f] by blast
qed

lemma xor_zeros: "map2 (XOR) xs (replicate (length xs) 0) = (xs :: u8 list)"
  by (induction xs) auto

lemma take_put_burst:
  assumes "i + 3 \<le> m" and "m \<le> length buf"
  shows "take m (put_bytes buf i (xor_bytes (take 3 (drop i buf)) (burst_bytes k e))) =
    xor_bytes (take m buf) (replicate i 0 @ burst_bytes k e @ replicate (m - (i + 3)) 0)"
proof -
  let ?a = "take i buf" and ?b = "take 3 (drop i buf)" and ?c = "take (m - (i + 3)) (drop (i + 3) buf)"
  have len: "length ?a = i" "length ?b = 3" "length ?c = m - (i + 3)" using assms by simp_all
  have "take m (put_bytes buf i (xor_bytes ?b (burst_bytes k e))) = ?a @ xor_bytes ?b (burst_bytes k e) @ ?c"
    using assms len by (simp add: put_bytes_def ac_simps)
  moreover have "take m buf = ?a @ ?b @ ?c"
    using take_add [of "i + 3" "m - (i + 3)" buf] take_add [of i 3 buf] assms(1) by simp
  moreover have "xor_bytes (?a @ ?b @ ?c) (replicate i 0 @ burst_bytes k e @ replicate (m - (i + 3)) 0) =
      ?a @ xor_bytes ?b (burst_bytes k e) @ ?c"
    using xor_zeros [of ?a] xor_zeros [of ?c] len by (simp add: xor_bytes_def)
  ultimately show ?thesis by simp
qed

lemma decode_None_if_crc:
  "tn_get_u16 buf (len - 2) \<noteq> crc_run 0xFFFF (take (len - 2) buf) \<Longrightarrow> tn_frame_decode (Some buf) len = None"
  using tn_frame_decode_fields(5) [of buf len]
  by (cases "tn_frame_decode (Some buf) len")
    (auto simp: crc16_ccitt_false_def crc_run_def crc_byte_step_eq [abs_def])

lemma burst_refused:
  assumes "tn_frame_decode (Some buf) len = Some f" and "len \<le> length buf"
    and "k \<le> 8" and "e \<noteq> 0" and "i + 3 \<le> len - 2"
  shows "tn_frame_decode (Some (put_bytes buf i (xor_bytes (take 3 (drop i buf)) (burst_bytes k e)))) len = None"
    (is "tn_frame_decode (Some ?b) len = None")
proof (rule decode_None_if_crc)
  note fields = tn_frame_decode_fields [OF assms(1)]
  have x3: "length (xor_bytes (take 3 (drop i buf)) (burst_bytes k e)) = 3"
    using assms(2,5) by simp
  have "tn_get_u16 ?b (len - 2) = tn_get_u16 buf (len - 2)"
    using fields(1) assms(2,5) x3 by (intro tn_get_u16_cong; subst nth_put_bytes; simp)
  also have "\<dots> = crc_run 0xFFFF (take (len - 2) buf)"
    using fields(5) by (simp add: crc16_ccitt_false_def crc_run_def crc_byte_step_eq [abs_def])
  also have "\<dots> \<noteq> crc_run 0xFFFF (take (len - 2) ?b)"
    using assms crc_detects_burst [OF assms(3,4), of "take (len - 2) buf" i "len - 2 - (i + 3)" "0xFFFF"]
    by (simp add: take_put_burst)
  finally show "tn_get_u16 ?b (len - 2) \<noteq> crc_run 0xFFFF (take (len - 2) ?b)" .
qed

lemma trailer_change_refused:
  assumes "tn_frame_decode (Some buf) len = Some f" and "len \<le> length buf"
    and "take (len - 2) buf' = take (len - 2) buf" and "len \<le> length buf'" and "take len buf' \<noteq> take len buf"
  shows "tn_frame_decode (Some buf') len = None"
proof (rule decode_None_if_crc)
  note fields = tn_frame_decode_fields [OF assms(1)]
  have "take 2 (drop (len - 2) buf') \<noteq> take 2 (drop (len - 2) buf)"
    using assms(3,5) fields(1) take_trailer [of len buf] take_trailer [of len buf'] by auto
  moreover have "u16_bytes (tn_get_u16 b (len - 2)) = take 2 (drop (len - 2) b)" if "len \<le> length b" for b
    using that fields(1) by (intro u16_bytes_get) linarith
  ultimately have "tn_get_u16 buf' (len - 2) \<noteq> tn_get_u16 buf (len - 2)"
    using assms(2,4) by metis
  then show "tn_get_u16 buf' (len - 2) \<noteq> crc_run 0xFFFF (take (len - 2) buf')"
    using fields(5) assms(3)
    by (simp add: crc16_ccitt_false_def crc_run_def crc_byte_step_eq [abs_def])
qed

text \<open>
  Property C22: corruption. A frame that was sent intact is refused by the decoder after any burst
  error of up to 16 consecutive bits inside the header and payload (\<open>burst_bytes\<close> xored onto three
  bytes, at any bit offset), and after any change confined to the two checksum bytes.
\<close>

theorem frame_corruption_detected:
  assumes "tn_frame_decode (Some buf) len = Some f" and "len \<le> length buf"
  shows "(\<forall>k e i. k \<le> 8 \<and> e \<noteq> 0 \<and> i + 3 \<le> len - TN_FRAME_TRAILER \<longrightarrow>
      tn_frame_decode (Some (put_bytes buf i (xor_bytes (take 3 (drop i buf)) (burst_bytes k e)))) len = None) \<and>
    (\<forall>buf'. take (len - TN_FRAME_TRAILER) buf' = take (len - TN_FRAME_TRAILER) buf \<and> len \<le> length buf' \<and>
      take len buf' \<noteq> take len buf \<longrightarrow> tn_frame_decode (Some buf') len = None)"
  using burst_refused [OF assms] trailer_change_refused [OF assms] by (simp add: TN_FRAME_TRAILER_def)

theorem frame_corruption_detected_witness:
  "tn_frame_decode (Some wire_example) 25 = Some (frame_example\<lparr>fr_payload := Some (drop 20 wire_example)\<rparr>) \<and>
   tn_frame_decode (Some (put_bytes wire_example 5
     (xor_bytes (take 3 (drop 5 wire_example)) (burst_bytes 3 0xB00D)))) 25 = None"
proof -
  have len: "25 \<le> length wire_example" by code_simp
  have "tn_frame_decode (Some wire_example) 25 = Some (frame_example\<lparr>fr_payload := Some (drop 20 wire_example)\<rparr>)"
    by code_simp
  from this frame_corruption_detected [OF this len] show ?thesis
    by (simp add: TN_FRAME_TRAILER_def)
qed

end
