(* ===== verification/Tn_Ewma.thy ===== *)
theory Tn_Ewma
  imports Tn_Util
begin

text \<open>
  \<open>src/core/ewma.h\<close>: the exponentially weighted moving average of the link metrics. The state
  keeps the average scaled by \<open>2 ^ TREENET_EWMA_SHIFT\<close>; the division truncates towards zero
  (C99) and the right shift of the signed value rounds down. The value is an \<open>int32_t\<close> of the
  source: \<open>ewma_hull\<close> shows that with 16-bit samples it never leaves that range.
\<close>

record tn_ewma16_t =
  ew_value :: int
  ew_init :: bool

definition ewma_zero :: tn_ewma16_t where
  "ewma_zero = \<lparr>ew_value = 0, ew_init = False\<rparr>"

definition tn_ewma16_reset :: "tn_ewma16_t \<Rightarrow> tn_ewma16_t" where
  "tn_ewma16_reset e = e\<lparr>ew_value := 0, ew_init := False\<rparr>"

definition tn_ewma16_push :: "tn_ewma16_t \<Rightarrow> int \<Rightarrow> int \<times> tn_ewma16_t" where
  "tn_ewma16_push e sample =
     (let shift = TREENET_EWMA_SHIFT;
          d = 2 ^ TREENET_EWMA_SHIFT;
          e' = (if \<not> ew_init e then e\<lparr>ew_value := sample * 2 ^ shift, ew_init := True\<rparr>
                else e\<lparr>ew_value := ew_value e + (sample * 2 ^ shift - ew_value e) sdiv d\<rparr>)
      in (ew_value e' div 2 ^ shift, e'))"

definition tn_ewma16_get :: "tn_ewma16_t \<Rightarrow> int" where
  "tn_ewma16_get e = (if \<not> ew_init e then 0 else ew_value e div 2 ^ TREENET_EWMA_SHIFT)"

abbreviation ewma_push :: "tn_ewma16_t \<Rightarrow> int \<Rightarrow> tn_ewma16_t" where
  "ewma_push e sample \<equiv> snd (tn_ewma16_push e sample)"

section \<open>The average stays inside the hull of its samples\<close>

definition ewma_within :: "int \<Rightarrow> int \<Rightarrow> tn_ewma16_t \<Rightarrow> bool" where
  "ewma_within lo hi e \<longleftrightarrow>
     ew_init e \<longrightarrow> lo * 2 ^ TREENET_EWMA_SHIFT \<le> ew_value e \<and>
                  ew_value e \<le> hi * 2 ^ TREENET_EWMA_SHIFT"

lemma sdiv_pos_cases:
  "0 < (b :: int) \<Longrightarrow> a sdiv b = (if 0 \<le> a then a div b else - (- a div b))"
  by (auto simp: signed_divide_int_def sgn_if)

lemma sdiv_between:
  assumes "0 < (d :: int)"
  shows "0 \<le> a \<Longrightarrow> 0 \<le> a sdiv d \<and> a sdiv d \<le> a"
    and "a \<le> 0 \<Longrightarrow> a \<le> a sdiv d \<and> a sdiv d \<le> 0"
proof -
  have *: "0 \<le> x div d \<and> x div d \<le> x" if "0 \<le> x" for x
    using that assms zdiv_mono2 [of x 1 d] by (simp add: pos_imp_zdiv_nonneg_iff)
  show "0 \<le> a \<Longrightarrow> 0 \<le> a sdiv d \<and> a sdiv d \<le> a"
    using * [of a] assms by (simp add: sdiv_pos_cases)
  show "a \<le> 0 \<Longrightarrow> a \<le> a sdiv d \<and> a sdiv d \<le> 0"
    using * [of "- a"] assms by (auto simp: sdiv_pos_cases)
qed

lemma ewma_init_push [simp]: "ew_init (ewma_push e s)"
  by (simp add: tn_ewma16_push_def Let_def)

lemma ewma_value_push:
  "ew_value (ewma_push e s) =
     (if ew_init e then ew_value e + (s * 8 - ew_value e) sdiv 8 else s * 8)"
  by (simp add: tn_ewma16_push_def Let_def config)

lemma ewma_push_fst [simp]: "fst (tn_ewma16_push e s) = tn_ewma16_get (ewma_push e s)"
  by (simp add: tn_ewma16_push_def tn_ewma16_get_def Let_def)

lemma ewma_within_zero [simp]: "ewma_within lo hi ewma_zero"
  by (simp add: ewma_within_def ewma_zero_def)

lemma ewma_within_push:
  assumes "ewma_within lo hi e" and "lo \<le> s" and "s \<le> hi"
  shows "ewma_within lo hi (ewma_push e s)"
proof (cases "ew_init e")
  case True
  then have "lo * 8 \<le> ew_value e" and "ew_value e \<le> hi * 8"
    using assms(1) by (simp_all add: ewma_within_def config)
  moreover have "0 \<le> s * 8 - ew_value e \<or> s * 8 - ew_value e \<le> 0" by linarith
  ultimately show ?thesis
    using True assms(2,3) sdiv_between [of 8 "s * 8 - ew_value e"]
    by (simp add: ewma_within_def ewma_value_push config) linarith
next
  case False
  with assms show ?thesis by (simp add: ewma_within_def ewma_value_push config)
qed

lemma ewma_within_get:
  assumes "ewma_within lo hi e" and "ew_init e"
  shows "lo \<le> tn_ewma16_get e \<and> tn_ewma16_get e \<le> hi"
  using assms by (auto simp: ewma_within_def tn_ewma16_get_def config)

lemma ewma_within_fold:
  "ewma_within lo hi e \<Longrightarrow> \<forall>s\<in>set ss. lo \<le> s \<and> s \<le> hi \<Longrightarrow>
   ewma_within lo hi (fold (\<lambda>s e. ewma_push e s) ss e)"
  by (induction ss arbitrary: e) (auto intro: ewma_within_push)

text \<open>
  The moving average never overflows and never leaves the range of its samples.
  After any non-empty sequence of 16-bit samples that all lie between \<open>lo\<close> and \<open>hi\<close>, the smoothed
  value lies between \<open>lo\<close> and \<open>hi\<close>, and the internal scaled value fits the \<open>int32_t\<close> it is kept in.
\<close>

lemma ewma_hull:
  assumes "ss \<noteq> []" and "\<forall>s\<in>set ss. lo \<le> s \<and> s \<le> hi"
    and "- 32768 \<le> lo" and "hi \<le> 32767"
  shows "lo \<le> tn_ewma16_get (fold (\<lambda>s e. ewma_push e s) ss ewma_zero) \<and>
         tn_ewma16_get (fold (\<lambda>s e. ewma_push e s) ss ewma_zero) \<le> hi \<and>
         \<bar>ew_value (fold (\<lambda>s e. ewma_push e s) ss ewma_zero)\<bar> < 2 ^ 31"
proof -
  let ?e = "fold (\<lambda>s e. ewma_push e s) ss ewma_zero"
  have within: "ewma_within lo hi ?e"
    using assms(2) by (intro ewma_within_fold) simp_all
  have init: "ew_init ?e"
    using assms(1) by (induction ss rule: rev_induct) simp_all
  show ?thesis
    using ewma_within_get [OF within init] within init assms(3,4)
    by (auto simp: ewma_within_def config)
qed

section \<open>Convergence\<close>

definition ewma_gap :: "int \<Rightarrow> tn_ewma16_t \<Rightarrow> nat" where
  "ewma_gap s e = nat \<bar>s * 8 - ew_value e\<bar>"

lemma ewma_gap_push:
  assumes "ew_init e"
  shows "ewma_gap s (ewma_push e s) = ewma_gap s e - ewma_gap s e div 8"
proof -
  let ?d = "s * 8 - ew_value e"
  have "\<bar>?d - ?d sdiv 8\<bar> = \<bar>?d\<bar> - \<bar>?d\<bar> div 8"
    using sdiv_between [of 8 ?d] by (auto simp: sdiv_pos_cases)
  then show ?thesis
    using assms by (simp add: ewma_gap_def ewma_value_push nat_diff_distrib nat_div_distrib diff_diff_eq)
qed

lemma ewma_init_iterate:
  "ew_init e \<Longrightarrow> ew_init (((\<lambda>e. ewma_push e s) ^^ n) e)"
  by (induction n) simp_all

lemma ewma_gap_iterate:
  assumes "ew_init e"
  shows "ewma_gap s (((\<lambda>e. ewma_push e s) ^^ n) e) \<le> max 7 (ewma_gap s e - n)"
proof (induction n)
  case (Suc n)
  let ?e = "((\<lambda>e. ewma_push e s) ^^ n) e"
  have "ewma_gap s (ewma_push ?e s) = ewma_gap s ?e - ewma_gap s ?e div 8"
    by (rule ewma_gap_push [OF ewma_init_iterate [OF assms]])
  moreover have "ewma_gap s ?e - ewma_gap s ?e div 8 \<le> max 7 (ewma_gap s ?e - 1)"
    by (cases "ewma_gap s ?e < 8") auto
  ultimately have "ewma_gap s (ewma_push ?e s) \<le> max 7 (ewma_gap s e - Suc n)"
    using Suc.IH by linarith
  then show ?case by simp
qed simp

lemma ewma_get_of_gap:
  "ew_init e \<Longrightarrow> ewma_gap s e \<le> 7 \<Longrightarrow> tn_ewma16_get e \<in> {s - 1, s}"
  by (auto simp: ewma_gap_def tn_ewma16_get_def config)

text \<open>
  The average follows a link that settles. From any initialised state, once the same
  sample \<open>s\<close> has been fed as often as the scaled distance between the average and \<open>s\<close>, the
  smoothed value is \<open>s\<close> or \<open>s - 1\<close> (the truncating division leaves it one below at worst), and it
  stays there.
\<close>

theorem ewma_converges:
  assumes "ew_init e" and "nat \<bar>s * 8 - ew_value e\<bar> \<le> n"
  shows "tn_ewma16_get (((\<lambda>e. ewma_push e s) ^^ n) e) \<in> {s - 1, s}"
proof -
  have "ewma_gap s (((\<lambda>e. ewma_push e s) ^^ n) e) \<le> 7"
    using ewma_gap_iterate [OF assms(1), of s n] assms(2) by (simp add: ewma_gap_def)
  then show ?thesis by (rule ewma_get_of_gap [OF ewma_init_iterate [OF assms(1)]])
qed

theorem ewma_converges_witness:
  "tn_ewma16_get (((\<lambda>e. ewma_push e 256) ^^ 2048) \<lparr>ew_value = 0, ew_init = True\<rparr>) \<in> {255, 256}"
  using ewma_converges [of "\<lparr>ew_value = 0, ew_init = True\<rparr>" 256 2048] by simp

end
