(* ===== verification/Tn_Slots.thy ===== *)
theory Tn_Slots
  imports Tn_Prelude
begin

text \<open>
  Fixed tables whose entries carry a validity flag and a key: the neighbour table and the route
  table of the node. \<open>slot_look\<close> is the finite map such an array stands for; one lemma
  (\<open>slot_look_update\<close>) gives its value after any single-entry store, and \<open>used_slots\<close> counts the
  valid entries. The locale \<open>keyed_table\<close> is the contract a table offers its clients: an upsert
  makes its key present, touches no other key while there is room, and loses at most the victim
  it recycles when there is none.
\<close>

definition slot_look :: "('e \<Rightarrow> bool) \<Rightarrow> ('e \<Rightarrow> 'k) \<Rightarrow> 'e list \<Rightarrow> 'k \<Rightarrow> 'e option" where
  "slot_look valid key xs k = map_option ((!) xs) (find_index (\<lambda>e. valid e \<and> key e = k) xs)"

definition slots_unique :: "('e \<Rightarrow> bool) \<Rightarrow> ('e \<Rightarrow> 'k) \<Rightarrow> 'e list \<Rightarrow> bool" where
  "slots_unique valid key xs \<longleftrightarrow>
     (\<forall>i<length xs. \<forall>j<length xs.
        valid (xs ! i) \<and> valid (xs ! j) \<and> key (xs ! i) = key (xs ! j) \<longrightarrow> i = j)"

definition used_slots :: "('e \<Rightarrow> bool) \<Rightarrow> 'e list \<Rightarrow> nat" where
  "used_slots valid xs = length (filter valid xs)"

lemma slots_uniqueD:
  "slots_unique valid key xs \<Longrightarrow> i < length xs \<Longrightarrow> j < length xs \<Longrightarrow> valid (xs ! i) \<Longrightarrow> valid (xs ! j) \<Longrightarrow>
   key (xs ! i) = key (xs ! j) \<Longrightarrow> i = j"
  by (auto simp: slots_unique_def)

lemma slot_look_at:
  assumes "slots_unique valid key xs" and "i < length xs" and "valid (xs ! i)"
  shows "slot_look valid key xs (key (xs ! i)) = Some (xs ! i)"
proof -
  have "find_index (\<lambda>e. valid e \<and> key e = key (xs ! i)) xs = Some i"
    using assms by (intro find_index_unique) (auto dest: slots_uniqueD)
  then show ?thesis by (simp add: slot_look_def)
qed

lemma slot_look_SomeD:
  assumes "slot_look valid key xs k = Some e"
  shows "valid e" and "key e = k" and "e \<in> set xs"
  using assms by (auto simp: slot_look_def dest: find_index_SomeD)

lemma slot_look_Some_iff:
  assumes "slots_unique valid key xs"
  shows "slot_look valid key xs k = Some e \<longleftrightarrow> e \<in> set xs \<and> valid e \<and> key e = k"
  using slot_look_SomeD [of valid key xs k e] slot_look_at [OF assms]
  by (auto simp: in_set_conv_nth)

lemma slot_look_None_iff: "slot_look valid key xs k = None \<longleftrightarrow> (\<forall>e\<in>set xs. valid e \<longrightarrow> key e \<noteq> k)"
  by (auto simp: slot_look_def)

lemma slots_unique_update:
  assumes "slots_unique valid key xs" and "i < length xs"
    and "\<And>j. valid e' \<Longrightarrow> j < length xs \<Longrightarrow> j \<noteq> i \<Longrightarrow> valid (xs ! j) \<Longrightarrow> key (xs ! j) \<noteq> key e'"
  shows "slots_unique valid key (xs[i := e'])"
  unfolding slots_unique_def
proof (intro allI impI, elim conjE)
  fix a b
  assume "a < length (xs[i := e'])" "b < length (xs[i := e'])" "valid (xs[i := e'] ! a)"
    "valid (xs[i := e'] ! b)" "key (xs[i := e'] ! a) = key (xs[i := e'] ! b)"
  then show "a = b"
    using assms slots_uniqueD [OF assms(1), of a b]
    by (cases "a = i"; cases "b = i") (auto simp: nth_list_update)
qed

lemma slot_look_update:
  assumes "slots_unique valid key xs" and "i < length xs"
    and "\<And>j. valid e' \<Longrightarrow> j < length xs \<Longrightarrow> j \<noteq> i \<Longrightarrow> valid (xs ! j) \<Longrightarrow> key (xs ! j) \<noteq> key e'"
  shows "slot_look valid key (xs[i := e']) k =
    (if valid e' \<and> key e' = k then Some e'
     else if valid (xs ! i) \<and> key (xs ! i) = k then None else slot_look valid key xs k)"
proof -
  have u: "slots_unique valid key (xs[i := e'])" by (rule slots_unique_update [OF assms])
  note look' = slot_look_Some_iff [OF u] and look = slot_look_Some_iff [OF assms(1)]
  consider "valid e' \<and> key e' = k" | "\<not> (valid e' \<and> key e' = k)" "valid (xs ! i) \<and> key (xs ! i) = k"
    | "\<not> (valid e' \<and> key e' = k)" "\<not> (valid (xs ! i) \<and> key (xs ! i) = k)" by blast
  then show ?thesis
  proof cases
    case 1
    then show ?thesis using look' assms(2) by (simp add: set_update_memI)
  next
    case 2
    have "slot_look valid key (xs[i := e']) k = None"
      unfolding slot_look_None_iff
    proof (intro ballI impI)
      fix e assume "e \<in> set (xs[i := e'])" "valid e"
      then obtain j where j: "j < length xs" "e = xs[i := e'] ! j" "valid e" by (auto simp: in_set_conv_nth)
      show "key e \<noteq> k"
        using j 2 assms(2) slots_uniqueD [OF assms(1), of j i] by (cases "j = i") auto
    qed
    with 2 show ?thesis by simp
  next
    case 3
    have "slot_look valid key (xs[i := e']) k = Some e \<longleftrightarrow> slot_look valid key xs k = Some e" for e
      unfolding look' look using 3 assms(2)
      by (metis in_set_conv_nth length_list_update nth_list_update_eq nth_list_update_neq)
    then have "slot_look valid key (xs[i := e']) k = slot_look valid key xs k"
      by (metis option.exhaust)
    with 3 show ?thesis by auto
  qed
qed

text \<open>A store that keeps validity and key is a point update of the map.\<close>

lemma slot_update_keep:
  assumes "slots_unique valid key xs" and "i < length xs" and "valid (xs ! i)"
    and "valid e'" and "key e' = key (xs ! i)"
  shows "slots_unique valid key (xs[i := e'])"
    and "slot_look valid key (xs[i := e']) = (slot_look valid key xs)(key e' \<mapsto> e')"
proof -
  have other: "key (xs ! j) \<noteq> key e'" if "j < length xs" "j \<noteq> i" "valid (xs ! j)" for j
    using that assms slots_uniqueD [OF assms(1), of j i] by auto
  then show "slots_unique valid key (xs[i := e'])"
    using assms(1,2) by (intro slots_unique_update)
  show "slot_look valid key (xs[i := e']) = (slot_look valid key xs)(key e' \<mapsto> e')"
    using assms other by (auto simp: fun_eq_iff slot_look_update)
qed

lemma used_slots_le: "used_slots valid xs \<le> length xs"
  by (simp add: used_slots_def)

lemma used_slots_update:
  assumes "i < length xs"
  shows "used_slots valid (xs[i := e']) + (if valid (xs ! i) then 1 else 0) =
    used_slots valid xs + (if valid e' then 1 else 0)"
proof -
  have "used_slots valid (take i xs @ xs ! i # drop (Suc i) xs) =
      used_slots valid (take i xs) + (if valid (xs ! i) then 1 else 0) + used_slots valid (drop (Suc i) xs)"
    by (simp add: used_slots_def)
  then have "used_slots valid xs =
      used_slots valid (take i xs) + (if valid (xs ! i) then 1 else 0) + used_slots valid (drop (Suc i) xs)"
    using assms by (simp only: id_take_nth_drop [symmetric])
  moreover have "used_slots valid (xs[i := e']) =
      used_slots valid (take i xs) + (if valid e' then 1 else 0) + used_slots valid (drop (Suc i) xs)"
    using assms by (simp add: used_slots_def upd_conv_take_nth_drop)
  ultimately show ?thesis by simp
qed

lemma used_slots_full_iff: "used_slots valid xs = length xs \<longleftrightarrow> (\<forall>x\<in>set xs. valid x)"
proof
  assume "used_slots valid xs = length xs"
  then have "\<not> length (filter valid xs) < length xs" by (simp add: used_slots_def)
  then show "\<forall>x\<in>set xs. valid x" by (meson length_filter_less)
qed (simp add: used_slots_def)

lemma card_dom_slot_look:
  assumes "slots_unique valid key xs"
  shows "card (dom (slot_look valid key xs)) = used_slots valid xs"
proof -
  let ?I = "{i. i < length xs \<and> valid (xs ! i)}"
  have "dom (slot_look valid key xs) = (\<lambda>i. key (xs ! i)) ` ?I"
  proof (intro set_eqI iffI)
    fix k assume "k \<in> dom (slot_look valid key xs)"
    then obtain e where "e \<in> set xs" "valid e" "key e = k" by (auto dest: slot_look_SomeD)
    then show "k \<in> (\<lambda>i. key (xs ! i)) ` ?I" by (auto simp: in_set_conv_nth)
  next
    fix k assume "k \<in> (\<lambda>i. key (xs ! i)) ` ?I"
    then show "k \<in> dom (slot_look valid key xs)" using slot_look_at [OF assms] by auto
  qed
  moreover have "inj_on (\<lambda>i. key (xs ! i)) ?I"
    by (rule inj_onI) (use slots_uniqueD [OF assms] in auto)
  ultimately show ?thesis
    by (simp add: card_image used_slots_def length_filter_conv_card)
qed

section \<open>Counted tables\<close>

definition slots_wf :: "('e \<Rightarrow> bool) \<Rightarrow> ('e \<Rightarrow> 'k) \<Rightarrow> nat \<Rightarrow> 'e list \<Rightarrow> u32 \<Rightarrow> bool" where
  "slots_wf valid key n xs count \<longleftrightarrow> length xs = n \<and> slots_unique valid key xs \<and> unat count = used_slots valid xs"

abbreviation recycle_slot :: "('e \<Rightarrow> bool) \<Rightarrow> ('e \<Rightarrow> u32) \<Rightarrow> 'e list \<Rightarrow> nat" where
  "recycle_slot valid age xs \<equiv> oldest_loop (\<lambda>e. \<not> valid e) age 0 0 0 xs"

lemma recycle_slot_less: "0 < n \<Longrightarrow> length xs = n \<Longrightarrow> recycle_slot valid age xs < n"
  using oldest_loop_less [of xs] by auto

lemma recycle_slot_free:
  assumes "\<exists>e\<in>set xs. \<not> valid e"
  shows "\<not> valid (xs ! recycle_slot valid age xs)"
proof -
  obtain k where k: "find_index (\<lambda>e. \<not> valid e) xs = Some k"
    using assms by (cases "find_index (\<lambda>e. \<not> valid e) xs") auto
  then show ?thesis using oldest_loop_free [OF k, of age 0 0 0] find_index_SomeD(2) [OF k] by simp
qed

lemma slots_full_iff:
  "slots_wf valid key n xs count \<Longrightarrow> card (dom (slot_look valid key xs)) = n \<longleftrightarrow> (\<forall>e\<in>set xs. valid e)"
  using used_slots_full_iff [of valid xs] by (auto simp: slots_wf_def card_dom_slot_look)

lemma slots_dom:
  assumes "slots_wf valid key n xs count"
  shows "finite (dom (slot_look valid key xs)) \<and> card (dom (slot_look valid key xs)) \<le> n"
proof
  show "card (dom (slot_look valid key xs)) \<le> n"
    using assms used_slots_le [of valid xs] by (simp add: slots_wf_def card_dom_slot_look)
  have "dom (slot_look valid key xs) \<subseteq> key ` set xs"
  proof
    fix k assume "k \<in> dom (slot_look valid key xs)"
    then obtain e where "slot_look valid key xs k = Some e" by auto
    then show "k \<in> key ` set xs" by (metis imageI slot_look_SomeD(2,3))
  qed
  then show "finite (dom (slot_look valid key xs))" by (rule finite_subset) simp
qed

text \<open>Storing a new key into the recycled slot.\<close>

lemma slots_insert:
  fixes age :: "'e \<Rightarrow> u32"
  assumes "slots_wf valid key n xs count" and "0 < n" and "n < 2 ^ 32 - 1"
    and "slot_look valid key xs (key e) = None" and "valid e"
  defines "i \<equiv> recycle_slot valid age xs"
  shows "slots_wf valid key n (xs[i := e]) (if valid (xs ! i) then count else count + 1)"
    and "slot_look valid key (xs[i := e]) =
      (\<lambda>k. if k = key e then Some e else if valid (xs ! i) \<and> key (xs ! i) = k then None else slot_look valid key xs k)"
    and "i < n"
proof -
  have u: "slots_unique valid key xs" and len: "length xs = n" using assms(1) by (auto simp: slots_wf_def)
  show i: "i < n" unfolding i_def using assms(2) len by (rule recycle_slot_less)
  have other: "key (xs ! j) \<noteq> key e" if "j < length xs" "valid (xs ! j)" for j
    using assms(4) that unfolding slot_look_None_iff by simp
  have il: "i < length xs" using i len by simp
  show "slots_wf valid key n (xs[i := e]) (if valid (xs ! i) then count else count + 1)"
    using assms(1,3,5) used_slots_update [OF il, of valid e] used_slots_le [of valid xs]
      slots_unique_update [OF u il other]
    by (auto simp: slots_wf_def unat_word_ariths split: if_splits)
  show "slot_look valid key (xs[i := e]) =
      (\<lambda>k. if k = key e then Some e else if valid (xs ! i) \<and> key (xs ! i) = k then None else slot_look valid key xs k)"
    using slot_look_update [OF u il other] assms(5) by (auto simp: fun_eq_iff)
qed

text \<open>Storing through the pointer to a valid entry, keeping its key.\<close>

lemma slots_write:
  assumes "slots_wf valid key n xs count" and "i < n" and "valid (xs ! i)"
    and "valid e" and "key e = key (xs ! i)"
  shows "slots_wf valid key n (xs[i := e]) count"
    and "slot_look valid key (xs[i := e]) = (slot_look valid key xs)(key e \<mapsto> e)"
  using assms slot_update_keep [of valid key xs i e] used_slots_update [of i xs valid e]
  by (auto simp: slots_wf_def)

text \<open>Invalidating a valid entry.\<close>

lemma slots_remove:
  assumes "slots_wf valid key n xs count" and "i < n" and "valid (xs ! i)" and "\<not> valid e"
  shows "slots_wf valid key n (xs[i := e]) (count - 1)" and "count > 0"
    and "slot_look valid key (xs[i := e]) = (slot_look valid key xs)(key (xs ! i) := None)"
proof -
  have u: "slots_unique valid key xs" and il: "i < length xs" using assms(1,2) by (auto simp: slots_wf_def)
  have "0 < used_slots valid xs" using assms(3,4) used_slots_update [OF il, of valid e] by simp
  then show c: "count > 0" using assms(1) by (simp add: slots_wf_def word_less_nat_alt)
  then have "unat (count - 1) = unat count - 1"
    using unat_sub [of 1 count] by (simp add: word_le_nat_alt word_less_nat_alt)
  then show "slots_wf valid key n (xs[i := e]) (count - 1)"
    using assms used_slots_update [OF il, of valid e] slots_unique_update [OF u il, of e]
    by (simp add: slots_wf_def)
  show "slot_look valid key (xs[i := e]) = (slot_look valid key xs)(key (xs ! i) := None)"
    using slot_look_update [OF u il, of e] assms(3,4) by (auto simp: fun_eq_iff)
qed

section \<open>The table contract\<close>

locale keyed_table =
  fixes wf :: "'t \<Rightarrow> bool"
    and look :: "'t \<Rightarrow> 'k \<Rightarrow> 'e option"
    and upsert :: "'t \<Rightarrow> 'k \<Rightarrow> 'a \<Rightarrow> 't"
    and upd :: "'k \<Rightarrow> 'a \<Rightarrow> 'e option \<Rightarrow> 'e"
    and capacity :: nat
  assumes upsert_wf: "wf t \<Longrightarrow> wf (upsert t k a)"
    and finite_look: "wf t \<Longrightarrow> finite (dom (look t)) \<and> card (dom (look t)) \<le> capacity"
    and upsert_same: "wf t \<Longrightarrow> look (upsert t k a) k = Some (upd k a (look t k))"
    and upsert_other: "wf t \<Longrightarrow> look t k \<noteq> None \<or> card (dom (look t)) < capacity \<Longrightarrow> k' \<noteq> k \<Longrightarrow>
          look (upsert t k a) k' = look t k'"
    and upsert_evict: "wf t \<Longrightarrow> look t k = None \<Longrightarrow> card (dom (look t)) = capacity \<Longrightarrow>
          \<exists>v. v \<in> dom (look t) \<and> (\<forall>k'. k' \<noteq> k \<longrightarrow> look (upsert t k a) k' = (if k' = v then None else look t k'))"
begin

definition upserts :: "'t \<Rightarrow> ('k \<times> 'a) list \<Rightarrow> 't" where
  "upserts t ops = foldl (\<lambda>t (k, a). upsert t k a) t ops"

lemma upserts_snoc: "upserts t (ops @ [(k, a)]) = upsert (upserts t ops) k a"
  by (simp add: upserts_def)

lemma upserts_Nil: "upserts t [] = t"
  by (simp add: upserts_def)

lemma upserts_wf: "wf t \<Longrightarrow> wf (upserts t ops)"
  by (induction ops rule: rev_induct) (auto simp: upserts_Nil upserts_snoc upsert_wf)

lemma upsert_room:
  assumes "wf t" and "look t k \<noteq> None \<or> card (dom (look t)) < capacity"
  shows "look (upsert t k a) = (look t)(k \<mapsto> upd k a (look t k))"
  using upsert_same [OF assms(1)] upsert_other [OF assms] by (auto simp: fun_eq_iff)

text \<open>
  While no more distinct keys have been used than the table has slots, nothing is ever evicted:
  the table holds exactly the keys it was given, and the latest update of a key is what a lookup
  of it returns.
\<close>

lemma upserts_no_eviction:
  assumes "wf t" and "card (dom (look t) \<union> fst ` set ops) \<le> capacity"
  shows "dom (look (upserts t ops)) = dom (look t) \<union> fst ` set ops"
  using assms(2)
proof (induction ops rule: rev_induct)
  case Nil
  then show ?case by (simp add: upserts_Nil)
next
  case (snoc op ops)
  obtain k a where op: "op = (k, a)" by (cases op)
  let ?D = "dom (look t) \<union> fst ` set ops"
  have fin: "finite ?D" using finite_look [OF assms(1)] by simp
  have un: "dom (look t) \<union> fst ` set (ops @ [op]) = insert k ?D" by (auto simp: op)
  have "card ?D \<le> capacity" using snoc.prems fin unfolding un
    by (meson card_insert_le dual_order.trans)
  then have IH: "dom (look (upserts t ops)) = ?D" by (rule snoc.IH)
  have "look (upserts t ops) k \<noteq> None \<or> card (dom (look (upserts t ops))) < capacity"
  proof (cases "k \<in> ?D")
    case True
    with IH show ?thesis by auto
  next
    case False
    with snoc.prems fin have "Suc (card ?D) \<le> capacity" unfolding un by simp
    with IH show ?thesis by simp
  qed
  then have "dom (look (upsert (upserts t ops) k a)) = insert k ?D"
    using IH by (simp add: upsert_room upserts_wf assms(1))
  then show ?case unfolding op upserts_snoc un [unfolded op] .
qed

lemma upserts_last_found:
  assumes "wf t"
  shows "look (upserts t (ops @ [(k, a)])) k = Some (upd k a (look (upserts t ops) k))"
  by (simp add: upserts_snoc upsert_same upserts_wf assms)

end

end
