(* ===== verification/Tn_Neighbor.thy ===== *)
theory Tn_Neighbor
  imports Tn_Ewma Tn_Slots
begin

text \<open>
  \<open>src/link/neighbor.h\<close> and \<open>src/link/neighbor.c\<close>: the neighbour table and the link estimator. A
  pointer to an entry is its index in \<open>nt_entries\<close>; an operation that returns a pointer into the
  table it may have changed returns the index and the new table.

  Shown here: the table is a finite map from addresses to entries with at most
  \<open>TREENET_MAX_NEIGHBORS\<close> keys and a correct \<open>nt_count\<close> (\<open>neighbor_wf\<close>), the two update operations
  satisfy the contract \<open>keyed_table\<close>, the recycled entry is the one that has been silent longest, and
  the link cost follows its formula, is bounded and monotone.
\<close>

record tn_neighbor_t =
  ne_valid :: bool
  ne_addr :: treenet_addr_t
  ne_rank :: u16
  ne_parent :: treenet_addr_t
  ne_flags :: u8
  ne_rssi :: tn_ewma16_t
  ne_snr :: tn_ewma16_t
  ne_pdr :: tn_ewma16_t
  ne_etx_q8 :: u16
  ne_link_cost :: u16
  ne_last_seen_ms :: u32
  ne_last_beacon_ms :: u32
  ne_est_interval_ms :: u32
  ne_have_interval :: bool
  ne_ack_fail :: u8
  ne_suspect_until_ms :: u32

record tn_neighbor_table_t =
  nt_entries :: "tn_neighbor_t list"
  nt_count :: u32

definition neighbor_zero :: tn_neighbor_t where
  "neighbor_zero = \<lparr>ne_valid = False, ne_addr = 0, ne_rank = 0, ne_parent = 0, ne_flags = 0,
     ne_rssi = ewma_zero, ne_snr = ewma_zero, ne_pdr = ewma_zero, ne_etx_q8 = 0, ne_link_cost = 0,
     ne_last_seen_ms = 0, ne_last_beacon_ms = 0, ne_est_interval_ms = 0, ne_have_interval = False,
     ne_ack_fail = 0, ne_suspect_until_ms = 0\<rparr>"

definition tn_neighbor_table_init :: "tn_neighbor_table_t \<Rightarrow> tn_neighbor_table_t" where
  "tn_neighbor_table_init tbl =
     tbl\<lparr>nt_entries := replicate TREENET_MAX_NEIGHBORS neighbor_zero, nt_count := 0\<rparr>"

definition tn_neighbor_find :: "tn_neighbor_table_t \<Rightarrow> treenet_addr_t \<Rightarrow> nat option" where
  "tn_neighbor_find tbl addr = find_index (\<lambda>n. ne_valid n \<and> ne_addr n = addr) (nt_entries tbl)"

definition neighbor_oldest :: "tn_neighbor_table_t \<Rightarrow> u32 \<Rightarrow> nat" where
  "neighbor_oldest tbl now =
     oldest_loop (\<lambda>n. \<not> ne_valid n) (\<lambda>n. tn_elapsed (ne_last_seen_ms n) now) 0 0 0 (nt_entries tbl)"

definition tn_neighbor_get_or_create ::
    "tn_neighbor_table_t \<Rightarrow> treenet_addr_t \<Rightarrow> u32 \<Rightarrow> nat \<times> tn_neighbor_table_t" where
  "tn_neighbor_get_or_create tbl addr now =
     (case tn_neighbor_find tbl addr of
        Some i \<Rightarrow> (i, tbl)
      | None \<Rightarrow>
          let idx = neighbor_oldest tbl now;
              n = nt_entries tbl ! idx;
              tbl = (if \<not> ne_valid n then tbl\<lparr>nt_count := nt_count tbl + 1\<rparr> else tbl);
              n = neighbor_zero\<lparr>ne_valid := True, ne_addr := addr, ne_last_seen_ms := now\<rparr>
          in (idx, tbl\<lparr>nt_entries := (nt_entries tbl)[idx := n]\<rparr>))"

text \<open>Writing through the pointer to entry \<open>i\<close>.\<close>

definition nt_update :: "tn_neighbor_table_t \<Rightarrow> nat \<Rightarrow> (tn_neighbor_t \<Rightarrow> tn_neighbor_t) \<Rightarrow> tn_neighbor_table_t" where
  "nt_update tbl i f = tbl\<lparr>nt_entries := (nt_entries tbl)[i := f (nt_entries tbl ! i)]\<rparr>"

definition tn_neighbor_update_cost :: "tn_neighbor_t \<Rightarrow> tn_neighbor_t" where
  "tn_neighbor_update_cost n =
     (let pdr = (if ew_init (ne_pdr n) then tn_ewma16_get (ne_pdr n) else 256);
          pdr = (if pdr < 16 then 16 else pdr);
          pdr = (if pdr > 256 then 256 else pdr);
          etx = (256 * 256) div (word_of_int pdr :: u32);
          etx = (if etx > 0xFFFF then 0xFFFF else etx);
          n = n\<lparr>ne_etx_q8 := ucast etx\<rparr>;
          snr_score = tn_snr_score_q8 (word_of_int (tn_ewma16_get (ne_snr n)));
          etx_pen = uint (ne_etx_q8 n) - 256;
          etx_pen = (if etx_pen < 0 then 0 else etx_pen);
          etx_pen = (if etx_pen > 768 then 768 else etx_pen);
          cost = drop_bit 8 (TREENET_OF_W_SNR * ucast snr_score + TREENET_OF_W_ETX * word_of_int etx_pen);
          cost = (if cost > 1024 then 1024 else cost)
      in n\<lparr>ne_link_cost := ucast cost\<rparr>)"

definition tn_neighbor_note_frame ::
    "tn_neighbor_table_t \<Rightarrow> treenet_addr_t \<Rightarrow> i16 \<Rightarrow> i8 \<Rightarrow> u32 \<Rightarrow> tn_neighbor_table_t" where
  "tn_neighbor_note_frame tbl addr rssi_dbm snr_db now =
     (let (i, tbl) = tn_neighbor_get_or_create tbl addr now
      in nt_update tbl i (\<lambda>n.
           let n = n\<lparr>ne_rssi := ewma_push (ne_rssi n) (sint rssi_dbm)\<rparr>;
               n = n\<lparr>ne_snr := ewma_push (ne_snr n) (sint snr_db)\<rparr>;
               n = n\<lparr>ne_last_seen_ms := now\<rparr>
           in tn_neighbor_update_cost n))"

text \<open>The delivery-ratio update of a beacon reception: up to eight lost samples, then a success.\<close>

definition note_beacon_pdr :: "tn_neighbor_t \<Rightarrow> u32 \<Rightarrow> tn_neighbor_t" where
  "note_beacon_pdr n now =
     (let n = (if ne_last_beacon_ms n \<noteq> 0 \<and> ne_est_interval_ms n \<noteq> 0 then
                 let elapsed = tn_elapsed (ne_last_beacon_ms n) now;
                     periods = elapsed div ne_est_interval_ms n;
                     missed = (if periods > 0 then periods - 1 else 0);
                     missed = (if missed > 8 then 8 else missed)
                 in n\<lparr>ne_pdr := ((\<lambda>e. ewma_push e 0) ^^ unat missed) (ne_pdr n)\<rparr>
               else n)
      in n\<lparr>ne_pdr := ewma_push (ne_pdr n) 256\<rparr>)"

definition tn_neighbor_note_beacon ::
    "tn_neighbor_table_t \<Rightarrow> treenet_addr_t \<Rightarrow> u16 \<Rightarrow> treenet_addr_t \<Rightarrow> u8 \<Rightarrow> u16 \<Rightarrow> i16 \<Rightarrow> i8 \<Rightarrow> u32
      \<Rightarrow> tn_neighbor_table_t" where
  "tn_neighbor_note_beacon tbl addr rank parent flags interval_100ms rssi_dbm snr_db now =
     (let (i, tbl) = tn_neighbor_get_or_create tbl addr now;
          interval = ucast interval_100ms * 100 :: u32;
          interval = (if interval = 0 then 1 else interval)
      in nt_update tbl i (\<lambda>n.
           let n = note_beacon_pdr n now;
               n = n\<lparr>ne_est_interval_ms := interval, ne_have_interval := True\<rparr>;
               n = n\<lparr>ne_rank := rank, ne_parent := parent, ne_flags := flags,
                     ne_last_beacon_ms := now, ne_last_seen_ms := now\<rparr>;
               n = n\<lparr>ne_rssi := ewma_push (ne_rssi n) (sint rssi_dbm)\<rparr>;
               n = n\<lparr>ne_snr := ewma_push (ne_snr n) (sint snr_db)\<rparr>
           in tn_neighbor_update_cost n))"

section \<open>The table as a finite map\<close>

definition neighbor_look :: "tn_neighbor_table_t \<Rightarrow> treenet_addr_t \<Rightarrow> tn_neighbor_t option" where
  "neighbor_look tbl = slot_look ne_valid ne_addr (nt_entries tbl)"

definition neighbor_wf :: "tn_neighbor_table_t \<Rightarrow> bool" where
  "neighbor_wf tbl \<longleftrightarrow> slots_wf ne_valid ne_addr TREENET_MAX_NEIGHBORS (nt_entries tbl) (nt_count tbl)"

lemma neighbor_wf_init [simp, tn_inv]: "neighbor_wf (tn_neighbor_table_init tbl)"
  by (simp add: neighbor_wf_def slots_wf_def tn_neighbor_table_init_def slots_unique_def used_slots_def neighbor_zero_def)

lemma neighbor_look_init [simp]: "neighbor_look (tn_neighbor_table_init tbl) = Map.empty"
  by (auto simp: neighbor_look_def tn_neighbor_table_init_def slot_look_None_iff neighbor_zero_def)

lemma tn_neighbor_find_look:
  "neighbor_look tbl addr = map_option ((!) (nt_entries tbl)) (tn_neighbor_find tbl addr)"
  by (simp add: neighbor_look_def slot_look_def tn_neighbor_find_def)

lemma tn_neighbor_find_SomeD:
  assumes "tn_neighbor_find tbl addr = Some i"
  shows "i < length (nt_entries tbl)" and "ne_valid (nt_entries tbl ! i)" and "ne_addr (nt_entries tbl ! i) = addr"
  using assms find_index_SomeD unfolding tn_neighbor_find_def by fast+

lemma neighbor_wf_length: "neighbor_wf tbl \<Longrightarrow> length (nt_entries tbl) = TREENET_MAX_NEIGHBORS"
  by (simp add: neighbor_wf_def slots_wf_def)

lemma neighbor_wf_unique: "neighbor_wf tbl \<Longrightarrow> slots_unique ne_valid ne_addr (nt_entries tbl)"
  by (simp add: neighbor_wf_def slots_wf_def)

lemma neighbor_oldest_less: "neighbor_wf tbl \<Longrightarrow> neighbor_oldest tbl now < length (nt_entries tbl)"
  unfolding neighbor_oldest_def by (rule recycle_slot_less) (auto simp: neighbor_wf_def slots_wf_def config)

lemma neighbor_full_iff:
  "neighbor_wf tbl \<Longrightarrow> card (dom (neighbor_look tbl)) = TREENET_MAX_NEIGHBORS \<longleftrightarrow> (\<forall>n\<in>set (nt_entries tbl). ne_valid n)"
  unfolding neighbor_look_def neighbor_wf_def by (rule slots_full_iff)

definition neighbor_new :: "treenet_addr_t \<Rightarrow> u32 \<Rightarrow> tn_neighbor_t" where
  "neighbor_new addr now = neighbor_zero\<lparr>ne_valid := True, ne_addr := addr, ne_last_seen_ms := now\<rparr>"

lemma neighbor_new_sel [simp]: "ne_valid (neighbor_new addr now)" "ne_addr (neighbor_new addr now) = addr"
  by (simp_all add: neighbor_new_def)

lemma goc_found:
  assumes "neighbor_look tbl addr = Some n"
  obtains i where "tn_neighbor_get_or_create tbl addr now = (i, tbl)" and "i < length (nt_entries tbl)"
    and "nt_entries tbl ! i = n" and "ne_valid n" and "ne_addr n = addr"
proof -
  obtain i where i: "tn_neighbor_find tbl addr = Some i" "nt_entries tbl ! i = n"
    using assms by (auto simp: tn_neighbor_find_look)
  then show ?thesis
    using that [of i] tn_neighbor_find_SomeD [OF i(1)] by (simp add: tn_neighbor_get_or_create_def)
qed

lemma goc_new:
  fixes now :: u32
  assumes "neighbor_wf tbl" and "neighbor_look tbl addr = None"
  defines "i \<equiv> neighbor_oldest tbl now"
  defines "old \<equiv> nt_entries tbl ! i"
  obtains tbl' where "tn_neighbor_get_or_create tbl addr now = (i, tbl')"
    and "i < length (nt_entries tbl')" and "nt_entries tbl' ! i = neighbor_new addr now" and "neighbor_wf tbl'"
    and "neighbor_look tbl' = (\<lambda>k. if k = addr then Some (neighbor_new addr now)
           else if ne_valid old \<and> ne_addr old = k then None else neighbor_look tbl k)"
proof -
  let ?xs = "nt_entries tbl"
  let ?tbl = "tbl\<lparr>nt_entries := ?xs[i := neighbor_new addr now],
      nt_count := if ne_valid old then nt_count tbl else nt_count tbl + 1\<rparr>"
  have "tn_neighbor_find tbl addr = None" using assms(2) by (simp add: tn_neighbor_find_look)
  then have 1: "tn_neighbor_get_or_create tbl addr now = (i, ?tbl)"
    by (simp add: tn_neighbor_get_or_create_def Let_def i_def old_def neighbor_new_def)
  note ins = slots_insert [of ne_valid ne_addr TREENET_MAX_NEIGHBORS ?xs "nt_count tbl" "neighbor_new addr now"
      "\<lambda>n. tn_elapsed (ne_last_seen_ms n) now", folded neighbor_oldest_def i_def old_def]
  have n: "0 < TREENET_MAX_NEIGHBORS" "TREENET_MAX_NEIGHBORS < 2 ^ 32 - 1" by (simp_all add: config)
  have "neighbor_wf ?tbl" "i < length ?xs"
    using ins(1,3) assms(1,2) n neighbor_wf_length [OF assms(1)]
    by (auto simp: neighbor_wf_def neighbor_look_def old_def)
  moreover have "neighbor_look ?tbl = (\<lambda>k. if k = addr then Some (neighbor_new addr now)
      else if ne_valid old \<and> ne_addr old = k then None else neighbor_look tbl k)"
    using ins(2) assms(1,2) n unfolding neighbor_wf_def neighbor_look_def old_def by simp
  ultimately show ?thesis using that [OF 1] by simp
qed

text \<open>An update of one neighbour: find or create its entry, then write through the pointer.\<close>

definition neighbor_upsert ::
    "tn_neighbor_table_t \<Rightarrow> treenet_addr_t \<Rightarrow> u32 \<Rightarrow> (tn_neighbor_t \<Rightarrow> tn_neighbor_t) \<Rightarrow> tn_neighbor_table_t" where
  "neighbor_upsert tbl addr now f = (let (i, tbl) = tn_neighbor_get_or_create tbl addr now in nt_update tbl i f)"

definition keeps_key :: "(tn_neighbor_t \<Rightarrow> tn_neighbor_t) \<Rightarrow> bool" where
  "keeps_key f \<longleftrightarrow> (\<forall>n. ne_valid (f n) = ne_valid n \<and> ne_addr (f n) = ne_addr n)"

lemma nt_update_keep:
  assumes "neighbor_wf tbl" and "i < length (nt_entries tbl)" and "ne_valid (nt_entries tbl ! i)" and "keeps_key f"
  shows "neighbor_wf (nt_update tbl i f)"
    and "neighbor_look (nt_update tbl i f) =
      (neighbor_look tbl)(ne_addr (nt_entries tbl ! i) \<mapsto> f (nt_entries tbl ! i))"
proof -
  let ?n = "nt_entries tbl ! i"
  have f: "ne_valid (f ?n)" "ne_addr (f ?n) = ne_addr ?n" using assms(3,4) by (auto simp: keeps_key_def)
  have i: "i < TREENET_MAX_NEIGHBORS" using assms(1,2) by (simp add: neighbor_wf_length)
  note keep = slots_write [OF assms(1) [unfolded neighbor_wf_def] i assms(3) f]
  show "neighbor_wf (nt_update tbl i f)"
    using keep(1) by (simp add: neighbor_wf_def nt_update_def)
  show "neighbor_look (nt_update tbl i f) = (neighbor_look tbl)(ne_addr ?n \<mapsto> f ?n)"
    using keep(2) f by (simp add: neighbor_look_def nt_update_def)
qed

lemma neighbor_upsert_found:
  assumes "neighbor_wf tbl" and "neighbor_look tbl addr = Some n" and "keeps_key f"
  shows "neighbor_wf (neighbor_upsert tbl addr now f)"
    and "neighbor_look (neighbor_upsert tbl addr now f) = (neighbor_look tbl)(addr \<mapsto> f n)"
proof -
  obtain i where i: "tn_neighbor_get_or_create tbl addr now = (i, tbl)" "i < length (nt_entries tbl)"
    "nt_entries tbl ! i = n" "ne_valid n" "ne_addr n = addr" by (rule goc_found [OF assms(2)])
  show "neighbor_wf (neighbor_upsert tbl addr now f)"
    "neighbor_look (neighbor_upsert tbl addr now f) = (neighbor_look tbl)(addr \<mapsto> f n)"
    using nt_update_keep [OF assms(1) i(2) _ assms(3)] i by (simp_all add: neighbor_upsert_def)
qed

lemma neighbor_upsert_new:
  fixes now :: u32
  assumes "neighbor_wf tbl" and "neighbor_look tbl addr = None" and "keeps_key f"
  defines "old \<equiv> nt_entries tbl ! neighbor_oldest tbl now"
  shows "neighbor_wf (neighbor_upsert tbl addr now f)"
    and "neighbor_look (neighbor_upsert tbl addr now f) =
      (\<lambda>k. if k = addr then Some (f (neighbor_new addr now))
           else if ne_valid old \<and> ne_addr old = k then None else neighbor_look tbl k)"
proof -
  let ?i = "neighbor_oldest tbl now"
  obtain tbl' where t: "tn_neighbor_get_or_create tbl addr now = (?i, tbl')"
    "?i < length (nt_entries tbl')" "nt_entries tbl' ! ?i = neighbor_new addr now" "neighbor_wf tbl'"
    "neighbor_look tbl' = (\<lambda>k. if k = addr then Some (neighbor_new addr now)
       else if ne_valid old \<and> ne_addr old = k then None else neighbor_look tbl k)"
    unfolding old_def by (rule goc_new [OF assms(1,2)])
  show "neighbor_wf (neighbor_upsert tbl addr now f)"
    using nt_update_keep(1) [OF t(4,2) _ assms(3)] t by (simp add: neighbor_upsert_def)
  show "neighbor_look (neighbor_upsert tbl addr now f) =
      (\<lambda>k. if k = addr then Some (f (neighbor_new addr now))
           else if ne_valid old \<and> ne_addr old = k then None else neighbor_look tbl k)"
    using nt_update_keep(2) [OF t(4,2) _ assms(3)] t by (auto simp: neighbor_upsert_def fun_eq_iff)
qed

lemma neighbor_upsert_wf [tn_inv]:
  "neighbor_wf tbl \<Longrightarrow> keeps_key f \<Longrightarrow> neighbor_wf (neighbor_upsert tbl addr now f)"
  using neighbor_upsert_found(1) neighbor_upsert_new(1) by (cases "neighbor_look tbl addr") auto

lemma neighbor_upsert_room:
  assumes "neighbor_wf tbl" and "keeps_key f" and "k' \<noteq> addr"
    and "neighbor_look tbl addr \<noteq> None \<or> card (dom (neighbor_look tbl)) < TREENET_MAX_NEIGHBORS"
  shows "neighbor_look (neighbor_upsert tbl addr now f) k' = neighbor_look tbl k'"
proof (cases "neighbor_look tbl addr")
  case None
  then have "\<not> ne_valid (nt_entries tbl ! neighbor_oldest tbl now)"
    unfolding neighbor_oldest_def using assms(4) neighbor_full_iff [OF assms(1)]
    by (intro recycle_slot_free) auto
  then show ?thesis using neighbor_upsert_new(2) [OF assms(1) None assms(2)] assms(3) by simp
next
  case (Some n)
  then show ?thesis using neighbor_upsert_found(2) [OF assms(1) Some assms(2)] assms(3) by simp
qed

lemma neighbor_upsert_evict:
  assumes "neighbor_wf tbl" and "keeps_key f" and "neighbor_look tbl addr = None"
    and "card (dom (neighbor_look tbl)) = TREENET_MAX_NEIGHBORS"
  shows "\<exists>v. v \<in> dom (neighbor_look tbl) \<and> (\<forall>k'. k' \<noteq> addr \<longrightarrow>
    neighbor_look (neighbor_upsert tbl addr now f) k' = (if k' = v then None else neighbor_look tbl k'))"
proof -
  let ?old = "nt_entries tbl ! neighbor_oldest tbl now"
  have i: "neighbor_oldest tbl now < length (nt_entries tbl)" by (rule neighbor_oldest_less [OF assms(1)])
  then have v: "ne_valid ?old" using assms(4) neighbor_full_iff [OF assms(1)] by simp
  have "slots_unique ne_valid ne_addr (nt_entries tbl)" by (rule neighbor_wf_unique [OF assms(1)])
  then have "ne_addr ?old \<in> dom (neighbor_look tbl)"
    using slot_look_at [of ne_valid ne_addr "nt_entries tbl" "neighbor_oldest tbl now"] i v
    by (auto simp: neighbor_look_def)
  then show ?thesis
    using neighbor_upsert_new(2) [OF assms(1,3,2)] v by (intro exI [of _ "ne_addr ?old"]) simp
qed

section \<open>The two update operations implement the table contract\<close>

lemma update_cost_keeps [simp]:
  "ne_valid (tn_neighbor_update_cost n) = ne_valid n" "ne_addr (tn_neighbor_update_cost n) = ne_addr n"
  "ne_rank (tn_neighbor_update_cost n) = ne_rank n" "ne_flags (tn_neighbor_update_cost n) = ne_flags n"
  "ne_parent (tn_neighbor_update_cost n) = ne_parent n"
  "ne_last_seen_ms (tn_neighbor_update_cost n) = ne_last_seen_ms n"
  "ne_suspect_until_ms (tn_neighbor_update_cost n) = ne_suspect_until_ms n"
  "ne_rssi (tn_neighbor_update_cost n) = ne_rssi n" "ne_snr (tn_neighbor_update_cost n) = ne_snr n"
  "ne_pdr (tn_neighbor_update_cost n) = ne_pdr n"
  by (simp_all add: tn_neighbor_update_cost_def Let_def)

lemma note_beacon_pdr_keeps [simp]:
  "ne_valid (note_beacon_pdr n now) = ne_valid n" "ne_addr (note_beacon_pdr n now) = ne_addr n"
  "ne_suspect_until_ms (note_beacon_pdr n now) = ne_suspect_until_ms n"
  "ne_rssi (note_beacon_pdr n now) = ne_rssi n" "ne_snr (note_beacon_pdr n now) = ne_snr n"
  by (simp_all add: note_beacon_pdr_def Let_def)

definition frame_noted :: "i16 \<Rightarrow> i8 \<Rightarrow> u32 \<Rightarrow> tn_neighbor_t \<Rightarrow> tn_neighbor_t" where
  "frame_noted rssi snr now n = tn_neighbor_update_cost
     (n\<lparr>ne_rssi := ewma_push (ne_rssi n) (sint rssi), ne_snr := ewma_push (ne_snr n) (sint snr),
        ne_last_seen_ms := now\<rparr>)"

definition beacon_noted ::
    "u16 \<Rightarrow> treenet_addr_t \<Rightarrow> u8 \<Rightarrow> u16 \<Rightarrow> i16 \<Rightarrow> i8 \<Rightarrow> u32 \<Rightarrow> tn_neighbor_t \<Rightarrow> tn_neighbor_t" where
  "beacon_noted rank parent flags interval_100ms rssi snr now n = tn_neighbor_update_cost
     ((note_beacon_pdr n now)
      \<lparr>ne_est_interval_ms := (if ucast interval_100ms * 100 = (0 :: u32) then 1 else ucast interval_100ms * 100),
       ne_have_interval := True, ne_rank := rank, ne_parent := parent, ne_flags := flags,
       ne_last_beacon_ms := now, ne_last_seen_ms := now,
       ne_rssi := ewma_push (ne_rssi n) (sint rssi), ne_snr := ewma_push (ne_snr n) (sint snr)\<rparr>)"

lemma note_frame_upsert:
  "tn_neighbor_note_frame tbl addr rssi snr now = neighbor_upsert tbl addr now (frame_noted rssi snr now)"
  by (simp add: tn_neighbor_note_frame_def neighbor_upsert_def frame_noted_def [abs_def] Let_def)

lemma note_beacon_upsert:
  "tn_neighbor_note_beacon tbl addr rank parent flags ivl rssi snr now =
   neighbor_upsert tbl addr now (beacon_noted rank parent flags ivl rssi snr now)"
  by (simp add: tn_neighbor_note_beacon_def neighbor_upsert_def beacon_noted_def [abs_def] Let_def)

lemma keeps_key_noted [simp]:
  "keeps_key (frame_noted rssi snr now)" "keeps_key (beacon_noted rank parent flags ivl rssi snr now)"
  by (simp_all add: keeps_key_def frame_noted_def beacon_noted_def)

lemma neighbor_look_dom:
  "neighbor_wf tbl \<Longrightarrow> finite (dom (neighbor_look tbl)) \<and> card (dom (neighbor_look tbl)) \<le> TREENET_MAX_NEIGHBORS"
  unfolding neighbor_look_def neighbor_wf_def by (rule slots_dom)

lemma neighbor_upsert_same:
  "neighbor_wf t \<Longrightarrow> keeps_key f \<Longrightarrow>
   neighbor_look (neighbor_upsert t k now f) k =
     Some (f (case neighbor_look t k of None \<Rightarrow> neighbor_new k now | Some n \<Rightarrow> n))"
  using neighbor_upsert_found(2) [of t k _ f now] neighbor_upsert_new(2) [of t k f now]
  by (cases "neighbor_look t k") auto

interpretation frame_table: keyed_table neighbor_wf neighbor_look
    "\<lambda>t k (rssi, snr, now). tn_neighbor_note_frame t k rssi snr now"
    "\<lambda>k (rssi, snr, now) old. frame_noted rssi snr now (case old of None \<Rightarrow> neighbor_new k now | Some n \<Rightarrow> n)"
    TREENET_MAX_NEIGHBORS
proof (unfold_locales, goal_cases)
  case (5 t k a)
  then show ?case
    using neighbor_upsert_evict [OF 5(1) keeps_key_noted(1) 5(2,3)] by (cases a) (simp only: prod.case note_frame_upsert)
qed (auto simp: note_frame_upsert neighbor_upsert_wf neighbor_look_dom neighbor_upsert_same neighbor_upsert_room)

interpretation beacon_table: keyed_table neighbor_wf neighbor_look
    "\<lambda>t k (rank, parent, flags, ivl, rssi, snr, now).
       tn_neighbor_note_beacon t k rank parent flags ivl rssi snr now"
    "\<lambda>k (rank, parent, flags, ivl, rssi, snr, now) old. beacon_noted rank parent flags ivl rssi snr now
       (case old of None \<Rightarrow> neighbor_new k now | Some n \<Rightarrow> n)"
    TREENET_MAX_NEIGHBORS
proof (unfold_locales, goal_cases)
  case (5 t k a)
  then show ?case
    using neighbor_upsert_evict [OF 5(1) keeps_key_noted(2) 5(2,3)] by (cases a) (simp only: prod.case note_beacon_upsert)
qed (auto simp: note_beacon_upsert neighbor_upsert_wf neighbor_look_dom neighbor_upsert_same neighbor_upsert_room)

text \<open>
  No neighbour is lost while the table has room. Starting from the initialised table and
  receiving any sequence of frames from at most \<open>TREENET_MAX_NEIGHBORS\<close> distinct addresses, the table
  holds exactly the addresses heard and its counter is their number.
\<close>

lemma neighbor_table_holds_all:
  assumes "card (fst ` set ops) \<le> TREENET_MAX_NEIGHBORS"
  shows "dom (neighbor_look (foldl (\<lambda>t (k, rssi, snr, now). tn_neighbor_note_frame t k rssi snr now)
           (tn_neighbor_table_init tbl) ops)) = fst ` set ops \<and>
         unat (nt_count (foldl (\<lambda>t (k, rssi, snr, now). tn_neighbor_note_frame t k rssi snr now)
           (tn_neighbor_table_init tbl) ops)) = card (fst ` set ops)"
proof -
  let ?t = "frame_table.upserts (tn_neighbor_table_init tbl) ops"
  have dom: "dom (neighbor_look ?t) = fst ` set ops"
    using frame_table.upserts_no_eviction [of "tn_neighbor_table_init tbl" ops] assms by simp
  have "neighbor_wf ?t" by (simp add: frame_table.upserts_wf)
  then have "unat (nt_count ?t) = card (dom (neighbor_look ?t))"
    by (simp add: neighbor_wf_def slots_wf_def neighbor_look_def card_dom_slot_look)
  with dom show ?thesis unfolding frame_table.upserts_def by (simp add: case_prod_unfold)
qed

text \<open>
  Recycling. A frame from an unknown address that finds the table full replaces exactly one
  entry, one of those that have been silent longest; every other neighbour keeps its entry and the
  sender gets a fresh one.
\<close>

theorem neighbor_recycles_oldest:
  assumes "neighbor_wf tbl" and "neighbor_look tbl addr = None"
    and "card (dom (neighbor_look tbl)) = TREENET_MAX_NEIGHBORS"
  shows "\<exists>v n. neighbor_look tbl v = Some n \<and>
    (\<forall>k m. neighbor_look tbl k = Some m \<longrightarrow>
       tn_elapsed (ne_last_seen_ms m) now \<le> tn_elapsed (ne_last_seen_ms n) now) \<and>
    neighbor_look (tn_neighbor_note_frame tbl addr rssi snr now) =
      (neighbor_look tbl)(v := None, addr \<mapsto> frame_noted rssi snr now (neighbor_new addr now))"
proof -
  let ?i = "neighbor_oldest tbl now" and ?xs = "nt_entries tbl"
  let ?n = "?xs ! ?i"
  have all: "\<forall>n\<in>set ?xs. ne_valid n" using assms(3) neighbor_full_iff [OF assms(1)] by simp
  have i: "?i < length ?xs" by (rule neighbor_oldest_less [OF assms(1)])
  have "slots_unique ne_valid ne_addr ?xs" by (rule neighbor_wf_unique [OF assms(1)])
  then have n: "neighbor_look tbl (ne_addr ?n) = Some ?n"
    unfolding neighbor_look_def using i all by (intro slot_look_at) auto
  have "tn_elapsed (ne_last_seen_ms m) now \<le> tn_elapsed (ne_last_seen_ms ?n) now" if "m \<in> set ?xs" for m
    unfolding neighbor_oldest_def using all that
    by (intro oldest_loop_max [where age = "\<lambda>n. tn_elapsed (ne_last_seen_ms n) now"]) auto
  then have max: "tn_elapsed (ne_last_seen_ms m) now \<le> tn_elapsed (ne_last_seen_ms ?n) now"
    if "neighbor_look tbl k = Some m" for k m
    using that slot_look_SomeD(3) unfolding neighbor_look_def by metis
  have "neighbor_look (tn_neighbor_note_frame tbl addr rssi snr now) =
      (neighbor_look tbl)(ne_addr ?n := None, addr \<mapsto> frame_noted rssi snr now (neighbor_new addr now))"
    using neighbor_upsert_new(2) [OF assms(1,2) keeps_key_noted(1), of now rssi snr now] i all
    by (auto simp: note_frame_upsert fun_eq_iff)
  with n max show ?thesis by blast
qed

text \<open>A full table for concrete evaluation: neighbours 1 to 32, heard at times 100 to 131.\<close>

definition full_table_example :: tn_neighbor_table_t where
  "full_table_example = \<lparr>nt_entries = map (\<lambda>k. neighbor_new (of_nat (k + 1)) (of_nat (100 + k))) [0..<32], nt_count = 32\<rparr>"

lemma full_table_example_facts:
  shows "neighbor_wf full_table_example" and "neighbor_look full_table_example 77 = None"
    and "card (dom (neighbor_look full_table_example)) = TREENET_MAX_NEIGHBORS"
proof -
  have inj: "i = j" if "of_nat (i + 1) = (of_nat (j + 1) :: u32)" "i < 32" "j < 32" for i j :: nat
    using arg_cong [OF that(1), of unat] that(2,3) by (simp del: of_nat_add of_nat_Suc)
  then have "slots_unique ne_valid ne_addr (nt_entries full_table_example)"
    by (simp add: slots_unique_def full_table_example_def del: of_nat_add of_nat_Suc)
  moreover have "used_slots ne_valid (nt_entries full_table_example) = 32"
    by (simp add: used_slots_def full_table_example_def)
  moreover have "length (nt_entries full_table_example) = 32" "unat (nt_count full_table_example) = 32"
    by (simp_all add: full_table_example_def)
  ultimately show wf: "neighbor_wf full_table_example" by (simp add: neighbor_wf_def slots_wf_def config)
  have "\<forall>n\<in>set (nt_entries full_table_example). ne_addr n \<noteq> 77" by code_simp
  then show "neighbor_look full_table_example 77 = None"
    by (auto simp: neighbor_look_def slot_look_None_iff)
  show "card (dom (neighbor_look full_table_example)) = TREENET_MAX_NEIGHBORS"
    unfolding neighbor_full_iff [OF wf] by (auto simp: full_table_example_def)
qed

theorem neighbor_recycles_oldest_witness:
  "\<exists>v n. neighbor_look full_table_example v = Some n \<and>
    neighbor_look (tn_neighbor_note_frame full_table_example 77 (- 80) 4 500) =
      (neighbor_look full_table_example)(v := None, 77 \<mapsto> frame_noted (- 80) 4 500 (neighbor_new 77 500))"
  using neighbor_recycles_oldest [OF full_table_example_facts, of 500 "- 80" 4] by blast

section \<open>The link cost\<close>

text \<open>The delivery ratio the cost is computed from, and its expected transmission count.\<close>

definition pdr_used :: "tn_neighbor_t \<Rightarrow> int" where
  "pdr_used n = max 16 (min 256 (if ew_init (ne_pdr n) then tn_ewma16_get (ne_pdr n) else 256))"

definition cost_formula :: "int \<Rightarrow> int \<Rightarrow> int" where
  "cost_formula pdr snr_score = (120 * snr_score + 96 * min 768 (65536 div pdr - 256)) div 256"

abbreviation snr_used :: "tn_neighbor_t \<Rightarrow> i8" where
  "snr_used n \<equiv> word_of_int (tn_ewma16_get (ne_snr n))"

lemma pdr_used_bounds: "16 \<le> pdr_used n" "pdr_used n \<le> 256"
  by (auto simp: pdr_used_def)

lemma etx_bounds:
  assumes "16 \<le> p" and "p \<le> (256 :: int)"
  shows "256 \<le> 65536 div p" and "65536 div p \<le> 4096"
  using assms zdiv_mono2 [of 65536 p 256] zdiv_mono2 [of 65536 16 p] by simp_all

lemma snr_score_bounds: "0 \<le> uint (tn_snr_score_q8 s)" "uint (tn_snr_score_q8 s) \<le> 1024"
proof -
  have "uint (tn_snr_score_q8 s) \<le> 25600 div 25"
    using tn_clamp_i32_bounds [of "- 20" 5 "sint s"] unfolding uint_snr_score by (intro zdiv_mono1) auto
  then show "uint (tn_snr_score_q8 s) \<le> 1024" by simp
qed simp

lemma update_cost_etx: "uint (ne_etx_q8 (tn_neighbor_update_cost n)) = 65536 div pdr_used n"
proof -
  let ?p = "pdr_used n"
  let ?q = "if ew_init (ne_pdr n) then tn_ewma16_get (ne_pdr n) else 256"
  have p: "(let p = (if ?q < 16 then 16 else ?q) in if p > 256 then 256 else p) = ?p"
    by (simp add: pdr_used_def Let_def)
  have u: "uint (word_of_int ?p :: u32) = ?p"
    using pdr_used_bounds [of n] by (simp add: unsigned_of_int take_bit_int_eq_self)
  have d: "uint ((256 * 256) div (word_of_int ?p :: u32)) = 65536 div ?p"
    by (simp add: uint_div u)
  note b = etx_bounds [OF pdr_used_bounds, of n]
  have "uint (ucast ((256 * 256) div (word_of_int ?p :: u32)) :: u16) = 65536 div ?p"
    using b d by (simp add: unsigned_ucast_eq take_bit_int_eq_self)
  moreover have "\<not> (256 * 256) div (word_of_int ?p :: u32) > 0xFFFF"
    using b d by (simp add: word_less_def)
  ultimately show ?thesis
    unfolding tn_neighbor_update_cost_def p [symmetric] by (simp add: Let_def)
qed

lemma uint_cost_sum:
  fixes s :: i8
  assumes "0 \<le> pen" and "pen \<le> 768"
  defines "c \<equiv> drop_bit 8 (TREENET_OF_W_SNR * ucast (tn_snr_score_q8 s) + TREENET_OF_W_ETX * word_of_int pen :: u32)"
  shows "uint c = (120 * uint (tn_snr_score_q8 s) + 96 * pen) div 256" and "uint c \<le> 768"
proof -
  note sb = snr_score_bounds [of s]
  have u: "uint (ucast (tn_snr_score_q8 s) :: u32) = uint (tn_snr_score_q8 s)"
    using sb by (simp add: unsigned_ucast_eq take_bit_int_eq_self)
  have p: "uint (word_of_int pen :: u32) = pen"
    using assms(1,2) by (simp add: unsigned_of_int take_bit_int_eq_self)
  have "uint (TREENET_OF_W_SNR * ucast (tn_snr_score_q8 s) + TREENET_OF_W_ETX * word_of_int pen :: u32) =
      120 * uint (tn_snr_score_q8 s) + 96 * pen"
    using sb assms(1,2) by (simp add: uint_word_ariths u p config)
  then show c: "uint c = (120 * uint (tn_snr_score_q8 s) + 96 * pen) div 256"
    by (simp add: c_def drop_bit_eq_div uint_div)
  have "(120 * uint (tn_snr_score_q8 s) + 96 * pen) div 256 \<le> (768 * 256) div 256"
    using sb assms(1,2) by (intro zdiv_mono1) auto
  then show "uint c \<le> 768" using c by simp
qed

lemma update_cost_link_cost:
  shows "uint (ne_link_cost (tn_neighbor_update_cost n)) =
      cost_formula (pdr_used n) (uint (tn_snr_score_q8 (snr_used n)))"
    and "ne_link_cost (tn_neighbor_update_cost n) \<le> 768"
proof -
  let ?e = "uint (ne_etx_q8 (tn_neighbor_update_cost n)) - 256"
  let ?p = "if ?e < 0 then 0 else ?e"
  let ?pen = "if ?p > 768 then 768 else ?p"
  let ?c = "drop_bit 8 (TREENET_OF_W_SNR * ucast (tn_snr_score_q8 (snr_used n)) +
      TREENET_OF_W_ETX * word_of_int ?pen :: u32)"
  have pen: "0 \<le> ?pen" "?pen \<le> 768" by auto
  have e: "?pen = min 768 (65536 div pdr_used n - 256)"
    using etx_bounds [OF pdr_used_bounds, of n] unfolding update_cost_etx by auto
  have lc: "ne_link_cost (tn_neighbor_update_cost n) = ucast (if ?c > 1024 then 1024 else ?c)"
    by (simp add: tn_neighbor_update_cost_def Let_def)
  note c = uint_cost_sum [OF pen, of "snr_used n"]
  have "\<not> ?c > 1024" using c(2) by (simp add: word_less_def)
  then have "ne_link_cost (tn_neighbor_update_cost n) = ucast ?c" using lc by simp
  moreover have "uint (ucast ?c :: u16) = uint ?c"
    using c(2) by (simp add: unsigned_ucast_eq take_bit_int_eq_self)
  ultimately have l: "uint (ne_link_cost (tn_neighbor_update_cost n)) = uint ?c" by simp
  then show "uint (ne_link_cost (tn_neighbor_update_cost n)) =
      cost_formula (pdr_used n) (uint (tn_snr_score_q8 (snr_used n)))"
    using c(1) unfolding e by (simp add: cost_formula_def)
  show "ne_link_cost (tn_neighbor_update_cost n) \<le> 768"
    using c(2) unfolding l [symmetric] by (simp add: word_le_def)
qed

lemma cost_formula_mono:
  assumes "16 \<le> p'" and "p' \<le> p" and "s \<le> s'"
  shows "cost_formula p s \<le> cost_formula p' s'"
proof -
  have "65536 div p \<le> 65536 div p'" using assms by (intro zdiv_mono2) auto
  then have "min 768 (65536 div p - 256) \<le> min 768 (65536 div p' - 256)" by (intro min.mono) auto
  then show ?thesis unfolding cost_formula_def using assms(3)
    by (intro zdiv_mono1 add_mono mult_left_mono) simp_all
qed

text \<open>
  Property C26: the link cost. The 32-bit computation equals the integer formula: expected
  transmissions are the reciprocal of the delivery ratio clamped to 16/256 .. 1, the cost is the
  weighted sum of the SNR score and of the expected retransmissions. It never exceeds 768 (so the
  clamp at 1024 is never reached), and a link with at least the delivery ratio and at least the SNR
  of another never costs more.
\<close>

theorem link_cost_correct:
  "uint (ne_etx_q8 (tn_neighbor_update_cost n)) = 65536 div pdr_used n \<and>
   uint (ne_link_cost (tn_neighbor_update_cost n)) =
     cost_formula (pdr_used n) (uint (tn_snr_score_q8 (snr_used n))) \<and>
   ne_link_cost (tn_neighbor_update_cost n) \<le> 768 \<and>
   (pdr_used n' \<le> pdr_used n \<and> sint (snr_used n') \<le> sint (snr_used n) \<longrightarrow>
    ne_link_cost (tn_neighbor_update_cost n) \<le> ne_link_cost (tn_neighbor_update_cost n'))"
proof -
  have "uint (ne_link_cost (tn_neighbor_update_cost n)) \<le> uint (ne_link_cost (tn_neighbor_update_cost n'))"
    if "pdr_used n' \<le> pdr_used n" and s: "sint (snr_used n') \<le> sint (snr_used n)"
  proof -
    have "(5 - tn_clamp_i32 (sint (snr_used n)) (- 20) 5) * 1024 div 25 \<le>
        (5 - tn_clamp_i32 (sint (snr_used n')) (- 20) 5) * 1024 div 25"
      using tn_clamp_i32_mono [OF s, of "- 20" 5] by (intro zdiv_mono1) auto
    then show ?thesis
      using that(1) pdr_used_bounds [of n'] unfolding update_cost_link_cost uint_snr_score [symmetric]
      by (intro cost_formula_mono) auto
  qed
  then show ?thesis
    using update_cost_etx [of n] update_cost_link_cost [of n] by (simp add: word_le_def)
qed

theorem link_cost_correct_witness:
  "ne_link_cost (tn_neighbor_update_cost (neighbor_new 5 0)) \<le>
   ne_link_cost (tn_neighbor_update_cost
     ((neighbor_new 6 0)\<lparr>ne_pdr := ewma_push ewma_zero 64, ne_snr := ewma_push ewma_zero (- 12)\<rparr>))"
proof -
  let ?n = "neighbor_new 5 0"
  let ?m = "(neighbor_new 6 0)\<lparr>ne_pdr := ewma_push ewma_zero 64, ne_snr := ewma_push ewma_zero (- 12)\<rparr>"
  have "pdr_used ?m \<le> pdr_used ?n" by code_simp
  moreover have "sint (snr_used ?m) \<le> sint (snr_used ?n)" by code_simp
  ultimately show ?thesis using link_cost_correct [of ?n ?m] by blast
qed

section \<open>Entry invariant\<close>

text \<open>
  The averages of every entry stay inside the ranges of their samples, so the casts of the source
  (\<open>(int8_t)tn_ewma16_get(&n->snr)\<close> among them) never truncate, and the cost stays bounded.
\<close>

definition neighbor_ok :: "tn_neighbor_t \<Rightarrow> bool" where
  "neighbor_ok n \<longleftrightarrow> ewma_within (- 32768) 32767 (ne_rssi n) \<and> ewma_within (- 128) 127 (ne_snr n) \<and>
     ewma_within 0 256 (ne_pdr n) \<and> ne_link_cost n \<le> 768"

lemma neighbor_ok_new [simp]: "neighbor_ok (neighbor_new addr now)"
  by (simp add: neighbor_ok_def neighbor_new_def neighbor_zero_def)

lemma neighbor_ok_zero [simp]: "neighbor_ok neighbor_zero"
  by (simp add: neighbor_ok_def neighbor_zero_def)

lemma ewma_within_funpow:
  "ewma_within lo hi e \<Longrightarrow> lo \<le> s \<Longrightarrow> s \<le> hi \<Longrightarrow> ewma_within lo hi (((\<lambda>e. ewma_push e s) ^^ k) e)"
  by (induction k) (auto intro: ewma_within_push)

lemma neighbor_ok_noted [tn_inv]:
  assumes "neighbor_ok n"
  shows "neighbor_ok (frame_noted rssi snr now n)"
    and "neighbor_ok (beacon_noted rank parent flags ivl rssi snr now n)"
proof -
  have "ewma_within (- 32768) 32767 (ewma_push (ne_rssi n) (sint rssi))"
    "ewma_within (- 128) 127 (ewma_push (ne_snr n) (sint snr))"
    using assms sint_i16_range [of rssi] sint_i8_range [of snr]
    by (auto simp: neighbor_ok_def intro: ewma_within_push)
  moreover have "ewma_within 0 256 (ne_pdr (note_beacon_pdr n now))"
    using assms by (auto simp: neighbor_ok_def note_beacon_pdr_def Let_def
        intro!: ewma_within_push ewma_within_funpow)
  ultimately show "neighbor_ok (frame_noted rssi snr now n)"
    "neighbor_ok (beacon_noted rank parent flags ivl rssi snr now n)"
    using assms by (simp_all add: neighbor_ok_def frame_noted_def beacon_noted_def update_cost_link_cost(2))
qed

definition neighbors_ok :: "tn_neighbor_table_t \<Rightarrow> bool" where
  "neighbors_ok tbl \<longleftrightarrow> neighbor_wf tbl \<and> list_all neighbor_ok (nt_entries tbl)"

lemma neighbors_ok_init [simp, tn_inv]: "neighbors_ok (tn_neighbor_table_init tbl)"
  by (simp add: neighbors_ok_def) (simp add: tn_neighbor_table_init_def list_all_iff)

lemma neighbors_ok_upsert:
  assumes "neighbors_ok tbl" and "keeps_key f" and "\<And>n. neighbor_ok n \<Longrightarrow> neighbor_ok (f n)"
  shows "neighbors_ok (neighbor_upsert tbl addr now f)"
proof -
  have wf: "neighbor_wf tbl" and all: "list_all neighbor_ok (nt_entries tbl)"
    using assms(1) by (auto simp: neighbors_ok_def)
  obtain i t where g: "tn_neighbor_get_or_create tbl addr now = (i, t)" by fastforce
  have t: "list_all neighbor_ok (nt_entries t)" and i: "i < length (nt_entries t)"
    using g all tn_neighbor_find_SomeD(1) [of tbl addr] neighbor_oldest_less [OF wf, of now]
    by (auto simp: tn_neighbor_get_or_create_def Let_def neighbor_new_def [symmetric]
        intro!: list_all_update split: option.splits if_splits)
  have "neighbor_ok (f (nt_entries t ! i))" using t i assms(3) by (simp add: list_all_length)
  with t have "list_all neighbor_ok (nt_entries (neighbor_upsert tbl addr now f))"
    by (simp add: g neighbor_upsert_def nt_update_def list_all_update)
  then show ?thesis using neighbor_upsert_wf [OF wf assms(2)] by (simp add: neighbors_ok_def)
qed

lemma neighbors_ok_note [simp, tn_inv]:
  assumes "neighbors_ok tbl"
  shows "neighbors_ok (tn_neighbor_note_frame tbl addr rssi snr now)"
    and "neighbors_ok (tn_neighbor_note_beacon tbl addr rank parent flags ivl rssi snr now)"
  using assms by (simp_all add: note_frame_upsert note_beacon_upsert neighbors_ok_upsert neighbor_ok_noted)

end
