(* ===== verification/Tn_Routes.thy ===== *)
theory Tn_Routes
  imports Tn_Util Tn_Slots
begin

text \<open>
  The downward route table of \<open>src/routing/routing.h\<close> and \<open>src/routing/routing.c\<close>. As in the
  neighbour table, a pointer to an entry is its index. The two clean-up loops share their body,
  \<open>route_drop\<close>: every matching entry is invalidated, the counter lowered and the removal counted.

  Shown here: the table is a finite map from destinations to routes with a correct counter
  (\<open>route_wf\<close>), adding a route satisfies the contract \<open>keyed_table\<close>, a lookup returns the latest
  route exactly while it is younger than the timeout, and the clean-up loops remove exactly the
  routes they are meant to.
\<close>

record tn_route_t =
  rt_valid :: bool
  rt_dst :: treenet_addr_t
  rt_next_hop :: treenet_addr_t
  rt_cost :: u16
  rt_hops :: u8
  rt_updated_ms :: u32

record tn_route_table_t =
  rt_entries :: "tn_route_t list"
  rt_count :: u32

definition route_zero :: tn_route_t where
  "route_zero = \<lparr>rt_valid = False, rt_dst = 0, rt_next_hop = 0, rt_cost = 0, rt_hops = 0, rt_updated_ms = 0\<rparr>"

definition tn_route_init :: "tn_route_table_t \<Rightarrow> tn_route_table_t" where
  "tn_route_init t = t\<lparr>rt_entries := replicate TREENET_MAX_ROUTES route_zero, rt_count := 0\<rparr>"

text \<open>\<open>r->valid = false; if (t->count > 0) t->count--;\<close> for the entry at index \<open>i\<close>.\<close>

definition route_invalidate :: "tn_route_table_t \<Rightarrow> nat \<Rightarrow> tn_route_table_t" where
  "route_invalidate t i =
     (let t = t\<lparr>rt_entries := (rt_entries t)[i := (rt_entries t ! i)\<lparr>rt_valid := False\<rparr>]\<rparr>
      in if rt_count t > 0 then t\<lparr>rt_count := rt_count t - 1\<rparr> else t)"

definition tn_route_lookup ::
    "tn_route_table_t \<Rightarrow> treenet_addr_t \<Rightarrow> u32 \<Rightarrow> u32 \<Rightarrow> nat option \<times> tn_route_table_t" where
  "tn_route_lookup t dst now timeout_ms =
     (case find_index (\<lambda>r. rt_valid r \<and> rt_dst r = dst) (rt_entries t) of
        None \<Rightarrow> (None, t)
      | Some i \<Rightarrow>
          if tn_elapsed (rt_updated_ms (rt_entries t ! i)) now > timeout_ms
          then (None, route_invalidate t i)
          else (Some i, t))"

definition route_slot :: "tn_route_table_t \<Rightarrow> u32 \<Rightarrow> nat" where
  "route_slot t now =
     oldest_loop (\<lambda>r. \<not> rt_valid r) (\<lambda>r. tn_elapsed (rt_updated_ms r) now) 0 0 0 (rt_entries t)"

definition tn_route_add ::
    "tn_route_table_t \<Rightarrow> treenet_addr_t \<Rightarrow> treenet_addr_t \<Rightarrow> u16 \<Rightarrow> u8 \<Rightarrow> u32 \<Rightarrow> nat \<times> tn_route_table_t" where
  "tn_route_add t dst next_hop cost hops now =
     (let (i, t) =
            (case find_index (\<lambda>r. rt_valid r \<and> rt_dst r = dst) (rt_entries t) of
               Some i \<Rightarrow> (i, t)
             | None \<Rightarrow>
                 let i = route_slot t now;
                     t = (if \<not> rt_valid (rt_entries t ! i) then t\<lparr>rt_count := rt_count t + 1\<rparr> else t)
                 in (i, t\<lparr>rt_entries := (rt_entries t)
                           [i := (rt_entries t ! i)\<lparr>rt_valid := True, rt_dst := dst\<rparr>]\<rparr>))
      in (i, t\<lparr>rt_entries := (rt_entries t)
               [i := (rt_entries t ! i)\<lparr>rt_next_hop := next_hop, rt_cost := cost, rt_hops := hops,
                                        rt_updated_ms := now\<rparr>]\<rparr>))"

definition route_drop :: "(tn_route_t \<Rightarrow> bool) \<Rightarrow> tn_route_table_t \<Rightarrow> u32 \<times> tn_route_table_t" where
  "route_drop P t =
     foldl (\<lambda>(removed, t) i. if P (rt_entries t ! i) then (removed + 1, route_invalidate t i) else (removed, t))
       (0, t) [0..<TREENET_MAX_ROUTES]"

definition tn_route_remove_via :: "tn_route_table_t \<Rightarrow> treenet_addr_t \<Rightarrow> u32 \<times> tn_route_table_t" where
  "tn_route_remove_via t next_hop = route_drop (\<lambda>r. rt_valid r \<and> rt_next_hop r = next_hop) t"

definition tn_route_expire :: "tn_route_table_t \<Rightarrow> u32 \<Rightarrow> u32 \<Rightarrow> u32 \<times> tn_route_table_t" where
  "tn_route_expire t now timeout_ms =
     route_drop (\<lambda>r. rt_valid r \<and> tn_elapsed (rt_updated_ms r) now > timeout_ms) t"

section \<open>The table as a finite map\<close>

definition route_look :: "tn_route_table_t \<Rightarrow> treenet_addr_t \<Rightarrow> tn_route_t option" where
  "route_look t = slot_look rt_valid rt_dst (rt_entries t)"

definition route_wf :: "tn_route_table_t \<Rightarrow> bool" where
  "route_wf t \<longleftrightarrow> slots_wf rt_valid rt_dst TREENET_MAX_ROUTES (rt_entries t) (rt_count t)"

definition route_entry :: "treenet_addr_t \<Rightarrow> treenet_addr_t \<Rightarrow> u16 \<Rightarrow> u8 \<Rightarrow> u32 \<Rightarrow> tn_route_t" where
  "route_entry dst nh cost hops now =
     \<lparr>rt_valid = True, rt_dst = dst, rt_next_hop = nh, rt_cost = cost, rt_hops = hops, rt_updated_ms = now\<rparr>"

lemma route_entry_sel [simp]:
  "rt_valid (route_entry dst nh cost hops now)" "rt_dst (route_entry dst nh cost hops now) = dst"
  "rt_next_hop (route_entry dst nh cost hops now) = nh"
  "rt_updated_ms (route_entry dst nh cost hops now) = now"
  by (simp_all add: route_entry_def)

lemma route_wf_init [simp, tn_inv]: "route_wf (tn_route_init t)"
  by (simp add: route_wf_def slots_wf_def tn_route_init_def slots_unique_def used_slots_def route_zero_def)

lemma route_look_init [simp]: "route_look (tn_route_init t) = Map.empty"
  by (auto simp: route_look_def tn_route_init_def slot_look_None_iff route_zero_def)

lemma route_wf_length: "route_wf t \<Longrightarrow> length (rt_entries t) = TREENET_MAX_ROUTES"
  by (simp add: route_wf_def slots_wf_def)

lemma route_find:
  assumes "find_index (\<lambda>r. rt_valid r \<and> rt_dst r = dst) (rt_entries t) = Some i"
  shows "i < length (rt_entries t)" "rt_valid (rt_entries t ! i)" "rt_dst (rt_entries t ! i) = dst"
    "route_look t dst = Some (rt_entries t ! i)"
  using find_index_SomeD [OF assms] assms by (simp_all add: route_look_def slot_look_def)

lemma route_look_None_find:
  "route_look t dst = None \<longleftrightarrow> find_index (\<lambda>r. rt_valid r \<and> rt_dst r = dst) (rt_entries t) = None"
  by (simp add: route_look_def slot_look_def)

lemma route_invalidate:
  assumes "route_wf t" and "i < TREENET_MAX_ROUTES" and "rt_valid (rt_entries t ! i)"
  shows "route_wf (route_invalidate t i)"
    and "route_look (route_invalidate t i) = (route_look t)(rt_dst (rt_entries t ! i) := None)"
    and "rt_entries (route_invalidate t i) = (rt_entries t)[i := (rt_entries t ! i)\<lparr>rt_valid := False\<rparr>]"
  using slots_remove [OF assms(1) [unfolded route_wf_def] assms(2,3), of "(rt_entries t ! i)\<lparr>rt_valid := False\<rparr>"]
  by (simp_all add: route_wf_def route_look_def route_invalidate_def Let_def)

lemma route_add_found:
  fixes nh :: treenet_addr_t and cost :: u16 and hops :: u8 and now :: u32
  assumes "route_wf t" and "route_look t dst = Some r"
  defines "t' \<equiv> snd (tn_route_add t dst nh cost hops now)"
  shows "route_wf t'" and "route_look t' = (route_look t)(dst \<mapsto> route_entry dst nh cost hops now)"
proof -
  obtain i where i: "find_index (\<lambda>r. rt_valid r \<and> rt_dst r = dst) (rt_entries t) = Some i"
    using assms(2) route_look_None_find [of t dst] by fastforce
  note f = route_find [OF i]
  have e: "(rt_entries t ! i)\<lparr>rt_next_hop := nh, rt_cost := cost, rt_hops := hops, rt_updated_ms := now\<rparr> =
      route_entry dst nh cost hops now"
    using f by (simp add: route_entry_def)
  have t': "t' = t\<lparr>rt_entries := (rt_entries t)[i := route_entry dst nh cost hops now]\<rparr>"
    by (simp add: t'_def tn_route_add_def i e)
  note w = slots_write [OF assms(1) [unfolded route_wf_def], of i "route_entry dst nh cost hops now"]
  show "route_wf t'" "route_look t' = (route_look t)(dst \<mapsto> route_entry dst nh cost hops now)"
    using w f route_wf_length [OF assms(1)] by (simp_all add: t' route_wf_def route_look_def)
qed

lemma route_add_new:
  fixes nh :: treenet_addr_t and cost :: u16 and hops :: u8 and now :: u32
  assumes "route_wf t" and "route_look t dst = None"
  defines "t' \<equiv> snd (tn_route_add t dst nh cost hops now)"
  defines "old \<equiv> rt_entries t ! route_slot t now"
  shows "route_wf t'"
    and "route_look t' = (\<lambda>k. if k = dst then Some (route_entry dst nh cost hops now)
           else if rt_valid old \<and> rt_dst old = k then None else route_look t k)"
proof -
  let ?xs = "rt_entries t" and ?e = "route_entry dst nh cost hops now"
  define i where "i = route_slot t now"
  have none: "find_index (\<lambda>r. rt_valid r \<and> rt_dst r = dst) ?xs = None"
    using assms(2) by (simp only: route_look_None_find)
  have n: "0 < TREENET_MAX_ROUTES" "TREENET_MAX_ROUTES < 2 ^ 32 - 1" by (simp_all add: config)
  note ins = slots_insert [OF assms(1) [unfolded route_wf_def] n, of ?e "\<lambda>r. tn_elapsed (rt_updated_ms r) now",
      folded route_slot_def i_def]
  have look: "slot_look rt_valid rt_dst ?xs (rt_dst ?e) = None" using assms(2) by (simp add: route_look_def)
  have il: "i < length ?xs" using ins(3) look assms(1) by (simp add: route_wf_length)
  have e: "r\<lparr>rt_valid := True, rt_dst := dst, rt_next_hop := nh, rt_cost := cost, rt_hops := hops, rt_updated_ms := now\<rparr> = ?e" for r
    by (cases r) (simp add: route_entry_def)
  have t': "t' = t\<lparr>rt_entries := ?xs[i := ?e], rt_count := if rt_valid old then rt_count t else rt_count t + 1\<rparr>"
    unfolding t'_def tn_route_add_def none i_def [symmetric] old_def
    using il e by (simp add: Let_def)
  show "route_wf t'" using ins(1) look by (simp add: t' route_wf_def old_def i_def split: if_splits)
  show "route_look t' = (\<lambda>k. if k = dst then Some ?e
      else if rt_valid old \<and> rt_dst old = k then None else route_look t k)"
    using ins(2) look unfolding t' route_look_def old_def i_def by simp
qed

lemma route_add_wf [tn_inv, simp]: "route_wf t \<Longrightarrow> route_wf (snd (tn_route_add t dst nh cost hops now))"
  using route_add_found(1) route_add_new(1) by (cases "route_look t dst") auto

lemma route_add_same [simp]:
  "route_wf t \<Longrightarrow> route_look (snd (tn_route_add t dst nh cost hops now)) dst = Some (route_entry dst nh cost hops now)"
  using route_add_found(2) [of t dst] route_add_new(2) [of t dst] by (cases "route_look t dst") auto

lemma route_full_iff:
  "route_wf t \<Longrightarrow> card (dom (route_look t)) = TREENET_MAX_ROUTES \<longleftrightarrow> (\<forall>r\<in>set (rt_entries t). rt_valid r)"
  unfolding route_look_def route_wf_def by (rule slots_full_iff)

lemma route_look_dom:
  "route_wf t \<Longrightarrow> finite (dom (route_look t)) \<and> card (dom (route_look t)) \<le> TREENET_MAX_ROUTES"
  unfolding route_look_def route_wf_def by (rule slots_dom)

lemma route_add_room:
  assumes "route_wf t" and "k \<noteq> dst"
    and "route_look t dst \<noteq> None \<or> card (dom (route_look t)) < TREENET_MAX_ROUTES"
  shows "route_look (snd (tn_route_add t dst nh cost hops now)) k = route_look t k"
proof (cases "route_look t dst")
  case None
  then have "\<not> rt_valid (rt_entries t ! route_slot t now)"
    unfolding route_slot_def using assms(3) route_full_iff [OF assms(1)] by (intro recycle_slot_free) auto
  then show ?thesis using route_add_new(2) [OF assms(1) None] assms(2) by simp
next
  case (Some r)
  then show ?thesis using route_add_found(2) [OF assms(1) Some] assms(2) by simp
qed

lemma route_add_evict:
  assumes "route_wf t" and "route_look t dst = None" and "card (dom (route_look t)) = TREENET_MAX_ROUTES"
  shows "\<exists>v. v \<in> dom (route_look t) \<and> (\<forall>k. k \<noteq> dst \<longrightarrow>
    route_look (snd (tn_route_add t dst nh cost hops now)) k = (if k = v then None else route_look t k))"
proof -
  let ?old = "rt_entries t ! route_slot t now"
  have i: "route_slot t now < length (rt_entries t)"
    unfolding route_slot_def using assms(1) by (intro recycle_slot_less) (auto simp: route_wf_length config)
  then have v: "rt_valid ?old" using assms(3) route_full_iff [OF assms(1)] by simp
  have "rt_dst ?old \<in> dom (route_look t)"
    using slot_look_at [of rt_valid rt_dst "rt_entries t" "route_slot t now"] i v assms(1)
    by (auto simp: route_look_def route_wf_def slots_wf_def)
  then show ?thesis using route_add_new(2) [OF assms(1,2)] v by (intro exI [of _ "rt_dst ?old"]) simp
qed

interpretation route_table: keyed_table route_wf route_look
    "\<lambda>t k (nh, cost, hops, now). snd (tn_route_add t k nh cost hops now)"
    "\<lambda>k (nh, cost, hops, now) old. route_entry k nh cost hops now"
    TREENET_MAX_ROUTES
proof (unfold_locales, goal_cases)
  case (5 t k a)
  then show ?case using route_add_evict [OF 5] by (cases a) (simp only: prod.case)
qed (auto simp: route_look_dom route_add_room)

section \<open>Lookup and clean-up\<close>

lemma tn_route_lookup_spec:
  assumes "route_wf t"
  shows "case route_look t dst of
      None \<Rightarrow> tn_route_lookup t dst now timeout = (None, t)
    | Some r \<Rightarrow>
        if tn_elapsed (rt_updated_ms r) now > timeout
        then \<exists>t'. tn_route_lookup t dst now timeout = (None, t') \<and> route_wf t' \<and>
               route_look t' = (route_look t)(dst := None)
        else \<exists>i. tn_route_lookup t dst now timeout = (Some i, t) \<and> i < length (rt_entries t) \<and> rt_entries t ! i = r"
proof (cases "find_index (\<lambda>r. rt_valid r \<and> rt_dst r = dst) (rt_entries t)")
  case None
  then have "route_look t dst = None" by (simp only: route_look_None_find)
  then show ?thesis unfolding tn_route_lookup_def None by simp
next
  case (Some i)
  note f = route_find [OF Some]
  have "i < TREENET_MAX_ROUTES" using f(1) assms by (simp add: route_wf_length)
  from route_invalidate [OF assms this f(2)] Some f show ?thesis
    by (simp add: tn_route_lookup_def)
qed

lemma tn_route_lookup_wf [tn_inv, simp]: "route_wf t \<Longrightarrow> route_wf (snd (tn_route_lookup t dst now timeout))"
  using tn_route_lookup_spec [of t dst now timeout] by (auto split: option.splits if_splits)

text \<open>
  The clean-up loop: after \<open>n\<close> iterations the first \<open>n\<close> entries are done, the counter is right and
  the removals are counted.
\<close>

lemma route_drop_loop:
  assumes "route_wf t" and "\<And>r. P r \<Longrightarrow> rt_valid r" and "n \<le> TREENET_MAX_ROUTES"
  shows "\<exists>t'. foldl (\<lambda>(removed, t) i. if P (rt_entries t ! i) then (removed + 1, route_invalidate t i) else (removed, t))
        (0 :: u32, t) [0..<n] = (of_nat (length (filter P (take n (rt_entries t)))), t') \<and> route_wf t' \<and>
      rt_entries t' = map (\<lambda>r. if P r then r\<lparr>rt_valid := False\<rparr> else r) (take n (rt_entries t)) @ drop n (rt_entries t)"
  using assms(3)
proof (induction n)
  case 0
  then show ?case using assms(1) by simp
next
  case (Suc n)
  let ?f = "\<lambda>r. if P r then r\<lparr>rt_valid := False\<rparr> else r"
  let ?xs = "rt_entries t"
  have n: "n < length ?xs" using Suc.prems assms(1) by (simp add: route_wf_length)
  obtain t' where IH: "foldl (\<lambda>(removed, t) i. if P (rt_entries t ! i) then (removed + 1, route_invalidate t i) else (removed, t))
        (0 :: u32, t) [0..<n] = (of_nat (length (filter P (take n ?xs))), t')" "route_wf t'"
      "rt_entries t' = map ?f (take n ?xs) @ drop n ?xs"
    using Suc by auto
  have nth: "rt_entries t' ! n = ?xs ! n" using n by (simp add: IH(3) nth_append)
  have split: "take (Suc n) ?xs = take n ?xs @ [?xs ! n]" "drop n ?xs = ?xs ! n # drop (Suc n) ?xs"
    using n by (simp_all add: take_Suc_conv_app_nth Cons_nth_drop_Suc)
  show ?case
  proof (cases "P (?xs ! n)")
    case True
    have inv: "route_wf (route_invalidate t' n)"
        "rt_entries (route_invalidate t' n) = (rt_entries t')[n := (?xs ! n)\<lparr>rt_valid := False\<rparr>]"
      using route_invalidate [OF IH(2), of n] assms(2) True Suc.prems by (simp_all add: nth)
    have "(rt_entries t')[n := (?xs ! n)\<lparr>rt_valid := False\<rparr>] = map ?f (take (Suc n) ?xs) @ drop (Suc n) ?xs"
      using n True by (simp add: IH(3) split list_update_append)
    with inv True show ?thesis by (simp add: IH(1) nth split)
  next
    case False
    then show ?thesis using IH(2,3) nth by (simp add: IH(1) split)
  qed
qed

lemma route_drop_spec:
  assumes "route_wf t" and "\<And>r. P r \<Longrightarrow> rt_valid r"
  shows "fst (route_drop P t) = of_nat (card {d. \<exists>r. route_look t d = Some r \<and> P r})"
    and "route_wf (snd (route_drop P t))"
    and "route_look (snd (route_drop P t)) d =
      (case route_look t d of None \<Rightarrow> None | Some r \<Rightarrow> if P r then None else Some r)"
proof -
  let ?f = "\<lambda>r. if P r then r\<lparr>rt_valid := False\<rparr> else r"
  have u: "slots_unique rt_valid rt_dst (rt_entries t)" using assms(1) by (simp add: route_wf_def slots_wf_def)
  obtain t' where t': "route_drop P t = (of_nat (length (filter P (rt_entries t))), t')" "route_wf t'"
      "rt_entries t' = map ?f (rt_entries t)"
    using route_drop_loop [where n = TREENET_MAX_ROUTES, OF assms] route_wf_length [OF assms(1)]
    unfolding route_drop_def by auto
  have u': "slots_unique rt_valid rt_dst (rt_entries t')" using t'(2) by (simp add: route_wf_def slots_wf_def)
  have iff: "route_look t' d = Some r \<longleftrightarrow> route_look t d = Some r \<and> \<not> P r" for d r
    unfolding route_look_def slot_look_Some_iff [OF u] slot_look_Some_iff [OF u'] unfolding t'(3)
    by (auto split: if_splits)
  have look: "route_look t' d = (case route_look t d of None \<Rightarrow> None | Some r \<Rightarrow> if P r then None else Some r)" for d
  proof (cases "route_look t d")
    case None
    then show ?thesis using iff [of d] by (cases "route_look t' d") auto
  next
    case (Some r)
    with iff [of d r] iff [of d "the (route_look t' d)"] show ?thesis
      by (cases "route_look t' d") auto
  qed
  have uP: "slots_unique P rt_dst (rt_entries t)" using u assms(2) by (auto simp: slots_unique_def)
  have "{d. \<exists>r. route_look t d = Some r \<and> P r} = dom (slot_look P rt_dst (rt_entries t))"
    unfolding route_look_def dom_def using slot_look_Some_iff [OF u] slot_look_Some_iff [OF uP] assms(2) by auto
  then have "card {d. \<exists>r. route_look t d = Some r \<and> P r} = length (filter P (rt_entries t))"
    using card_dom_slot_look [OF uP] by (simp add: used_slots_def)
  then show "fst (route_drop P t) = of_nat (card {d. \<exists>r. route_look t d = Some r \<and> P r})"
    by (simp add: t'(1))
  show "route_wf (snd (route_drop P t))" by (simp add: t'(1,2))
  show "route_look (snd (route_drop P t)) d =
      (case route_look t d of None \<Rightarrow> None | Some r \<Rightarrow> if P r then None else Some r)"
    using look [of d] by (simp add: t'(1))
qed

lemma route_clean_wf [tn_inv, simp]:
  "route_wf t \<Longrightarrow> route_wf (snd (tn_route_remove_via t nh))"
  "route_wf t \<Longrightarrow> route_wf (snd (tn_route_expire t now timeout))"
  unfolding tn_route_remove_via_def tn_route_expire_def by (rule route_drop_spec(2); simp)+

text \<open>
  Property C27: a downward route lives exactly as long as its timeout. After a route to \<open>dst\<close> is added at
  time \<open>t0\<close>, a later lookup finds it, with the next hop that was announced last, as long as no more
  than the timeout has passed; after that the lookup reports no route and the entry is gone, so that
  no later lookup finds it either, whatever its timeout.
\<close>

theorem route_add_lookup:
  assumes "route_wf t" and "tn_route_add t dst nh cost hops t0 = (j, t')"
  shows "if tn_elapsed t0 now \<le> timeout
    then \<exists>i. tn_route_lookup t' dst now timeout = (Some i, t') \<and>
             rt_entries t' ! i = route_entry dst nh cost hops t0
    else \<exists>t''. tn_route_lookup t' dst now timeout = (None, t'') \<and> route_wf t'' \<and>
             (\<forall>now' timeout'. tn_route_lookup t'' dst now' timeout' = (None, t''))"
proof -
  have wf: "route_wf t'" using route_add_wf [OF assms(1)] assms(2) by (metis snd_conv)
  have look: "route_look t' dst = Some (route_entry dst nh cost hops t0)"
    using route_add_same [OF assms(1)] assms(2) by (metis snd_conv)
  show ?thesis
  proof (cases "tn_elapsed t0 now \<le> timeout")
    case True
    then show ?thesis using tn_route_lookup_spec [OF wf, of dst now timeout] look by (auto split: if_splits)
  next
    case False
    then obtain t'' where t'': "tn_route_lookup t' dst now timeout = (None, t'')" "route_wf t''" "route_look t'' dst = None"
      using tn_route_lookup_spec [OF wf, of dst now timeout] look by (auto simp: not_le)
    then show ?thesis using False tn_route_lookup_spec [OF t''(2), of dst] by auto
  qed
qed

theorem route_add_lookup_witness:
  "\<exists>i. tn_route_lookup (snd (tn_route_add (tn_route_init \<lparr>rt_entries = [], rt_count = 0\<rparr>) 9 4 30 2 0xFFFFFF00)) 9 100 135000 =
     (Some i, snd (tn_route_add (tn_route_init \<lparr>rt_entries = [], rt_count = 0\<rparr>) 9 4 30 2 0xFFFFFF00))"
proof -
  let ?t = "tn_route_init \<lparr>rt_entries = [], rt_count = 0\<rparr>"
  have "tn_elapsed 0xFFFFFF00 100 \<le> 135000" by (simp add: tn_elapsed_def)
  then show ?thesis
    using route_add_lookup [of ?t 9 4 30 2 "0xFFFFFF00" "fst (tn_route_add ?t 9 4 30 2 0xFFFFFF00)"
        "snd (tn_route_add ?t 9 4 30 2 0xFFFFFF00)" 100 135000] by auto
qed

text \<open>
  The clean-up loops. Expiry removes exactly the routes not refreshed within the timeout,
  removal by next hop exactly the routes through that neighbour; every other route is kept as it is,
  and both return the number of routes removed.
\<close>

lemma route_clean_up:
  assumes "route_wf t"
  shows "(case tn_route_expire t now timeout of (n, t') \<Rightarrow>
      n = of_nat (card {d. \<exists>r. route_look t d = Some r \<and> tn_elapsed (rt_updated_ms r) now > timeout}) \<and>
      (\<forall>d. route_look t' d = (case route_look t d of None \<Rightarrow> None
         | Some r \<Rightarrow> if tn_elapsed (rt_updated_ms r) now > timeout then None else Some r))) \<and>
    (case tn_route_remove_via t nh of (n, t') \<Rightarrow>
      n = of_nat (card {d. \<exists>r. route_look t d = Some r \<and> rt_next_hop r = nh}) \<and>
      (\<forall>d. route_look t' d = (case route_look t d of None \<Rightarrow> None
         | Some r \<Rightarrow> if rt_next_hop r = nh then None else Some r)))"
proof -
  let ?E = "\<lambda>r :: tn_route_t. rt_valid r \<and> tn_elapsed (rt_updated_ms r) now > timeout"
    and ?V = "\<lambda>r :: tn_route_t. rt_valid r \<and> rt_next_hop r = nh"
  have valid: "rt_valid r" if "route_look t d = Some r" for d r
    using that by (auto simp: route_look_def dest: slot_look_SomeD)
  have cards: "{d. \<exists>r. route_look t d = Some r \<and> rt_valid r \<and> Q r} = {d. \<exists>r. route_look t d = Some r \<and> Q r}" for Q
    using valid by auto
  have e: "\<And>r. ?E r \<Longrightarrow> rt_valid r" and v: "\<And>r. ?V r \<Longrightarrow> rt_valid r" by simp_all
  note 1 = route_drop_spec [where P = ?E, OF assms e] and 2 = route_drop_spec [where P = ?V, OF assms v]
  show ?thesis
    unfolding tn_route_expire_def tn_route_remove_via_def case_prod_unfold
    using 1(1) 2(1) by (auto simp: cards 1(3) 2(3) dest: valid split: option.splits)
qed

text \<open>
  No route is lost while the table has room. From the initialised table and any sequence of
  announcements for at most \<open>TREENET_MAX_ROUTES\<close> distinct destinations, the table has exactly
  these destinations, and the last announcement is the route stored for its destination.
\<close>

lemma route_table_holds_all:
  assumes "card (fst ` set (ops @ [(dst, nh, cost, hops, now)])) \<le> TREENET_MAX_ROUTES"
  shows "dom (route_look (foldl (\<lambda>t (k, nh, cost, hops, now). snd (tn_route_add t k nh cost hops now))
           (tn_route_init t) (ops @ [(dst, nh, cost, hops, now)]))) =
         fst ` set (ops @ [(dst, nh, cost, hops, now)]) \<and>
         route_look (foldl (\<lambda>t (k, nh, cost, hops, now). snd (tn_route_add t k nh cost hops now))
           (tn_route_init t) (ops @ [(dst, nh, cost, hops, now)])) dst = Some (route_entry dst nh cost hops now)"
proof -
  let ?ops = "ops @ [(dst, nh, cost, hops, now)]"
  have "dom (route_look (route_table.upserts (tn_route_init t) ?ops)) = fst ` set ?ops"
    using route_table.upserts_no_eviction [of "tn_route_init t" ?ops] assms by simp
  moreover have "route_look (route_table.upserts (tn_route_init t) ?ops) dst = Some (route_entry dst nh cost hops now)"
    using route_table.upserts_last_found [of "tn_route_init t" ops dst "(nh, cost, hops, now)"] by simp
  ultimately show ?thesis unfolding route_table.upserts_def by (simp add: case_prod_unfold)
qed

end
