(* ===== verification/Tn_Events.thy ===== *)
theory Tn_Events
  imports Tn_Config Tn_Fifo
begin

text \<open>
  The application event queue of \<open>src/core/internal.h\<close>, with the two pieces of
  \<open>src/api/treenet.c\<close> that work on it: appending an event (\<open>tn_emit_event\<close>) and taking the oldest
  one (the loop body of \<open>tn_events_flush\<close>). The only event argument the code passes besides
  \<open>NULL\<close> is the address of the parent field.
\<close>

datatype tn_event_arg = Arg_NULL | Arg_parent

record tn_eventq_t =
  eq_ev :: "treenet_event_t list"
  eq_arg :: "tn_event_arg list"
  eq_head :: u8
  eq_tail :: u8
  eq_count :: u8

definition eventq_zero :: tn_eventq_t where
  "eventq_zero = \<lparr>eq_ev = replicate TREENET_EVENT_QUEUE_SIZE TREENET_EV_NETWORK_READY,
     eq_arg = replicate TREENET_EVENT_QUEUE_SIZE Arg_NULL, eq_head = 0, eq_tail = 0, eq_count = 0\<rparr>"

text \<open>\<open>(uint8_t)((pos + 1u) % TREENET_EVENT_QUEUE_SIZE)\<close>\<close>

definition eventq_succ :: "u8 \<Rightarrow> u8" where
  "eventq_succ pos = ucast ((ucast pos + 1 :: u32) mod of_nat TREENET_EVENT_QUEUE_SIZE)"

definition eventq_emit :: "tn_eventq_t \<Rightarrow> treenet_event_t \<Rightarrow> tn_event_arg \<Rightarrow> tn_eventq_t" where
  "eventq_emit q ev arg =
     (let q = (if unat (eq_count q) \<ge> TREENET_EVENT_QUEUE_SIZE
               then q\<lparr>eq_head := eventq_succ (eq_head q), eq_count := eq_count q - 1\<rparr> else q);
          q = q\<lparr>eq_ev := (eq_ev q)[unat (eq_tail q) := ev], eq_arg := (eq_arg q)[unat (eq_tail q) := arg]\<rparr>
      in q\<lparr>eq_tail := eventq_succ (eq_tail q), eq_count := eq_count q + 1\<rparr>)"

definition eventq_take :: "tn_eventq_t \<Rightarrow> (treenet_event_t \<times> tn_event_arg) \<times> tn_eventq_t" where
  "eventq_take q =
     ((eq_ev q ! unat (eq_head q), eq_arg q ! unat (eq_head q)),
      q\<lparr>eq_head := eventq_succ (eq_head q), eq_count := eq_count q - 1\<rparr>)"

section \<open>The queue as a list\<close>

definition eventq_repr :: "tn_eventq_t \<Rightarrow> (treenet_event_t \<times> tn_event_arg) list \<Rightarrow> bool" where
  "eventq_repr q xs \<longleftrightarrow> length (eq_ev q) = 16 \<and> length (eq_arg q) = 16 \<and> unat (eq_head q) < 16 \<and>
     length xs \<le> 16 \<and> unat (eq_count q) = length xs \<and>
     unat (eq_tail q) = (unat (eq_head q) + length xs) mod 16 \<and>
     (\<forall>k<length xs. xs ! k = (eq_ev q ! ((unat (eq_head q) + k) mod 16), eq_arg q ! ((unat (eq_head q) + k) mod 16)))"

definition eventq_wf :: "tn_eventq_t \<Rightarrow> bool" where
  "eventq_wf q \<longleftrightarrow> length (eq_ev q) = 16 \<and> length (eq_arg q) = 16 \<and> unat (eq_head q) < 16 \<and>
     unat (eq_count q) \<le> 16 \<and> unat (eq_tail q) = (unat (eq_head q) + unat (eq_count q)) mod 16"

definition eventq_list :: "tn_eventq_t \<Rightarrow> (treenet_event_t \<times> tn_event_arg) list" where
  "eventq_list q = map (\<lambda>k. (eq_ev q ! ((unat (eq_head q) + k) mod 16), eq_arg q ! ((unat (eq_head q) + k) mod 16)))
     [0..<unat (eq_count q)]"

lemma eventq_repr_iff: "eventq_repr q xs \<longleftrightarrow> eventq_wf q \<and> xs = eventq_list q"
proof -
  have "xs = eventq_list q \<longleftrightarrow> length xs = unat (eq_count q) \<and>
      (\<forall>k<length xs. xs ! k = (eq_ev q ! ((unat (eq_head q) + k) mod 16), eq_arg q ! ((unat (eq_head q) + k) mod 16)))"
    unfolding eventq_list_def list_eq_iff_nth_eq by auto
  then show ?thesis unfolding eventq_repr_def eventq_wf_def by (metis (no_types, lifting))
qed

lemma eventq_repr_zero [simp]: "eventq_repr eventq_zero []"
  by (simp add: eventq_repr_def eventq_zero_def config)

lemma unat_eventq_succ:
  assumes "unat pos < 16"
  shows "unat (eventq_succ pos) = (unat pos + 1) mod 16"
proof -
  have "unat (ucast pos + 1 :: u32) = unat pos + 1"
    using assms by (simp add: unat_word_ariths)
  then show ?thesis
    by (simp add: eventq_succ_def config unsigned_ucast_eq unat_word_ariths take_bit_nat_eq_self
        pos_mod_bound order.strict_trans [OF mod_less_divisor])
qed

lemma eventq_reprD:
  assumes "eventq_repr q xs"
  shows "length (eq_ev q) = 16" and "length (eq_arg q) = 16" and "unat (eq_head q) < 16" and "length xs \<le> 16"
    and "unat (eq_count q) = length xs" and "unat (eq_tail q) = (unat (eq_head q) + length xs) mod 16"
    and "\<And>k. k < length xs \<Longrightarrow>
      xs ! k = (eq_ev q ! ((unat (eq_head q) + k) mod 16), eq_arg q ! ((unat (eq_head q) + k) mod 16))"
  using assms by (auto simp: eventq_repr_def)

text \<open>Emitting into a full queue overwrites the oldest record and moves the head past it.\<close>

lemma eventq_emit_full:
  assumes "eventq_repr q xs" and "length xs = 16"
  shows "eventq_repr (eventq_emit q ev arg) (tl xs @ [(ev, arg)])"
proof -
  let ?h = "unat (eq_head q)" and ?t = "unat (eq_tail q)" and ?q = "eventq_emit q ev arg"
  note r = eventq_reprD [OF assms(1)]
  have th: "?t = ?h" using r(3,6) assms(2) by simp
  then have t16: "?t < 16" using r(3) by simp
  have "unat (eq_count q - 1) = 15" using r(5) assms(2) unat_sub [of 1 "eq_count q"] by (simp add: word_le_nat_alt)
  then have q: "eq_ev ?q = (eq_ev q)[?t := ev]" "eq_arg ?q = (eq_arg q)[?t := arg]"
    "unat (eq_head ?q) = (?h + 1) mod 16" "unat (eq_tail ?q) = (?t + 1) mod 16" "unat (eq_count ?q) = 16"
    using assms(2) r(5) unat_eventq_succ [OF t16] unat_eventq_succ [OF r(3)] by (simp_all add: eventq_emit_def config unat_word_ariths)
  have idx: "((?h + 1) mod 16 + k) mod 16 = (?h + Suc k) mod 16" for k
    using mod_add_left_eq [of "?h + 1" 16 k] by simp
  have "(tl xs @ [(ev, arg)]) ! k = ((eq_ev q)[?t := ev] ! (((?h + 1) mod 16 + k) mod 16),
      (eq_arg q)[?t := arg] ! (((?h + 1) mod 16 + k) mod 16))" if "k < 16" for k
  proof (cases "k < 15")
    case True
    then have "(?h + Suc k) mod 16 \<noteq> ?h" using mod_add_cases [of "Suc k" 16 ?h] r(3) by auto
    then show ?thesis using True r(7) [of "Suc k"] assms(2) th unfolding idx by (simp add: nth_append nth_tl)
  next
    case False
    with that have "k = 15" by simp
    moreover have "(?h + 16) mod 16 = ?h" using r(3) by simp
    ultimately show ?thesis using assms(2) th r(1-3) unfolding idx by (simp add: nth_append)
  qed
  then show ?thesis unfolding eventq_repr_def q using assms(2) th r(1-3) by simp
qed

text \<open>Emitting into a queue with room appends the record and leaves the head alone.\<close>

lemma eventq_emit_room:
  assumes "eventq_repr q xs" and "length xs < 16"
  shows "eventq_repr (eventq_emit q ev arg) (xs @ [(ev, arg)])"
proof -
  let ?h = "unat (eq_head q)" and ?t = "unat (eq_tail q)" and ?n = "length xs" and ?q = "eventq_emit q ev arg"
  note r = eventq_reprD [OF assms(1)]
  have t16: "?t < 16" using r(6) by simp
  have q: "eq_ev ?q = (eq_ev q)[?t := ev]" "eq_arg ?q = (eq_arg q)[?t := arg]" "eq_head ?q = eq_head q"
    "unat (eq_tail ?q) = (?t + 1) mod 16" "unat (eq_count ?q) = ?n + 1"
    using r(5) assms(2) unat_eventq_succ [OF t16] by (simp_all add: eventq_emit_def config unat_word_ariths)
  have ne: "(?h + k) mod 16 \<noteq> ?t" if "k < ?n" for k
    using mod_add_cases [of k 16 ?h] mod_add_cases [of ?n 16 ?h] that assms(2) r(3,6) by auto
  have "(xs @ [(ev, arg)]) ! k = ((eq_ev q)[?t := ev] ! ((?h + k) mod 16), (eq_arg q)[?t := arg] ! ((?h + k) mod 16))"
    if "k < ?n + 1" for k
    using that r(7) [of k] ne [of k] r(6) t16 r(1,2) by (cases "k = ?n") (simp_all add: nth_append)
  moreover have "(?t + 1) mod 16 = (?h + (?n + 1)) mod 16"
    using mod_add_left_eq [of "?h + ?n" 16 1] by (simp add: r(6))
  ultimately show ?thesis unfolding eventq_repr_def q using assms(2) r(1-3) by simp
qed

lemma eventq_emit_repr:
  assumes "eventq_repr q xs"
  shows "eventq_repr (eventq_emit q ev arg) (drop (Suc (length xs) - 16) (xs @ [(ev, arg)]))"
proof (cases "length xs = 16")
  case True
  then have "drop (Suc (length xs) - 16) (xs @ [(ev, arg)]) = tl xs @ [(ev, arg)]" by (cases xs) auto
  then show ?thesis using eventq_emit_full [OF assms True] by simp
next
  case False
  then have "length xs < 16" using eventq_reprD(4) [OF assms] by simp
  then show ?thesis using eventq_emit_room [OF assms] by simp
qed

lemma eventq_take_repr:
  assumes "eventq_repr q (x # xs)"
  shows "fst (eventq_take q) = x \<and> eventq_repr (snd (eventq_take q)) xs"
proof -
  let ?h = "unat (eq_head q)"
  have h: "?h < 16" and n: "length xs < 16" and c: "unat (eq_count q) = Suc (length xs)"
    and nth: "\<And>k. k < Suc (length xs) \<Longrightarrow> (x # xs) ! k = (eq_ev q ! ((?h + k) mod 16), eq_arg q ! ((?h + k) mod 16))"
    using assms by (auto simp: eventq_repr_def)
  have cnt: "unat (eq_count q - 1) = length xs"
    using c unat_sub [of 1 "eq_count q"] by (simp add: word_le_nat_alt)
  have idx: "(Suc ?h mod 16 + k) mod 16 = Suc (?h + k) mod 16" for k
    using mod_add_left_eq [of "Suc ?h" 16 k] by simp
  have "eventq_repr (snd (eventq_take q)) xs"
    using assms n cnt nth [of "Suc _"]
    by (auto simp: eventq_repr_def eventq_take_def unat_eventq_succ [OF h] idx simp del: unat_of_nat_lt)
  then show ?thesis using nth [of 0] h by (simp add: eventq_take_def)
qed

interpretation event_queue: recent_fifo "\<lambda>q (ev, arg). eventq_emit q ev arg" eventq_take
    "\<lambda>q. unat (eq_count q)" eventq_repr TREENET_EVENT_QUEUE_SIZE
proof (unfold_locales, goal_cases)
  case (1 q xs x)
  then show ?case by (cases x) (simp only: prod.case TREENET_EVENT_QUEUE_SIZE_def eventq_emit_repr)
next
  case (2 q x xs)
  then show ?case by (rule eventq_take_repr)
qed (simp_all add: eventq_repr_def config)

lemma eventq_wf_repr: "eventq_wf q \<longleftrightarrow> eventq_repr q (eventq_list q)"
  by (simp add: eventq_repr_iff)

lemma eventq_wf_ops [simp, tn_inv]:
  shows "eventq_wf eventq_zero" and "eventq_wf q \<Longrightarrow> eventq_wf (eventq_emit q ev arg)"
    and "eventq_wf q \<Longrightarrow> eq_count q \<noteq> 0 \<Longrightarrow> eventq_wf (snd (eventq_take q))"
proof -
  show "eventq_wf eventq_zero" using eventq_repr_zero by (simp only: eventq_repr_iff)
  show "eventq_wf (eventq_emit q ev arg)" if "eventq_wf q"
    using eventq_emit_repr [of q "eventq_list q"] that unfolding eventq_wf_repr [of q] by (simp only: eventq_repr_iff)
  assume q: "eventq_wf q" "eq_count q \<noteq> 0"
  then obtain x xs where "eventq_list q = x # xs"
    by (cases "eventq_list q") (auto simp: eventq_list_def unat_eq_0)
  then show "eventq_wf (snd (eventq_take q))"
    using eventq_take_repr [of q x xs] q(1) unfolding eventq_wf_repr [of q] by (simp only: eventq_repr_iff)
qed

text \<open>
  Property C29: the event queue keeps the most recent events. Whatever events are emitted into an empty
  queue, draining it delivers the last \<open>TREENET_EVENT_QUEUE_SIZE\<close> of them, or all if there are
  fewer, oldest first.
\<close>

theorem eventq_keeps_recent:
  "eventq_repr (foldl (\<lambda>q (ev, arg). eventq_emit q ev arg) eventq_zero evs)
     (drop (length evs - TREENET_EVENT_QUEUE_SIZE) evs) \<and>
   fst (event_queue.drain TREENET_EVENT_QUEUE_SIZE
     (foldl (\<lambda>q (ev, arg). eventq_emit q ev arg) eventq_zero evs)) =
   drop (length evs - TREENET_EVENT_QUEUE_SIZE) evs"
proof -
  have repr: "eventq_repr (foldl (\<lambda>q (ev, arg). eventq_emit q ev arg) eventq_zero evs)
      (drop (length evs - TREENET_EVENT_QUEUE_SIZE) evs)"
    using event_queue.puts_repr [OF eventq_repr_zero, of evs] by simp
  then show ?thesis using event_queue.drain_repr [OF repr] by simp
qed

end
