(* ===== verification/Tn_Context.thy ===== *)
theory Tn_Context
  imports Tn_Timer Tn_Dupcache Tn_Airtime Tn_Ringbuf Tn_Frame Tn_Neighbor Tn_Routes Tn_Events
begin

text \<open>
  The node instance (\<open>struct treenet\<close> of \<open>src/core/internal.h\<close>), the application and port
  descriptors of \<open>include/treenet/treenet.h\<close> and \<open>include/treenet/port.h\<close>, and the services
  \<open>src/api/treenet.c\<close> offers to the other modules: events, sequence numbers, logging and the
  transmit queue.

  Everything outside the library lives in an environment of type \<open>'w\<close>, kept in \<open>nd_env\<close>. The port
  functions are parameters: functions on the environment, \<open>None\<close> for a \<open>NULL\<close> pointer. An
  application callback is a program of type \<open>'w app\<close>: it acts on the environment and on the node
  through the public interface only (sending, broadcasting, looking at the node), and may
  depend on what these calls return. The library documentation forbids it to touch the
  instance in any other way.
\<close>

section \<open>Descriptors\<close>

record treenet_stats_t =
  st_frames_tx :: u32
  st_frames_rx :: u32
  st_frames_dropped :: u32
  st_retransmissions :: u32
  st_beacons_tx :: u32
  st_beacons_rx :: u32
  st_parent_changes :: u32
  st_datagrams_tx :: u32
  st_datagrams_rx :: u32
  st_airtime_ms :: u32

definition stats_zero :: treenet_stats_t where
  "stats_zero = \<lparr>st_frames_tx = 0, st_frames_rx = 0, st_frames_dropped = 0, st_retransmissions = 0,
     st_beacons_tx = 0, st_beacons_rx = 0, st_parent_changes = 0, st_datagrams_tx = 0,
     st_datagrams_rx = 0, st_airtime_ms = 0\<rparr>"

record treenet_link_quality_t =
  lq_rssi_dbm :: i16
  lq_snr_db :: i8
  lq_pdr_q8 :: u16
  lq_etx_q8 :: u16
  lq_link_cost :: u16

record treenet_neighbor_info_t =
  in_addr :: treenet_addr_t
  in_lq :: treenet_link_quality_t
  in_rank :: u16
  in_age_ms :: u32
  in_is_parent :: bool

record treenet_radio_cfg_t =
  ra_frequency_hz :: u32
  ra_spreading_factor :: u8
  ra_bandwidth_hz :: u32
  ra_coding_rate :: u8
  ra_tx_power_dbm :: i8

text \<open>What the introspection functions show an application.\<close>

record app_view =
  av_addr :: treenet_addr_t
  av_role :: treenet_role_t
  av_parent :: treenet_addr_t
  av_rank :: u16
  av_connected :: bool
  av_stats :: treenet_stats_t
  av_neighbors :: "treenet_neighbor_info_t list"

text \<open>
  A callback: it ends, acts on the environment (the continuation receives the environment it
  found), sends to a node, broadcasts (both continue with the return code; a data pointer is the
  list of bytes it points to, \<open>None\<close> for \<open>NULL\<close>), or looks at the node.
\<close>

datatype 'w app =
    App_done
  | App_world "'w \<Rightarrow> 'w" "'w \<Rightarrow> 'w app"
  | App_send treenet_addr_t "u8 list option" nat "int \<Rightarrow> 'w app"
  | App_broadcast "u8 list option" nat "int \<Rightarrow> 'w app"
  | App_view "app_view \<Rightarrow> 'w app"

text \<open>
  \<open>cf_on_recv\<close> receives the source, the payload, RSSI, SNR and the hop count; \<open>cf_on_event\<close> the
  event and what its argument points to.
\<close>

record 'w treenet_config_t =
  cf_addr :: treenet_addr_t
  cf_role :: treenet_role_t
  cf_net_id :: u16
  cf_on_recv :: "(treenet_addr_t \<Rightarrow> u8 list \<Rightarrow> i16 \<Rightarrow> i8 \<Rightarrow> u8 \<Rightarrow> 'w app) option"
  cf_on_event :: "(treenet_event_t \<Rightarrow> treenet_addr_t option \<Rightarrow> 'w app) option"
  cf_reliable :: bool
  cf_radio :: treenet_radio_cfg_t

record 'w treenet_port_t =
  po_tx :: "(u8 list \<Rightarrow> 'w \<Rightarrow> int \<times> 'w) option"
  po_now_ms :: "('w \<Rightarrow> u32 \<times> 'w) option"
  po_rnd :: "('w \<Rightarrow> u32 \<times> 'w) option"
  po_channel_free :: "('w \<Rightarrow> bool \<times> 'w) option"
  po_log :: "(int \<Rightarrow> string \<Rightarrow> 'w \<Rightarrow> 'w) option"
  po_timer_arm :: "(u32 \<Rightarrow> 'w \<Rightarrow> 'w) option"

section \<open>The instance\<close>

record tn_tx_slot_t =
  tx_valid :: bool
  tx_len :: u16
  tx_reliable :: bool
  tx_attempts :: u8
  tx_next_tx_ms :: u32
  tx_ack_dst :: treenet_addr_t
  tx_ack_seq :: u16
  tx_buf :: "u8 list"

definition tx_slot_zero :: tn_tx_slot_t where
  "tx_slot_zero = \<lparr>tx_valid = False, tx_len = 0, tx_reliable = False, tx_attempts = 0, tx_next_tx_ms = 0,
     tx_ack_dst = 0, tx_ack_seq = 0, tx_buf = replicate TREENET_MTU 0\<rparr>"

record tn_reasm_t =
  re_valid :: bool
  re_src :: treenet_addr_t
  re_dgram_id :: u16
  re_count :: u8
  re_received :: u8
  re_total_len :: u16
  re_last_ms :: u32
  re_got_mask :: u16
  re_buf :: "u8 list"
  re_frag_len :: "u16 list"

definition reasm_zero :: tn_reasm_t where
  "reasm_zero = \<lparr>re_valid = False, re_src = 0, re_dgram_id = 0, re_count = 0, re_received = 0,
     re_total_len = 0, re_last_ms = 0, re_got_mask = 0, re_buf = replicate TREENET_MAX_DATAGRAM 0,
     re_frag_len = replicate TREENET_MAX_FRAGMENTS 0\<rparr>"

record 'w treenet =
  nd_cfg :: "'w treenet_config_t"
  nd_port :: "'w treenet_port_t"
  nd_addr :: treenet_addr_t
  nd_role :: treenet_role_t
  nd_net_id :: u16
  nd_initialized :: bool
  nd_now_ms :: u32
  nd_seq :: u16
  nd_rank :: u16
  nd_parent :: treenet_addr_t
  nd_parent_rank :: u16
  nd_parent_since :: u32
  nd_parent_beacon_ms :: u32
  nd_connected :: bool
  nd_joined :: bool
  nd_dao_last_ms :: u32
  nd_probe_last_ms :: u32
  nd_neighbors :: tn_neighbor_table_t
  nd_routes :: tn_route_table_t
  nd_dup :: tn_dupcache_t
  nd_rx :: tn_ringbuf_t
  nd_tx :: "tn_tx_slot_t list"
  nd_reasm :: "tn_reasm_t list"
  nd_events :: tn_eventq_t
  nd_beacon_timer :: tn_timer_t
  nd_trickle_I :: u32
  nd_lora :: tn_lora_params_t
  nd_has_lora :: bool
  nd_stats :: treenet_stats_t
  nd_env :: 'w

section \<open>Calls into the port\<close>

text \<open>
  \<open>treenet_init\<close> refuses a port without the three mandatory functions, so the \<open>None\<close> branches of
  \<open>port_rnd\<close>, \<open>port_now_ms\<close> and \<open>port_tx\<close> (calls through \<open>NULL\<close>) are never reached.
\<close>

definition port_rnd :: "'w treenet \<Rightarrow> u32 \<times> 'w treenet" where
  "port_rnd t =
     (case po_rnd (nd_port t) of
        None \<Rightarrow> (0, t)
      | Some f \<Rightarrow> let (r, w) = f (nd_env t) in (r, t\<lparr>nd_env := w\<rparr>))"

definition port_now_ms :: "'w treenet \<Rightarrow> u32 \<times> 'w treenet" where
  "port_now_ms t =
     (case po_now_ms (nd_port t) of
        None \<Rightarrow> (0, t)
      | Some f \<Rightarrow> let (r, w) = f (nd_env t) in (r, t\<lparr>nd_env := w\<rparr>))"

definition port_tx :: "'w treenet \<Rightarrow> u8 list \<Rightarrow> nat \<Rightarrow> int \<times> 'w treenet" where
  "port_tx t buf len =
     (case po_tx (nd_port t) of
        None \<Rightarrow> (- 1, t)
      | Some f \<Rightarrow> let (r, w) = f (take len buf) (nd_env t) in (r, t\<lparr>nd_env := w\<rparr>))"

definition port_channel_free :: "'w treenet \<Rightarrow> bool \<times> 'w treenet" where
  "port_channel_free t =
     (case po_channel_free (nd_port t) of
        None \<Rightarrow> (True, t)
      | Some f \<Rightarrow> let (r, w) = f (nd_env t) in (r, t\<lparr>nd_env := w\<rparr>))"

definition port_timer_arm :: "'w treenet \<Rightarrow> u32 \<Rightarrow> 'w treenet" where
  "port_timer_arm t delay_ms =
     (case po_timer_arm (nd_port t) of
        None \<Rightarrow> t
      | Some f \<Rightarrow> t\<lparr>nd_env := f delay_ms (nd_env t)\<rparr>)"

section \<open>Core services\<close>

text \<open>\<open>TN_STAT_INC(t, field)\<close>; the field is given by its update function.\<close>

definition TN_STAT_INC ::
    "((u32 \<Rightarrow> u32) \<Rightarrow> treenet_stats_t \<Rightarrow> treenet_stats_t) \<Rightarrow> 'w treenet \<Rightarrow> 'w treenet" where
  "TN_STAT_INC field t = t\<lparr>nd_stats := field (\<lambda>v. v + 1) (nd_stats t)\<rparr>"

definition TN_STAT_ADD ::
    "((u32 \<Rightarrow> u32) \<Rightarrow> treenet_stats_t \<Rightarrow> treenet_stats_t) \<Rightarrow> u32 \<Rightarrow> 'w treenet \<Rightarrow> 'w treenet" where
  "TN_STAT_ADD field n t = t\<lparr>nd_stats := field (\<lambda>v. v + n) (nd_stats t)\<rparr>"

definition tn_log :: "'w treenet \<Rightarrow> int \<Rightarrow> string \<Rightarrow> 'w treenet" where
  "tn_log t level msg =
     (case po_log (nd_port t) of
        None \<Rightarrow> t
      | Some f \<Rightarrow> t\<lparr>nd_env := f level msg (nd_env t)\<rparr>)"

definition tn_next_seq :: "'w treenet \<Rightarrow> u16 \<times> 'w treenet" where
  "tn_next_seq t = (nd_seq t, t\<lparr>nd_seq := nd_seq t + 1\<rparr>)"

definition tn_emit_event :: "'w treenet \<Rightarrow> treenet_event_t \<Rightarrow> tn_event_arg \<Rightarrow> 'w treenet" where
  "tn_emit_event t ev arg = t\<lparr>nd_events := eventq_emit (nd_events t) ev arg\<rparr>"

definition tn_tx_submit ::
    "'w treenet \<Rightarrow> tn_frame_t \<Rightarrow> bool \<Rightarrow> treenet_addr_t \<Rightarrow> u32 \<Rightarrow> int \<times> 'w treenet" where
  "tn_tx_submit t frame reliable next_hop delay_ms =
     (case find_index (\<lambda>s. \<not> tx_valid s) (nd_tx t) of
        None \<Rightarrow> (- 1, TN_STAT_INC st_frames_dropped_update t)
      | Some i \<Rightarrow>
          let s = nd_tx t ! i;
              stamped = frame\<lparr>fr_prev := nd_addr t\<rparr>;
              (len, buf) = tn_frame_encode (tx_buf s) TREENET_MTU stamped;
              s = s\<lparr>tx_buf := buf\<rparr>
          in if len = 0 then (- 2, t\<lparr>nd_tx := (nd_tx t)[i := s]\<rparr>)
             else
               let s = s\<lparr>tx_valid := True, tx_len := of_nat len, tx_reliable := reliable, tx_attempts := 0,
                         tx_ack_dst := (if reliable then next_hop else TREENET_ADDR_INVALID),
                         tx_ack_seq := fr_seq stamped\<rparr>;
                   (r, t) = port_rnd t;
                   backoff = tn_rand_below r TREENET_CW_MAX * TREENET_SLOT_MS;
                   s = s\<lparr>tx_next_tx_ms := nd_now_ms t + delay_ms + backoff\<rparr>
               in (0, t\<lparr>nd_tx := (nd_tx t)[i := s]\<rparr>))"

definition tn_tx_free_slots :: "'w treenet \<Rightarrow> nat" where
  "tn_tx_free_slots t = length (filter (\<lambda>s. \<not> tx_valid s) (nd_tx t))"

section \<open>What the operations leave alone\<close>

text \<open>
  Five groups of fields. No operation below \<open>treenet_poll\<close> changes the first group (configuration,
  identity, clock, receive ring); which of the others an operation leaves alone is stated for each
  operation as one equation per group, from which the equations for the single fields follow.
\<close>

definition nd_static where
  "nd_static t = (nd_cfg t, nd_port t, nd_addr t, nd_role t, nd_net_id t, nd_initialized t, nd_now_ms t, nd_rx t,
      nd_lora t, nd_has_lora t)"

definition nd_tree where
  "nd_tree t = (nd_rank t, nd_parent t, nd_parent_rank t, nd_parent_since t, nd_parent_beacon_ms t, nd_connected t,
      nd_joined t, nd_neighbors t, nd_events t)"

definition nd_trickle where
  "nd_trickle t = (nd_beacon_timer t, nd_trickle_I t)"

definition nd_tables where
  "nd_tables t = (nd_routes t, nd_dup t, nd_reasm t)"

definition nd_queue where
  "nd_queue t = (nd_tx t, nd_seq t, nd_stats t)"

lemma nd_staticD:
  assumes "nd_static x = nd_static t"
  shows "nd_cfg x = nd_cfg t" and "nd_port x = nd_port t" and "nd_addr x = nd_addr t" and "nd_role x = nd_role t"
    and "nd_net_id x = nd_net_id t" and "nd_initialized x = nd_initialized t" and "nd_now_ms x = nd_now_ms t"
    and "nd_rx x = nd_rx t" and "nd_lora x = nd_lora t" and "nd_has_lora x = nd_has_lora t"
  using assms by (simp_all add: nd_static_def)

lemma nd_treeD:
  assumes "nd_tree x = nd_tree t"
  shows "nd_rank x = nd_rank t" and "nd_parent x = nd_parent t" and "nd_parent_rank x = nd_parent_rank t"
    and "nd_parent_since x = nd_parent_since t" and "nd_parent_beacon_ms x = nd_parent_beacon_ms t"
    and "nd_connected x = nd_connected t" and "nd_joined x = nd_joined t" and "nd_neighbors x = nd_neighbors t"
    and "nd_events x = nd_events t"
  using assms by (simp_all add: nd_tree_def)

lemma nd_trickleD:
  assumes "nd_trickle x = nd_trickle t"
  shows "nd_beacon_timer x = nd_beacon_timer t" and "nd_trickle_I x = nd_trickle_I t"
  using assms by (simp_all add: nd_trickle_def)

lemma nd_tablesD:
  assumes "nd_tables x = nd_tables t"
  shows "nd_routes x = nd_routes t" and "nd_dup x = nd_dup t" and "nd_reasm x = nd_reasm t"
  using assms by (simp_all add: nd_tables_def)

lemma nd_queueD:
  assumes "nd_queue x = nd_queue t"
  shows "nd_tx x = nd_tx t" and "nd_seq x = nd_seq t" and "nd_stats x = nd_stats t"
  using assms by (simp_all add: nd_queue_def)

lemma nd_static_update [simp]:
  "nd_static (nd_seq_update h7 t) = nd_static t" "nd_static (nd_rank_update h8 t) = nd_static t"
  "nd_static (nd_parent_update h9 t) = nd_static t" "nd_static (nd_parent_rank_update h10 t) = nd_static t"
  "nd_static (nd_parent_since_update h11 t) = nd_static t"
  "nd_static (nd_parent_beacon_ms_update h12 t) = nd_static t"
  "nd_static (nd_connected_update h13 t) = nd_static t" "nd_static (nd_joined_update h14 t) = nd_static t"
  "nd_static (nd_dao_last_ms_update h15 t) = nd_static t" "nd_static (nd_probe_last_ms_update h16 t) = nd_static t"
  "nd_static (nd_neighbors_update h17 t) = nd_static t" "nd_static (nd_routes_update h18 t) = nd_static t"
  "nd_static (nd_dup_update h19 t) = nd_static t" "nd_static (nd_tx_update h21 t) = nd_static t"
  "nd_static (nd_reasm_update h22 t) = nd_static t" "nd_static (nd_events_update h23 t) = nd_static t"
  "nd_static (nd_beacon_timer_update h24 t) = nd_static t" "nd_static (nd_trickle_I_update h25 t) = nd_static t"
  "nd_static (nd_stats_update h28 t) = nd_static t" "nd_static (nd_env_update h29 t) = nd_static t"
  by (simp_all add: nd_static_def)

lemma nd_tree_update [simp]:
  "nd_tree (nd_now_ms_update h6 t) = nd_tree t" "nd_tree (nd_seq_update h7 t) = nd_tree t"
  "nd_tree (nd_dao_last_ms_update h15 t) = nd_tree t" "nd_tree (nd_probe_last_ms_update h16 t) = nd_tree t"
  "nd_tree (nd_routes_update h18 t) = nd_tree t" "nd_tree (nd_dup_update h19 t) = nd_tree t"
  "nd_tree (nd_tx_update h21 t) = nd_tree t" "nd_tree (nd_reasm_update h22 t) = nd_tree t"
  "nd_tree (nd_beacon_timer_update h24 t) = nd_tree t" "nd_tree (nd_trickle_I_update h25 t) = nd_tree t"
  "nd_tree (nd_stats_update h28 t) = nd_tree t" "nd_tree (nd_env_update h29 t) = nd_tree t"
  by (simp_all add: nd_tree_def)

lemma nd_trickle_update [simp]:
  "nd_trickle (nd_now_ms_update h6 t) = nd_trickle t" "nd_trickle (nd_seq_update h7 t) = nd_trickle t"
  "nd_trickle (nd_rank_update h8 t) = nd_trickle t" "nd_trickle (nd_parent_update h9 t) = nd_trickle t"
  "nd_trickle (nd_parent_rank_update h10 t) = nd_trickle t"
  "nd_trickle (nd_parent_since_update h11 t) = nd_trickle t"
  "nd_trickle (nd_parent_beacon_ms_update h12 t) = nd_trickle t"
  "nd_trickle (nd_connected_update h13 t) = nd_trickle t" "nd_trickle (nd_joined_update h14 t) = nd_trickle t"
  "nd_trickle (nd_dao_last_ms_update h15 t) = nd_trickle t"
  "nd_trickle (nd_probe_last_ms_update h16 t) = nd_trickle t"
  "nd_trickle (nd_neighbors_update h17 t) = nd_trickle t" "nd_trickle (nd_routes_update h18 t) = nd_trickle t"
  "nd_trickle (nd_dup_update h19 t) = nd_trickle t" "nd_trickle (nd_tx_update h21 t) = nd_trickle t"
  "nd_trickle (nd_reasm_update h22 t) = nd_trickle t" "nd_trickle (nd_events_update h23 t) = nd_trickle t"
  "nd_trickle (nd_stats_update h28 t) = nd_trickle t" "nd_trickle (nd_env_update h29 t) = nd_trickle t"
  by (simp_all add: nd_trickle_def)

lemma nd_tables_update [simp]:
  "nd_tables (nd_now_ms_update h6 t) = nd_tables t" "nd_tables (nd_seq_update h7 t) = nd_tables t"
  "nd_tables (nd_rank_update h8 t) = nd_tables t" "nd_tables (nd_parent_update h9 t) = nd_tables t"
  "nd_tables (nd_parent_rank_update h10 t) = nd_tables t" "nd_tables (nd_parent_since_update h11 t) = nd_tables t"
  "nd_tables (nd_parent_beacon_ms_update h12 t) = nd_tables t"
  "nd_tables (nd_connected_update h13 t) = nd_tables t" "nd_tables (nd_joined_update h14 t) = nd_tables t"
  "nd_tables (nd_dao_last_ms_update h15 t) = nd_tables t" "nd_tables (nd_probe_last_ms_update h16 t) = nd_tables t"
  "nd_tables (nd_neighbors_update h17 t) = nd_tables t" "nd_tables (nd_tx_update h21 t) = nd_tables t"
  "nd_tables (nd_events_update h23 t) = nd_tables t" "nd_tables (nd_beacon_timer_update h24 t) = nd_tables t"
  "nd_tables (nd_trickle_I_update h25 t) = nd_tables t" "nd_tables (nd_stats_update h28 t) = nd_tables t"
  "nd_tables (nd_env_update h29 t) = nd_tables t"
  by (simp_all add: nd_tables_def)

lemma nd_queue_update [simp]:
  "nd_queue (nd_now_ms_update h6 t) = nd_queue t" "nd_queue (nd_rank_update h8 t) = nd_queue t"
  "nd_queue (nd_parent_update h9 t) = nd_queue t" "nd_queue (nd_parent_rank_update h10 t) = nd_queue t"
  "nd_queue (nd_parent_since_update h11 t) = nd_queue t" "nd_queue (nd_parent_beacon_ms_update h12 t) = nd_queue t"
  "nd_queue (nd_connected_update h13 t) = nd_queue t" "nd_queue (nd_joined_update h14 t) = nd_queue t"
  "nd_queue (nd_dao_last_ms_update h15 t) = nd_queue t" "nd_queue (nd_probe_last_ms_update h16 t) = nd_queue t"
  "nd_queue (nd_neighbors_update h17 t) = nd_queue t" "nd_queue (nd_routes_update h18 t) = nd_queue t"
  "nd_queue (nd_dup_update h19 t) = nd_queue t" "nd_queue (nd_reasm_update h22 t) = nd_queue t"
  "nd_queue (nd_events_update h23 t) = nd_queue t" "nd_queue (nd_beacon_timer_update h24 t) = nd_queue t"
  "nd_queue (nd_trickle_I_update h25 t) = nd_queue t" "nd_queue (nd_env_update h29 t) = nd_queue t"
  by (simp_all add: nd_queue_def)

lemma port_rnd_keeps [simp, tn_frame]:
  "nd_static (snd (port_rnd t)) = nd_static t" "nd_tree (snd (port_rnd t)) = nd_tree t"
  "nd_trickle (snd (port_rnd t)) = nd_trickle t" "nd_tables (snd (port_rnd t)) = nd_tables t"
  "nd_queue (snd (port_rnd t)) = nd_queue t"
  by (simp_all add: port_rnd_def Let_def case_prod_unfold split: option.splits)

lemmas port_rnd_keeps_fields [simp] =
  nd_staticD [OF port_rnd_keeps(1)]
  nd_treeD [OF port_rnd_keeps(2)]
  nd_trickleD [OF port_rnd_keeps(3)]
  nd_tablesD [OF port_rnd_keeps(4)]
  nd_queueD [OF port_rnd_keeps(5)]

lemma port_now_ms_keeps [simp, tn_frame]:
  "nd_static (snd (port_now_ms t)) = nd_static t" "nd_tree (snd (port_now_ms t)) = nd_tree t"
  "nd_trickle (snd (port_now_ms t)) = nd_trickle t" "nd_tables (snd (port_now_ms t)) = nd_tables t"
  "nd_queue (snd (port_now_ms t)) = nd_queue t"
  by (simp_all add: port_now_ms_def Let_def case_prod_unfold split: option.splits)

lemmas port_now_ms_keeps_fields [simp] =
  nd_staticD [OF port_now_ms_keeps(1)]
  nd_treeD [OF port_now_ms_keeps(2)]
  nd_trickleD [OF port_now_ms_keeps(3)]
  nd_tablesD [OF port_now_ms_keeps(4)]
  nd_queueD [OF port_now_ms_keeps(5)]

lemma port_tx_keeps [simp, tn_frame]:
  "nd_static (snd (port_tx t buf len)) = nd_static t" "nd_tree (snd (port_tx t buf len)) = nd_tree t"
  "nd_trickle (snd (port_tx t buf len)) = nd_trickle t" "nd_tables (snd (port_tx t buf len)) = nd_tables t"
  "nd_queue (snd (port_tx t buf len)) = nd_queue t"
  by (simp_all add: port_tx_def Let_def case_prod_unfold split: option.splits)

lemmas port_tx_keeps_fields [simp] =
  nd_staticD [OF port_tx_keeps(1)]
  nd_treeD [OF port_tx_keeps(2)]
  nd_trickleD [OF port_tx_keeps(3)]
  nd_tablesD [OF port_tx_keeps(4)]
  nd_queueD [OF port_tx_keeps(5)]

lemma port_channel_free_keeps [simp, tn_frame]:
  "nd_static (snd (port_channel_free t)) = nd_static t" "nd_tree (snd (port_channel_free t)) = nd_tree t"
  "nd_trickle (snd (port_channel_free t)) = nd_trickle t" "nd_tables (snd (port_channel_free t)) = nd_tables t"
  "nd_queue (snd (port_channel_free t)) = nd_queue t"
  by (simp_all add: port_channel_free_def Let_def case_prod_unfold split: option.splits)

lemmas port_channel_free_keeps_fields [simp] =
  nd_staticD [OF port_channel_free_keeps(1)]
  nd_treeD [OF port_channel_free_keeps(2)]
  nd_trickleD [OF port_channel_free_keeps(3)]
  nd_tablesD [OF port_channel_free_keeps(4)]
  nd_queueD [OF port_channel_free_keeps(5)]

lemma port_timer_arm_keeps [simp, tn_frame]:
  "nd_static (port_timer_arm t d) = nd_static t" "nd_tree (port_timer_arm t d) = nd_tree t"
  "nd_trickle (port_timer_arm t d) = nd_trickle t" "nd_tables (port_timer_arm t d) = nd_tables t"
  "nd_queue (port_timer_arm t d) = nd_queue t"
  by (simp_all add: port_timer_arm_def Let_def case_prod_unfold split: option.splits)

lemmas port_timer_arm_keeps_fields [simp] =
  nd_staticD [OF port_timer_arm_keeps(1)]
  nd_treeD [OF port_timer_arm_keeps(2)]
  nd_trickleD [OF port_timer_arm_keeps(3)]
  nd_tablesD [OF port_timer_arm_keeps(4)]
  nd_queueD [OF port_timer_arm_keeps(5)]

lemma tn_log_keeps [simp, tn_frame]:
  "nd_static (tn_log t level msg) = nd_static t" "nd_tree (tn_log t level msg) = nd_tree t"
  "nd_trickle (tn_log t level msg) = nd_trickle t" "nd_tables (tn_log t level msg) = nd_tables t"
  "nd_queue (tn_log t level msg) = nd_queue t"
  by (simp_all add: tn_log_def Let_def case_prod_unfold split: option.splits)

lemmas tn_log_keeps_fields [simp] =
  nd_staticD [OF tn_log_keeps(1)]
  nd_treeD [OF tn_log_keeps(2)]
  nd_trickleD [OF tn_log_keeps(3)]
  nd_tablesD [OF tn_log_keeps(4)]
  nd_queueD [OF tn_log_keeps(5)]

lemma TN_STAT_INC_keeps [simp, tn_frame]:
  "nd_static (TN_STAT_INC field t) = nd_static t" "nd_tree (TN_STAT_INC field t) = nd_tree t"
  "nd_trickle (TN_STAT_INC field t) = nd_trickle t" "nd_tables (TN_STAT_INC field t) = nd_tables t"
  "nd_tx (TN_STAT_INC field t) = nd_tx t" "nd_seq (TN_STAT_INC field t) = nd_seq t"
  "nd_env (TN_STAT_INC field t) = nd_env t"
  by (simp_all add: TN_STAT_INC_def Let_def case_prod_unfold)

lemmas TN_STAT_INC_keeps_fields [simp] =
  nd_staticD [OF TN_STAT_INC_keeps(1)]
  nd_treeD [OF TN_STAT_INC_keeps(2)]
  nd_trickleD [OF TN_STAT_INC_keeps(3)]
  nd_tablesD [OF TN_STAT_INC_keeps(4)]

lemma TN_STAT_ADD_keeps [simp, tn_frame]:
  "nd_static (TN_STAT_ADD field v t) = nd_static t" "nd_tree (TN_STAT_ADD field v t) = nd_tree t"
  "nd_trickle (TN_STAT_ADD field v t) = nd_trickle t" "nd_tables (TN_STAT_ADD field v t) = nd_tables t"
  "nd_tx (TN_STAT_ADD field v t) = nd_tx t" "nd_seq (TN_STAT_ADD field v t) = nd_seq t"
  "nd_env (TN_STAT_ADD field v t) = nd_env t"
  by (simp_all add: TN_STAT_ADD_def Let_def case_prod_unfold)

lemmas TN_STAT_ADD_keeps_fields [simp] =
  nd_staticD [OF TN_STAT_ADD_keeps(1)]
  nd_treeD [OF TN_STAT_ADD_keeps(2)]
  nd_trickleD [OF TN_STAT_ADD_keeps(3)]
  nd_tablesD [OF TN_STAT_ADD_keeps(4)]

lemma tn_next_seq_keeps [simp, tn_frame]:
  "nd_static (snd (tn_next_seq t)) = nd_static t" "nd_tree (snd (tn_next_seq t)) = nd_tree t"
  "nd_trickle (snd (tn_next_seq t)) = nd_trickle t" "nd_tables (snd (tn_next_seq t)) = nd_tables t"
  "nd_tx (snd (tn_next_seq t)) = nd_tx t" "nd_stats (snd (tn_next_seq t)) = nd_stats t"
  "nd_env (snd (tn_next_seq t)) = nd_env t"
  by (simp_all add: tn_next_seq_def Let_def case_prod_unfold)

lemmas tn_next_seq_keeps_fields [simp] =
  nd_staticD [OF tn_next_seq_keeps(1)]
  nd_treeD [OF tn_next_seq_keeps(2)]
  nd_trickleD [OF tn_next_seq_keeps(3)]
  nd_tablesD [OF tn_next_seq_keeps(4)]

lemma tn_emit_event_keeps [simp, tn_frame]:
  "nd_static (tn_emit_event t ev arg) = nd_static t" "nd_trickle (tn_emit_event t ev arg) = nd_trickle t"
  "nd_tables (tn_emit_event t ev arg) = nd_tables t" "nd_queue (tn_emit_event t ev arg) = nd_queue t"
  "nd_rank (tn_emit_event t ev arg) = nd_rank t" "nd_parent (tn_emit_event t ev arg) = nd_parent t"
  "nd_parent_rank (tn_emit_event t ev arg) = nd_parent_rank t"
  "nd_parent_since (tn_emit_event t ev arg) = nd_parent_since t"
  "nd_parent_beacon_ms (tn_emit_event t ev arg) = nd_parent_beacon_ms t"
  "nd_connected (tn_emit_event t ev arg) = nd_connected t" "nd_joined (tn_emit_event t ev arg) = nd_joined t"
  "nd_neighbors (tn_emit_event t ev arg) = nd_neighbors t" "nd_env (tn_emit_event t ev arg) = nd_env t"
  by (simp_all add: tn_emit_event_def Let_def case_prod_unfold)

lemmas tn_emit_event_keeps_fields [simp] =
  nd_staticD [OF tn_emit_event_keeps(1)]
  nd_trickleD [OF tn_emit_event_keeps(2)]
  nd_tablesD [OF tn_emit_event_keeps(3)]
  nd_queueD [OF tn_emit_event_keeps(4)]

lemma tn_tx_submit_keeps [simp, tn_frame]:
  "nd_static (snd (tn_tx_submit t f reliable nh d)) = nd_static t"
  "nd_tree (snd (tn_tx_submit t f reliable nh d)) = nd_tree t"
  "nd_trickle (snd (tn_tx_submit t f reliable nh d)) = nd_trickle t"
  "nd_tables (snd (tn_tx_submit t f reliable nh d)) = nd_tables t"
  "nd_seq (snd (tn_tx_submit t f reliable nh d)) = nd_seq t"
  by (simp_all add: tn_tx_submit_def Let_def case_prod_unfold split: option.splits)

lemmas tn_tx_submit_keeps_fields [simp] =
  nd_staticD [OF tn_tx_submit_keeps(1)]
  nd_treeD [OF tn_tx_submit_keeps(2)]
  nd_trickleD [OF tn_tx_submit_keeps(3)]
  nd_tablesD [OF tn_tx_submit_keeps(4)]

end
