(* ===== verification/Tn_Beacon.thy ===== *)
theory Tn_Beacon
  imports Tn_Context
begin

text \<open>
  \<open>src/link/beacon.c\<close>: Trickle-timed beaconing.
\<close>

definition beacon_schedule :: "'w treenet \<Rightarrow> u32 \<Rightarrow> 'w treenet" where
  "beacon_schedule t now =
     (let half = nd_trickle_I t div 2;
          half = (if half = 0 then 1 else half);
          (r, t) = port_rnd t;
          jitter = tn_rand_below r half
      in t\<lparr>nd_beacon_timer := tn_timer_start (nd_beacon_timer t) now (half + jitter)\<rparr>)"

definition tn_beacon_reset :: "'w treenet \<Rightarrow> u32 \<Rightarrow> 'w treenet" where
  "tn_beacon_reset t now = beacon_schedule (t\<lparr>nd_trickle_I := TREENET_BEACON_MIN_MS\<rparr>) now"

text \<open>The payload and the frame \<open>tn_beacon_send\<close> builds.\<close>

definition beacon_payload :: "'w treenet \<Rightarrow> tn_beacon_payload_t" where
  "beacon_payload t =
     (let flags = 0;
          flags = (if nd_connected t then flags OR TN_BEACON_HAS_PARENT else flags);
          flags = (if nd_role t \<noteq> TREENET_ROLE_LEAF then flags OR TN_BEACON_ROUTER else flags);
          interval_100 = nd_trickle_I t div 100;
          interval_100 = (if interval_100 > 0xFFFF then 0xFFFF else interval_100)
      in \<lparr>bp_rank = nd_rank t, bp_parent = nd_parent t, bp_flags = flags,
          bp_interval_100ms = ucast interval_100\<rparr>)"

definition beacon_frame :: "'w treenet \<Rightarrow> u16 \<Rightarrow> tn_frame_t" where
  "beacon_frame t seq =
     frame_zero\<lparr>fr_version := TREENET_PROTOCOL_VERSION, fr_type := TREENET_FRAME_BEACON, fr_flags := 0,
       fr_src := nd_addr t, fr_dst := TREENET_ADDR_BROADCAST, fr_seq := seq, fr_net_id := nd_net_id t,
       fr_hop_limit := 1,
       fr_payload := Some (tn_beacon_encode (replicate TN_BEACON_PAYLOAD_LEN 0) (beacon_payload t)),
       fr_payload_len := TN_BEACON_PAYLOAD_LEN\<rparr>"

definition tn_beacon_send :: "'w treenet \<Rightarrow> u32 \<Rightarrow> 'w treenet" where
  "tn_beacon_send t now =
     (let (seq, t) = tn_next_seq t;
          f = beacon_frame t seq;
          (rc, t) = tn_tx_submit t f False TREENET_ADDR_BROADCAST 0;
          t = (if rc = 0 then TN_STAT_INC st_beacons_tx_update t else t);
          next = nd_trickle_I t * 2;
          next = (if next > TREENET_BEACON_MAX_MS then TREENET_BEACON_MAX_MS else next)
      in beacon_schedule (t\<lparr>nd_trickle_I := next\<rparr>) now)"

definition tn_beacon_tick :: "'w treenet \<Rightarrow> u32 \<Rightarrow> 'w treenet" where
  "tn_beacon_tick t now =
     (let (fired, tm) = tn_timer_fire (nd_beacon_timer t) now;
          t = t\<lparr>nd_beacon_timer := tm\<rparr>
      in if fired then tn_beacon_send t now else t)"

lemma beacon_schedule_keeps [simp, tn_frame]:
  "nd_static (beacon_schedule t now) = nd_static t" "nd_tree (beacon_schedule t now) = nd_tree t"
  "nd_tables (beacon_schedule t now) = nd_tables t" "nd_queue (beacon_schedule t now) = nd_queue t"
  "nd_trickle_I (beacon_schedule t now) = nd_trickle_I t"
  by (simp_all add: beacon_schedule_def Let_def case_prod_unfold)

lemmas beacon_schedule_keeps_fields [simp] =
  nd_staticD [OF beacon_schedule_keeps(1)]
  nd_treeD [OF beacon_schedule_keeps(2)]
  nd_tablesD [OF beacon_schedule_keeps(3)]
  nd_queueD [OF beacon_schedule_keeps(4)]

lemma tn_beacon_reset_keeps [simp, tn_frame]:
  "nd_static (tn_beacon_reset t now) = nd_static t" "nd_tree (tn_beacon_reset t now) = nd_tree t"
  "nd_tables (tn_beacon_reset t now) = nd_tables t" "nd_queue (tn_beacon_reset t now) = nd_queue t"
  by (simp_all add: tn_beacon_reset_def Let_def case_prod_unfold)

lemmas tn_beacon_reset_keeps_fields [simp] =
  nd_staticD [OF tn_beacon_reset_keeps(1)]
  nd_treeD [OF tn_beacon_reset_keeps(2)]
  nd_tablesD [OF tn_beacon_reset_keeps(3)]
  nd_queueD [OF tn_beacon_reset_keeps(4)]

lemma tn_beacon_send_keeps [simp, tn_frame]:
  "nd_static (tn_beacon_send t now) = nd_static t" "nd_tree (tn_beacon_send t now) = nd_tree t"
  "nd_tables (tn_beacon_send t now) = nd_tables t"
  by (simp_all add: tn_beacon_send_def Let_def case_prod_unfold)

lemmas tn_beacon_send_keeps_fields [simp] =
  nd_staticD [OF tn_beacon_send_keeps(1)]
  nd_treeD [OF tn_beacon_send_keeps(2)]
  nd_tablesD [OF tn_beacon_send_keeps(3)]

lemma tn_beacon_tick_keeps [simp, tn_frame]:
  "nd_static (tn_beacon_tick t now) = nd_static t" "nd_tree (tn_beacon_tick t now) = nd_tree t"
  "nd_tables (tn_beacon_tick t now) = nd_tables t"
  by (simp_all add: tn_beacon_tick_def Let_def case_prod_unfold)

lemmas tn_beacon_tick_keeps_fields [simp] =
  nd_staticD [OF tn_beacon_tick_keeps(1)]
  nd_treeD [OF tn_beacon_tick_keeps(2)]
  nd_tablesD [OF tn_beacon_tick_keeps(3)]

end
