(* ===== verification/Tn_Routing.thy ===== *)
theory Tn_Routing
  imports Tn_Beacon
begin

text \<open>
  \<open>src/routing/routing.c\<close>, the part that works on the instance: parent selection in the DODAG
  rooted at the Master, its timeouts, and destination advertisements. (The route table is in
  \<open>Tn_Routes\<close>.) A pointer to a neighbour is its index in the table.
\<close>

section \<open>Destination advertisements\<close>

definition dao_frame :: "'w treenet \<Rightarrow> treenet_addr_t \<Rightarrow> u8 \<Rightarrow> u16 \<Rightarrow> tn_frame_t" where
  "dao_frame t origin hops seq =
     frame_zero\<lparr>fr_version := TREENET_PROTOCOL_VERSION, fr_type := TREENET_FRAME_DAO,
       fr_flags := TN_FLAG_WANT_ACK, fr_src := origin, fr_dst := nd_parent t, fr_seq := seq,
       fr_net_id := nd_net_id t, fr_hop_limit := TREENET_MAX_HOPS,
       fr_payload := Some (tn_dao_encode (replicate TN_DAO_PAYLOAD_LEN 0) \<lparr>da_origin = origin, da_hops = hops\<rparr>),
       fr_payload_len := TN_DAO_PAYLOAD_LEN\<rparr>"

definition tn_dao_send :: "'w treenet \<Rightarrow> u32 \<Rightarrow> 'w treenet" where
  "tn_dao_send t now =
     (if nd_role t = TREENET_ROLE_MASTER then t
      else if nd_parent t = TREENET_ADDR_INVALID then t
      else
        let (seq, t) = tn_next_seq t;
            f = dao_frame t (nd_addr t) 0 seq;
            (rc, t) = tn_tx_submit t f True (nd_parent t) 0
        in if rc = 0 then t\<lparr>nd_dao_last_ms := now\<rparr> else t)"

definition tn_dao_handle :: "'w treenet \<Rightarrow> tn_frame_t \<Rightarrow> u32 \<Rightarrow> int \<times> 'w treenet" where
  "tn_dao_handle t f now =
     (if nd_role t = TREENET_ROLE_LEAF then (0, t)
      else
        case tn_dao_decode (fr_payload f) (fr_payload_len f) of
          None \<Rightarrow> (- 1, t)
        | Some d \<Rightarrow>
            if da_origin d = TREENET_ADDR_INVALID \<or> da_origin d = TREENET_ADDR_BROADCAST \<or>
               da_hops d > TREENET_MAX_HOPS \<or> fr_prev f = TREENET_ADDR_INVALID \<or>
               fr_prev f = TREENET_ADDR_BROADCAST
            then (- 1, t)
            else if da_origin d = nd_addr t then (0, t)
            else
              let cost = (case tn_neighbor_find (nd_neighbors t) (fr_prev f) of
                            Some i \<Rightarrow> ne_link_cost (nt_entries (nd_neighbors t) ! i) | None \<Rightarrow> 0);
                  t = t\<lparr>nd_routes := snd (tn_route_add (nd_routes t) (da_origin d) (fr_prev f) cost
                                          (da_hops d + 1) now)\<rparr>
              in if nd_role t = TREENET_ROLE_MASTER then (0, t)
                 else if nd_parent t = TREENET_ADDR_INVALID then (- 1, t)
                 else if fr_prev f = nd_parent t then (0, t)
                 else
                   let (seq, t) = tn_next_seq t;
                       out = dao_frame t (da_origin d) (da_hops d + 1) seq;
                       (rc, t) = tn_tx_submit t out True (nd_parent t) 0
                   in if rc \<noteq> 0 then (- 1, t) else (0, t))"

section \<open>Parent selection\<close>

definition tn_routing_candidate_rank :: "tn_neighbor_t option \<Rightarrow> u16" where
  "tn_routing_candidate_rank np =
     (case np of
        None \<Rightarrow> TREENET_RANK_INFINITE
      | Some n \<Rightarrow>
          if ne_flags n AND TN_BEACON_ROUTER = 0 then TREENET_RANK_INFINITE
          else if ne_rank n \<ge> TREENET_RANK_INFINITE then TREENET_RANK_INFINITE
          else
            let inc = TREENET_RANK_STEP + ucast (ne_link_cost n);
                r = ucast (ne_rank n) + inc
            in if r \<ge> ucast TREENET_RANK_INFINITE then TREENET_RANK_INFINITE else ucast r)"

definition neighbor_fresh :: "tn_neighbor_t \<Rightarrow> u32 \<Rightarrow> bool" where
  "neighbor_fresh n now \<longleftrightarrow> ne_valid n \<and> tn_elapsed (ne_last_seen_ms n) now \<le> TREENET_PARENT_TIMEOUT_MS"

definition neighbor_usable :: "tn_neighbor_t \<Rightarrow> u32 \<Rightarrow> bool" where
  "neighbor_usable n now \<longleftrightarrow> neighbor_fresh n now \<and> \<not> tn_time_after (ne_suspect_until_ms n) now"

text \<open>The loop of \<open>best_candidate\<close>: index and rank of the best entry so far.\<close>

fun best_loop :: "(tn_neighbor_t \<Rightarrow> bool) \<Rightarrow> nat option \<Rightarrow> u16 \<Rightarrow> nat \<Rightarrow> tn_neighbor_t list \<Rightarrow> nat option \<times> u16" where
  "best_loop ok best best_rank i [] = (best, best_rank)"
| "best_loop ok best best_rank i (n # ns) =
     (if \<not> ok n then best_loop ok best best_rank (Suc i) ns
      else let r = tn_routing_candidate_rank (Some n)
           in if r < best_rank then best_loop ok (Some i) r (Suc i) ns
              else best_loop ok best best_rank (Suc i) ns)"

definition best_candidate :: "'w treenet \<Rightarrow> nat option \<times> u16" where
  "best_candidate t =
     best_loop (\<lambda>n. neighbor_usable n (nd_now_ms t) \<and> ne_addr n \<noteq> nd_addr t) None TREENET_RANK_INFINITE 0
       (nt_entries (nd_neighbors t))"

definition routing_set_parent :: "'w treenet \<Rightarrow> treenet_addr_t \<Rightarrow> u16 \<Rightarrow> u32 \<Rightarrow> 'w treenet" where
  "routing_set_parent t new_parent new_rank now =
     (let first = (\<not> nd_joined t);
          changed = (new_parent \<noteq> nd_parent t);
          t = t\<lparr>nd_parent := new_parent, nd_rank := new_rank, nd_parent_since := now,
                nd_parent_beacon_ms := now, nd_connected := True\<rparr>;
          t = (if first then
                 let t = t\<lparr>nd_joined := True\<rparr>;
                     t = tn_emit_event t TREENET_EV_JOINED Arg_NULL
                 in tn_emit_event t TREENET_EV_NETWORK_READY Arg_NULL
               else if changed then
                 tn_emit_event (TN_STAT_INC st_parent_changes_update t) TREENET_EV_PARENT_CHANGED Arg_parent
               else t)
      in if changed \<or> first then tn_dao_send (tn_beacon_reset t now) now else t)"

definition tn_routing_select_parent :: "'w treenet \<Rightarrow> u32 \<Rightarrow> bool \<times> 'w treenet" where
  "tn_routing_select_parent t now =
     (if nd_role t = TREENET_ROLE_MASTER then
        let t = t\<lparr>nd_rank := 0, nd_parent := TREENET_ADDR_INVALID, nd_connected := True\<rparr>;
            t = (if \<not> nd_joined t then
                   let t = t\<lparr>nd_joined := True\<rparr>;
                       t = tn_emit_event t TREENET_EV_JOINED Arg_NULL
                   in tn_emit_event t TREENET_EV_NETWORK_READY Arg_NULL
                 else t)
        in (False, t)
      else
        let (best, best_rank) = best_candidate t;
            ns = nt_entries (nd_neighbors t);
            cur = (if nd_parent t \<noteq> TREENET_ADDR_INVALID
                   then map_option ((!) ns) (tn_neighbor_find (nd_neighbors t) (nd_parent t)) else None);
            cur_rank = tn_routing_candidate_rank cur;
            cur_alive = (case cur of None \<Rightarrow> False
                         | Some c \<Rightarrow> neighbor_usable c now \<and> cur_rank \<noteq> TREENET_RANK_INFINITE)
        in if cur_alive then
             let t = t\<lparr>nd_rank := cur_rank\<rparr>
             in case best of
                  None \<Rightarrow> (False, t)
                | Some b \<Rightarrow>
                    if ne_addr (ns ! b) \<noteq> nd_parent t then
                      let dwell_ok = (tn_elapsed (nd_parent_since t) now \<ge> TREENET_PARENT_DWELL_MS);
                          threshold = (ucast cur_rank * (100 - TREENET_PARENT_HYSTERESIS_PCT)) div 100 :: u32
                      in if dwell_ok \<and> ucast best_rank < threshold
                         then (True, routing_set_parent t (ne_addr (ns ! b)) best_rank now)
                         else (False, t)
                    else (False, t)
           else
             case best of
               Some b \<Rightarrow> (True, routing_set_parent t (ne_addr (ns ! b)) best_rank now)
             | None \<Rightarrow>
                 if nd_connected t \<or> nd_parent t \<noteq> TREENET_ADDR_INVALID
                 then (False, tn_emit_event (t\<lparr>nd_parent := TREENET_ADDR_INVALID, nd_rank := TREENET_RANK_INFINITE,
                                               nd_connected := False\<rparr>) TREENET_EV_ROUTE_LOST Arg_NULL)
                 else (False, t))"

definition tn_routing_on_beacon ::
    "'w treenet \<Rightarrow> treenet_addr_t \<Rightarrow> u16 \<Rightarrow> treenet_addr_t \<Rightarrow> u8 \<Rightarrow> u16 \<Rightarrow> i16 \<Rightarrow> i8 \<Rightarrow> u32 \<Rightarrow> 'w treenet" where
  "tn_routing_on_beacon t from rank parent flags interval_100ms rssi snr now =
     (let t = t\<lparr>nd_neighbors := tn_neighbor_note_beacon (nd_neighbors t) from rank parent flags
                                  interval_100ms rssi snr now\<rparr>;
          t = (if from = nd_parent t then t\<lparr>nd_parent_beacon_ms := now, nd_parent_rank := rank\<rparr> else t)
      in snd (tn_routing_select_parent t now))"

definition tn_routing_on_parent_lost :: "'w treenet \<Rightarrow> u32 \<Rightarrow> 'w treenet" where
  "tn_routing_on_parent_lost t now =
     (let t = (if nd_parent t \<noteq> TREENET_ADDR_INVALID
               then t\<lparr>nd_routes := snd (tn_route_remove_via (nd_routes t) (nd_parent t))\<rparr> else t);
          t = t\<lparr>nd_parent := TREENET_ADDR_INVALID, nd_rank := TREENET_RANK_INFINITE, nd_connected := False\<rparr>;
          t = tn_emit_event t TREENET_EV_DISCONNECTED Arg_NULL
      in snd (tn_routing_select_parent t now))"

definition tn_routing_tick :: "'w treenet \<Rightarrow> u32 \<Rightarrow> 'w treenet" where
  "tn_routing_tick t now =
     (if nd_role t = TREENET_ROLE_MASTER then t
      else if nd_parent t \<noteq> TREENET_ADDR_INVALID \<and> tn_neighbor_find (nd_neighbors t) (nd_parent t) = None
      then tn_routing_on_parent_lost (tn_log t 1 ''parent entry gone'') now
      else if nd_parent t \<noteq> TREENET_ADDR_INVALID \<and>
              tn_elapsed (nd_parent_beacon_ms t) now > TREENET_PARENT_TIMEOUT_MS
      then tn_routing_on_parent_lost (tn_log t 1 ''parent timeout'') now
      else t)"

lemma tn_dao_send_keeps [simp, tn_frame]:
  "nd_static (tn_dao_send t now) = nd_static t" "nd_tree (tn_dao_send t now) = nd_tree t"
  "nd_trickle (tn_dao_send t now) = nd_trickle t" "nd_tables (tn_dao_send t now) = nd_tables t"
  by (simp_all add: tn_dao_send_def Let_def case_prod_unfold)

lemmas tn_dao_send_keeps_fields [simp] =
  nd_staticD [OF tn_dao_send_keeps(1)]
  nd_treeD [OF tn_dao_send_keeps(2)]
  nd_trickleD [OF tn_dao_send_keeps(3)]
  nd_tablesD [OF tn_dao_send_keeps(4)]

lemma tn_dao_handle_keeps [simp, tn_frame]:
  "nd_static (snd (tn_dao_handle t f now)) = nd_static t" "nd_tree (snd (tn_dao_handle t f now)) = nd_tree t"
  "nd_trickle (snd (tn_dao_handle t f now)) = nd_trickle t" "nd_dup (snd (tn_dao_handle t f now)) = nd_dup t"
  "nd_reasm (snd (tn_dao_handle t f now)) = nd_reasm t"
  by (simp_all add: tn_dao_handle_def Let_def case_prod_unfold split: option.splits)

lemmas tn_dao_handle_keeps_fields [simp] =
  nd_staticD [OF tn_dao_handle_keeps(1)]
  nd_treeD [OF tn_dao_handle_keeps(2)]
  nd_trickleD [OF tn_dao_handle_keeps(3)]

lemma routing_set_parent_keeps [simp, tn_frame]:
  "nd_static (routing_set_parent t p r now) = nd_static t"
  "nd_tables (routing_set_parent t p r now) = nd_tables t"
  "nd_neighbors (routing_set_parent t p r now) = nd_neighbors t"
  by (simp_all add: routing_set_parent_def Let_def case_prod_unfold)

lemmas routing_set_parent_keeps_fields [simp] =
  nd_staticD [OF routing_set_parent_keeps(1)]
  nd_tablesD [OF routing_set_parent_keeps(2)]

lemma tn_routing_select_parent_keeps [simp, tn_frame]:
  "nd_static (snd (tn_routing_select_parent t now)) = nd_static t"
  "nd_tables (snd (tn_routing_select_parent t now)) = nd_tables t"
  "nd_neighbors (snd (tn_routing_select_parent t now)) = nd_neighbors t"
  by (simp_all add: tn_routing_select_parent_def Let_def case_prod_unfold split: option.splits)

lemmas tn_routing_select_parent_keeps_fields [simp] =
  nd_staticD [OF tn_routing_select_parent_keeps(1)]
  nd_tablesD [OF tn_routing_select_parent_keeps(2)]

lemma tn_routing_on_beacon_keeps [simp, tn_frame]:
  "nd_static (tn_routing_on_beacon t from rank parent flags ivl rssi snr now) = nd_static t"
  "nd_tables (tn_routing_on_beacon t from rank parent flags ivl rssi snr now) = nd_tables t"
  by (simp_all add: tn_routing_on_beacon_def Let_def case_prod_unfold)

lemmas tn_routing_on_beacon_keeps_fields [simp] =
  nd_staticD [OF tn_routing_on_beacon_keeps(1)]
  nd_tablesD [OF tn_routing_on_beacon_keeps(2)]

lemma tn_routing_on_parent_lost_keeps [simp, tn_frame]:
  "nd_static (tn_routing_on_parent_lost t now) = nd_static t"
  "nd_neighbors (tn_routing_on_parent_lost t now) = nd_neighbors t"
  "nd_dup (tn_routing_on_parent_lost t now) = nd_dup t"
  "nd_reasm (tn_routing_on_parent_lost t now) = nd_reasm t"
  by (simp_all add: tn_routing_on_parent_lost_def Let_def case_prod_unfold)

lemmas tn_routing_on_parent_lost_keeps_fields [simp] =
  nd_staticD [OF tn_routing_on_parent_lost_keeps(1)]

lemma tn_routing_tick_keeps [simp, tn_frame]:
  "nd_static (tn_routing_tick t now) = nd_static t" "nd_neighbors (tn_routing_tick t now) = nd_neighbors t"
  "nd_dup (tn_routing_tick t now) = nd_dup t" "nd_reasm (tn_routing_tick t now) = nd_reasm t"
  by (simp_all add: tn_routing_tick_def Let_def case_prod_unfold)

lemmas tn_routing_tick_keeps_fields [simp] =
  nd_staticD [OF tn_routing_tick_keeps(1)]

end
