(* ===== verification/Tn_Dataplane.thy ===== *)
theory Tn_Dataplane
  imports Tn_Routing
begin

text \<open>
  The sending half of the data plane in \<open>src/api/treenet.c\<close> (next hop, fragmentation, the public
  send functions), the introspection functions, and the execution of application callbacks, which
  act on the node through exactly these. A function whose C counterpart first checks its instance
  pointer takes an \<open>option\<close>; the work after the check is the definition with suffix \<open>_node\<close>.
\<close>

section \<open>Introspection\<close>

definition treenet_version :: string where
  "treenet_version = ''0.1.0''"

definition treenet_addr :: "'w treenet option \<Rightarrow> treenet_addr_t" where
  "treenet_addr tp = (case tp of Some t \<Rightarrow> nd_addr t | None \<Rightarrow> TREENET_ADDR_INVALID)"

definition treenet_role :: "'w treenet option \<Rightarrow> treenet_role_t" where
  "treenet_role tp = (case tp of Some t \<Rightarrow> nd_role t | None \<Rightarrow> TREENET_ROLE_NODE)"

definition treenet_parent :: "'w treenet option \<Rightarrow> treenet_addr_t" where
  "treenet_parent tp = (case tp of Some t \<Rightarrow> nd_parent t | None \<Rightarrow> TREENET_ADDR_INVALID)"

definition treenet_rank :: "'w treenet option \<Rightarrow> u16" where
  "treenet_rank tp = (case tp of Some t \<Rightarrow> nd_rank t | None \<Rightarrow> TREENET_RANK_INFINITE)"

definition treenet_is_connected :: "'w treenet option \<Rightarrow> bool" where
  "treenet_is_connected tp = (case tp of Some t \<Rightarrow> nd_connected t | None \<Rightarrow> False)"

definition treenet_stats :: "'w treenet option \<Rightarrow> treenet_stats_t option" where
  "treenet_stats tp = (case tp of Some t \<Rightarrow> Some (nd_stats t) | None \<Rightarrow> None)"

text \<open>
  The entries \<open>treenet_neighbors\<close> writes to its output array, in order; the C function returns their
  number. The caller's array is \<open>None\<close> for \<open>NULL\<close>.
\<close>

definition neighbor_info :: "'w treenet \<Rightarrow> tn_neighbor_t \<Rightarrow> treenet_neighbor_info_t" where
  "neighbor_info t nb =
     \<lparr>in_addr = ne_addr nb,
      in_lq = \<lparr>lq_rssi_dbm = word_of_int (tn_ewma16_get (ne_rssi nb)),
               lq_snr_db = word_of_int (tn_ewma16_get (ne_snr nb)),
               lq_pdr_q8 = (if ew_init (ne_pdr nb) then word_of_int (tn_ewma16_get (ne_pdr nb)) else 256),
               lq_etx_q8 = ne_etx_q8 nb, lq_link_cost = ne_link_cost nb\<rparr>,
      in_rank = ne_rank nb,
      in_age_ms = tn_elapsed (ne_last_seen_ms nb) (nd_now_ms t),
      in_is_parent = (ne_addr nb = nd_parent t)\<rparr>"

fun neighbors_loop :: "'w treenet \<Rightarrow> nat \<Rightarrow> nat \<Rightarrow> tn_neighbor_t list \<Rightarrow> treenet_neighbor_info_t list" where
  "neighbors_loop t n maxn [] = []"
| "neighbors_loop t n maxn (nb # nbs) =
     (if \<not> n < maxn then []
      else if \<not> ne_valid nb then neighbors_loop t n maxn nbs
      else neighbor_info t nb # neighbors_loop t (Suc n) maxn nbs)"

definition treenet_neighbors :: "'w treenet option \<Rightarrow> bool \<Rightarrow> nat \<Rightarrow> treenet_neighbor_info_t list" where
  "treenet_neighbors tp out_null maxn =
     (case tp of
        None \<Rightarrow> []
      | Some t \<Rightarrow> if out_null then [] else neighbors_loop t 0 maxn (nt_entries (nd_neighbors t)))"

section \<open>Next hop\<close>

definition tn_route_next_hop :: "'w treenet \<Rightarrow> treenet_addr_t \<Rightarrow> treenet_addr_t \<times> 'w treenet" where
  "tn_route_next_hop t dst =
     (if dst = nd_addr t then (nd_addr t, t)
      else if tn_neighbor_find (nd_neighbors t) dst \<noteq> None then (dst, t)
      else
        let (r, routes) = tn_route_lookup (nd_routes t) dst (nd_now_ms t) TREENET_ROUTE_TIMEOUT_MS;
            t = t\<lparr>nd_routes := routes\<rparr>
        in case r of
             Some i \<Rightarrow> (rt_next_hop (rt_entries routes ! i), t)
           | None \<Rightarrow> (if nd_parent t \<noteq> TREENET_ADDR_INVALID then nd_parent t else TREENET_ADDR_INVALID, t))"

section \<open>Sending datagrams\<close>

definition TN_FRAG_CHUNK :: nat where
  [config]: "TN_FRAG_CHUNK = TREENET_MTU - TN_FRAME_OVERHEAD - TN_FRAG_HDR_LEN"

text \<open>The frame of an application datagram or fragment, as built by \<open>tn_send_datagram\<close>.\<close>

definition data_frame :: "'w treenet \<Rightarrow> bool \<Rightarrow> treenet_addr_t \<Rightarrow> u8 \<Rightarrow> u16 \<Rightarrow> u8 list \<Rightarrow> nat \<Rightarrow> tn_frame_t" where
  "data_frame t flood dst flags seq payload payload_len =
     frame_zero\<lparr>fr_version := TREENET_PROTOCOL_VERSION,
       fr_type := (if flood then TREENET_FRAME_FLOOD else TREENET_FRAME_DATA), fr_flags := flags,
       fr_src := nd_addr t, fr_dst := (if flood then TREENET_ADDR_BROADCAST else dst), fr_seq := seq,
       fr_net_id := nd_net_id t, fr_hop_limit := TREENET_MAX_HOPS, fr_payload := Some payload,
       fr_payload_len := payload_len\<rparr>"

text \<open>The payload buffer of fragment \<open>i\<close> and the number of data bytes in it.\<close>

definition frag_payload :: "u16 \<Rightarrow> nat \<Rightarrow> u8 list \<Rightarrow> nat \<Rightarrow> nat \<Rightarrow> u8 list \<times> nat" where
  "frag_payload dgram_id count p len i =
     (let buf = tn_frag_encode (replicate TREENET_MTU 0)
                  \<lparr>fh_dgram_id = dgram_id, fh_index = of_nat i, fh_count = of_nat count\<rparr>;
          off = i * TN_FRAG_CHUNK;
          cl = len - off;
          cl = (if cl > TN_FRAG_CHUNK then TN_FRAG_CHUNK else cl)
      in (memcpy buf TN_FRAG_HDR_LEN (drop off p) cl, cl))"

fun send_frags ::
    "bool \<Rightarrow> treenet_addr_t \<Rightarrow> bool \<Rightarrow> treenet_addr_t \<Rightarrow> u16 \<Rightarrow> nat \<Rightarrow> u8 list \<Rightarrow> nat \<Rightarrow> nat list
      \<Rightarrow> 'w treenet \<Rightarrow> int \<times> 'w treenet" where
  "send_frags flood dst reliable nh dgram_id count p len [] t = (0, TN_STAT_INC st_datagrams_tx_update t)"
| "send_frags flood dst reliable nh dgram_id count p len (i # is) t =
     (let (buf, cl) = frag_payload dgram_id count p len i;
          (seq, t) = tn_next_seq t;
          f = data_frame t flood dst (TN_FLAG_FRAG OR (if reliable then TN_FLAG_WANT_ACK else 0)) seq buf
                (TN_FRAG_HDR_LEN + cl);
          (rc, t) = tn_tx_submit t f reliable nh 0
      in if rc \<noteq> 0 then (- 1, t)
         else send_frags flood dst reliable nh dgram_id count p len is t)"

definition tn_send_datagram ::
    "'w treenet \<Rightarrow> treenet_addr_t \<Rightarrow> u8 list option \<Rightarrow> nat \<Rightarrow> bool \<Rightarrow> int \<times> 'w treenet" where
  "tn_send_datagram t dst data len flood =
     (case data of
        None \<Rightarrow> (- 1, t)
      | Some p \<Rightarrow>
          if len = 0 \<or> len > TREENET_MAX_DATAGRAM then (- 1, t)
          else
            let max_payload = TREENET_MTU - TN_FRAME_OVERHEAD;
                reliable = (\<not> flood \<and> cf_reliable (nd_cfg t));
                (nh, t) = (if flood then (TREENET_ADDR_BROADCAST, t) else tn_route_next_hop t dst)
            in if \<not> flood \<and> nh = TREENET_ADDR_INVALID then (- 3, t)
               else if len \<le> max_payload then
                 let (seq, t) = tn_next_seq t;
                     f = data_frame t flood dst (if reliable then TN_FLAG_WANT_ACK else 0) seq p len;
                     (rc, t) = tn_tx_submit t f reliable nh 0;
                     t = (if rc = 0 then TN_STAT_INC st_datagrams_tx_update t else t)
                 in (rc, t)
               else
                 let count = (len + TN_FRAG_CHUNK - 1) div TN_FRAG_CHUNK
                 in if count > TREENET_MAX_FRAGMENTS then (- 2, t)
                    else if tn_tx_free_slots t < count then (- 1, t)
                    else
                      let (dgram_id, t) = tn_next_seq t
                      in send_frags flood dst reliable nh dgram_id count p len [0..<count] t)"

definition treenet_broadcast_node :: "'w treenet \<Rightarrow> u8 list option \<Rightarrow> nat \<Rightarrow> int \<times> 'w treenet" where
  "treenet_broadcast_node t data len =
     (if \<not> nd_initialized t then (- 1, t)
      else tn_send_datagram t TREENET_ADDR_BROADCAST data len True)"

definition treenet_broadcast :: "'w treenet option \<Rightarrow> u8 list option \<Rightarrow> nat \<Rightarrow> int \<times> 'w treenet option" where
  "treenet_broadcast tp data len =
     (case tp of None \<Rightarrow> (- 1, None) | Some t \<Rightarrow> map_prod id Some (treenet_broadcast_node t data len))"

definition treenet_send_node :: "'w treenet \<Rightarrow> treenet_addr_t \<Rightarrow> u8 list option \<Rightarrow> nat \<Rightarrow> int \<times> 'w treenet" where
  "treenet_send_node t dst data len =
     (if \<not> nd_initialized t then (- 1, t)
      else if dst = TREENET_ADDR_BROADCAST then treenet_broadcast_node t data len
      else if dst = nd_addr t \<or> dst = TREENET_ADDR_INVALID then (- 1, t)
      else tn_send_datagram t dst data len False)"

definition treenet_send ::
    "'w treenet option \<Rightarrow> treenet_addr_t \<Rightarrow> u8 list option \<Rightarrow> nat \<Rightarrow> int \<times> 'w treenet option" where
  "treenet_send tp dst data len =
     (case tp of None \<Rightarrow> (- 1, None) | Some t \<Rightarrow> map_prod id Some (treenet_send_node t dst data len))"

section \<open>Running a callback\<close>

definition app_view_of :: "'w treenet \<Rightarrow> app_view" where
  "app_view_of t =
     \<lparr>av_addr = treenet_addr (Some t), av_role = treenet_role (Some t), av_parent = treenet_parent (Some t),
      av_rank = treenet_rank (Some t), av_connected = treenet_is_connected (Some t), av_stats = nd_stats t,
      av_neighbors = treenet_neighbors (Some t) False TREENET_MAX_NEIGHBORS\<rparr>"

primrec run_app :: "'w app \<Rightarrow> 'w treenet \<Rightarrow> 'w treenet" where
  "run_app App_done t = t"
| "run_app (App_world f k) t = run_app (k (nd_env t)) (t\<lparr>nd_env := f (nd_env t)\<rparr>)"
| "run_app (App_send dst data len k) t =
     (let r = treenet_send_node t dst data len in run_app (k (fst r)) (snd r))"
| "run_app (App_broadcast data len k) t =
     (let r = treenet_broadcast_node t data len in run_app (k (fst r)) (snd r))"
| "run_app (App_view k) t = run_app (k (app_view_of t)) t"

lemma tn_route_next_hop_keeps [simp, tn_frame]:
  "nd_static (snd (tn_route_next_hop t dst)) = nd_static t"
  "nd_tree (snd (tn_route_next_hop t dst)) = nd_tree t"
  "nd_trickle (snd (tn_route_next_hop t dst)) = nd_trickle t"
  "nd_queue (snd (tn_route_next_hop t dst)) = nd_queue t" "nd_dup (snd (tn_route_next_hop t dst)) = nd_dup t"
  "nd_reasm (snd (tn_route_next_hop t dst)) = nd_reasm t" "nd_env (snd (tn_route_next_hop t dst)) = nd_env t"
  by (simp_all add: tn_route_next_hop_def Let_def case_prod_unfold split: option.splits)

lemmas tn_route_next_hop_keeps_fields [simp] =
  nd_staticD [OF tn_route_next_hop_keeps(1)]
  nd_treeD [OF tn_route_next_hop_keeps(2)]
  nd_trickleD [OF tn_route_next_hop_keeps(3)]
  nd_queueD [OF tn_route_next_hop_keeps(4)]

lemma send_frags_keeps [simp, tn_frame]:
  "nd_static (snd (send_frags flood dst reliable nh gid count p len is t)) = nd_static t"
  "nd_tree (snd (send_frags flood dst reliable nh gid count p len is t)) = nd_tree t"
  "nd_trickle (snd (send_frags flood dst reliable nh gid count p len is t)) = nd_trickle t"
  "nd_tables (snd (send_frags flood dst reliable nh gid count p len is t)) = nd_tables t"
  by (induction "is" arbitrary: t; simp add: Let_def case_prod_unfold)+

lemmas send_frags_keeps_fields [simp] =
  nd_staticD [OF send_frags_keeps(1)]
  nd_treeD [OF send_frags_keeps(2)]
  nd_trickleD [OF send_frags_keeps(3)]
  nd_tablesD [OF send_frags_keeps(4)]

lemma tn_send_datagram_keeps [simp, tn_frame]:
  "nd_static (snd (tn_send_datagram t dst data len flood)) = nd_static t"
  "nd_tree (snd (tn_send_datagram t dst data len flood)) = nd_tree t"
  "nd_trickle (snd (tn_send_datagram t dst data len flood)) = nd_trickle t"
  "nd_dup (snd (tn_send_datagram t dst data len flood)) = nd_dup t"
  "nd_reasm (snd (tn_send_datagram t dst data len flood)) = nd_reasm t"
  by (simp_all add: tn_send_datagram_def Let_def case_prod_unfold split: option.splits)

lemmas tn_send_datagram_keeps_fields [simp] =
  nd_staticD [OF tn_send_datagram_keeps(1)]
  nd_treeD [OF tn_send_datagram_keeps(2)]
  nd_trickleD [OF tn_send_datagram_keeps(3)]

lemma treenet_broadcast_node_keeps [simp, tn_frame]:
  "nd_static (snd (treenet_broadcast_node t data len)) = nd_static t"
  "nd_tree (snd (treenet_broadcast_node t data len)) = nd_tree t"
  "nd_trickle (snd (treenet_broadcast_node t data len)) = nd_trickle t"
  "nd_dup (snd (treenet_broadcast_node t data len)) = nd_dup t"
  "nd_reasm (snd (treenet_broadcast_node t data len)) = nd_reasm t"
  by (simp_all add: treenet_broadcast_node_def)

lemmas treenet_broadcast_node_keeps_fields [simp] =
  nd_staticD [OF treenet_broadcast_node_keeps(1)]
  nd_treeD [OF treenet_broadcast_node_keeps(2)]
  nd_trickleD [OF treenet_broadcast_node_keeps(3)]

lemma treenet_send_node_keeps [simp, tn_frame]:
  "nd_static (snd (treenet_send_node t dst data len)) = nd_static t"
  "nd_tree (snd (treenet_send_node t dst data len)) = nd_tree t"
  "nd_trickle (snd (treenet_send_node t dst data len)) = nd_trickle t"
  "nd_dup (snd (treenet_send_node t dst data len)) = nd_dup t"
  "nd_reasm (snd (treenet_send_node t dst data len)) = nd_reasm t"
  by (simp_all add: treenet_send_node_def)

lemmas treenet_send_node_keeps_fields [simp] =
  nd_staticD [OF treenet_send_node_keeps(1)]
  nd_treeD [OF treenet_send_node_keeps(2)]
  nd_trickleD [OF treenet_send_node_keeps(3)]

text \<open>What every public call and every change of the environment preserves, every callback preserves.\<close>

lemma run_app_preserves:
  assumes "\<And>t w. P t \<Longrightarrow> P (t\<lparr>nd_env := w\<rparr>)"
    and "\<And>t dst data len. P t \<Longrightarrow> P (snd (treenet_send_node t dst data len))"
    and "\<And>t data len. P t \<Longrightarrow> P (snd (treenet_broadcast_node t data len))"
    and "P t"
  shows "P (run_app a t)"
  using assms(4)
proof (induction a arbitrary: t)
  case (App_world f k)
  then show ?case using assms(1) by simp
next
  case (App_send dst data len k)
  then show ?case using assms(2) by (simp add: Let_def)
next
  case (App_broadcast data len k)
  then show ?case using assms(3) by (simp add: Let_def)
qed simp_all

lemma run_app_keeps_aux:
  "(nd_static (run_app a t), nd_tree (run_app a t), nd_trickle (run_app a t), nd_dup (run_app a t), nd_reasm (run_app a t)) =
   (nd_static t, nd_tree t, nd_trickle t, nd_dup t, nd_reasm t)"
  by (rule run_app_preserves [where P = "\<lambda>x. (nd_static x, nd_tree x, nd_trickle x, nd_dup x, nd_reasm x) =
      (nd_static t, nd_tree t, nd_trickle t, nd_dup t, nd_reasm t)"]) simp_all

lemma run_app_keeps [simp, tn_frame]:
  "nd_static (run_app a t) = nd_static t" "nd_tree (run_app a t) = nd_tree t"
  "nd_trickle (run_app a t) = nd_trickle t" "nd_dup (run_app a t) = nd_dup t"
  "nd_reasm (run_app a t) = nd_reasm t"
  by (use run_app_keeps_aux [of a t] in simp_all)

lemmas run_app_keeps_fields [simp] =
  nd_staticD [OF run_app_keeps(1)]
  nd_treeD [OF run_app_keeps(2)]
  nd_trickleD [OF run_app_keeps(3)]

end
