(* ===== verification/Tn_Node.thy ===== *)
theory Tn_Node
  imports Tn_Dataplane
begin

text \<open>
  The rest of \<open>src/api/treenet.c\<close>: acknowledgements and the transmit scheduler, reassembly,
  frame processing, the receive path, housekeeping, initialisation, deadlines and the poll loop.
\<close>

section \<open>Acknowledgements and the transmit scheduler\<close>

definition ack_frame :: "'w treenet \<Rightarrow> treenet_addr_t \<Rightarrow> u16 \<Rightarrow> tn_frame_t" where
  "ack_frame t to seq =
     frame_zero\<lparr>fr_version := TREENET_PROTOCOL_VERSION, fr_type := TREENET_FRAME_ACK, fr_src := nd_addr t,
       fr_dst := to, fr_seq := seq, fr_net_id := nd_net_id t, fr_hop_limit := 1\<rparr>"

definition tn_send_ack :: "'w treenet \<Rightarrow> treenet_addr_t \<Rightarrow> u16 \<Rightarrow> 'w treenet" where
  "tn_send_ack t to seq =
     (if to = TREENET_ADDR_INVALID \<or> to = TREENET_ADDR_BROADCAST then t
      else snd (tn_tx_submit t (ack_frame t to seq) False to 0))"

definition tn_link_ack_result :: "'w treenet \<Rightarrow> treenet_addr_t \<Rightarrow> bool \<Rightarrow> 'w treenet" where
  "tn_link_ack_result t dst acked_by_dst =
     (case tn_neighbor_find (nd_neighbors t) dst of
        None \<Rightarrow> t
      | Some i \<Rightarrow>
          if acked_by_dst then
            t\<lparr>nd_neighbors := nt_update (nd_neighbors t) i (\<lambda>n. n\<lparr>ne_ack_fail := 0, ne_suspect_until_ms := 0\<rparr>)\<rparr>
          else
            let t = t\<lparr>nd_neighbors := nt_update (nd_neighbors t) i
                        (\<lambda>n. if ne_ack_fail n < 0xFF then n\<lparr>ne_ack_fail := ne_ack_fail n + 1\<rparr> else n)\<rparr>
            in if ne_ack_fail (nt_entries (nd_neighbors t) ! i) \<ge> TREENET_ACK_FAIL_THRESHOLD then
                 let t = t\<lparr>nd_neighbors := nt_update (nd_neighbors t) i
                             (\<lambda>n. n\<lparr>ne_suspect_until_ms := nd_now_ms t + TREENET_LINK_SUSPECT_MS, ne_ack_fail := 0\<rparr>)\<rparr>
                 in if ne_addr (nt_entries (nd_neighbors t) ! i) = nd_parent t
                    then snd (tn_routing_select_parent t (nd_now_ms t)) else t
               else t)"

definition tn_handle_ack :: "'w treenet \<Rightarrow> tn_frame_t \<Rightarrow> 'w treenet" where
  "tn_handle_ack t f =
     (if tn_neighbor_find (nd_neighbors t) (fr_src f) = None then t
      else
        case find_index (\<lambda>s. tx_valid s \<and> tx_reliable s \<and> tx_ack_seq s = fr_seq f) (nd_tx t) of
          None \<Rightarrow> t
        | Some i \<Rightarrow>
            let dst = tx_ack_dst (nd_tx t ! i);
                t = t\<lparr>nd_tx := (nd_tx t)[i := (nd_tx t ! i)\<lparr>tx_valid := False\<rparr>]\<rparr>;
                t = tn_link_ack_result t dst (fr_src f = dst)
            in tn_emit_event t TREENET_EV_TX_DONE Arg_NULL)"

text \<open>One iteration of the loop of \<open>tn_tx_poll\<close>.\<close>

definition tx_poll_slot :: "'w treenet \<Rightarrow> nat \<Rightarrow> 'w treenet" where
  "tx_poll_slot t i =
     (let s = nd_tx t ! i
      in if \<not> tx_valid s then t
         else if tn_time_after (tx_next_tx_ms s) (nd_now_ms t) then t
         else if tx_reliable s \<and> tx_attempts s \<ge> TREENET_MAX_RETRIES then
           let dst = tx_ack_dst s;
               t = t\<lparr>nd_tx := (nd_tx t)[i := s\<lparr>tx_valid := False\<rparr>]\<rparr>;
               t = tn_link_ack_result t dst False
           in tn_emit_event t TREENET_EV_TX_FAILED Arg_NULL
         else
           let (free, t) = port_channel_free t
           in if \<not> free then
                t\<lparr>nd_tx := (nd_tx t)[i := s\<lparr>tx_next_tx_ms := nd_now_ms t + TREENET_SLOT_MS\<rparr>]\<rparr>
              else
                let was_retry = (tx_attempts s > 0);
                    (rc, t) = port_tx t (tx_buf s) (unat (tx_len s));
                    t = (if rc = 0 then
                           let t = TN_STAT_INC st_frames_tx_update t;
                               us = tn_airtime_estimate_us (if nd_has_lora t then Some (nd_lora t) else None)
                                      (unat (tx_len s));
                               t = TN_STAT_ADD st_airtime_ms_update ((us + 999) div 1000) t
                           in (if was_retry then TN_STAT_INC st_retransmissions_update t else t)
                         else t)
                in if tx_reliable s then
                     t\<lparr>nd_tx := (nd_tx t)[i := s\<lparr>tx_attempts := tx_attempts s + 1,
                                             tx_next_tx_ms := nd_now_ms t + TREENET_ACK_TIMEOUT_MS\<rparr>]\<rparr>
                   else t\<lparr>nd_tx := (nd_tx t)[i := s\<lparr>tx_valid := False\<rparr>]\<rparr>)"

definition tn_tx_poll :: "'w treenet \<Rightarrow> 'w treenet" where
  "tn_tx_poll t = foldl tx_poll_slot t [0..<TREENET_TX_QUEUE_SIZE]"

section \<open>Reassembly\<close>

definition reasm_slot ::
    "tn_reasm_t list \<Rightarrow> treenet_addr_t \<Rightarrow> u16 \<Rightarrow> u8 \<Rightarrow> u32 \<Rightarrow> nat \<times> tn_reasm_t list" where
  "reasm_slot rs src dgram_id count now =
     (case find_index (\<lambda>r. re_valid r \<and> re_src r = src \<and> re_dgram_id r = dgram_id) rs of
        Some i \<Rightarrow> (i, rs)
      | None \<Rightarrow>
          let i = (case find_index (\<lambda>r. \<not> re_valid r) rs of
                     Some i \<Rightarrow> i
                   | None \<Rightarrow> oldest_loop (\<lambda>r. False) (\<lambda>r. tn_elapsed (re_last_ms r) now) 0 0 0 rs)
          in (i, rs[i := reasm_zero\<lparr>re_valid := True, re_src := src, re_dgram_id := dgram_id,
                                   re_count := count, re_last_ms := now\<rparr>]))"

text \<open>Storing a fragment's bytes in its slot; the flag says that all fragments are there.\<close>

definition reasm_store :: "tn_reasm_t \<Rightarrow> tn_frag_hdr_t \<Rightarrow> u8 list \<Rightarrow> nat \<Rightarrow> bool \<times> tn_reasm_t" where
  "reasm_store r fh chunk chunk_len =
     (let bit = push_bit (unat (fh_index fh)) 1 :: u16;
          offset = unat (fh_index fh) * TN_FRAG_CHUNK
      in if re_got_mask r AND bit = 0 then
           let r = r\<lparr>re_buf := memcpy (re_buf r) offset chunk chunk_len,
                     re_frag_len := (re_frag_len r)[unat (fh_index fh) := of_nat chunk_len],
                     re_got_mask := re_got_mask r OR bit\<rparr>;
               received = length (filter (\<lambda>i. re_got_mask r AND push_bit i 1 \<noteq> 0) [0..<unat (fh_count fh)])
           in (received = unat (fh_count fh), r)
         else (False, r))"

text \<open>\<open>total\<close> of the delivery branch: the 16-bit sum of the fragment lengths.\<close>

definition reasm_total :: "tn_reasm_t \<Rightarrow> tn_frag_hdr_t \<Rightarrow> u16" where
  "reasm_total r fh = foldl (\<lambda>total i. total + re_frag_len r ! i) 0 [0..<unat (fh_count fh)]"

definition tn_reasm_input :: "'w treenet \<Rightarrow> tn_frame_t \<Rightarrow> i16 \<Rightarrow> i8 \<Rightarrow> u32 \<Rightarrow> 'w treenet" where
  "tn_reasm_input t f rssi snr now =
     (case tn_frag_decode (fr_payload f) (fr_payload_len f) of
        None \<Rightarrow> t
      | Some fh \<Rightarrow>
          if fh_count fh = 0 \<or> unat (fh_count fh) > TREENET_MAX_FRAGMENTS \<or> fh_index fh \<ge> fh_count fh then t
          else
            let chunk_len = fr_payload_len f - TN_FRAG_HDR_LEN
            in if unat (fh_index fh) + 1 < unat (fh_count fh) \<and> chunk_len \<noteq> TN_FRAG_CHUNK then t
               else if \<exists>r\<in>set (nd_reasm t). re_valid r \<and> re_src r = fr_src f \<and>
                         re_dgram_id r = fh_dgram_id fh \<and> re_count r \<noteq> fh_count fh then t
               else if unat (fh_index fh) * TN_FRAG_CHUNK + chunk_len > TREENET_MAX_DATAGRAM then t
               else
                 let (i, rs) = reasm_slot (nd_reasm t) (fr_src f) (fh_dgram_id fh) (fh_count fh) now;
                     r = (rs ! i)\<lparr>re_last_ms := now\<rparr>;
                     chunk = (case fr_payload f of Some p \<Rightarrow> drop TN_FRAG_HDR_LEN p | None \<Rightarrow> []);
                     (complete, r) = reasm_store r fh chunk chunk_len;
                     t = t\<lparr>nd_reasm := rs[i := r]\<rparr>
                 in if complete then
                      let total = reasm_total r fh;
                          t = TN_STAT_INC st_datagrams_rx_update t;
                          t = (case cf_on_recv (nd_cfg t) of
                                 None \<Rightarrow> t
                               | Some on_recv \<Rightarrow>
                                   let hops = TREENET_MAX_HOPS - fr_hop_limit f
                                   in run_app (on_recv (fr_src f) (take (unat total) (re_buf r)) rssi snr hops) t)
                      in t\<lparr>nd_reasm := (nd_reasm t)[i := (nd_reasm t ! i)\<lparr>re_valid := False\<rparr>]\<rparr>
                    else t)"

section \<open>Frame processing\<close>

definition tn_deliver :: "'w treenet \<Rightarrow> tn_frame_t \<Rightarrow> i16 \<Rightarrow> i8 \<Rightarrow> 'w treenet" where
  "tn_deliver t f rssi snr =
     (if fr_flags f AND TN_FLAG_FRAG \<noteq> 0 then tn_reasm_input t f rssi snr (nd_now_ms t)
      else
        let t = TN_STAT_INC st_datagrams_rx_update t
        in case cf_on_recv (nd_cfg t) of
             None \<Rightarrow> t
           | Some on_recv \<Rightarrow>
               let hops = TREENET_MAX_HOPS - fr_hop_limit f
               in run_app (on_recv (fr_src f) (frame_data f) rssi snr hops) t)"

definition tn_handle_data :: "'w treenet \<Rightarrow> tn_frame_t \<Rightarrow> i16 \<Rightarrow> i8 \<Rightarrow> u32 \<Rightarrow> 'w treenet" where
  "tn_handle_data t f rssi snr now =
     (let want_ack = (fr_flags f AND TN_FLAG_WANT_ACK \<noteq> 0)
      in if fr_dst f = nd_addr t then
           let (dup, cache) = tn_dupcache_seen (nd_dup t) (fr_src f) (fr_seq f) now;
               t = t\<lparr>nd_dup := cache\<rparr>;
               t = (if want_ack then tn_send_ack t (fr_prev f) (fr_seq f) else t)
           in (if \<not> dup then tn_deliver t f rssi snr else t)
         else if nd_role t = TREENET_ROLE_LEAF then t
         else if tn_dupcache_check (nd_dup t) (fr_src f) (fr_seq f) now then
           (if want_ack then tn_send_ack t (fr_prev f) (fr_seq f) else t)
         else if fr_hop_limit f \<le> 1 then TN_STAT_INC st_frames_dropped_update t
         else
           let (nh, t) = tn_route_next_hop t (fr_dst f)
           in if nh = TREENET_ADDR_INVALID then TN_STAT_INC st_frames_dropped_update t
              else
                let out = f\<lparr>fr_hop_limit := fr_hop_limit f - 1\<rparr>;
                    (rc, t) = tn_tx_submit t out want_ack nh 0
                in if rc \<noteq> 0 then TN_STAT_INC st_frames_dropped_update t
                   else
                     let t = t\<lparr>nd_dup := tn_dupcache_mark (nd_dup t) (fr_src f) (fr_seq f) now\<rparr>
                     in (if want_ack then tn_send_ack t (fr_prev f) (fr_seq f) else t))"

text \<open>The contention window of a rebroadcast, in milliseconds.\<close>

definition flood_window :: "i8 \<Rightarrow> u32" where
  "flood_window snr =
     (let s = tn_clamp_i32 (sint snr) (- 20) 10
      in word_of_int ((10 - s) * TREENET_FLOOD_CW_MS) div 30)"

definition tn_handle_flood :: "'w treenet \<Rightarrow> tn_frame_t \<Rightarrow> i16 \<Rightarrow> i8 \<Rightarrow> u32 \<Rightarrow> 'w treenet" where
  "tn_handle_flood t f rssi snr now =
     (let (dup, cache) = tn_dupcache_seen (nd_dup t) (fr_src f) (fr_seq f) now;
          t = t\<lparr>nd_dup := cache\<rparr>
      in if dup then t
         else
           let t = tn_deliver t f rssi snr
           in if nd_role t = TREENET_ROLE_LEAF then t
              else if fr_hop_limit f \<le> 1 then t
              else
                let (delay, t) =
                      (if nd_role t = TREENET_ROLE_REPEATER then (0, t)
                       else
                         let (r, t) = port_rnd t
                         in (tn_rand_below r TREENET_SLOT_MS + flood_window snr, t));
                    out = f\<lparr>fr_hop_limit := fr_hop_limit f - 1\<rparr>
                in snd (tn_tx_submit t out False TREENET_ADDR_BROADCAST delay))"

text \<open>The semantic checks on a decoded beacon.\<close>

definition beacon_bad :: "tn_frame_t \<Rightarrow> tn_beacon_payload_t \<Rightarrow> bool" where
  "beacon_bad f b \<longleftrightarrow>
     (let interval_ms = ucast (bp_interval_100ms b) * 100 :: u32;
          bad_interval = (interval_ms < TREENET_BEACON_MIN_MS div 2 \<or> interval_ms > TREENET_BEACON_MAX_MS);
          bad_parent = (bp_parent b = fr_src f);
          bad_rank = (bp_flags b AND TN_BEACON_HAS_PARENT \<noteq> 0 \<and> bp_rank b \<ge> TREENET_RANK_INFINITE)
      in bad_interval \<or> bad_parent \<or> bad_rank)"

definition tn_process_frame :: "'w treenet \<Rightarrow> tn_frame_t \<Rightarrow> i16 \<Rightarrow> i8 \<Rightarrow> u32 \<Rightarrow> 'w treenet" where
  "tn_process_frame t f rssi snr now =
     (if fr_type f = TREENET_FRAME_BEACON then
        case tn_beacon_decode (fr_payload f) (fr_payload_len f) of
          None \<Rightarrow> TN_STAT_INC st_frames_dropped_update t
        | Some b \<Rightarrow>
            if beacon_bad f b then TN_STAT_INC st_frames_dropped_update t
            else tn_routing_on_beacon (TN_STAT_INC st_beacons_rx_update t) (fr_src f) (bp_rank b)
                   (bp_parent b) (bp_flags b) (bp_interval_100ms b) rssi snr now
      else if fr_type f = TREENET_FRAME_DAO then
        if fr_dst f = nd_addr t \<or> fr_dst f = TREENET_ADDR_BROADCAST then
          let (rc, t) = tn_dao_handle t f now
          in (if rc = 0 \<and> fr_flags f AND TN_FLAG_WANT_ACK \<noteq> 0 then tn_send_ack t (fr_prev f) (fr_seq f) else t)
        else t
      else if fr_type f = TREENET_FRAME_ACK then
        (if fr_dst f = nd_addr t then tn_handle_ack t f else t)
      else if fr_type f = TREENET_FRAME_PROBE then tn_beacon_send t now
      else if fr_type f = TREENET_FRAME_DATA then tn_handle_data t f rssi snr now
      else if fr_type f = TREENET_FRAME_FLOOD then tn_handle_flood t f rssi snr now
      else TN_STAT_INC st_frames_dropped_update t)"

lemma tn_send_ack_keeps [simp, tn_frame]:
  "nd_static (tn_send_ack t to seq) = nd_static t" "nd_tree (tn_send_ack t to seq) = nd_tree t"
  "nd_trickle (tn_send_ack t to seq) = nd_trickle t" "nd_tables (tn_send_ack t to seq) = nd_tables t"
  "nd_seq (tn_send_ack t to seq) = nd_seq t"
  by (simp_all add: tn_send_ack_def Let_def case_prod_unfold)

lemmas tn_send_ack_keeps_fields [simp] =
  nd_staticD [OF tn_send_ack_keeps(1)]
  nd_treeD [OF tn_send_ack_keeps(2)]
  nd_trickleD [OF tn_send_ack_keeps(3)]
  nd_tablesD [OF tn_send_ack_keeps(4)]

lemma tn_link_ack_result_keeps [simp, tn_frame]:
  "nd_static (tn_link_ack_result t dst ok) = nd_static t"
  "nd_tables (tn_link_ack_result t dst ok) = nd_tables t"
  by (simp_all add: tn_link_ack_result_def Let_def case_prod_unfold split: option.splits)

lemmas tn_link_ack_result_keeps_fields [simp] =
  nd_staticD [OF tn_link_ack_result_keeps(1)]
  nd_tablesD [OF tn_link_ack_result_keeps(2)]

lemma tn_handle_ack_keeps [simp, tn_frame]:
  "nd_static (tn_handle_ack t f) = nd_static t" "nd_tables (tn_handle_ack t f) = nd_tables t"
  by (simp_all add: tn_handle_ack_def Let_def case_prod_unfold split: option.splits)

lemmas tn_handle_ack_keeps_fields [simp] =
  nd_staticD [OF tn_handle_ack_keeps(1)]
  nd_tablesD [OF tn_handle_ack_keeps(2)]

lemma tx_poll_slot_keeps [simp, tn_frame]:
  "nd_static (tx_poll_slot t i) = nd_static t" "nd_tables (tx_poll_slot t i) = nd_tables t"
  by (simp_all add: tx_poll_slot_def Let_def case_prod_unfold)

lemmas tx_poll_slot_keeps_fields [simp] =
  nd_staticD [OF tx_poll_slot_keeps(1)]
  nd_tablesD [OF tx_poll_slot_keeps(2)]

lemma tn_reasm_input_keeps [simp, tn_frame]:
  "nd_static (tn_reasm_input t f rssi snr now) = nd_static t"
  "nd_tree (tn_reasm_input t f rssi snr now) = nd_tree t"
  "nd_trickle (tn_reasm_input t f rssi snr now) = nd_trickle t"
  "nd_dup (tn_reasm_input t f rssi snr now) = nd_dup t"
  by (simp_all add: tn_reasm_input_def Let_def case_prod_unfold split: option.splits)

lemmas tn_reasm_input_keeps_fields [simp] =
  nd_staticD [OF tn_reasm_input_keeps(1)]
  nd_treeD [OF tn_reasm_input_keeps(2)]
  nd_trickleD [OF tn_reasm_input_keeps(3)]

lemma tn_deliver_keeps [simp, tn_frame]:
  "nd_static (tn_deliver t f rssi snr) = nd_static t" "nd_tree (tn_deliver t f rssi snr) = nd_tree t"
  "nd_trickle (tn_deliver t f rssi snr) = nd_trickle t" "nd_dup (tn_deliver t f rssi snr) = nd_dup t"
  by (simp_all add: tn_deliver_def Let_def case_prod_unfold split: option.splits)

lemmas tn_deliver_keeps_fields [simp] =
  nd_staticD [OF tn_deliver_keeps(1)]
  nd_treeD [OF tn_deliver_keeps(2)]
  nd_trickleD [OF tn_deliver_keeps(3)]

lemma tn_handle_data_keeps [simp, tn_frame]:
  "nd_static (tn_handle_data t f rssi snr now) = nd_static t"
  "nd_tree (tn_handle_data t f rssi snr now) = nd_tree t"
  "nd_trickle (tn_handle_data t f rssi snr now) = nd_trickle t"
  by (simp_all add: tn_handle_data_def Let_def case_prod_unfold)

lemmas tn_handle_data_keeps_fields [simp] =
  nd_staticD [OF tn_handle_data_keeps(1)]
  nd_treeD [OF tn_handle_data_keeps(2)]
  nd_trickleD [OF tn_handle_data_keeps(3)]

lemma tn_handle_flood_keeps [simp, tn_frame]:
  "nd_static (tn_handle_flood t f rssi snr now) = nd_static t"
  "nd_tree (tn_handle_flood t f rssi snr now) = nd_tree t"
  "nd_trickle (tn_handle_flood t f rssi snr now) = nd_trickle t"
  by (simp_all add: tn_handle_flood_def Let_def case_prod_unfold)

lemmas tn_handle_flood_keeps_fields [simp] =
  nd_staticD [OF tn_handle_flood_keeps(1)]
  nd_treeD [OF tn_handle_flood_keeps(2)]
  nd_trickleD [OF tn_handle_flood_keeps(3)]

lemma tn_process_frame_keeps [simp, tn_frame]:
  "nd_static (tn_process_frame t f rssi snr now) = nd_static t"
  by (simp_all add: tn_process_frame_def Let_def case_prod_unfold split: option.splits)

lemmas tn_process_frame_keeps_fields [simp] =
  nd_staticD [OF tn_process_frame_keeps]

section \<open>Receive path\<close>

text \<open>The body of the loop of \<open>tn_rx_drain\<close> for a frame taken from the ring.\<close>

definition rx_one :: "'w treenet \<Rightarrow> tn_rx_meta_t \<Rightarrow> u8 list \<Rightarrow> 'w treenet" where
  "rx_one t meta buf =
     (let t = TN_STAT_INC st_frames_rx_update t
      in case tn_frame_decode (Some buf) (unat (rm_len meta)) of
           None \<Rightarrow> TN_STAT_INC st_frames_dropped_update t
         | Some f \<Rightarrow>
             if fr_net_id f \<noteq> nd_net_id t \<or> fr_src f = nd_addr t then t
             else
               let hop = fr_prev f;
                   t = (if hop \<noteq> nd_addr t \<and> hop \<noteq> TREENET_ADDR_INVALID then
                          let known = (tn_neighbor_find (nd_neighbors t) hop \<noteq> None);
                              t = t\<lparr>nd_neighbors := tn_neighbor_note_frame (nd_neighbors t) hop
                                      (rm_rssi_dbm meta) (rm_snr_db meta) (nd_now_ms t)\<rparr>
                          in (if \<not> known then tn_emit_event t TREENET_EV_NEIGHBOR_ADDED Arg_NULL else t)
                        else t)
               in tn_process_frame t f (rm_rssi_dbm meta) (rm_snr_db meta) (nd_now_ms t))"

lemma rx_one_keeps [simp, tn_frame]: "nd_static (rx_one t meta buf) = nd_static t"
  by (simp add: rx_one_def Let_def split: option.splits)

lemmas rx_one_keeps_fields [simp] = nd_staticD [OF rx_one_keeps]

text \<open>A successful pop frees at least the record header, so the loop ends.\<close>

lemma pop_used_less:
  assumes "tn_ringbuf_pop rb meta out cap = (True, rb', meta', out')"
  shows "tn_ringbuf_used rb' < tn_ringbuf_used rb"
proof -
  let ?avail = "rb_tail rb - rb_head rb"
  obtain l where rb': "rb' = rb\<lparr>rb_head := rb_head rb + of_nat TN_RX_HDR + ucast (l :: u16)\<rparr>"
    and l: "\<not> ?avail < of_nat TN_RX_HDR + ucast l"
    using assms by (auto simp: tn_ringbuf_pop_def Let_def split: if_splits)
  have "unat (of_nat TN_RX_HDR + ucast l :: u32) = 5 + unat l" by (rule unat_rx_need)
  moreover have "rb_tail rb' - rb_head rb' = ?avail - (of_nat TN_RX_HDR + ucast l)"
    by (simp add: rb')
  ultimately show ?thesis
    using l unat_sub [of "of_nat TN_RX_HDR + ucast l" ?avail]
    unfolding tn_ringbuf_used_def not_less word_le_nat_alt by simp
qed

function rx_loop :: "'w treenet \<Rightarrow> tn_rx_meta_t \<Rightarrow> u8 list \<Rightarrow> 'w treenet" where
  "rx_loop t meta buf =
     (case tn_ringbuf_pop (nd_rx t) meta buf TREENET_MTU of
        (ok, rx, meta, buf) \<Rightarrow>
          let t = t\<lparr>nd_rx := rx\<rparr>
          in if \<not> ok then t else rx_loop (rx_one t meta buf) meta buf)"
  by pat_completeness auto

termination
  by (relation "measure (\<lambda>(t, _). tn_ringbuf_used (nd_rx t))") (auto dest!: sym [of _ "tn_ringbuf_pop _ _ _ _"] intro: pop_used_less)

declare rx_loop.simps [simp del]

definition tn_rx_drain :: "'w treenet \<Rightarrow> 'w treenet" where
  "tn_rx_drain t = rx_loop t \<lparr>rm_len = 0, rm_rssi_dbm = 0, rm_snr_db = 0\<rparr> (replicate TREENET_MTU 0)"

section \<open>Housekeeping\<close>

definition age_slot :: "'w treenet \<Rightarrow> nat \<Rightarrow> 'w treenet" where
  "age_slot t i =
     (let n = nt_entries (nd_neighbors t) ! i
      in if \<not> ne_valid n then t
         else if tn_elapsed (ne_last_seen_ms n) (nd_now_ms t) \<le> TREENET_NEIGHBOR_TIMEOUT_MS then t
         else
           let gone = ne_addr n;
               t = t\<lparr>nd_routes := snd (tn_route_remove_via (nd_routes t) gone)\<rparr>;
               tbl = nd_neighbors t;
               tbl = tbl\<lparr>nt_entries := (nt_entries tbl)[i := neighbor_zero]\<rparr>;
               tbl = (if nt_count tbl > 0 then tbl\<lparr>nt_count := nt_count tbl - 1\<rparr> else tbl);
               t = t\<lparr>nd_neighbors := tbl\<rparr>;
               t = tn_emit_event t TREENET_EV_NEIGHBOR_REMOVED Arg_NULL
           in (if gone = nd_parent t then tn_routing_on_parent_lost t (nd_now_ms t) else t))"

definition tn_age_neighbors :: "'w treenet \<Rightarrow> 'w treenet" where
  "tn_age_neighbors t = foldl age_slot t [0..<TREENET_MAX_NEIGHBORS]"

definition tn_expire_reasm :: "'w treenet \<Rightarrow> 'w treenet" where
  "tn_expire_reasm t =
     t\<lparr>nd_reasm := map (\<lambda>r. if re_valid r \<and> tn_elapsed (re_last_ms r) (nd_now_ms t) > TREENET_REASM_TIMEOUT_MS
                           then r\<lparr>re_valid := False\<rparr> else r) (nd_reasm t)\<rparr>"

definition probe_frame :: "'w treenet \<Rightarrow> u16 \<Rightarrow> tn_frame_t" where
  "probe_frame t seq =
     frame_zero\<lparr>fr_version := TREENET_PROTOCOL_VERSION, fr_type := TREENET_FRAME_PROBE, fr_src := nd_addr t,
       fr_dst := TREENET_ADDR_BROADCAST, fr_seq := seq, fr_net_id := nd_net_id t, fr_hop_limit := 1\<rparr>"

definition tn_probe_send :: "'w treenet \<Rightarrow> 'w treenet" where
  "tn_probe_send t =
     (let (seq, t) = tn_next_seq t;
          (rc, t) = tn_tx_submit t (probe_frame t seq) False TREENET_ADDR_BROADCAST 0
      in t\<lparr>nd_probe_last_ms := nd_now_ms t\<rparr>)"

lemma eventq_take_count: "eq_count q > 0 \<Longrightarrow> unat (eq_count (snd (eventq_take q))) < unat (eq_count q)"
  using unat_sub [of 1 "eq_count q"] by (simp add: eventq_take_def word_le_nat_alt word_less_nat_alt)

function flush_loop :: "(treenet_event_t \<Rightarrow> treenet_addr_t option \<Rightarrow> 'w app) \<Rightarrow> 'w treenet \<Rightarrow> 'w treenet" where
  "flush_loop on_event t =
     (if eq_count (nd_events t) > 0 then
        let (e, q) = eventq_take (nd_events t);
            t = t\<lparr>nd_events := q\<rparr>;
            arg = (case snd e of Arg_NULL \<Rightarrow> None | Arg_parent \<Rightarrow> Some (nd_parent t))
        in flush_loop on_event (run_app (on_event (fst e) arg) t)
      else t)"
  by pat_completeness auto

termination
  by (relation "measure (\<lambda>(_, t). unat (eq_count (nd_events t)))")
    (auto dest!: eventq_take_count arg_cong [where f = snd and x = "(_, _)"])

declare flush_loop.simps [simp del]

definition tn_events_flush :: "'w treenet \<Rightarrow> 'w treenet" where
  "tn_events_flush t =
     (case cf_on_event (nd_cfg t) of
        None \<Rightarrow> t\<lparr>nd_events := (nd_events t)\<lparr>eq_head := 0, eq_tail := 0, eq_count := 0\<rparr>\<rparr>
      | Some on_event \<Rightarrow> flush_loop on_event t)"

section \<open>Deadlines\<close>

definition deadline_in :: "u32 \<Rightarrow> u32 \<Rightarrow> u32" where
  "deadline_in due now = (if tn_time_after now due then 0 else due - now)"

text \<open>\<open>if (d < best) best = d;\<close> over the deadlines of the valid entries of a table.\<close>

definition earliest :: "u32 \<Rightarrow> u32 list \<Rightarrow> u32" where
  "earliest best ds = foldl (\<lambda>best d. if d < best then d else best) best ds"

definition next_maint_deadline :: "'w treenet \<Rightarrow> u32 \<Rightarrow> u32" where
  "next_maint_deadline t now =
     (let best = earliest UINT32_MAX
            (map (\<lambda>r. deadline_in (rt_updated_ms r + TREENET_ROUTE_TIMEOUT_MS) now)
              (filter rt_valid (rt_entries (nd_routes t))));
          best = earliest best
            (map (\<lambda>n. deadline_in (ne_last_seen_ms n + TREENET_NEIGHBOR_TIMEOUT_MS) now)
              (filter ne_valid (nt_entries (nd_neighbors t))));
          best = earliest best
            (map (\<lambda>r. deadline_in (re_last_ms r + TREENET_REASM_TIMEOUT_MS) now)
              (filter re_valid (nd_reasm t)))
      in if nd_role t \<noteq> TREENET_ROLE_MASTER then
           if \<not> nd_connected t
           then earliest best [deadline_in (nd_probe_last_ms t + TREENET_PROBE_INTERVAL_MS) now]
           else earliest best [deadline_in (nd_dao_last_ms t + TREENET_ROUTE_REFRESH_MS) now]
         else best)"

definition next_deadline_ms :: "'w treenet \<Rightarrow> u32 \<Rightarrow> u32" where
  "next_deadline_ms t now =
     (let best = tn_timer_remaining (nd_beacon_timer t) now;
          best = earliest best [next_maint_deadline t now];
          best = earliest best
            (map (\<lambda>s. deadline_in (tx_next_tx_ms s) now) (filter tx_valid (nd_tx t)))
      in if nd_role t \<noteq> TREENET_ROLE_MASTER \<and> nd_parent t \<noteq> TREENET_ADDR_INVALID
         then earliest best [deadline_in (nd_parent_beacon_ms t + TREENET_PARENT_TIMEOUT_MS) now]
         else best)"

section \<open>The poll loop and the receive entry point\<close>

text \<open>Step 3 of \<open>treenet_poll\<close>.\<close>

definition poll_maintenance :: "'w treenet \<Rightarrow> 'w treenet" where
  "poll_maintenance t =
     (if next_maint_deadline t (nd_now_ms t) = 0 then
        let t = t\<lparr>nd_routes := snd (tn_route_expire (nd_routes t) (nd_now_ms t) TREENET_ROUTE_TIMEOUT_MS)\<rparr>;
            t = tn_age_neighbors t;
            t = tn_expire_reasm t
        in if nd_role t \<noteq> TREENET_ROLE_MASTER then
             if \<not> nd_connected t then
               (if deadline_in (nd_probe_last_ms t + TREENET_PROBE_INTERVAL_MS) (nd_now_ms t) = 0
                then tn_probe_send t else t)
             else if deadline_in (nd_dao_last_ms t + TREENET_ROUTE_REFRESH_MS) (nd_now_ms t) = 0
             then tn_dao_send t (nd_now_ms t) else t
           else t
      else t)"

definition treenet_poll_node :: "'w treenet \<Rightarrow> 'w treenet" where
  "treenet_poll_node t =
     (if \<not> nd_initialized t then t
      else
        let (now, t) = port_now_ms t;
            t = t\<lparr>nd_now_ms := now\<rparr>;
            t = tn_rx_drain t;
            t = tn_beacon_tick t (nd_now_ms t);
            t = tn_routing_tick t (nd_now_ms t);
            t = poll_maintenance t;
            t = tn_tx_poll t;
            t = tn_events_flush t
        in if po_timer_arm (nd_port t) \<noteq> None
           then port_timer_arm t (next_deadline_ms t (nd_now_ms t)) else t)"

definition treenet_poll :: "'w treenet option \<Rightarrow> 'w treenet option" where
  "treenet_poll tp = map_option treenet_poll_node tp"

definition treenet_rx_node :: "'w treenet \<Rightarrow> u8 list option \<Rightarrow> nat \<Rightarrow> i16 \<Rightarrow> i8 \<Rightarrow> int \<times> 'w treenet" where
  "treenet_rx_node t buf len rssi snr =
     (case buf of
        None \<Rightarrow> (- 1, t)
      | Some p \<Rightarrow>
          if \<not> nd_initialized t then (- 1, t)
          else if len = 0 \<or> len > TREENET_MTU then (- 1, t)
          else
            let meta = \<lparr>rm_len = of_nat len, rm_rssi_dbm = rssi, rm_snr_db = snr\<rparr>;
                (ok, rx) = tn_ringbuf_push (nd_rx t) meta (take len p)
            in (if ok then 0 else - 1, t\<lparr>nd_rx := rx\<rparr>))"

definition treenet_rx ::
    "'w treenet option \<Rightarrow> u8 list option \<Rightarrow> nat \<Rightarrow> i16 \<Rightarrow> i8 \<Rightarrow> int \<times> 'w treenet option" where
  "treenet_rx tp buf len rssi snr =
     (case tp of None \<Rightarrow> (- 1, None) | Some t \<Rightarrow> map_prod id Some (treenet_rx_node t buf len rssi snr))"

section \<open>Initialisation\<close>

definition lora_zero :: tn_lora_params_t where
  "lora_zero = \<lparr>lo_sf = 0, lo_bw_hz = 0, lo_cr = 0, lo_preamble = 0, lo_explicit_hdr = 0, lo_crc = 0\<rparr>"

text \<open>The instance after \<open>memset(t, 0, sizeof(*t))\<close> and the copies of configuration and port.\<close>

definition node_cleared :: "'w treenet_config_t \<Rightarrow> 'w treenet_port_t \<Rightarrow> 'w \<Rightarrow> 'w treenet" where
  "node_cleared cfg port w =
     \<lparr>nd_cfg = cfg, nd_port = port, nd_addr = 0, nd_role = TREENET_ROLE_NODE, nd_net_id = 0,
      nd_initialized = False, nd_now_ms = 0, nd_seq = 0, nd_rank = 0, nd_parent = 0, nd_parent_rank = 0,
      nd_parent_since = 0, nd_parent_beacon_ms = 0, nd_connected = False, nd_joined = False,
      nd_dao_last_ms = 0, nd_probe_last_ms = 0,
      nd_neighbors = \<lparr>nt_entries = replicate TREENET_MAX_NEIGHBORS neighbor_zero, nt_count = 0\<rparr>,
      nd_routes = \<lparr>rt_entries = replicate TREENET_MAX_ROUTES route_zero, rt_count = 0\<rparr>,
      nd_dup = \<lparr>du_entries = replicate TREENET_DUP_CACHE_SIZE dup_entry_zero, du_ttl_ms = 0\<rparr>,
      nd_rx = \<lparr>rb_buf = [], rb_capacity = 0, rb_head = 0, rb_tail = 0, rb_dropped = 0\<rparr>,
      nd_tx = replicate TREENET_TX_QUEUE_SIZE tx_slot_zero,
      nd_reasm = replicate TREENET_REASSEMBLY_SLOTS reasm_zero, nd_events = eventq_zero,
      nd_beacon_timer = \<lparr>tm_next_ms = 0, tm_interval = 0, tm_active = False\<rparr>, nd_trickle_I = 0,
      nd_lora = lora_zero, nd_has_lora = False, nd_stats = stats_zero, nd_env = w\<rparr>"

text \<open>
  \<open>treenet_init\<close>: the storage is an address (\<open>None\<close> for \<open>NULL\<close>) with a size; \<open>sizeof_treenet\<close> is the
  size of the instance on the platform. The result is \<open>None\<close> for \<open>NULL\<close>, and the environment is
  the one found by the call.
\<close>

definition init_args_ok ::
    "nat \<Rightarrow> nat option \<Rightarrow> nat \<Rightarrow> 'w treenet_config_t option \<Rightarrow> 'w treenet_port_t option \<Rightarrow> bool" where
  "init_args_ok sizeof_treenet storage storage_size cfgp portp \<longleftrightarrow>
     (case (storage, cfgp, portp) of
        (Some addr, Some cfg, Some port) \<Rightarrow>
          storage_size \<ge> sizeof_treenet \<and> addr AND 7 = 0 \<and>
          po_tx port \<noteq> None \<and> po_now_ms port \<noteq> None \<and> po_rnd port \<noteq> None \<and>
          cf_addr cfg \<noteq> TREENET_ADDR_INVALID \<and> cf_addr cfg \<noteq> TREENET_ADDR_BROADCAST \<and>
          (case cf_role cfg of
             TREENET_ROLE_NODE \<Rightarrow> True | TREENET_ROLE_MASTER \<Rightarrow> True | TREENET_ROLE_REPEATER \<Rightarrow> True
           | TREENET_ROLE_LEAF \<Rightarrow> True | TREENET_ROLE_OTHER _ \<Rightarrow> False)
      | _ \<Rightarrow> False)"

definition init_lora :: "treenet_radio_cfg_t \<Rightarrow> 'w treenet \<Rightarrow> 'w treenet" where
  "init_lora radio t =
     (if ra_spreading_factor radio \<noteq> 0 then
        t\<lparr>nd_has_lora := True,
          nd_lora := \<lparr>lo_sf = ra_spreading_factor radio,
             lo_bw_hz = (if ra_bandwidth_hz radio \<noteq> 0 then ra_bandwidth_hz radio else 125000),
             lo_cr = (if ra_coding_rate radio \<noteq> 0 then ra_coding_rate radio else 1),
             lo_preamble = 16, lo_explicit_hdr = 1, lo_crc = 1\<rparr>\<rparr>
      else t)"

definition init_node :: "'w treenet_config_t \<Rightarrow> 'w treenet_port_t \<Rightarrow> 'w \<Rightarrow> 'w treenet" where
  "init_node cfg port w =
     (let t = node_cleared cfg port w;
          t = t\<lparr>nd_addr := cf_addr cfg, nd_role := cf_role cfg, nd_net_id := cf_net_id cfg\<rparr>;
          (r, t) = port_rnd t;
          t = t\<lparr>nd_seq := ucast r\<rparr>;
          t = t\<lparr>nd_parent := TREENET_ADDR_INVALID,
                nd_rank := (if cf_role cfg = TREENET_ROLE_MASTER then 0 else TREENET_RANK_INFINITE),
                nd_connected := (cf_role cfg = TREENET_ROLE_MASTER),
                nd_joined := (cf_role cfg = TREENET_ROLE_MASTER), nd_trickle_I := TREENET_BEACON_MIN_MS\<rparr>;
          (now, t) = port_now_ms t;
          t = t\<lparr>nd_now_ms := now\<rparr>;
          t = t\<lparr>nd_neighbors := tn_neighbor_table_init (nd_neighbors t), nd_routes := tn_route_init (nd_routes t),
                nd_dup := tn_dupcache_init (nd_dup t) TREENET_DUP_TTL_MS,
                nd_rx := tn_ringbuf_init (nd_rx t) (replicate TREENET_RX_RING_BYTES 0) TREENET_RX_RING_BYTES,
                nd_tx := replicate TREENET_TX_QUEUE_SIZE tx_slot_zero,
                nd_reasm := replicate TREENET_REASSEMBLY_SLOTS reasm_zero, nd_events := eventq_zero\<rparr>;
          t = init_lora (cf_radio cfg) t;
          (r, t) = port_rnd t;
          t = t\<lparr>nd_beacon_timer := tn_timer_start (nd_beacon_timer t) (nd_now_ms t)
                                    (tn_rand_below r TREENET_BEACON_MIN_MS)\<rparr>;
          t = t\<lparr>nd_initialized := True\<rparr>
      in if nd_role t = TREENET_ROLE_MASTER then snd (tn_routing_select_parent t (nd_now_ms t))
         else tn_probe_send t)"

definition treenet_init ::
    "nat \<Rightarrow> nat option \<Rightarrow> nat \<Rightarrow> 'w treenet_config_t option \<Rightarrow> 'w treenet_port_t option \<Rightarrow> 'w \<Rightarrow> 'w treenet option" where
  "treenet_init sizeof_treenet storage storage_size cfgp portp w =
     (if init_args_ok sizeof_treenet storage storage_size cfgp portp
      then (case (cfgp, portp) of (Some cfg, Some port) \<Rightarrow> Some (init_node cfg port w) | _ \<Rightarrow> None)
      else None)"

lemma tn_events_flush_keeps_aux:
  "(nd_static (flush_loop g t), nd_trickle (flush_loop g t), nd_dup (flush_loop g t), nd_reasm (flush_loop g t)) =
   (nd_static t, nd_trickle t, nd_dup t, nd_reasm t)"
proof (induction g t rule: flush_loop.induct)
  case (1 g t)
  then show ?case by (subst (1 2 3 4) flush_loop.simps) (auto simp: Let_def case_prod_unfold)
qed

lemma housekeeping_keeps [simp, tn_frame]:
  "nd_static (age_slot t i) = nd_static t" "nd_static (tn_expire_reasm t) = nd_static t"
  "nd_static (tn_probe_send t) = nd_static t" "nd_static (tn_events_flush t) = nd_static t"
  using tn_events_flush_keeps_aux [of _ t]
  by (simp_all add: age_slot_def tn_expire_reasm_def tn_probe_send_def tn_events_flush_def Let_def
      case_prod_unfold split: option.splits)

lemma foldl_keeps: "(\<And>t i. h (f t i) = h t) \<Longrightarrow> h (foldl f t is) = h t"
  by (induction "is" arbitrary: t) simp_all

lemma loops_keep [simp, tn_frame]:
  "nd_static (tn_age_neighbors t) = nd_static t" "nd_static (tn_tx_poll t) = nd_static t"
  by (simp_all add: tn_age_neighbors_def tn_tx_poll_def foldl_keeps)

lemma poll_maintenance_keeps [simp, tn_frame]: "nd_static (poll_maintenance t) = nd_static t"
  by (simp add: poll_maintenance_def Let_def)

end
