(* ===== verification/Tn_Parent.thy ===== *)
theory Tn_Parent
  imports Tn_Node
begin

text \<open>
  Parent selection (\<open>src/src/routing/routing.c\<close>, the model is in \<open>Tn_Routing\<close>): the rank a node would
  have through each neighbour, the scan for the best candidate, and the decision
  \<open>tn_routing_select_parent\<close> takes on every table. The last section proves two
  defects of that decision.
\<close>

section \<open>Candidate ranks\<close>

lemma candidate_rank_cases:
  "tn_routing_candidate_rank (Some n) =
     (if ne_flags n AND TN_BEACON_ROUTER = 0 \<or> ne_rank n = TREENET_RANK_INFINITE \<or>
         unat (ne_rank n) + 8 + unat (ne_link_cost n) \<ge> 0xFFFF
      then TREENET_RANK_INFINITE else ne_rank n + 8 + ne_link_cost n)"
proof -
  let ?r = "ucast (ne_rank n) + (TREENET_RANK_STEP + ucast (ne_link_cost n)) :: u32"
  have max: "unat (x :: u16) \<le> 0xFFFF" for x using unat_u16_less [of x] by simp
  have r: "unat ?r = unat (ne_rank n) + 8 + unat (ne_link_cost n)"
    using max [of "ne_rank n"] max [of "ne_link_cost n"] by (simp add: config unat_word_ariths)
  have ge: "?r \<ge> ucast TREENET_RANK_INFINITE \<longleftrightarrow> unat (ne_rank n) + 8 + unat (ne_link_cost n) \<ge> 0xFFFF"
    unfolding word_le_nat_alt r by (simp add: config)
  have u: "ucast ?r = ne_rank n + 8 + ne_link_cost n" if "unat (ne_rank n) + 8 + unat (ne_link_cost n) < 0xFFFF"
  proof -
    have "unat (ucast ?r :: u16) = unat (ne_rank n) + 8 + unat (ne_link_cost n)"
      using that r by (simp add: unsigned_ucast_eq take_bit_nat_eq_self)
    then show ?thesis using that by (simp add: word_unat_eq_iff unat_word_ariths)
  qed
  have inf: "ne_rank n \<ge> TREENET_RANK_INFINITE \<longleftrightarrow> ne_rank n = TREENET_RANK_INFINITE"
    using max [of "ne_rank n"] by (auto simp: config word_le_nat_alt word_unat_eq_iff)
  show ?thesis
    using ge u unfolding tn_routing_candidate_rank_def option.case inf Let_def by auto
qed

lemma candidate_rank_finite:
  assumes "tn_routing_candidate_rank (Some n) \<noteq> TREENET_RANK_INFINITE"
  shows "unat (tn_routing_candidate_rank (Some n)) = unat (ne_rank n) + 8 + unat (ne_link_cost n)"
    and "ne_flags n AND TN_BEACON_ROUTER \<noteq> 0" and "ne_rank n \<noteq> TREENET_RANK_INFINITE"
  using assms by (auto simp: candidate_rank_cases unat_word_ariths split: if_splits)

lemma rank_less_infinite: "r < TREENET_RANK_INFINITE \<longleftrightarrow> r \<noteq> TREENET_RANK_INFINITE"
  using unat_u16_less [of r] by (auto simp: config word_less_nat_alt word_unat_eq_iff)

lemma rank_le_infinite [simp]: "r \<le> TREENET_RANK_INFINITE"
  using unat_u16_less [of r] by (simp add: config word_le_nat_alt)

section \<open>The best candidate\<close>

abbreviation cand :: "tn_neighbor_t \<Rightarrow> u16" where
  "cand n \<equiv> tn_routing_candidate_rank (Some n)"

lemma best_loop_spec:
  assumes "best_loop ok best r0 i ns = (b, r)"
  shows "(b = best \<and> r = r0 \<and> (\<forall>n\<in>set ns. ok n \<longrightarrow> r0 \<le> cand n)) \<or>
    (\<exists>k<length ns. b = Some (i + k) \<and> r = cand (ns ! k) \<and> ok (ns ! k) \<and> r < r0 \<and>
       (\<forall>n\<in>set ns. ok n \<longrightarrow> r \<le> cand n))"
  using assms
proof (induction ns arbitrary: best r0 i)
  case Nil
  then show ?case by simp
next
  case (Cons n ns)
  show ?case
  proof (cases "ok n \<and> cand n < r0")
    case True
    then have "best_loop ok (Some i) (cand n) (Suc i) ns = (b, r)"
      using Cons.prems by (simp add: Let_def)
    from Cons.IH [OF this] show ?thesis
    proof
      assume "b = Some i \<and> r = cand n \<and> (\<forall>n'\<in>set ns. ok n' \<longrightarrow> cand n \<le> cand n')"
      with True show ?thesis by (intro disjI2 exI [of _ 0]) auto
    next
      assume "\<exists>k<length ns. b = Some (Suc i + k) \<and> r = cand (ns ! k) \<and> ok (ns ! k) \<and> r < cand n \<and>
        (\<forall>n\<in>set ns. ok n \<longrightarrow> r \<le> cand n)"
      then obtain k where "k < length ns" "b = Some (Suc i + k)" "r = cand (ns ! k)" "ok (ns ! k)"
        "r < cand n" "\<forall>n\<in>set ns. ok n \<longrightarrow> r \<le> cand n" by blast
      with True show ?thesis by (intro disjI2 exI [of _ "Suc k"]) auto
    qed
  next
    case False
    then have "best_loop ok best r0 (Suc i) ns = (b, r)"
      using Cons.prems by (auto simp: Let_def split: if_splits)
    from Cons.IH [OF this] show ?thesis
    proof
      assume "b = best \<and> r = r0 \<and> (\<forall>n\<in>set ns. ok n \<longrightarrow> r0 \<le> cand n)"
      with False show ?thesis by (intro disjI1) auto
    next
      assume "\<exists>k<length ns. b = Some (Suc i + k) \<and> r = cand (ns ! k) \<and> ok (ns ! k) \<and> r < r0 \<and>
        (\<forall>n\<in>set ns. ok n \<longrightarrow> r \<le> cand n)"
      then obtain k where "k < length ns" "b = Some (Suc i + k)" "r = cand (ns ! k)" "ok (ns ! k)"
        "r < r0" "\<forall>n\<in>set ns. ok n \<longrightarrow> r \<le> cand n" by blast
      with False show ?thesis by (intro disjI2 exI [of _ "Suc k"]) auto
    qed
  qed
qed

text \<open>The neighbours a node may attach to.\<close>

definition candidate :: "'w treenet \<Rightarrow> tn_neighbor_t \<Rightarrow> bool" where
  "candidate t n \<longleftrightarrow> n \<in> set (nt_entries (nd_neighbors t)) \<and> neighbor_usable n (nd_now_ms t) \<and>
     ne_addr n \<noteq> nd_addr t \<and> cand n \<noteq> TREENET_RANK_INFINITE"

lemma best_candidate_Some:
  assumes "best_candidate t = (Some b, r)"
  shows "b < length (nt_entries (nd_neighbors t))" and "candidate t (nt_entries (nd_neighbors t) ! b)"
    and "r = cand (nt_entries (nd_neighbors t) ! b)" and "\<And>n. candidate t n \<Longrightarrow> r \<le> cand n"
  using best_loop_spec [OF assms [unfolded best_candidate_def]]
  by (auto simp: candidate_def rank_less_infinite)

lemma best_candidate_None:
  assumes "best_candidate t = (None, r)"
  shows "r = TREENET_RANK_INFINITE" and "\<not> candidate t n"
  using best_loop_spec [OF assms [unfolded best_candidate_def]]
  by (auto simp: candidate_def dest!: bspec [of _ _ n] order.antisym [OF rank_le_infinite])

section \<open>Parent selection\<close>

lemma routing_set_parent_tree [simp]:
  "nd_parent (routing_set_parent t p r now) = p" "nd_rank (routing_set_parent t p r now) = r"
  "nd_connected (routing_set_parent t p r now)" "nd_joined (routing_set_parent t p r now)"
  "nd_parent_since (routing_set_parent t p r now) = now" "nd_parent_beacon_ms (routing_set_parent t p r now) = now"
  by (simp_all add: routing_set_parent_def Let_def)

text \<open>The entry of the current parent, when it can be kept.\<close>

definition parent_alive :: "'w treenet \<Rightarrow> u32 \<Rightarrow> tn_neighbor_t \<Rightarrow> bool" where
  "parent_alive t now c \<longleftrightarrow> nd_parent t \<noteq> TREENET_ADDR_INVALID \<and> neighbor_look (nd_neighbors t) (nd_parent t) = Some c \<and>
     neighbor_usable c now \<and> cand c \<noteq> TREENET_RANK_INFINITE"

lemma select_parent_alive:
  assumes "nd_role t \<noteq> TREENET_ROLE_MASTER" and "parent_alive t now c"
  shows "tn_routing_select_parent t now =
    (case best_candidate t of
       (Some b, r) \<Rightarrow>
         let a = ne_addr (nt_entries (nd_neighbors t) ! b)
         in if a \<noteq> nd_parent t \<and> tn_elapsed (nd_parent_since t) now \<ge> TREENET_PARENT_DWELL_MS \<and>
               ucast r < (ucast (cand c) * (100 - TREENET_PARENT_HYSTERESIS_PCT)) div (100 :: u32)
            then (True, routing_set_parent (t\<lparr>nd_rank := cand c\<rparr>) a r now) else (False, t\<lparr>nd_rank := cand c\<rparr>)
     | (None, r) \<Rightarrow> (False, t\<lparr>nd_rank := cand c\<rparr>))"
proof -
  obtain i where "tn_neighbor_find (nd_neighbors t) (nd_parent t) = Some i" "nt_entries (nd_neighbors t) ! i = c"
    using assms(2) by (auto simp: parent_alive_def tn_neighbor_find_look)
  moreover have "nd_parent t \<noteq> TREENET_ADDR_INVALID" "neighbor_usable c now" "cand c \<noteq> TREENET_RANK_INFINITE"
    using assms(2) by (auto simp: parent_alive_def)
  moreover obtain b r where "best_candidate t = (b, r)" by fastforce
  ultimately show ?thesis
    using assms(1) unfolding tn_routing_select_parent_def Let_def by (cases b) simp_all
qed

lemma select_parent_lost:
  assumes "nd_role t \<noteq> TREENET_ROLE_MASTER" and "\<And>c. \<not> parent_alive t now c"
  shows "tn_routing_select_parent t now =
    (case best_candidate t of
       (Some b, r) \<Rightarrow> (True, routing_set_parent t (ne_addr (nt_entries (nd_neighbors t) ! b)) r now)
     | (None, r) \<Rightarrow>
         if nd_connected t \<or> nd_parent t \<noteq> TREENET_ADDR_INVALID
         then (False, tn_emit_event (t\<lparr>nd_parent := TREENET_ADDR_INVALID, nd_rank := TREENET_RANK_INFINITE,
                                       nd_connected := False\<rparr>) TREENET_EV_ROUTE_LOST Arg_NULL)
         else (False, t))"
proof -
  have "\<not> (case (if nd_parent t \<noteq> TREENET_ADDR_INVALID
       then map_option ((!) (nt_entries (nd_neighbors t))) (tn_neighbor_find (nd_neighbors t) (nd_parent t)) else None)
     of None \<Rightarrow> False
     | Some c \<Rightarrow> neighbor_usable c now \<and>
         tn_routing_candidate_rank (if nd_parent t \<noteq> TREENET_ADDR_INVALID
           then map_option ((!) (nt_entries (nd_neighbors t))) (tn_neighbor_find (nd_neighbors t) (nd_parent t)) else None)
         \<noteq> TREENET_RANK_INFINITE)"
    using assms(2) by (auto simp: parent_alive_def tn_neighbor_find_look split: option.splits)
  then show ?thesis
    using assms(1) unfolding tn_routing_select_parent_def Let_def by (simp split: option.splits prod.splits)
qed

lemma candidate_look:
  assumes "neighbor_wf (nd_neighbors t)" and "candidate t n"
  shows "neighbor_look (nd_neighbors t) (ne_addr n) = Some n"
  using assms slot_look_Some_iff [OF neighbor_wf_unique [OF assms(1)], of "ne_addr n" n]
  by (simp add: neighbor_look_def candidate_def neighbor_usable_def neighbor_fresh_def)

lemma parent_alive_candidate:
  assumes "parent_alive t (nd_now_ms t) c" and "nd_parent t \<noteq> nd_addr t"
  shows "candidate t c" and "ne_addr c = nd_parent t"
  using assms slot_look_SomeD [of ne_valid ne_addr "nt_entries (nd_neighbors t)" "nd_parent t" c]
  by (auto simp: candidate_def parent_alive_def neighbor_look_def)

lemma below_threshold:
  "ucast (a :: u16) < (ucast (b :: u16) * (100 - TREENET_PARENT_HYSTERESIS_PCT)) div (100 :: u32) \<longleftrightarrow>
   unat a < unat b * 75 div 100"
proof -
  have "unat b * 75 < 2 ^ 32" using unat_u16_less [of b] by simp
  then have "unat ((ucast b * (100 - TREENET_PARENT_HYSTERESIS_PCT)) div (100 :: u32)) = unat b * 75 div 100"
    by (simp add: config unat_div unat_word_ariths)
  then show ?thesis unfolding word_less_nat_alt by simp
qed

lemma candidate_rank_eq:
  "candidate t n \<Longrightarrow> unat (cand n) = unat (ne_rank n) + 8 + unat (ne_link_cost n)"
  using candidate_rank_finite(1) [of n] by (simp add: candidate_def)

text \<open>A node whose parent is alive switches exactly under the hysteresis and dwell conditions.\<close>

lemma select_alive_cases:
  assumes "nd_role t \<noteq> TREENET_ROLE_MASTER" and "parent_alive t (nd_now_ms t) c" and "nd_parent t \<noteq> nd_addr t"
  obtains b where "candidate t b" and "\<And>m. candidate t m \<Longrightarrow> cand b \<le> cand m"
    and "snd (tn_routing_select_parent t (nd_now_ms t)) =
      (if ne_addr b \<noteq> nd_parent t \<and> tn_elapsed (nd_parent_since t) (nd_now_ms t) \<ge> TREENET_PARENT_DWELL_MS \<and>
          unat (cand b) < unat (cand c) * 75 div 100
       then routing_set_parent (t\<lparr>nd_rank := cand c\<rparr>) (ne_addr b) (cand b) (nd_now_ms t)
       else t\<lparr>nd_rank := cand c\<rparr>)"
proof -
  obtain best r where b: "best_candidate t = (best, r)" by fastforce
  obtain k where best: "best = Some k"
    using b best_candidate_None(2) [of t r c] parent_alive_candidate(1) [OF assms(2,3)] by (cases best) auto
  note bc = best_candidate_Some [OF b [unfolded best]]
  show ?thesis
  proof (rule that [OF bc(2)])
    show "cand (nt_entries (nd_neighbors t) ! k) \<le> cand m" if "candidate t m" for m using bc(3,4) that by simp
    show "snd (tn_routing_select_parent t (nd_now_ms t)) =
      (if ne_addr (nt_entries (nd_neighbors t) ! k) \<noteq> nd_parent t \<and>
          tn_elapsed (nd_parent_since t) (nd_now_ms t) \<ge> TREENET_PARENT_DWELL_MS \<and>
          unat (cand (nt_entries (nd_neighbors t) ! k)) < unat (cand c) * 75 div 100
       then routing_set_parent (t\<lparr>nd_rank := cand c\<rparr>) (ne_addr (nt_entries (nd_neighbors t) ! k))
         (cand (nt_entries (nd_neighbors t) ! k)) (nd_now_ms t)
       else t\<lparr>nd_rank := cand c\<rparr>)"
      unfolding select_parent_alive [OF assms(1,2)] b best prod.case option.case Let_def
        below_threshold bc(3) by simp
  qed
qed

lemma select_alive_stays:
  assumes "neighbor_wf (nd_neighbors t)" and "candidate t c" and "ne_addr c = nd_parent t" and "candidate t b"
    and "\<And>m. candidate t m \<Longrightarrow> cand b \<le> cand m"
    and "\<not> (ne_addr b \<noteq> nd_parent t \<and> tn_elapsed (nd_parent_since t) (nd_now_ms t) \<ge> TREENET_PARENT_DWELL_MS \<and>
            unat (cand b) < unat (cand c) * 75 div 100)"
  shows "tn_elapsed (nd_parent_since t) (nd_now_ms t) < TREENET_PARENT_DWELL_MS \<or>
    (\<forall>m. candidate t m \<longrightarrow> unat (cand c) * 75 div 100 \<le> unat (cand m))"
proof (cases "ne_addr b = nd_parent t")
  case True
  then have "b = c" using candidate_look [OF assms(1,4)] candidate_look [OF assms(1,2)] assms(3) by simp
  then have "unat (cand c) \<le> unat (cand m)" if "candidate t m" for m
    using assms(5) [OF that] by (simp add: word_le_nat_alt)
  moreover have "unat (cand c) * 75 div 100 \<le> unat (cand c)" by simp
  ultimately show ?thesis by (meson order_trans)
next
  case False
  have "unat (cand c) * 75 div 100 \<le> unat (cand m)"
    if "candidate t m" "\<not> unat (cand b) < unat (cand c) * 75 div 100" for m
    using that assms(5) [OF that(1)] by (simp add: word_le_nat_alt)
  then show ?thesis using False assms(6) by (auto simp: not_le)
qed

text \<open>
  Property C8: parent selection. Let \<open>t'\<close> be the state after \<open>tn_routing_select_parent\<close> on a node other
  than the Master. If no neighbour qualifies (heard within the parent timeout, not suspect, a
  router with a finite rank) the node has no parent and is disconnected. Otherwise its parent is a
  qualifying neighbour, its rank is that neighbour's rank plus 8 plus the link cost, and: a node
  whose parent was lost takes a neighbour of least rank; a node whose parent is alive leaves it
  only after the dwell time and only for a rank below 75% of the rank through it, and stays only
  if the dwell time has not passed or no neighbour offers such a rank.
\<close>

theorem select_parent_correct:
  assumes "nd_role t \<noteq> TREENET_ROLE_MASTER" and "neighbor_wf (nd_neighbors t)"
    and "nd_parent t \<noteq> nd_addr t" and "snd (tn_routing_select_parent t (nd_now_ms t)) = t'"
  shows "if \<exists>n. candidate t n then
      \<exists>n. candidate t n \<and> ne_addr n = nd_parent t' \<and> nd_rank t' = cand n \<and>
        unat (nd_rank t') = unat (ne_rank n) + 8 + unat (ne_link_cost n) \<and>
        (if \<exists>c. parent_alive t (nd_now_ms t) c then
           \<exists>c. parent_alive t (nd_now_ms t) c \<and>
             (if nd_parent t' = nd_parent t
              then tn_elapsed (nd_parent_since t) (nd_now_ms t) < TREENET_PARENT_DWELL_MS \<or>
                   (\<forall>m. candidate t m \<longrightarrow> unat (cand c) * 75 div 100 \<le> unat (cand m))
              else tn_elapsed (nd_parent_since t) (nd_now_ms t) \<ge> TREENET_PARENT_DWELL_MS \<and>
                   unat (nd_rank t') < unat (cand c) * 75 div 100)
         else nd_connected t' \<and> (\<forall>m. candidate t m \<longrightarrow> nd_rank t' \<le> cand m))
    else nd_parent t' = TREENET_ADDR_INVALID \<and> \<not> nd_connected t'"
proof (cases "\<exists>c. parent_alive t (nd_now_ms t) c")
  case alive: True
  then obtain c where c: "parent_alive t (nd_now_ms t) c" by blast
  note cc = parent_alive_candidate [OF c assms(3)]
  then have ex: "\<exists>n. candidate t n" by blast
  obtain b where b: "candidate t b" "\<And>m. candidate t m \<Longrightarrow> cand b \<le> cand m"
    "t' = (if ne_addr b \<noteq> nd_parent t \<and> tn_elapsed (nd_parent_since t) (nd_now_ms t) \<ge> TREENET_PARENT_DWELL_MS \<and>
          unat (cand b) < unat (cand c) * 75 div 100
       then routing_set_parent (t\<lparr>nd_rank := cand c\<rparr>) (ne_addr b) (cand b) (nd_now_ms t)
       else t\<lparr>nd_rank := cand c\<rparr>)" (is "t' = (if ?switch then _ else _)")
    using select_alive_cases [OF assms(1) c assms(3)] assms(4) by metis
  show ?thesis
  proof (cases ?switch)
    case True
    then have "nd_parent t' = ne_addr b" "nd_rank t' = cand b" using b(3) by auto
    then show ?thesis using True alive c b(1) candidate_rank_eq [OF b(1)] by auto
  next
    case False
    then have t': "nd_parent t' = nd_parent t" "nd_rank t' = cand c" using b(3) by auto
    show ?thesis
      unfolding if_P [OF ex] if_P [OF alive] if_P [OF t'(1)]
      by (intro exI [of _ c] conjI select_alive_stays [OF assms(2) cc b(1,2) False] c cc(1))
        (simp_all only: t' cc candidate_rank_eq [OF cc(1)])
  qed
next
  case False
  then have none: "\<And>c. \<not> parent_alive t (nd_now_ms t) c" by blast
  obtain best r where b: "best_candidate t = (best, r)" by fastforce
  show ?thesis
  proof (cases best)
    case None
    then have "\<not> candidate t n" for n using best_candidate_None(2) b by auto
    moreover have "nd_parent t' = TREENET_ADDR_INVALID \<and> \<not> nd_connected t'"
      using assms(4) unfolding select_parent_lost [OF assms(1) none] b None by (auto split: if_splits)
    ultimately show ?thesis by simp
  next
    case (Some k)
    note bc = best_candidate_Some [OF b [unfolded Some]]
    have "nd_parent t' = ne_addr (nt_entries (nd_neighbors t) ! k)" "nd_rank t' = r" "nd_connected t'"
      using assms(4) unfolding select_parent_lost [OF assms(1) none] b Some by auto
    then show ?thesis using bc candidate_rank_eq [OF bc(2)] False by auto
  qed
qed

section \<open>A concrete node\<close>

text \<open>
  A port without side effects whose clock stands at \<open>now\<close>, a configuration of a node with address
  2, and that node after hearing beacons from the routers 3 (rank 100) and 4 (rank 40).
\<close>

definition port_still :: "u32 \<Rightarrow> unit treenet_port_t" where
  "port_still now = \<lparr>po_tx = Some (\<lambda>buf w. (0, w)), po_now_ms = Some (\<lambda>w. (now, w)), po_rnd = Some (\<lambda>w. (7, w)),
     po_channel_free = None, po_log = None, po_timer_arm = None\<rparr>"

definition cfg_plain :: "treenet_role_t \<Rightarrow> treenet_addr_t \<Rightarrow> 'w treenet_config_t" where
  "cfg_plain role addr = \<lparr>cf_addr = addr, cf_role = role, cf_net_id = 1, cf_on_recv = None, cf_on_event = None,
     cf_reliable = True, cf_radio = \<lparr>ra_frequency_hz = 0, ra_spreading_factor = 0, ra_bandwidth_hz = 0,
       ra_coding_rate = 0, ra_tx_power_dbm = 0\<rparr>\<rparr>"

definition node_plain :: "treenet_role_t \<Rightarrow> treenet_addr_t \<Rightarrow> u32 \<Rightarrow> tn_neighbor_table_t \<Rightarrow> unit treenet" where
  "node_plain role addr now tbl = (node_cleared (cfg_plain role addr) (port_still now) ())
     \<lparr>nd_addr := addr, nd_role := role, nd_net_id := 1, nd_now_ms := now, nd_rank := TREENET_RANK_INFINITE,
      nd_initialized := True, nd_neighbors := tbl\<rparr>"

definition heard :: "u32 \<Rightarrow> treenet_addr_t \<Rightarrow> u16 \<Rightarrow> treenet_addr_t \<Rightarrow> tn_neighbor_table_t \<Rightarrow> tn_neighbor_table_t" where
  "heard now addr rank parent tbl =
     tn_neighbor_note_beacon tbl addr rank parent TN_BEACON_ROUTER 30 (- 80) 6 now"

definition two_routers :: "u32 \<Rightarrow> tn_neighbor_table_t" where
  "two_routers now = heard now 4 40 1 (heard now 3 100 1 (tn_neighbor_table_init \<lparr>nt_entries = [], nt_count = 0\<rparr>))"

lemma node_plain_simps [simp]:
  "nd_addr (node_plain role addr now tbl) = addr" "nd_role (node_plain role addr now tbl) = role"
  "nd_now_ms (node_plain role addr now tbl) = now" "nd_parent (node_plain role addr now tbl) = 0"
  "nd_rank (node_plain role addr now tbl) = TREENET_RANK_INFINITE" "\<not> nd_connected (node_plain role addr now tbl)"
  "nd_neighbors (node_plain role addr now tbl) = tbl"
  by (simp_all add: node_plain_def node_cleared_def)

lemma node_plain_no_parent [simp]: "\<not> parent_alive (node_plain role addr now tbl) now' c"
  by (simp add: parent_alive_def config)

lemma heard_wf [simp]: "neighbor_wf tbl \<Longrightarrow> neighbor_wf (heard now addr rank parent tbl)"
  by (simp add: heard_def note_beacon_upsert neighbor_upsert_wf)

lemma two_routers_wf [simp]: "neighbor_wf (two_routers now)"
  by (simp add: two_routers_def)

definition heard_entry :: "u32 \<Rightarrow> treenet_addr_t \<Rightarrow> u16 \<Rightarrow> treenet_addr_t \<Rightarrow> tn_neighbor_t" where
  "heard_entry now addr rank parent =
     beacon_noted rank parent TN_BEACON_ROUTER 30 (- 80) 6 now (neighbor_new addr now)"

lemma heard_look:
  assumes "neighbor_wf tbl" and "card (dom (neighbor_look tbl)) < TREENET_MAX_NEIGHBORS" and "neighbor_look tbl addr = None"
  shows "neighbor_look (heard now addr rank parent tbl) = (neighbor_look tbl)(addr \<mapsto> heard_entry now addr rank parent)"
  using beacon_table.upsert_room [OF assms(1), of addr "(rank, parent, TN_BEACON_ROUTER, 30, - 80, 6, now)"] assms(2,3)
  by (simp add: heard_def heard_entry_def)

lemma two_routers_look:
  "neighbor_look (two_routers now) = [3 \<mapsto> heard_entry now 3 100 1, 4 \<mapsto> heard_entry now 4 40 1]"
  unfolding two_routers_def by (simp add: heard_look config)

lemma heard_entry_suspect [simp]: "ne_suspect_until_ms (heard_entry now addr rank parent) = 0"
  by (simp add: heard_entry_def beacon_noted_def neighbor_new_def neighbor_zero_def)

lemma valid_entry_iff:
  "neighbor_wf tbl \<Longrightarrow> n \<in> set (nt_entries tbl) \<and> ne_valid n \<longleftrightarrow> neighbor_look tbl (ne_addr n) = Some n"
  using slot_look_Some_iff [OF neighbor_wf_unique, of tbl "ne_addr n" n] by (auto simp: neighbor_look_def)

lemma candidate_node_plain:
  assumes "neighbor_wf tbl"
  shows "candidate (node_plain role addr now tbl) n \<longleftrightarrow> neighbor_look tbl (ne_addr n) = Some n \<and> neighbor_usable n now \<and>
     ne_addr n \<noteq> addr \<and> cand n \<noteq> TREENET_RANK_INFINITE"
  using valid_entry_iff [OF assms, of n] by (auto simp: candidate_def neighbor_usable_def neighbor_fresh_def)

theorem select_parent_correct_witness:
  "nd_connected (snd (tn_routing_select_parent (node_plain TREENET_ROLE_NODE 2 5000 (two_routers 5000)) 5000)) \<and>
   nd_rank (snd (tn_routing_select_parent (node_plain TREENET_ROLE_NODE 2 5000 (two_routers 5000)) 5000)) \<le> 48"
proof -
  let ?t = "node_plain TREENET_ROLE_NODE 2 5000 (two_routers 5000)" and ?n = "heard_entry 5000 4 40 1"
  have "neighbor_usable ?n 5000 \<and> ne_addr ?n = 4 \<and> cand ?n = 48" by code_simp
  then have c: "candidate ?t ?n" "cand ?n = 48" by (simp_all add: candidate_node_plain two_routers_look config)
  have "nd_connected (snd (tn_routing_select_parent ?t 5000)) \<and>
      nd_rank (snd (tn_routing_select_parent ?t 5000)) \<le> cand ?n"
    using select_parent_correct [of ?t "snd (tn_routing_select_parent ?t 5000)"] c(1) by (auto split: if_splits)
  with c(2) show ?thesis by simp
qed

section \<open>Two defects\<close>

text \<open>
  Property C31: a neighbour that was never suspect becomes unusable after 2^31 ms. A healthy link has
  \<open>suspect_until_ms\<close> 0, and \<open>neighbor_usable\<close> compares it with the clock as if it were a time stamp:
  once the millisecond counter is past 2^31 (24.9 days) the value 0 lies in the future, until the
  counter wraps. A node all of whose links are healthy then loses its parent and finds no other.
\<close>

theorem healthy_links_unusable_after_2_31:
  assumes "nd_role t \<noteq> TREENET_ROLE_MASTER" and "2 ^ 31 < unat (nd_now_ms t)"
    and "\<forall>n\<in>set (nt_entries (nd_neighbors t)). ne_valid n \<longrightarrow> ne_suspect_until_ms n = 0"
  shows "(\<forall>n\<in>set (nt_entries (nd_neighbors t)). \<not> neighbor_usable n (nd_now_ms t)) \<and>
    nd_parent (snd (tn_routing_select_parent t (nd_now_ms t))) = TREENET_ADDR_INVALID \<and>
    \<not> nd_connected (snd (tn_routing_select_parent t (nd_now_ms t)))"
proof -
  have after: "tn_time_after 0 (nd_now_ms t)"
    using assms(2) unat_u32_less [of "nd_now_ms t"] unat_sub_if' [of 0 "nd_now_ms t"]
    by (simp add: tn_time_after_iff_unat)
  have unusable: "\<not> neighbor_usable n (nd_now_ms t)" if "n \<in> set (nt_entries (nd_neighbors t))" for n
    using assms(3) after that by (auto simp: neighbor_usable_def neighbor_fresh_def)
  have none: "\<not> parent_alive t (nd_now_ms t) c" for c
    using unusable slot_look_SomeD(3) by (fastforce simp: parent_alive_def neighbor_look_def)
  obtain best r where b: "best_candidate t = (best, r)" by fastforce
  have "best = None"
    using best_candidate_Some(2) [of t _ r] b unusable by (cases best) (auto simp: candidate_def)
  then have "nd_parent (snd (tn_routing_select_parent t (nd_now_ms t))) = TREENET_ADDR_INVALID \<and>
      \<not> nd_connected (snd (tn_routing_select_parent t (nd_now_ms t)))"
    unfolding select_parent_lost [OF assms(1) none] b by auto
  with unusable show ?thesis by blast
qed

theorem healthy_links_unusable_after_2_31_witness:
  "nd_parent (snd (tn_routing_select_parent
     (node_plain TREENET_ROLE_NODE 2 0x90000000 (two_routers 0x90000000)) 0x90000000)) = TREENET_ADDR_INVALID"
proof -
  have "\<forall>n\<in>set (nt_entries (two_routers 0x90000000)). ne_valid n \<longrightarrow> ne_suspect_until_ms n = 0"
  proof (intro ballI impI)
    fix n assume "n \<in> set (nt_entries (two_routers 0x90000000))" and "ne_valid n"
    then have "neighbor_look (two_routers 0x90000000) (ne_addr n) = Some n"
      using valid_entry_iff [OF two_routers_wf] by blast
    then show "ne_suspect_until_ms n = 0"
      using heard_entry_suspect by (auto simp: two_routers_look split: if_splits)
  qed
  then show ?thesis
    using healthy_links_unusable_after_2_31 [of "node_plain TREENET_ROLE_NODE 2 0x90000000 (two_routers 0x90000000)"]
    by simp
qed

text \<open>
  Property C32: nothing keeps a node from taking its own child as parent. The parent a neighbour advertises
  plays no role in the choice: a node without a live parent whose only qualifying neighbour has
  announced this very node as its parent takes that neighbour, and the two point at each other.
\<close>

theorem own_child_becomes_parent:
  assumes "nd_role t \<noteq> TREENET_ROLE_MASTER" and "\<And>c. \<not> parent_alive t (nd_now_ms t) c"
    and "candidate t n" and "ne_parent n = nd_addr t" and "\<And>m. candidate t m \<Longrightarrow> m = n"
  shows "nd_parent (snd (tn_routing_select_parent t (nd_now_ms t))) = ne_addr n \<and>
    (\<exists>m. m \<in> set (nt_entries (nd_neighbors t)) \<and> ne_addr m = nd_parent (snd (tn_routing_select_parent t (nd_now_ms t))) \<and>
         ne_parent m = nd_addr t)"
proof -
  obtain best r where b: "best_candidate t = (best, r)" by fastforce
  then obtain k where k: "best = Some k" using best_candidate_None(2) [of t r n] assms(3) by (cases best) auto
  then have "nt_entries (nd_neighbors t) ! k = n" using best_candidate_Some(2) [of t k r] b assms(5) by simp
  then have "nd_parent (snd (tn_routing_select_parent t (nd_now_ms t))) = ne_addr n"
    unfolding select_parent_lost [OF assms(1,2)] b k by simp
  then show ?thesis using assms(3,4) by (auto simp: candidate_def)
qed

definition only_child :: tn_neighbor_table_t where
  "only_child = heard 5000 3 100 2 (tn_neighbor_table_init \<lparr>nt_entries = [], nt_count = 0\<rparr>)"

theorem own_child_becomes_parent_witness:
  "nd_parent (snd (tn_routing_select_parent (node_plain TREENET_ROLE_NODE 2 5000 only_child) 5000)) = 3 \<and>
   (\<exists>m. neighbor_look only_child 3 = Some m \<and> ne_parent m = 2)"
proof -
  let ?t = "node_plain TREENET_ROLE_NODE 2 5000 only_child" and ?n = "heard_entry 5000 3 100 2"
  have wf: "neighbor_wf only_child" and look: "neighbor_look only_child = [3 \<mapsto> ?n]"
    by (simp_all add: only_child_def heard_look config)
  have n: "neighbor_usable ?n 5000 \<and> ne_addr ?n = 3 \<and> cand ?n \<noteq> TREENET_RANK_INFINITE \<and> ne_parent ?n = 2"
    by code_simp
  have c: "candidate ?t ?n" using n by (simp add: candidate_node_plain [OF wf] look)
  have single: "m = ?n" if "candidate ?t m" for m
  proof -
    have "neighbor_look only_child (ne_addr m) = Some m" using that candidate_node_plain [OF wf] by blast
    then show ?thesis unfolding look by (auto split: if_splits)
  qed
  have dead: "\<not> parent_alive ?t (nd_now_ms ?t) m" for m by (simp add: parent_alive_def TREENET_ADDR_INVALID_def)
  have "nd_parent (snd (tn_routing_select_parent ?t (nd_now_ms ?t))) = ne_addr ?n"
    using own_child_becomes_parent [OF _ dead c _ single] n by simp
  then show ?thesis using n look by simp
qed

end
