(* ===== verification/Tn_Reasm.thy ===== *)
theory Tn_Reasm
  imports Tn_Parent
begin

text \<open>
  Fragmentation and reassembly (\<open>tn_send_datagram\<close>, \<open>reasm_slot\<close> and \<open>tn_reasm_input\<close> of
  \<open>src/src/api/treenet.c\<close>; the model is in \<open>Tn_Dataplane\<close> and \<open>Tn_Node\<close>): the invariant of a reassembly
  slot, which bounds every store of a fragment and the length of every delivered datagram, and the
  round trip of a datagram through fragments arriving in any order.
\<close>

section \<open>Slots\<close>

text \<open>
  A reassembly slot: the fragments received so far are inside the datagram, all but the last
  of full size.
\<close>

definition frag_at_ok :: "tn_reasm_t \<Rightarrow> nat \<Rightarrow> bool" where
  "frag_at_ok r i \<longleftrightarrow> i < unat (re_count r) \<and> i * TN_FRAG_CHUNK + unat (re_frag_len r ! i) \<le> TREENET_MAX_DATAGRAM \<and>
     (i + 1 < unat (re_count r) \<longrightarrow> unat (re_frag_len r ! i) = TN_FRAG_CHUNK)"

definition reasm_slot_ok :: "tn_reasm_t \<Rightarrow> bool" where
  "reasm_slot_ok r \<longleftrightarrow> length (re_buf r) = TREENET_MAX_DATAGRAM \<and> length (re_frag_len r) = TREENET_MAX_FRAGMENTS \<and>
     (re_valid r \<longrightarrow> 0 < unat (re_count r) \<and> unat (re_count r) \<le> TREENET_MAX_FRAGMENTS \<and>
        (\<forall>i<16. bit (re_got_mask r) i \<longrightarrow> frag_at_ok r i))"

definition reasm_ok :: "tn_reasm_t list \<Rightarrow> bool" where
  "reasm_ok rs \<longleftrightarrow> length rs = TREENET_REASSEMBLY_SLOTS \<and> list_all reasm_slot_ok rs"

lemma frag_bit: "bit (2 ^ i :: u16) j \<longleftrightarrow> j = i \<and> i < 16"
  by (auto simp: bit_exp_iff)

lemma mask_and_bit: "i < 16 \<Longrightarrow> m AND 2 ^ i = 0 \<longleftrightarrow> \<not> bit (m :: u16) i"
  by (auto simp: bit_and_iff frag_bit dest!: arg_cong [where f = "\<lambda>w. bit w i"] intro!: bit_word_eqI)

lemma reasm_ok_update [tn_inv]: "reasm_ok rs \<Longrightarrow> reasm_slot_ok r \<Longrightarrow> reasm_ok (rs[i := r])"
  by (simp add: reasm_ok_def list_all_update)

lemma reasm_ok_nth: "reasm_ok rs \<Longrightarrow> i < length rs \<Longrightarrow> reasm_slot_ok (rs ! i)"
  by (simp add: reasm_ok_def list_all_length)

definition reasm_fresh :: "treenet_addr_t \<Rightarrow> u16 \<Rightarrow> u8 \<Rightarrow> u32 \<Rightarrow> tn_reasm_t" where
  "reasm_fresh src gid count now = reasm_zero\<lparr>re_valid := True, re_src := src, re_dgram_id := gid,
     re_count := count, re_last_ms := now\<rparr>"

lemma reasm_fresh_ok:
  "0 < unat count \<Longrightarrow> unat count \<le> TREENET_MAX_FRAGMENTS \<Longrightarrow> reasm_slot_ok (reasm_fresh src gid count now)"
  by (simp add: reasm_slot_ok_def reasm_fresh_def reasm_zero_def)

lemma reasm_slot_cases:
  assumes "rs \<noteq> []" and "reasm_slot rs src gid count now = (i, rs')"
  obtains "rs' = rs" and "i < length rs" and "re_valid (rs ! i)" and "re_src (rs ! i) = src" and "re_dgram_id (rs ! i) = gid"
  | "rs' = rs[i := reasm_fresh src gid count now]" and "i < length rs"
    and "\<And>r. r \<in> set rs \<Longrightarrow> \<not> (re_valid r \<and> re_src r = src \<and> re_dgram_id r = gid)"
    and "(\<exists>r\<in>set rs. \<not> re_valid r) \<longrightarrow> \<not> re_valid (rs ! i)"
proof (cases "find_index (\<lambda>r. re_valid r \<and> re_src r = src \<and> re_dgram_id r = gid) rs")
  case (Some k)
  then show ?thesis using that(1) assms(2) find_index_SomeD [OF Some] unfolding reasm_slot_def Some by auto
next
  case None
  have "i < length rs \<and> ((\<exists>r\<in>set rs. \<not> re_valid r) \<longrightarrow> \<not> re_valid (rs ! i))"
  proof (cases "find_index (\<lambda>r. \<not> re_valid r) rs")
    case N: None
    then have "\<forall>r\<in>set rs. re_valid r" by simp
    moreover have "i < length rs"
      using assms(2) oldest_loop_less [OF assms(1)] unfolding reasm_slot_def None N by (auto simp: Let_def)
    ultimately show ?thesis by blast
  next
    case (Some k)
    then show ?thesis using assms(2) find_index_SomeD [OF Some] unfolding reasm_slot_def None Some by (auto simp: Let_def)
  qed
  moreover have "rs' = rs[i := reasm_fresh src gid count now]"
    using assms(2) unfolding reasm_slot_def None reasm_fresh_def by (auto simp: Let_def)
  moreover have "\<not> (re_valid r \<and> re_src r = src \<and> re_dgram_id r = gid)" if "r \<in> set rs" for r
    using None that by simp
  ultimately show ?thesis using that(2) by blast
qed

text \<open>The slot a fragment is stored in belongs to its datagram and has its fragment count.\<close>

lemma reasm_slot_inv:
  assumes "reasm_ok rs" and "0 < unat count" and "unat count \<le> TREENET_MAX_FRAGMENTS"
    and "\<not> (\<exists>r\<in>set rs. re_valid r \<and> re_src r = src \<and> re_dgram_id r = gid \<and> re_count r \<noteq> count)"
    and "reasm_slot rs src gid count now = (i, rs')"
  shows "reasm_ok rs'" and "i < length rs'" and "re_valid (rs' ! i)" and "re_src (rs' ! i) = src"
    and "re_dgram_id (rs' ! i) = gid" and "re_count (rs' ! i) = count"
proof -
  have ne: "rs \<noteq> []" using assms(1) by (auto simp: reasm_ok_def config)
  have all: "reasm_ok rs' \<and> i < length rs' \<and> re_valid (rs' ! i) \<and> re_src (rs' ! i) = src \<and>
    re_dgram_id (rs' ! i) = gid \<and> re_count (rs' ! i) = count"
  proof (rule reasm_slot_cases [OF ne assms(5)], goal_cases)
    case 1
    then show ?thesis using assms(1,4) nth_mem [of i rs] by auto
  next
    case 2
    then show ?thesis using assms(1-3) reasm_ok_update reasm_fresh_ok by (auto simp: reasm_fresh_def)
  qed
  then show "reasm_ok rs'" "i < length rs'" "re_valid (rs' ! i)" "re_src (rs' ! i) = src"
    "re_dgram_id (rs' ! i) = gid" "re_count (rs' ! i) = count" by blast+
qed

section \<open>Storing a fragment\<close>

lemma reasm_store_inv:
  assumes "reasm_slot_ok r" and "re_valid r" and "re_count r = fh_count fh" and "fh_index fh < fh_count fh"
    and "unat (fh_index fh) + 1 < unat (fh_count fh) \<longrightarrow> n = TN_FRAG_CHUNK"
    and "unat (fh_index fh) * TN_FRAG_CHUNK + n \<le> TREENET_MAX_DATAGRAM" and "n \<le> length chunk"
    and "reasm_store r fh chunk n = (complete, r')"
  shows "reasm_slot_ok r'" and "re_valid r'" and "re_count r' = re_count r"
proof -
  let ?i = "unat (fh_index fh)"
  have c: "unat (re_count r) \<le> 8" and buf: "length (re_buf r) = 1024" "length (re_frag_len r) = 8"
    using assms(1,2) by (simp_all add: reasm_slot_ok_def config)
  have i: "?i < unat (re_count r)" "?i < 8" using assms(3,4) c by (simp_all add: word_less_nat_alt)
  have n: "unat (of_nat n :: u16) = n" using assms(6) by (intro unat_of_nat_lt) (simp add: config)
  have "reasm_slot_ok r' \<and> re_valid r' \<and> re_count r' = re_count r"
  proof (cases "re_got_mask r AND push_bit ?i 1 = 0")
    case True
    then have r': "r' = r\<lparr>re_buf := memcpy (re_buf r) (?i * TN_FRAG_CHUNK) chunk n,
        re_frag_len := (re_frag_len r)[?i := of_nat n], re_got_mask := re_got_mask r OR push_bit ?i 1\<rparr>"
      using assms(8) by (auto simp: reasm_store_def Let_def)
    have "frag_at_ok r' j" if "j < 16" "bit (re_got_mask r') j" for j
    proof (cases "j = ?i")
      case True
      then show ?thesis using i buf n assms(3,5,6) by (auto simp: frag_at_ok_def r')
    next
      case False
      then have "bit (re_got_mask r) j" using that by (simp add: r' bit_or_iff frag_bit)
      then have "frag_at_ok r j" using assms(1,2) that(1) by (simp add: reasm_slot_ok_def)
      then show ?thesis using False by (simp add: frag_at_ok_def r')
    qed
    then show ?thesis using assms(1,2,6,7) by (simp add: reasm_slot_ok_def r')
  next
    case False
    then show ?thesis using assms(1,2,8) by (simp add: reasm_store_def Let_def)
  qed
  then show "reasm_slot_ok r'" "re_valid r'" "re_count r' = re_count r" by blast+
qed

section \<open>What a slot has collected\<close>

text \<open>The number of data bytes in fragment \<open>i\<close> of a datagram of \<open>len\<close> bytes, and the number of fragments.\<close>

definition chunk_size :: "nat \<Rightarrow> nat \<Rightarrow> nat" where
  "chunk_size len i = min TN_FRAG_CHUNK (len - i * TN_FRAG_CHUNK)"

definition frag_count :: "nat \<Rightarrow> nat" where
  "frag_count len = (len + TN_FRAG_CHUNK - 1) div TN_FRAG_CHUNK"

lemma frag_count_bounds:
  assumes "0 < len" and "len \<le> TREENET_MAX_DATAGRAM"
  shows "0 < frag_count len" and "frag_count len \<le> 6" and "i < frag_count len \<Longrightarrow> i * TN_FRAG_CHUNK < len"
    and "len \<le> frag_count len * TN_FRAG_CHUNK" and "i + 1 < frag_count len \<Longrightarrow> chunk_size len i = TN_FRAG_CHUNK"
    and "i < frag_count len \<Longrightarrow> i * TN_FRAG_CHUNK + chunk_size len i \<le> len"
  using assms by (auto simp: frag_count_def chunk_size_def config)

text \<open>
  Slot \<open>r\<close> holds exactly the fragments \<open>S\<close> of the first \<open>len\<close> bytes of \<open>p\<close>.
\<close>

definition holds_frags :: "tn_reasm_t \<Rightarrow> u8 list \<Rightarrow> nat \<Rightarrow> nat set \<Rightarrow> bool" where
  "holds_frags r p len S \<longleftrightarrow> length (re_buf r) = TREENET_MAX_DATAGRAM \<and> length (re_frag_len r) = TREENET_MAX_FRAGMENTS \<and>
     unat (re_count r) = frag_count len \<and> S \<subseteq> {..<frag_count len} \<and> (\<forall>j<16. bit (re_got_mask r) j \<longleftrightarrow> j \<in> S) \<and>
     (\<forall>j\<in>S. unat (re_frag_len r ! j) = chunk_size len j \<and>
        take (chunk_size len j) (drop (j * TN_FRAG_CHUNK) (re_buf r)) = take (chunk_size len j) (drop (j * TN_FRAG_CHUNK) p))"

lemma holds_frags_fresh:
  "unat count = frag_count len \<Longrightarrow> holds_frags (reasm_fresh src gid count now) p len {}"
  by (simp add: holds_frags_def reasm_fresh_def reasm_zero_def)

lemma holds_frags_last_ms [simp]: "holds_frags (r\<lparr>re_last_ms := now\<rparr>) p len S = holds_frags r p len S"
  by (simp add: holds_frags_def)

lemma slice_memcpy_other:
  assumes "i \<noteq> j" and "n \<le> TN_FRAG_CHUNK" and "m \<le> TN_FRAG_CHUNK"
    and "i * TN_FRAG_CHUNK + n \<le> length buf" and "j * TN_FRAG_CHUNK + m \<le> length buf" and "n \<le> length src"
  shows "take m (drop (j * TN_FRAG_CHUNK) (memcpy buf (i * TN_FRAG_CHUNK) src n)) = take m (drop (j * TN_FRAG_CHUNK) buf)"
proof -
  have "\<not> (i * TN_FRAG_CHUNK \<le> j * TN_FRAG_CHUNK + k \<and> j * TN_FRAG_CHUNK + k < i * TN_FRAG_CHUNK + n)" if "k < m" for k
  proof (cases "i < j")
    case True
    then have "(i + 1) * TN_FRAG_CHUNK \<le> j * TN_FRAG_CHUNK" by (intro mult_right_mono) auto
    then show ?thesis using assms(2) by simp
  next
    case False
    then have "(j + 1) * TN_FRAG_CHUNK \<le> i * TN_FRAG_CHUNK" using assms(1) by (intro mult_right_mono) auto
    then show ?thesis using assms(3) that by simp
  qed
  then show ?thesis using assms by (intro nth_equalityI) (auto simp: nth_memcpy)
qed

lemma slice_memcpy_same:
  assumes "off + n \<le> length buf" and "n \<le> length src"
  shows "take n (drop off (memcpy buf off src n)) = take n src"
  using assms by (intro nth_equalityI) (auto simp: nth_memcpy)

lemma filter_length_iff: "length (filter P xs) = length xs \<longleftrightarrow> (\<forall>x\<in>set xs. P x)"
proof
  assume "length (filter P xs) = length xs"
  then show "\<forall>x\<in>set xs. P x" using length_filter_less [of _ xs P] by auto
qed (simp add: filter_True)

lemma holds_fragsD:
  assumes "holds_frags r p len S"
  shows "length (re_buf r) = 1024" and "length (re_frag_len r) = 8" and "S \<subseteq> {..<frag_count len}"
    and "\<And>j. j < 16 \<Longrightarrow> bit (re_got_mask r) j \<longleftrightarrow> j \<in> S"
  using assms by (simp_all add: holds_frags_def config)

text \<open>Adding a fragment that is not held yet copies its bytes beside the others, which keep theirs.\<close>

lemma holds_frags_add:
  assumes "0 < len" and "len \<le> TREENET_MAX_DATAGRAM" and "holds_frags r p len S" and "i < frag_count len" and "i \<notin> S"
    and "chunk_size len i \<le> length chunk" and "take (chunk_size len i) chunk = take (chunk_size len i) (drop (i * TN_FRAG_CHUNK) p)"
    and "r' = r\<lparr>re_buf := memcpy (re_buf r) (i * TN_FRAG_CHUNK) chunk (chunk_size len i),
        re_frag_len := (re_frag_len r)[i := of_nat (chunk_size len i)], re_got_mask := re_got_mask r OR 2 ^ i\<rparr>"
  shows "holds_frags r' p len (insert i S)"
proof -
  note b = frag_count_bounds [OF assms(1,2)] and h = holds_fragsD [OF assms(3)]
  have i: "i < 16" "i < 8" using b(2) assms(4) by simp_all
  have fits: "j * TN_FRAG_CHUNK + chunk_size len j \<le> length (re_buf r)" if "j < frag_count len" for j
    using b(6) [OF that] assms(2) h(1) by (simp add: config)
  have mask: "bit (re_got_mask r') j \<longleftrightarrow> j \<in> insert i S" if "j < 16" for j
    using h(4) [OF that] i(1) by (auto simp: assms(8) bit_or_iff frag_bit)
  have sz: "unat (of_nat (chunk_size len i) :: u16) = chunk_size len i" by (intro unat_of_nat_lt) (simp add: chunk_size_def config)
  have old: "unat (re_frag_len r' ! j) = chunk_size len j \<and> take (chunk_size len j) (drop (j * TN_FRAG_CHUNK) (re_buf r')) =
      take (chunk_size len j) (drop (j * TN_FRAG_CHUNK) p)" if "j \<in> S" for j
  proof -
    have "j < frag_count len" using that h(3) by blast
    then have "take (chunk_size len j) (drop (j * TN_FRAG_CHUNK) (re_buf r')) = take (chunk_size len j) (drop (j * TN_FRAG_CHUNK) (re_buf r))"
      using that fits [of j] assms(5,6) fits [OF assms(4)] by (simp add: assms(8), intro slice_memcpy_other) (auto simp: chunk_size_def)
    moreover have "re_frag_len r' ! j = re_frag_len r ! j" using that assms(5) by (cases "i = j") (auto simp: assms(8))
    ultimately show ?thesis using assms(3) that by (simp add: holds_frags_def)
  qed
  have new: "unat (re_frag_len r' ! i) = chunk_size len i \<and> take (chunk_size len i) (drop (i * TN_FRAG_CHUNK) (re_buf r')) =
      take (chunk_size len i) (drop (i * TN_FRAG_CHUNK) p)"
    using slice_memcpy_same [OF fits [OF assms(4)] assms(6)] assms(7) sz i(2) h(2) by (simp add: assms(8))
  have "length (re_buf r') = 1024" "length (re_frag_len r') = 8" "re_count r' = re_count r"
    using fits [OF assms(4)] assms(6) h(1,2) by (simp_all add: assms(8))
  then show ?thesis using assms(3,4) mask old new by (auto simp: holds_frags_def config)
qed

text \<open>The population count of the received mask reaches the fragment count exactly when every fragment is held.\<close>

lemma holds_frags_complete:
  assumes "0 < len" and "len \<le> TREENET_MAX_DATAGRAM" and "holds_frags r p len S"
  shows "length (filter (\<lambda>j. re_got_mask r AND push_bit j 1 \<noteq> 0) [0..<frag_count len]) = frag_count len \<longleftrightarrow> S = {..<frag_count len}"
proof -
  note b = frag_count_bounds [OF assms(1,2)] and h = holds_fragsD [OF assms(3)]
  have "length (filter (\<lambda>j. re_got_mask r AND push_bit j 1 \<noteq> 0) [0..<frag_count len]) = frag_count len \<longleftrightarrow>
      (\<forall>j\<in>set [0..<frag_count len]. re_got_mask r AND push_bit j 1 \<noteq> 0)"
    using filter_length_iff [of _ "[0..<frag_count len]"] by simp
  also have "\<dots> \<longleftrightarrow> (\<forall>j<frag_count len. j \<in> S)" using b(2) h(4) mask_and_bit [of _ "re_got_mask r"] by auto
  finally show ?thesis using h(3) by auto
qed

lemma holds_frags_store:
  assumes "0 < len" and "len \<le> TREENET_MAX_DATAGRAM" and "len \<le> length p"
    and "holds_frags r p len S" and "unat (fh_index fh) = i" and "unat (fh_count fh) = frag_count len" and "i < frag_count len"
    and "chunk_size len i \<le> length chunk" and "take (chunk_size len i) chunk = take (chunk_size len i) (drop (i * TN_FRAG_CHUNK) p)"
    and "reasm_store r fh chunk (chunk_size len i) = (complete, r')"
  shows "holds_frags r' p len (insert i S)" and "i \<notin> S \<Longrightarrow> complete \<longleftrightarrow> insert i S = {..<frag_count len}" and "i \<in> S \<Longrightarrow> \<not> complete"
    and "re_valid r' = re_valid r" and "re_src r' = re_src r" and "re_dgram_id r' = re_dgram_id r" and "re_count r' = re_count r"
proof -
  have i: "i < 16" using frag_count_bounds(2) [OF assms(1,2)] assms(7) by simp
  have seen: "re_got_mask r AND 2 ^ i \<noteq> 0 \<longleftrightarrow> i \<in> S" using mask_and_bit [OF i] holds_fragsD(4) [OF assms(4) i] by simp
  show "re_valid r' = re_valid r" "re_src r' = re_src r" "re_dgram_id r' = re_dgram_id r" "re_count r' = re_count r"
    using assms(10) by (auto simp: reasm_store_def Let_def split: if_splits)
  show dup: "\<not> complete" if "i \<in> S"
    using that seen assms(5,10) by (auto simp: reasm_store_def Let_def split: if_splits)
  have new: "r' = r\<lparr>re_buf := memcpy (re_buf r) (i * TN_FRAG_CHUNK) chunk (chunk_size len i),
        re_frag_len := (re_frag_len r)[i := of_nat (chunk_size len i)], re_got_mask := re_got_mask r OR 2 ^ i\<rparr>"
      "complete \<longleftrightarrow> length (filter (\<lambda>j. re_got_mask r' AND push_bit j 1 \<noteq> 0) [0..<frag_count len]) = frag_count len" if "i \<notin> S"
    using that seen assms(5,6,10) by (auto simp: reasm_store_def Let_def)
  show held: "holds_frags r' p len (insert i S)"
  proof (cases "i \<in> S")
    case True
    then show ?thesis using seen assms(4,5,10) by (auto simp: reasm_store_def Let_def insert_absorb split: if_splits)
  qed (use holds_frags_add [OF assms(1,2,4,7) _ assms(8,9)] new in blast)
  show "complete \<longleftrightarrow> insert i S = {..<frag_count len}" if "i \<notin> S"
    unfolding new(2) [OF that] by (rule holds_frags_complete [OF assms(1,2) held])
qed

lemma holds_frags_total:
  assumes "0 < len" and "len \<le> TREENET_MAX_DATAGRAM" and "holds_frags r p len {..<frag_count len}" and "unat (fh_count fh) = frag_count len"
  shows "unat (reasm_total r fh) = len"
proof -
  note b = frag_count_bounds [OF assms(1,2)]
  have "unat (foldl (\<lambda>total i. total + re_frag_len r ! i) 0 [0..<n]) = min len (n * TN_FRAG_CHUNK)" if "n \<le> frag_count len" for n
    using that
  proof (induction n)
    case (Suc n)
    have "unat (re_frag_len r ! n) = chunk_size len n" using assms(3) Suc.prems by (simp add: holds_frags_def)
    moreover have "n * TN_FRAG_CHUNK < len" using b(3) Suc.prems by simp
    ultimately show ?case
      using Suc assms(2) by (simp add: unat_word_ariths chunk_size_def config)
  qed simp
  then show ?thesis using b(4) assms(4) by (simp add: reasm_total_def)
qed

lemma holds_frags_data:
  assumes "0 < len" and "len \<le> TREENET_MAX_DATAGRAM" and "len \<le> length p" and "holds_frags r p len {..<frag_count len}"
  shows "take len (re_buf r) = take len p"
proof (rule nth_equalityI)
  have buf: "length (re_buf r) = 1024" using assms(4) by (simp add: holds_frags_def config)
  then show "length (take len (re_buf r)) = length (take len p)" using assms(2,3) by (simp add: config)
  fix k assume "k < length (take len (re_buf r))"
  then have k: "k < len" by simp
  let ?i = "k div TN_FRAG_CHUNK" and ?m = "k mod TN_FRAG_CHUNK"
  have c: "0 < TN_FRAG_CHUNK" by (simp add: config)
  have "k < frag_count len * TN_FRAG_CHUNK" using k frag_count_bounds(4) [OF assms(1,2)] by simp
  then have i: "?i < frag_count len" using c by (simp add: less_mult_imp_div_less)
  have split: "?i * TN_FRAG_CHUNK + ?m = k" by simp
  have m: "?m < chunk_size len ?i" using c k split by (simp add: chunk_size_def less_diff_conv)
  have "take (chunk_size len ?i) (drop (?i * TN_FRAG_CHUNK) (re_buf r)) ! ?m = take (chunk_size len ?i) (drop (?i * TN_FRAG_CHUNK) p) ! ?m"
    using assms(4) i by (simp add: holds_frags_def)
  moreover have "?i * TN_FRAG_CHUNK \<le> length (re_buf r)" "?i * TN_FRAG_CHUNK \<le> length p"
    using split k assms(2,3) buf by (simp_all add: config)
  ultimately have "re_buf r ! k = p ! k" using m by simp
  then show "take len (re_buf r) ! k = take len p ! k" using k by simp
qed

section \<open>Fragments on the way\<close>

text \<open>
  Frame \<open>f\<close> carries fragment \<open>i\<close> of the datagram that \<open>src\<close> sent with identifier \<open>gid\<close>: its payload
  is the one \<open>tn_send_datagram\<close> built. The payload pointer of a received frame may be followed by other bytes.
\<close>

definition carries_frag :: "treenet_addr_t \<Rightarrow> u16 \<Rightarrow> u8 list \<Rightarrow> nat \<Rightarrow> nat \<Rightarrow> tn_frame_t \<Rightarrow> bool" where
  "carries_frag src gid p len i f \<longleftrightarrow> fr_src f = src \<and> payload_ok f \<and>
     (case frag_payload gid (frag_count len) p len i of (buf, cl) \<Rightarrow>
        fr_payload_len f = TN_FRAG_HDR_LEN + cl \<and> frame_data f = take (TN_FRAG_HDR_LEN + cl) buf)"

lemma frag_payload_eq:
  assumes "0 < len" and "len \<le> TREENET_MAX_DATAGRAM" and "len \<le> length p" and "i < frag_count len"
  shows "snd (frag_payload gid (frag_count len) p len i) = chunk_size len i"
    and "take (4 + chunk_size len i) (fst (frag_payload gid (frag_count len) p len i)) =
      tn_frag_encode (replicate 4 0) \<lparr>fh_dgram_id = gid, fh_index = of_nat i, fh_count = of_nat (frag_count len)\<rparr> @
      take (chunk_size len i) (drop (i * TN_FRAG_CHUNK) p)"
proof -
  have enc: "tn_frag_encode (replicate 200 0) h = tn_frag_encode (replicate 4 0) h @ replicate 196 0" for h
    by (simp add: tn_frag_encode_def tn_put_u16_def put_bytes_def config eval_nat_numeral)
  have len4: "length (tn_frag_encode (replicate 4 0) h) = 4" for h
    using frag_codec.encode_length [of "replicate 4 0"] by (simp add: config)
  show s: "snd (frag_payload gid (frag_count len) p len i) = chunk_size len i"
    by (simp add: frag_payload_def Let_def chunk_size_def min_def)
  have "chunk_size len i \<le> length (drop (i * TN_FRAG_CHUNK) p)" using frag_count_bounds(6) [OF assms(1,2,4)] assms(3) by simp
  moreover have "chunk_size len i \<le> 174" by (simp add: chunk_size_def config)
  ultimately show "take (4 + chunk_size len i) (fst (frag_payload gid (frag_count len) p len i)) =
      tn_frag_encode (replicate 4 0) \<lparr>fh_dgram_id = gid, fh_index = of_nat i, fh_count = of_nat (frag_count len)\<rparr> @
      take (chunk_size len i) (drop (i * TN_FRAG_CHUNK) p)"
    using s by (simp add: frag_payload_def Let_def memcpy_def put_bytes_def enc len4 config)
qed

lemma carries_fragD:
  assumes "0 < len" and "len \<le> TREENET_MAX_DATAGRAM" and "len \<le> length p" and "i < frag_count len" and "carries_frag src gid p len i f"
  obtains q where "fr_payload f = Some q" and "fr_payload_len f - TN_FRAG_HDR_LEN = chunk_size len i"
    and "tn_frag_decode (Some q) (fr_payload_len f) =
      Some \<lparr>fh_dgram_id = gid, fh_index = of_nat i, fh_count = of_nat (frag_count len)\<rparr>"
    and "chunk_size len i \<le> length (drop TN_FRAG_HDR_LEN q)"
    and "take (chunk_size len i) (drop TN_FRAG_HDR_LEN q) = take (chunk_size len i) (drop (i * TN_FRAG_CHUNK) p)"
proof -
  let ?h = "\<lparr>fh_dgram_id = gid, fh_index = of_nat i, fh_count = of_nat (frag_count len)\<rparr>"
  let ?c = "chunk_size len i" and ?d = "take (chunk_size len i) (drop (i * TN_FRAG_CHUNK) p)"
  note fp = frag_payload_eq [OF assms(1-4), of gid]
  have pl: "fr_payload_len f = 4 + ?c" and d: "frame_data f = tn_frag_encode (replicate 4 0) ?h @ ?d"
    using assms(5) fp by (auto simp: carries_frag_def config split: prod.splits)
  obtain q where q: "fr_payload f = Some q" using d by (cases "fr_payload f") (auto simp: frame_data_def tn_frag_encode_def tn_put_u16_def put_bytes_def)
  have lq: "4 + ?c \<le> length q" using assms(5) q pl by (simp add: carries_frag_def payload_ok_def)
  have len4: "length (tn_frag_encode (replicate 4 0) ?h) = 4" using frag_codec.encode_length [of "replicate 4 0" ?h] by (simp add: config)
  have "take (4 + ?c) q = tn_frag_encode (replicate 4 0) ?h @ ?d" using d q pl by (simp add: frame_data_def)
  then have q': "q = tn_frag_encode (replicate 4 0) ?h @ ?d @ drop (4 + ?c) q" by (metis append.assoc append_take_drop_id)
  have ld: "length ?d = ?c" using frag_count_bounds(6) [OF assms(1,2,4)] assms(3) by simp
  have "tn_frag_decode (Some q) (fr_payload_len f) = Some ?h"
    using frag_codec.decode_encode [of "replicate 4 0" "fr_payload_len f" ?h "?d @ drop (4 + ?c) q"] q' pl by (simp add: config)
  moreover have "take ?c (drop 4 q) = ?d" using q' len4 ld by (metis append_eq_conv_conj take_append take_all order_refl diff_self_eq_0 take0 append_Nil2)
  ultimately show ?thesis using that [OF q] pl lq by (simp add: config)
qed

section \<open>Feeding fragments\<close>

definition frag_match :: "treenet_addr_t \<Rightarrow> u16 \<Rightarrow> tn_reasm_t \<Rightarrow> bool" where
  "frag_match src gid r \<longleftrightarrow> re_valid r \<and> re_src r = src \<and> re_dgram_id r = gid"

text \<open>Slot \<open>k\<close> collects the datagram and holds the fragments \<open>S\<close>.\<close>

definition collecting :: "tn_reasm_t list \<Rightarrow> treenet_addr_t \<Rightarrow> u16 \<Rightarrow> u8 list \<Rightarrow> nat \<Rightarrow> nat \<Rightarrow> nat set \<Rightarrow> bool" where
  "collecting rs src gid p len k S \<longleftrightarrow> k < length rs \<and> (\<forall>j<length rs. frag_match src gid (rs ! j) \<longleftrightarrow> j = k) \<and>
     holds_frags (rs ! k) p len S"

lemma collecting_slot:
  assumes "collecting rs src gid p len k S"
  shows "reasm_slot rs src gid count now = (k, rs)" and "frag_match src gid (rs ! k)"
    and "unat count = frag_count len \<Longrightarrow> \<not> (\<exists>r\<in>set rs. re_valid r \<and> re_src r = src \<and> re_dgram_id r = gid \<and> re_count r \<noteq> count)"
proof -
  have k: "k < length rs" and m: "\<And>j. j < length rs \<Longrightarrow> frag_match src gid (rs ! j) \<longleftrightarrow> j = k" and h: "holds_frags (rs ! k) p len S"
    using assms by (auto simp: collecting_def)
  have "find_index (\<lambda>r. re_valid r \<and> re_src r = src \<and> re_dgram_id r = gid) rs = Some k"
    unfolding find_index_Some_iff using k m by (auto simp: frag_match_def)
  then show "reasm_slot rs src gid count now = (k, rs)" by (simp add: reasm_slot_def)
  show "frag_match src gid (rs ! k)" using k m by simp
  show "\<not> (\<exists>r\<in>set rs. re_valid r \<and> re_src r = src \<and> re_dgram_id r = gid \<and> re_count r \<noteq> count)"
    if "unat count = frag_count len"
  proof
    assume "\<exists>r\<in>set rs. re_valid r \<and> re_src r = src \<and> re_dgram_id r = gid \<and> re_count r \<noteq> count"
    then obtain j where j: "j < length rs" "frag_match src gid (rs ! j)" "re_count (rs ! j) \<noteq> count"
      by (auto simp: in_set_conv_nth frag_match_def)
    then show False using m h that by (simp add: holds_frags_def word_unat_eq_iff)
  qed
qed

lemma collecting_start:
  assumes "rs \<noteq> []" and "\<forall>r\<in>set rs. \<not> frag_match src gid r" and "unat count = frag_count len"
  obtains k where "reasm_slot rs src gid count now = (k, rs[k := reasm_fresh src gid count now])"
    and "collecting (rs[k := reasm_fresh src gid count now]) src gid p len k {}"
proof -
  obtain k rs' where s: "reasm_slot rs src gid count now = (k, rs')" by fastforce
  have "rs' = rs[k := reasm_fresh src gid count now] \<and> k < length rs"
  proof (rule reasm_slot_cases [OF assms(1) s], goal_cases)
    case 1
    then have "frag_match src gid (rs ! k)" by (simp add: frag_match_def)
    then show ?thesis using assms(2) 1(2) by simp
  qed simp
  moreover from this have "collecting rs' src gid p len k {}"
    using assms(2,3) holds_frags_fresh [OF assms(3)]
    by (auto simp: collecting_def nth_list_update frag_match_def reasm_fresh_def reasm_zero_def holds_frags_def)
  ultimately show ?thesis using that s by simp
qed

text \<open>The end of a reassembly: the application receives the datagram, then the slot is freed.\<close>

definition deliver_up :: "'w treenet \<Rightarrow> treenet_addr_t \<Rightarrow> u8 list \<Rightarrow> i16 \<Rightarrow> i8 \<Rightarrow> u8 \<Rightarrow> 'w treenet" where
  "deliver_up t src data rssi snr hops =
     (case cf_on_recv (nd_cfg t) of None \<Rightarrow> t | Some on_recv \<Rightarrow> run_app (on_recv src data rssi snr hops) t)"

definition reasm_finish :: "'w treenet \<Rightarrow> nat \<Rightarrow> 'w treenet" where
  "reasm_finish t k = t\<lparr>nd_reasm := (nd_reasm t)[k := (nd_reasm t ! k)\<lparr>re_valid := False\<rparr>]\<rparr>"

lemma reasm_step_slot:
  fixes t :: "'w treenet"
  assumes "0 < len" and "len \<le> TREENET_MAX_DATAGRAM" and "len \<le> length p" and "i < frag_count len"
    and "carries_frag src gid p len i f" and "collecting rs src gid p len k S"
    and "\<And>count. unat count = frag_count len \<Longrightarrow> reasm_slot (nd_reasm t) src gid count now = (k, rs) \<and>
      \<not> (\<exists>r\<in>set (nd_reasm t). re_valid r \<and> re_src r = src \<and> re_dgram_id r = gid \<and> re_count r \<noteq> count)"
  obtains r where "collecting (rs[k := r]) src gid p len k (insert i S)"
    and "tn_reasm_input t f rssi snr now =
      (if i \<notin> S \<and> insert i S = {..<frag_count len}
       then reasm_finish (deliver_up (TN_STAT_INC st_datagrams_rx_update (t\<lparr>nd_reasm := rs[k := r]\<rparr>))
              src (take len p) rssi snr (TREENET_MAX_HOPS - fr_hop_limit f)) k
       else t\<lparr>nd_reasm := rs[k := r]\<rparr>)"
    and "re_last_ms (rs[k := r] ! k) = now"
proof -
  let ?h = "\<lparr>fh_dgram_id = gid, fh_index = of_nat i, fh_count = of_nat (frag_count len)\<rparr>"
  let ?c = "chunk_size len i"
  note b = frag_count_bounds [OF assms(1,2)]
  obtain q where q: "fr_payload f = Some q" "fr_payload_len f - TN_FRAG_HDR_LEN = ?c"
      "tn_frag_decode (Some q) (fr_payload_len f) = Some ?h" "?c \<le> length (drop TN_FRAG_HDR_LEN q)"
      "take ?c (drop TN_FRAG_HDR_LEN q) = take ?c (drop (i * TN_FRAG_CHUNK) p)"
    using carries_fragD [OF assms(1-5)] .
  have src: "fr_src f = src" using assms(5) by (simp add: carries_frag_def)
  have u: "unat (of_nat i :: u8) = i" "unat (of_nat (frag_count len) :: u8) = frag_count len"
    using b(2) assms(4) by (simp_all add: unat_of_nat_lt)
  note match = collecting_slot(2) [OF assms(6)] and slot = assms(7) [OF u(2)]
  obtain complete r where st: "reasm_store ((rs ! k)\<lparr>re_last_ms := now\<rparr>) ?h (drop TN_FRAG_HDR_LEN q) ?c = (complete, r)" by fastforce
  have k: "k < length rs" and holds: "holds_frags ((rs ! k)\<lparr>re_last_ms := now\<rparr>) p len S" using assms(6) by (simp_all add: collecting_def)
  note store = holds_frags_store [OF assms(1-3) holds _ _ assms(4) q(4,5) st, simplified, OF u]
  have col: "collecting (rs[k := r]) src gid p len k (insert i S)"
    using assms(6) store k match by (auto simp: collecting_def nth_list_update frag_match_def)
  have complete: "complete \<longleftrightarrow> i \<notin> S \<and> insert i S = {..<frag_count len}" using store(2,3) by blast
  have fits: "i * TN_FRAG_CHUNK + ?c \<le> TREENET_MAX_DATAGRAM" using b(6) [OF assms(4)] assms(2) by simp
  have nots: "\<not> (fh_count ?h = 0 \<or> unat (fh_count ?h) > TREENET_MAX_FRAGMENTS \<or> fh_index ?h \<ge> fh_count ?h)"
      "\<not> (unat (fh_index ?h) + 1 < unat (fh_count ?h) \<and> ?c \<noteq> TN_FRAG_CHUNK)"
      "\<not> (\<exists>r\<in>set (nd_reasm t). re_valid r \<and> re_src r = src \<and> re_dgram_id r = fh_dgram_id ?h \<and> re_count r \<noteq> fh_count ?h)"
      "\<not> unat (fh_index ?h) * TN_FRAG_CHUNK + ?c > TREENET_MAX_DATAGRAM"
    using u b(1,2,5) fits assms(4) slot by (auto simp: word_le_nat_alt TREENET_MAX_FRAGMENTS_def unat_eq_0 [symmetric])
  have slot': "reasm_slot (nd_reasm t) src (fh_dgram_id ?h) (fh_count ?h) now = (k, rs)" using slot by simp
  have "tn_reasm_input t f rssi snr now =
      (if complete then reasm_finish (deliver_up (TN_STAT_INC st_datagrams_rx_update (t\<lparr>nd_reasm := rs[k := r]\<rparr>))
          src (take (unat (reasm_total r ?h)) (re_buf r)) rssi snr (TREENET_MAX_HOPS - fr_hop_limit f)) k
       else t\<lparr>nd_reasm := rs[k := r]\<rparr>)"
    unfolding tn_reasm_input_def q(1-3) option.case Let_def src slot' prod.case st nots [THEN if_not_P] deliver_up_def reasm_finish_def ..
  moreover have "take (unat (reasm_total r ?h)) (re_buf r) = take len p" if complete
    using that store(1) complete holds_frags_total [OF assms(1,2), of r p ?h] holds_frags_data [OF assms(1-3), of r] u by simp
  moreover have "re_last_ms r = now" using st by (auto simp: reasm_store_def Let_def split: if_splits)
  ultimately show ?thesis using that [OF col] complete k by (auto cong: if_cong)
qed

section \<open>The round trip\<close>

lemma reasm_step:
  fixes t :: "'w treenet"
  assumes "0 < len" and "len \<le> TREENET_MAX_DATAGRAM" and "len \<le> length p" and "i < frag_count len"
    and "carries_frag src gid p len i f" and "collecting (nd_reasm t) src gid p len k S"
  obtains rs where "collecting rs src gid p len k (insert i S)"
    and "tn_reasm_input t f rssi snr now =
      (if i \<notin> S \<and> insert i S = {..<frag_count len}
       then reasm_finish (deliver_up (TN_STAT_INC st_datagrams_rx_update (t\<lparr>nd_reasm := rs\<rparr>))
              src (take len p) rssi snr (TREENET_MAX_HOPS - fr_hop_limit f)) k
       else t\<lparr>nd_reasm := rs\<rparr>)"
    and "re_last_ms (rs ! k) = now"
proof -
  have sl: "reasm_slot (nd_reasm t) src gid count now = (k, nd_reasm t) \<and>
      \<not> (\<exists>r\<in>set (nd_reasm t). re_valid r \<and> re_src r = src \<and> re_dgram_id r = gid \<and> re_count r \<noteq> count)"
    if "unat count = frag_count len" for count
    using collecting_slot(1,3) [OF assms(6)] that by blast
  show ?thesis by (rule reasm_step_slot [OF assms(1-6) sl]) (assumption, erule that, assumption, assumption)
qed

lemma reasm_start:
  fixes t :: "'w treenet"
  assumes "0 < len" and "len \<le> TREENET_MAX_DATAGRAM" and "len \<le> length p" and "i < frag_count len"
    and "carries_frag src gid p len i f" and "nd_reasm t \<noteq> []" and "\<forall>r\<in>set (nd_reasm t). \<not> frag_match src gid r"
  obtains rs k where "collecting rs src gid p len k {i}"
    and "tn_reasm_input t f rssi snr now =
      (if {i} = {..<frag_count len}
       then reasm_finish (deliver_up (TN_STAT_INC st_datagrams_rx_update (t\<lparr>nd_reasm := rs\<rparr>))
              src (take len p) rssi snr (TREENET_MAX_HOPS - fr_hop_limit f)) k
       else t\<lparr>nd_reasm := rs\<rparr>)"
    and "re_last_ms (rs ! k) = now"
proof -
  let ?c = "of_nat (frag_count len) :: u8"
  have u: "unat ?c = frag_count len" using frag_count_bounds(2) [OF assms(1,2)] by (simp add: unat_of_nat_lt)
  obtain k where k: "reasm_slot (nd_reasm t) src gid ?c now = (k, (nd_reasm t)[k := reasm_fresh src gid ?c now])"
      "collecting ((nd_reasm t)[k := reasm_fresh src gid ?c now]) src gid p len k {}"
    using collecting_start [OF assms(6,7) u] .
  have sl: "reasm_slot (nd_reasm t) src gid count now = (k, (nd_reasm t)[k := reasm_fresh src gid ?c now]) \<and>
      \<not> (\<exists>r\<in>set (nd_reasm t). re_valid r \<and> re_src r = src \<and> re_dgram_id r = gid \<and> re_count r \<noteq> count)"
    if "unat count = frag_count len" for count
  proof -
    have "count = ?c" using that u by (simp add: word_unat_eq_iff)
    then show ?thesis using k(1) assms(7) by (auto simp: frag_match_def)
  qed
  show ?thesis
    by (rule reasm_step_slot [OF assms(1-5) k(2) sl]) (assumption, erule that, simp, assumption)
qed

definition feed :: "'w treenet \<Rightarrow> (tn_frame_t \<times> i16 \<times> i8 \<times> u32) list \<Rightarrow> 'w treenet" where
  "feed t evs = foldl (\<lambda>t (f, rssi, snr, now). tn_reasm_input t f rssi snr now) t evs"

lemma feed_more:
  assumes "0 < len" and "len \<le> TREENET_MAX_DATAGRAM" and "len \<le> length p" and "collecting (nd_reasm t) src gid p len k S"
    and "list_all2 (\<lambda>i ev. i < frag_count len \<and> carries_frag src gid p len i (fst ev)) is evs" and "S \<union> set is \<noteq> {..<frag_count len}"
  shows "\<exists>rs. feed t evs = t\<lparr>nd_reasm := rs\<rparr> \<and> collecting rs src gid p len k (S \<union> set is)"
  using assms(4-6)
proof (induction "is" evs arbitrary: t S rule: list_induct2')
  case 1
  then show ?case by (intro exI [of _ "nd_reasm t"]) (simp add: feed_def)
next
  case (4 i "is" ev evs)
  obtain f rssi snr now where ev: "ev = (f, rssi, snr, now)" by (cases ev)
  have f: "i < frag_count len" "carries_frag src gid p len i f" and rest: "list_all2 (\<lambda>i ev. i < frag_count len \<and> carries_frag src gid p len i (fst ev)) is evs"
    using 4(3) by (simp_all add: ev)
  have open': "insert i S \<noteq> {..<frag_count len}"
  proof
    assume "insert i S = {..<frag_count len}"
    moreover have "set is \<subseteq> {..<frag_count len}"
      using rest by (auto simp: list_all2_conv_all_nth in_set_conv_nth)
    ultimately show False using 4(4) by auto
  qed
  obtain rs where rs: "collecting rs src gid p len k (insert i S)" "tn_reasm_input t f rssi snr now = t\<lparr>nd_reasm := rs\<rparr>"
    using reasm_step [OF assms(1-3) f 4(2), of rssi snr now] open' by auto
  have "\<exists>rs'. feed (t\<lparr>nd_reasm := rs\<rparr>) evs = t\<lparr>nd_reasm := rs, nd_reasm := rs'\<rparr> \<and> collecting rs' src gid p len k (insert i S \<union> set is)"
    using 4(1) [of "t\<lparr>nd_reasm := rs\<rparr>" "insert i S"] rs(1) rest 4(4) by simp
  then show ?case using rs(2) by (simp add: feed_def ev)
qed simp_all

lemma feed_all:
  fixes t :: "'w treenet"
  assumes "0 < len" and "len \<le> TREENET_MAX_DATAGRAM" and "len \<le> length p"
    and "nd_reasm t \<noteq> []" and "\<forall>r\<in>set (nd_reasm t). \<not> frag_match src gid r"
    and "list_all2 (\<lambda>i ev. i < frag_count len \<and> carries_frag src gid p len i (fst ev)) is evs"
    and "i < frag_count len" and "carries_frag src gid p len i f" and "i \<notin> set is" and "insert i (set is) = {..<frag_count len}"
  shows "\<exists>rs rs' k. feed t evs = t\<lparr>nd_reasm := rs\<rparr> \<and> feed t (evs @ [(f, rssi, snr, now)]) =
    reasm_finish (deliver_up (TN_STAT_INC st_datagrams_rx_update (t\<lparr>nd_reasm := rs'\<rparr>)) src (take len p) rssi snr
      (TREENET_MAX_HOPS - fr_hop_limit f)) k"
proof (cases "is")
  case Nil
  obtain rs k where "tn_reasm_input t f rssi snr now = reasm_finish (deliver_up (TN_STAT_INC st_datagrams_rx_update (t\<lparr>nd_reasm := rs\<rparr>))
      src (take len p) rssi snr (TREENET_MAX_HOPS - fr_hop_limit f)) k"
    by (rule reasm_start [OF assms(1-3,7,8,4,5), of rssi snr now]) (use assms(10) Nil in simp)
  moreover have "evs = []" using assms(6) Nil by simp
  ultimately show ?thesis by (intro exI [of _ "nd_reasm t"] exI [of _ rs] exI [of _ k]) (simp add: feed_def)
next
  case (Cons j js)
  obtain g r s n evs' where evs: "evs = (g, r, s, n) # evs'" using assms(6) Cons by (cases evs) auto
  have g: "j < frag_count len" "carries_frag src gid p len j g"
    and rest: "list_all2 (\<lambda>i ev. i < frag_count len \<and> carries_frag src gid p len i (fst ev)) js evs'"
    using assms(6) by (simp_all add: Cons evs)
  have ne: "{j} \<union> set js \<noteq> {..<frag_count len}" using assms(7,9) Cons by auto
  then have one: "{j} \<noteq> {..<frag_count len}" using assms(7,9) Cons by auto
  obtain rs k where rs: "collecting rs src gid p len k {j}" "tn_reasm_input t g r s n = t\<lparr>nd_reasm := rs\<rparr>"
    by (rule reasm_start [OF assms(1-3) g assms(4,5), of r s n]) (simp only: one if_False)
  obtain rs1 where rs1: "feed (t\<lparr>nd_reasm := rs\<rparr>) evs' = t\<lparr>nd_reasm := rs1\<rparr>" "collecting rs1 src gid p len k ({j} \<union> set js)"
    using feed_more [OF assms(1-3) _ rest ne, of "t\<lparr>nd_reasm := rs\<rparr>"] rs(1) by auto
  have first: "feed t evs = t\<lparr>nd_reasm := rs1\<rparr>" using rs(2) rs1(1) by (simp add: feed_def evs)
  have "i \<notin> {j} \<union> set js" "insert i ({j} \<union> set js) = {..<frag_count len}" using assms(9,10) Cons by auto
  then obtain rs2 where "tn_reasm_input (t\<lparr>nd_reasm := rs1\<rparr>) f rssi snr now =
      reasm_finish (deliver_up (TN_STAT_INC st_datagrams_rx_update (t\<lparr>nd_reasm := rs1, nd_reasm := rs2\<rparr>)) src (take len p) rssi snr
        (TREENET_MAX_HOPS - fr_hop_limit f)) k"
    using reasm_step [OF assms(1-3,7,8), of "t\<lparr>nd_reasm := rs1\<rparr>" k "{j} \<union> set js" rssi snr now] rs1(2)
    unfolding treenet.select_convs by (metis (no_types, lifting) treenet.select_convs(23) treenet.surjective treenet.update_convs(23))
  then show ?thesis using first by (auto simp: feed_def)
qed

text \<open>
  The frame \<open>tn_send_datagram\<close> builds for fragment \<open>i\<close>, and what a receiver decodes from its wire image after any number
  of forwarders replaced the previous hop and the hop limit.
\<close>

definition frag_frame :: "'w treenet \<Rightarrow> bool \<Rightarrow> treenet_addr_t \<Rightarrow> u8 \<Rightarrow> u16 \<Rightarrow> u16 \<Rightarrow> u8 list \<Rightarrow> nat \<Rightarrow> nat \<Rightarrow> tn_frame_t" where
  "frag_frame s flood dst flags seq gid p len i =
     (let (buf, cl) = frag_payload gid (frag_count len) p len i
      in data_frame s flood dst flags seq buf (TN_FRAG_HDR_LEN + cl))"

definition arrives_as :: "tn_frame_t \<Rightarrow> tn_frame_t \<Rightarrow> bool" where
  "arrives_as f g \<longleftrightarrow> (\<exists>prev hop_limit rest.
     tn_frame_decode (Some (frame_wire (f\<lparr>fr_prev := prev, fr_hop_limit := hop_limit\<rparr>) @ rest)) (22 + fr_payload_len f) = Some g)"

lemma arrives_carries:
  assumes "0 < len" and "len \<le> TREENET_MAX_DATAGRAM" and "len \<le> length p" and "i < frag_count len"
    and "nd_addr s \<noteq> TREENET_ADDR_INVALID" and "nd_addr s \<noteq> TREENET_ADDR_BROADCAST" and "flood \<or> dst \<noteq> TREENET_ADDR_INVALID"
    and "arrives_as (frag_frame s flood dst flags seq gid p len i) g"
  shows "carries_frag (nd_addr s) gid p len i g"
proof -
  obtain buf cl where fp: "frag_payload gid (frag_count len) p len i = (buf, cl)" by fastforce
  obtain prev h rest where g: "tn_frame_decode (Some (frame_wire ((frag_frame s flood dst flags seq gid p len i)
      \<lparr>fr_prev := prev, fr_hop_limit := h\<rparr>) @ rest)) (22 + fr_payload_len (frag_frame s flood dst flags seq gid p len i)) = Some g"
    using assms(8) by (auto simp: arrives_as_def)
  let ?f = "(frag_frame s flood dst flags seq gid p len i)\<lparr>fr_prev := prev, fr_hop_limit := h\<rparr>"
  have cl: "cl = chunk_size len i" "take (4 + cl) buf = tn_frag_encode (replicate 4 0)
      \<lparr>fh_dgram_id = gid, fh_index = of_nat i, fh_count = of_nat (frag_count len)\<rparr> @ take cl (drop (i * TN_FRAG_CHUNK) p)"
    using frag_payload_eq [OF assms(1-4), of gid] by (simp_all add: fp)
  have "length (take (4 + cl) buf) = 4 + cl"
    unfolding cl(2) using frag_codec.encode_length [of "replicate 4 0"] frag_count_bounds(6) [OF assms(1,2,4)] assms(3) cl(1)
    by (simp add: config)
  then have pay: "fr_payload_len ?f = 4 + cl" "fr_payload ?f = Some buf" "4 + cl \<le> length buf"
    by (simp_all add: frag_frame_def fp data_frame_def config)
  then have pok: "payload_ok ?f" by (simp add: payload_ok_def)
  have "frame_fields_ok ?f"
    using assms(5-7) by (auto simp: frame_fields_ok_def frag_frame_def fp data_frame_def frame_zero_def config)
  from tn_frame_decode_wire [OF pok this, of rest] g
  have g': "g = ?f\<lparr>fr_payload := Some (frame_data ?f @ u16_bytes (crc16_ccitt_false (frame_body ?f)) @ rest)\<rparr>" by simp
  have data: "frame_data ?f = take (4 + cl) buf" using pay by (simp add: frame_data_def)
  have "fr_src g = nd_addr s" by (simp add: g' frag_frame_def fp data_frame_def)
  moreover have "fr_payload_len g = 4 + cl" using pay by (simp add: g')
  moreover have "payload_ok g" "frame_data g = take (4 + cl) buf"
    using pay(1,3) data length_frame_data [OF pok] by (simp_all add: g' payload_ok_def frame_data_def [of "_\<lparr>fr_payload := _\<rparr>"])
  ultimately show ?thesis by (simp add: carries_frag_def fp config)
qed

text \<open>
  Property C9: the fragments of a datagram, received in any order and with any number of repetitions before the last missing one, give the
  datagram back. Node \<open>s\<close> fragments the first \<open>len\<close> bytes of \<open>p\<close>; the receiver \<open>t\<close> has no slot for this datagram. Until the
  last missing fragment arrives the receiver changes its reassembly slots only; with it the application receives exactly
  these \<open>len\<close> bytes, once, and the slot is free again.
\<close>

theorem fragments_round_trip:
  assumes "0 < len" and "len \<le> TREENET_MAX_DATAGRAM" and "len \<le> length p"
    and "nd_addr s \<noteq> TREENET_ADDR_INVALID" and "nd_addr s \<noteq> TREENET_ADDR_BROADCAST" and "flood \<or> dst \<noteq> TREENET_ADDR_INVALID"
    and "nd_reasm t \<noteq> []" and "\<forall>r\<in>set (nd_reasm t). \<not> frag_match (nd_addr s) gid r"
    and "list_all2 (\<lambda>i ev. i < frag_count len \<and> (\<exists>seq. arrives_as (frag_frame s flood dst flags seq gid p len i) (fst ev))) js evs"
    and "i < frag_count len" and "arrives_as (frag_frame s flood dst flags seq gid p len i) f"
    and "i \<notin> set js" and "insert i (set js) = {..<frag_count len}"
  shows "\<exists>rs rs' k. feed t evs = t\<lparr>nd_reasm := rs\<rparr> \<and> feed t (evs @ [(f, rssi, snr, now)]) =
    reasm_finish (deliver_up (TN_STAT_INC st_datagrams_rx_update (t\<lparr>nd_reasm := rs'\<rparr>)) (nd_addr s) (take len p) rssi snr
      (TREENET_MAX_HOPS - fr_hop_limit f)) k"
proof (rule feed_all [OF assms(1-3,7,8) _ assms(10) _ assms(12,13)])
  show "list_all2 (\<lambda>i ev. i < frag_count len \<and> carries_frag (nd_addr s) gid p len i (fst ev)) js evs"
    using assms(9) by (rule list_all2_mono) (use arrives_carries [OF assms(1-3) _ assms(4-6)] in blast)
  show "carries_frag (nd_addr s) gid p len i f" by (rule arrives_carries [OF assms(1-3,10,4-6,11)])
qed

lemma frag_frame_arrives:
  assumes "nd_addr s \<noteq> TREENET_ADDR_INVALID" and "nd_addr s \<noteq> TREENET_ADDR_BROADCAST" and "flood \<or> dst \<noteq> TREENET_ADDR_INVALID"
    and "0 < len" and "len \<le> TREENET_MAX_DATAGRAM" and "len \<le> length p" and "i < frag_count len"
  shows "\<exists>g. arrives_as (frag_frame s flood dst flags seq gid p len i) g"
proof -
  let ?f = "frag_frame s flood dst flags seq gid p len i"
  have "payload_ok ?f"
    using frag_payload_eq(1) [OF assms(4-7), of gid] arg_cong [OF frag_payload_eq(2) [OF assms(4-7), of gid], of length]
      frag_codec.encode_length [of "replicate 4 0"] frag_count_bounds(6) [OF assms(4,5,7)] assms(6)
    by (auto simp: payload_ok_def frag_frame_def data_frame_def config split: prod.splits)
  moreover have "frame_fields_ok ?f"
    using assms(1-3) by (auto simp: frame_fields_ok_def frag_frame_def data_frame_def frame_zero_def config split: prod.splits)
  ultimately have "\<exists>g. tn_frame_decode (Some (frame_wire (?f\<lparr>fr_prev := fr_prev ?f, fr_hop_limit := fr_hop_limit ?f\<rparr>) @ []))
      (22 + fr_payload_len ?f) = Some g"
    using tn_frame_decode_wire [of ?f "[]"] by simp
  then show ?thesis unfolding arrives_as_def by blast
qed

theorem fragments_round_trip_witness:
  "\<exists>g0 g1 rs rs' k. feed (node_plain TREENET_ROLE_NODE 2 5000 (two_routers 5000)) [(g1, - 80, 5, 5000)] =
     (node_plain TREENET_ROLE_NODE 2 5000 (two_routers 5000))\<lparr>nd_reasm := rs\<rparr> \<and>
   feed (node_plain TREENET_ROLE_NODE 2 5000 (two_routers 5000)) ([(g1, - 80, 5, 5000)] @ [(g0, - 81, 4, 5010)]) =
     reasm_finish (deliver_up (TN_STAT_INC st_datagrams_rx_update
         ((node_plain TREENET_ROLE_NODE 2 5000 (two_routers 5000))\<lparr>nd_reasm := rs'\<rparr>)) 3 (replicate 200 7) (- 81) 4
       (TREENET_MAX_HOPS - fr_hop_limit g0)) k"
proof -
  let ?s = "node_plain TREENET_ROLE_NODE 3 5000 (two_routers 5000)" and ?t = "node_plain TREENET_ROLE_NODE 2 5000 (two_routers 5000)"
  let ?F = "\<lambda>i. frag_frame ?s False 2 TN_FLAG_FRAG 9 8 (replicate 200 7) 200 i"
  have c: "frag_count 200 = 2" by (simp add: frag_count_def config)
  have a: "\<exists>g. arrives_as (?F i) g" if "i < 2" for i
    using frag_frame_arrives [of ?s False 2 200 "replicate 200 7" i TN_FLAG_FRAG 9 8] that by (simp add: c config)
  obtain g0 g1 where g: "arrives_as (?F 0) g0" "arrives_as (?F 1) g1" using a [of 0] a [of 1] by auto
  have r: "nd_reasm ?t = replicate TREENET_REASSEMBLY_SLOTS reasm_zero" by (simp add: node_plain_def node_cleared_def)
  have "\<exists>rs rs' k. feed ?t [(g1, - 80, 5, 5000)] = ?t\<lparr>nd_reasm := rs\<rparr> \<and> feed ?t ([(g1, - 80, 5, 5000)] @ [(g0, - 81, 4, 5010)]) =
     reasm_finish (deliver_up (TN_STAT_INC st_datagrams_rx_update (?t\<lparr>nd_reasm := rs'\<rparr>)) (nd_addr ?s) (take 200 (replicate 200 7)) (- 81) 4
       (TREENET_MAX_HOPS - fr_hop_limit g0)) k"
    using g by (intro fragments_round_trip [where s = ?s and flood = False and dst = 2 and flags = TN_FLAG_FRAG and gid = 8 and i = 0 and seq = 9 and js = "[1]"])
      (auto simp: c r frag_match_def reasm_zero_def config)
  then show ?thesis by simp blast
qed

end
