(* ===== verification/Tn_NodeInv.thy ===== *)
theory Tn_NodeInv
  imports Tn_Parent Tn_Reasm
begin

text \<open>
  The invariant of a node instance, and that every operation of the library preserves it: the
  tables, queues and rings are well formed, the position in the tree is consistent, and every
  occupied transmit slot holds a complete frame of this node. The invariant carries a
  predicate \<open>Q\<close> on the environment: if the port functions and the application keep \<open>Q\<close>, and
  transmitting a frame of this node keeps \<open>Q\<close>, then every operation keeps \<open>Q\<close>. This is how
  properties of what a node transmits are stated.
\<close>

section \<open>The invariant\<close>

text \<open>A complete frame of the node with address \<open>addr\<close>, as its neighbours decode it.\<close>

definition wire_ok :: "treenet_addr_t \<Rightarrow> u16 \<Rightarrow> u8 list \<Rightarrow> bool" where
  "wire_ok addr net bs \<longleftrightarrow> length bs \<le> TREENET_MTU \<and>
     (case tn_frame_decode (Some bs) (length bs) of
        None \<Rightarrow> False
      | Some f \<Rightarrow> fr_prev f = addr \<and> fr_net_id f = net)"

definition tx_slot_ok :: "treenet_addr_t \<Rightarrow> u16 \<Rightarrow> tn_tx_slot_t \<Rightarrow> bool" where
  "tx_slot_ok addr net s \<longleftrightarrow> length (tx_buf s) = TREENET_MTU \<and>
     (tx_valid s \<longrightarrow> unat (tx_len s) \<le> TREENET_MTU \<and> tx_attempts s \<le> TREENET_MAX_RETRIES \<and> (\<not> tx_reliable s \<longrightarrow> tx_attempts s = 0) \<and>
        wire_ok addr net (take (unat (tx_len s)) (tx_buf s)))"

definition txq_ok :: "treenet_addr_t \<Rightarrow> u16 \<Rightarrow> tn_tx_slot_t list \<Rightarrow> bool" where
  "txq_ok addr net ss \<longleftrightarrow> length ss = TREENET_TX_QUEUE_SIZE \<and> list_all (tx_slot_ok addr net) ss"

definition neighbors_inv :: "treenet_addr_t \<Rightarrow> tn_neighbor_table_t \<Rightarrow> bool" where
  "neighbors_inv addr tbl \<longleftrightarrow> neighbors_ok tbl \<and>
     neighbor_look tbl TREENET_ADDR_INVALID = None \<and> neighbor_look tbl addr = None"

definition routes_inv :: "treenet_addr_t \<Rightarrow> tn_route_table_t \<Rightarrow> bool" where
  "routes_inv addr rt \<longleftrightarrow> route_wf rt \<and>
     (\<forall>dst r. route_look rt dst = Some r \<longrightarrow>
        dst \<noteq> TREENET_ADDR_INVALID \<and> dst \<noteq> TREENET_ADDR_BROADCAST \<and> dst \<noteq> addr \<and>
        rt_next_hop r \<noteq> TREENET_ADDR_INVALID \<and> rt_next_hop r \<noteq> TREENET_ADDR_BROADCAST)"

definition rx_ok :: "tn_ringbuf_t \<Rightarrow> bool" where
  "rx_ok rb \<longleftrightarrow> (\<exists>rs. ring_repr rb rs \<and> list_all rec_fits rs)"

definition tree_ok :: "treenet_role_t \<Rightarrow> treenet_addr_t \<Rightarrow> u16 \<Rightarrow> treenet_addr_t \<Rightarrow> bool \<Rightarrow> bool" where
  "tree_ok role addr rank parent connected \<longleftrightarrow>
     (if role = TREENET_ROLE_MASTER then rank = 0 \<and> parent = TREENET_ADDR_INVALID \<and> connected
      else parent \<noteq> addr \<and> (connected \<longleftrightarrow> parent \<noteq> TREENET_ADDR_INVALID) \<and> (connected \<longleftrightarrow> rank \<noteq> TREENET_RANK_INFINITE))"

text \<open>
  Callbacks and port functions that keep \<open>Q\<close>. A callback hands over data that is as long
  as it says.
\<close>

primrec app_ok :: "('w \<Rightarrow> bool) \<Rightarrow> 'w app \<Rightarrow> bool" where
  "app_ok Q App_done \<longleftrightarrow> True"
| "app_ok Q (App_world f k) \<longleftrightarrow> (\<forall>w. Q w \<longrightarrow> Q (f w)) \<and> (\<forall>w. app_ok Q (k w))"
| "app_ok Q (App_send dst data len k) \<longleftrightarrow> (\<forall>p. data = Some p \<longrightarrow> len \<le> length p) \<and> (\<forall>rc. app_ok Q (k rc))"
| "app_ok Q (App_broadcast data len k) \<longleftrightarrow> (\<forall>p. data = Some p \<longrightarrow> len \<le> length p) \<and> (\<forall>rc. app_ok Q (k rc))"
| "app_ok Q (App_view k) \<longleftrightarrow> (\<forall>v. app_ok Q (k v))"

definition cfg_ok :: "('w \<Rightarrow> bool) \<Rightarrow> 'w treenet_config_t \<Rightarrow> bool" where
  "cfg_ok Q cfg \<longleftrightarrow>
     (\<forall>g src data rssi snr hops. cf_on_recv cfg = Some g \<longrightarrow> app_ok Q (g src data rssi snr hops)) \<and>
     (\<forall>g ev arg. cf_on_event cfg = Some g \<longrightarrow> app_ok Q (g ev arg))"

definition port_ok :: "('w \<Rightarrow> bool) \<Rightarrow> treenet_addr_t \<Rightarrow> u16 \<Rightarrow> 'w treenet_port_t \<Rightarrow> bool" where
  "port_ok Q addr net port \<longleftrightarrow>
     (\<forall>f bs w. po_tx port = Some f \<and> wire_ok addr net bs \<and> Q w \<longrightarrow> Q (snd (f bs w))) \<and>
     (\<forall>f w. po_now_ms port = Some f \<and> Q w \<longrightarrow> Q (snd (f w))) \<and>
     (\<forall>f w. po_rnd port = Some f \<and> Q w \<longrightarrow> Q (snd (f w))) \<and>
     (\<forall>f w. po_channel_free port = Some f \<and> Q w \<longrightarrow> Q (snd (f w))) \<and>
     (\<forall>f level msg w. po_log port = Some f \<and> Q w \<longrightarrow> Q (f level msg w)) \<and>
     (\<forall>f d w. po_timer_arm port = Some f \<and> Q w \<longrightarrow> Q (f d w))"

definition node_inv :: "('w \<Rightarrow> bool) \<Rightarrow> 'w treenet \<Rightarrow> bool" where
  "node_inv Q t \<longleftrightarrow>
     nd_addr t \<noteq> TREENET_ADDR_INVALID \<and> nd_addr t \<noteq> TREENET_ADDR_BROADCAST \<and>
     port_ok Q (nd_addr t) (nd_net_id t) (nd_port t) \<and> cfg_ok Q (nd_cfg t) \<and> Q (nd_env t) \<and>
     neighbors_inv (nd_addr t) (nd_neighbors t) \<and> routes_inv (nd_addr t) (nd_routes t) \<and> dupcache_wf (nd_dup t) \<and>
     rx_ok (nd_rx t) \<and> txq_ok (nd_addr t) (nd_net_id t) (nd_tx t) \<and> reasm_ok (nd_reasm t) \<and>
     eventq_wf (nd_events t) \<and>
     TREENET_BEACON_MIN_MS \<le> nd_trickle_I t \<and> nd_trickle_I t \<le> TREENET_BEACON_MAX_MS \<and>
     tree_ok (nd_role t) (nd_addr t) (nd_rank t) (nd_parent t) (nd_connected t)"

lemma node_invD:
  assumes "node_inv Q t"
  shows "nd_addr t \<noteq> TREENET_ADDR_INVALID" and "nd_addr t \<noteq> TREENET_ADDR_BROADCAST"
    and "port_ok Q (nd_addr t) (nd_net_id t) (nd_port t)" and "cfg_ok Q (nd_cfg t)" and "Q (nd_env t)"
    and "neighbors_inv (nd_addr t) (nd_neighbors t)" and "routes_inv (nd_addr t) (nd_routes t)" and "dupcache_wf (nd_dup t)"
    and "rx_ok (nd_rx t)" and "txq_ok (nd_addr t) (nd_net_id t) (nd_tx t)" and "reasm_ok (nd_reasm t)"
    and "eventq_wf (nd_events t)"
    and "TREENET_BEACON_MIN_MS \<le> nd_trickle_I t" and "nd_trickle_I t \<le> TREENET_BEACON_MAX_MS"
    and "tree_ok (nd_role t) (nd_addr t) (nd_rank t) (nd_parent t) (nd_connected t)"
  using assms by (simp_all add: node_inv_def)

text \<open>The invariant does not depend on the predicate on the environment.\<close>

lemma node_inv_change:
  assumes "node_inv Q t" and "port_ok P (nd_addr t) (nd_net_id t) (nd_port t)" and "cfg_ok P (nd_cfg t)" and "P (nd_env t)"
  shows "node_inv P t"
  using assms by (simp add: node_inv_def)

lemma app_ok_weaken: "app_ok Q a \<Longrightarrow> app_ok (\<lambda>_. True) a"
  by (induction a) simp_all

lemma cfg_ok_weaken: "cfg_ok Q cfg \<Longrightarrow> cfg_ok (\<lambda>_. True) cfg"
  unfolding cfg_ok_def using app_ok_weaken by blast

lemma node_inv_weaken: "node_inv Q t \<Longrightarrow> node_inv (\<lambda>_. True) t"
  using cfg_ok_weaken [OF node_invD(4)] by (simp add: node_inv_def port_ok_def)

text \<open>Fields the invariant does not depend on, and what an assignment to another field must give.\<close>

lemma node_inv_update [simp]:
  "node_inv Q (nd_now_ms_update g t) = node_inv Q t" "node_inv Q (nd_seq_update g' t) = node_inv Q t"
  "node_inv Q (nd_parent_rank_update g1 t) = node_inv Q t" "node_inv Q (nd_parent_since_update g2 t) = node_inv Q t"
  "node_inv Q (nd_parent_beacon_ms_update g3 t) = node_inv Q t" "node_inv Q (nd_joined_update g4 t) = node_inv Q t"
  "node_inv Q (nd_dao_last_ms_update g5 t) = node_inv Q t" "node_inv Q (nd_probe_last_ms_update g6 t) = node_inv Q t"
  "node_inv Q (nd_beacon_timer_update g7 t) = node_inv Q t" "node_inv Q (nd_stats_update g8 t) = node_inv Q t"
  "node_inv Q (TN_STAT_INC fld t) = node_inv Q t" "node_inv Q (TN_STAT_ADD fld' d t) = node_inv Q t"
  by (simp_all add: node_inv_def TN_STAT_INC_def TN_STAT_ADD_def)

lemma node_inv_assign [simp, tn_inv]:
  assumes "node_inv Q t"
  shows "Q w \<Longrightarrow> node_inv Q (t\<lparr>nd_env := w\<rparr>)"
    and "neighbors_inv (nd_addr t) tbl \<Longrightarrow> node_inv Q (t\<lparr>nd_neighbors := tbl\<rparr>)"
    and "routes_inv (nd_addr t) rt \<Longrightarrow> node_inv Q (t\<lparr>nd_routes := rt\<rparr>)"
    and "dupcache_wf c \<Longrightarrow> node_inv Q (t\<lparr>nd_dup := c\<rparr>)"
    and "rx_ok rb \<Longrightarrow> node_inv Q (t\<lparr>nd_rx := rb\<rparr>)"
    and "txq_ok (nd_addr t) (nd_net_id t) ss \<Longrightarrow> node_inv Q (t\<lparr>nd_tx := ss\<rparr>)"
    and "reasm_ok rs \<Longrightarrow> node_inv Q (t\<lparr>nd_reasm := rs\<rparr>)"
    and "eventq_wf q \<Longrightarrow> node_inv Q (t\<lparr>nd_events := q\<rparr>)"
    and "TREENET_BEACON_MIN_MS \<le> i \<Longrightarrow> i \<le> TREENET_BEACON_MAX_MS \<Longrightarrow> node_inv Q (t\<lparr>nd_trickle_I := i\<rparr>)"
  using assms by (simp_all add: node_inv_def)

section \<open>Port calls and events\<close>

lemma port_calls_inv [simp, tn_inv]:
  assumes "node_inv Q t"
  shows "node_inv Q (snd (port_rnd t))" and "node_inv Q (snd (port_now_ms t))"
    and "node_inv Q (snd (port_channel_free t))" and "node_inv Q (port_timer_arm t d)" and "node_inv Q (tn_log t level msg)"
  using assms node_invD(3,5) [OF assms]
  by (auto simp: port_rnd_def port_now_ms_def port_channel_free_def port_timer_arm_def tn_log_def port_ok_def Let_def
      case_prod_unfold split: option.splits)

lemma port_tx_inv [tn_inv]:
  assumes "node_inv Q t" and "wire_ok (nd_addr t) (nd_net_id t) (take len buf)"
  shows "node_inv Q (snd (port_tx t buf len))"
  using assms node_invD(3,5) [OF assms(1)]
  by (auto simp: port_tx_def port_ok_def Let_def case_prod_unfold split: option.splits)

lemma tn_next_seq_inv [simp, tn_inv]: "node_inv Q (snd (tn_next_seq t)) = node_inv Q t"
  by (simp add: tn_next_seq_def)

lemma tn_emit_event_inv [simp, tn_inv]: "node_inv Q t \<Longrightarrow> node_inv Q (tn_emit_event t ev arg)"
  by (simp add: tn_emit_event_def node_invD)

section \<open>The transmit queue\<close>

definition frame_ok :: "u16 \<Rightarrow> tn_frame_t \<Rightarrow> bool" where
  "frame_ok net f \<longleftrightarrow> frame_fields_ok f \<and> payload_ok f \<and> fr_net_id f = net"

lemma frame_ok_stamp: "frame_ok net f \<Longrightarrow> frame_ok net (f\<lparr>fr_prev := a\<rparr>)"
  by (simp add: frame_ok_def frame_fields_ok_def payload_ok_def split: option.splits)

lemma frame_ok_hop [simp]: "frame_ok net (f\<lparr>fr_hop_limit := h\<rparr>) = frame_ok net f"
  by (simp add: frame_ok_def frame_fields_ok_def payload_ok_def split: option.split)

lemma length_put_bytes_max: "length (put_bytes buf 0 bs) = max (length buf) (length bs)"
  by (simp add: put_bytes_def max_def)

lemma wire_ok_encoded:
  assumes "frame_ok net f" and "fr_prev f = addr" and "length buf = TREENET_MTU"
    and "tn_frame_encode buf TREENET_MTU f = (len, buf')" and "len \<noteq> 0"
  shows "wire_ok addr net (take len buf')" and "length buf' = TREENET_MTU" and "len \<le> TREENET_MTU"
proof -
  have pok: "payload_ok f" and fok: "frame_fields_ok f" using assms(1) by (simp_all add: frame_ok_def)
  have fits: "22 + fr_payload_len f \<le> min TREENET_MTU TREENET_MTU"
    using assms(4,5) tn_frame_encode_fail [of TREENET_MTU f buf] by (cases "22 + fr_payload_len f > TREENET_MTU") auto
  have len: "len = 22 + fr_payload_len f" and buf': "buf' = put_bytes buf 0 (frame_wire f)"
    using tn_frame_encode_wire [OF pok fits, of buf] assms(3,4) by auto
  have wire: "length (frame_wire f) = len" by (simp add: frame_wire_def length_frame_body [OF pok] len)
  show "len \<le> TREENET_MTU" using fits len by simp
  show "length buf' = TREENET_MTU" using fits assms(3) by (simp add: buf' length_put_bytes_max wire len)
  have "take len buf' = frame_wire f" using wire by (simp add: buf' put_bytes_def)
  moreover have "tn_frame_decode (Some (frame_wire f)) (length (frame_wire f)) =
      Some (f\<lparr>fr_payload := Some (frame_data f @ u16_bytes (crc16_ccitt_false (frame_body f)))\<rparr>)"
    using tn_frame_decode_wire [OF pok fok, of "[]"] by (simp add: wire len)
  ultimately show "wire_ok addr net (take len buf')"
    using assms(1,2) wire fits len by (simp add: wire_ok_def frame_ok_def)
qed

lemma encode_length:
  assumes "frame_ok net f" and "length buf = TREENET_MTU"
  shows "length (snd (tn_frame_encode buf TREENET_MTU f)) = TREENET_MTU"
proof (cases "fst (tn_frame_encode buf TREENET_MTU f) = 0")
  case True
  have "22 + fr_payload_len f > min TREENET_MTU TREENET_MTU"
    using True tn_frame_encode_wire [of f TREENET_MTU buf] assms by (force simp: frame_ok_def)
  then show ?thesis using tn_frame_encode_fail [of TREENET_MTU f buf] assms(2) by simp
next
  case False
  then show ?thesis
    using wire_ok_encoded(2) [OF assms(1) refl assms(2), of "fst (tn_frame_encode buf TREENET_MTU f)"] by simp
qed

lemma txq_ok_update [tn_inv]:
  "txq_ok addr net ss \<Longrightarrow> tx_slot_ok addr net s \<Longrightarrow> txq_ok addr net (ss[i := s])"
  by (simp add: txq_ok_def list_all_update)

lemma txq_ok_nth: "txq_ok addr net ss \<Longrightarrow> i < TREENET_TX_QUEUE_SIZE \<Longrightarrow> tx_slot_ok addr net (ss ! i)"
  by (simp add: txq_ok_def list_all_length)

lemma tx_slot_ok_invalid: "tx_slot_ok addr net s \<Longrightarrow> tx_slot_ok addr net (s\<lparr>tx_valid := False\<rparr>)"
  by (simp add: tx_slot_ok_def)

lemma tn_tx_submit_inv [tn_inv]:
  assumes "node_inv Q t" and "frame_ok (nd_net_id t) f"
  shows "node_inv Q (snd (tn_tx_submit t f reliable nh d))"
proof (cases "find_index (\<lambda>s. \<not> tx_valid s) (nd_tx t)")
  case None
  then show ?thesis using assms(1) unfolding tn_tx_submit_def None by simp
next
  case (Some i)
  let ?s = "nd_tx t ! i" and ?f = "f\<lparr>fr_prev := nd_addr t\<rparr>"
  have q: "txq_ok (nd_addr t) (nd_net_id t) (nd_tx t)" using node_invD(10) [OF assms(1)] .
  have i: "i < TREENET_TX_QUEUE_SIZE" and free: "\<not> tx_valid ?s"
    using Some q by (auto simp: find_index_Some_iff txq_ok_def)
  have s: "tx_slot_ok (nd_addr t) (nd_net_id t) ?s" using txq_ok_nth [OF q i] .
  then have buf: "length (tx_buf ?s) = TREENET_MTU" by (simp add: tx_slot_ok_def)
  have ok: "frame_ok (nd_net_id t) ?f" using frame_ok_stamp [OF assms(2)] .
  obtain len buf' where enc: "tn_frame_encode (tx_buf ?s) TREENET_MTU ?f = (len, buf')" by fastforce
  have len': "length buf' = TREENET_MTU" using encode_length [OF ok buf] enc by simp
  show ?thesis
  proof (cases "len = 0")
    case True
    then show ?thesis
      using assms(1) q free len'
      by (simp add: tn_tx_submit_def Some enc txq_ok_update tx_slot_ok_def)
  next
    case False
    note w = wire_ok_encoded [OF ok _ buf enc False, of "nd_addr t"]
    have "unat (of_nat len :: u16) = len" using w(3) by (simp add: config unat_of_nat_lt)
    then have new: "tx_slot_ok (nd_addr t) (nd_net_id t) (?s\<lparr>tx_buf := buf', tx_valid := True, tx_len := of_nat len,
        tx_reliable := reliable, tx_attempts := 0, tx_ack_dst := ad, tx_ack_seq := aseq, tx_next_tx_ms := x\<rparr>)" for ad aseq x
      using w by (simp add: tx_slot_ok_def)
    have "node_inv Q (snd (port_rnd t))" using assms(1) by simp
    then show ?thesis
      using q False by (simp add: tn_tx_submit_def Some enc Let_def case_prod_unfold txq_ok_update new)
  qed
qed

section \<open>Tables\<close>

lemma neighbors_inv_wf: "neighbors_inv addr tbl \<Longrightarrow> neighbor_wf tbl"
  by (simp add: neighbors_inv_def neighbors_ok_def)

lemma neighbor_upsert_dom:
  assumes "neighbor_wf tbl" and "keeps_key f" and "k \<noteq> a" and "neighbor_look tbl k = None"
  shows "neighbor_look (neighbor_upsert tbl a now f) k = None"
  using assms neighbor_upsert_found(2) [OF assms(1) _ assms(2), of a] neighbor_upsert_new(2) [OF assms(1) _ assms(2), of a now]
  by (cases "neighbor_look tbl a") auto

lemma neighbors_inv_note [simp, tn_inv]:
  assumes "neighbors_inv addr tbl" and "a \<noteq> TREENET_ADDR_INVALID" and "a \<noteq> addr"
  shows "neighbors_inv addr (tn_neighbor_note_frame tbl a rssi snr now)"
    and "neighbors_inv addr (tn_neighbor_note_beacon tbl a rank parent flags ivl rssi snr now)"
  using assms neighbors_ok_note [of tbl] neighbors_inv_wf [OF assms(1)]
  unfolding neighbors_inv_def by (auto simp: note_frame_upsert note_beacon_upsert neighbor_upsert_dom)

lemma neighbors_inv_update [tn_inv]:
  assumes "neighbors_inv addr tbl" and "i < length (nt_entries tbl)" and "ne_valid (nt_entries tbl ! i)"
    and "keeps_key f" and "neighbor_ok (nt_entries tbl ! i) \<Longrightarrow> neighbor_ok (f (nt_entries tbl ! i))"
  shows "neighbors_inv addr (nt_update tbl i f)"
proof -
  let ?n = "nt_entries tbl ! i"
  note k = nt_update_keep [OF neighbors_inv_wf [OF assms(1)] assms(2-4)]
  have "neighbor_look tbl (ne_addr ?n) = Some ?n"
    using valid_entry_iff [OF neighbors_inv_wf [OF assms(1)], of ?n] assms(2,3) nth_mem by blast
  moreover have "neighbor_ok (f ?n)" using assms(1,2,5) by (simp add: neighbors_inv_def neighbors_ok_def list_all_length)
  then have "list_all neighbor_ok (nt_entries (nt_update tbl i f))"
    using assms(1) by (simp add: nt_update_def list_all_update neighbors_inv_def neighbors_ok_def)
  ultimately show ?thesis using assms(1) k by (auto simp: neighbors_inv_def neighbors_ok_def)
qed

lemma neighbor_zero_valid [simp]: "\<not> ne_valid neighbor_zero"
  by (simp add: neighbor_zero_def)

lemma neighbors_inv_remove [tn_inv]:
  assumes "neighbors_inv addr tbl" and "i < TREENET_MAX_NEIGHBORS" and "ne_valid (nt_entries tbl ! i)"
  shows "neighbors_inv addr (tbl\<lparr>nt_entries := (nt_entries tbl)[i := neighbor_zero], nt_count := nt_count tbl - 1\<rparr>)"
    and "0 < nt_count tbl"
proof -
  note wf = neighbors_inv_wf [OF assms(1)]
  note r = slots_remove [OF wf [unfolded neighbor_wf_def] assms(2,3), of neighbor_zero]
  then show "0 < nt_count tbl" by simp
  show "neighbors_inv addr (tbl\<lparr>nt_entries := (nt_entries tbl)[i := neighbor_zero], nt_count := nt_count tbl - 1\<rparr>)"
    using r assms(1) by (simp add: neighbors_inv_def neighbors_ok_def neighbor_wf_def neighbor_look_def neighbor_zero_valid list_all_update)
qed

lemma neighbors_inv_find:
  assumes "neighbors_inv addr tbl" and "tn_neighbor_find tbl a = Some i"
  shows "i < length (nt_entries tbl)" and "ne_valid (nt_entries tbl ! i)" and "ne_addr (nt_entries tbl ! i) = a"
    and "a \<noteq> TREENET_ADDR_INVALID" and "a \<noteq> addr"
  using assms tn_neighbor_find_SomeD [OF assms(2)] by (auto simp: neighbors_inv_def tn_neighbor_find_look)

lemma neighbors_inv_entry:
  assumes "neighbors_inv addr tbl" and "n \<in> set (nt_entries tbl)" and "ne_valid n"
  shows "ne_addr n \<noteq> TREENET_ADDR_INVALID" and "ne_addr n \<noteq> addr"
  using assms valid_entry_iff [OF neighbors_inv_wf [OF assms(1)], of n] by (auto simp: neighbors_inv_def)

text \<open>Adding a route, dropping routes.\<close>

lemma routes_inv_sub:
  assumes "routes_inv addr rt" and "route_wf rt'" and "\<And>d r. route_look rt' d = Some r \<Longrightarrow> route_look rt d = Some r"
  shows "routes_inv addr rt'"
  using assms unfolding routes_inv_def by blast

lemma routes_inv_clean [simp, tn_inv]:
  assumes "routes_inv addr rt"
  shows "routes_inv addr (snd (tn_route_remove_via rt nh))" and "routes_inv addr (snd (tn_route_expire rt now timeout))"
    and "routes_inv addr (snd (tn_route_lookup rt dst now timeout))"
proof -
  have wf: "route_wf rt" using assms by (simp add: routes_inv_def)
  have drop: "routes_inv addr (snd (route_drop P rt))" if "\<And>r. P r \<Longrightarrow> rt_valid r" for P
    using route_drop_spec(2,3) [where P = P, OF wf that]
    by (intro routes_inv_sub [OF assms]) (auto split: option.splits if_splits)
  show "routes_inv addr (snd (tn_route_remove_via rt nh))" "routes_inv addr (snd (tn_route_expire rt now timeout))"
    unfolding tn_route_remove_via_def tn_route_expire_def by (rule drop; simp)+
  show "routes_inv addr (snd (tn_route_lookup rt dst now timeout))"
    using tn_route_lookup_spec [OF wf, of dst now timeout]
    by (intro routes_inv_sub [OF assms]) (auto simp: wf split: option.splits if_splits)
qed

lemma routes_inv_add [tn_inv]:
  assumes "routes_inv addr rt" and "dst \<noteq> TREENET_ADDR_INVALID" "dst \<noteq> TREENET_ADDR_BROADCAST" "dst \<noteq> addr"
    and "nh \<noteq> TREENET_ADDR_INVALID" "nh \<noteq> TREENET_ADDR_BROADCAST"
  shows "routes_inv addr (snd (tn_route_add rt dst nh cost hops now))"
proof -
  have wf: "route_wf rt" using assms(1) by (simp add: routes_inv_def)
  then have "route_look rt d = Some r \<or> d = dst \<and> r = route_entry dst nh cost hops now"
    if "route_look (snd (tn_route_add rt dst nh cost hops now)) d = Some r" for d r
    using that route_add_found(2) [OF wf, of dst] route_add_new(2) [OF wf, of dst nh cost hops now]
    by (cases "route_look rt dst") (auto split: if_splits)
  then show ?thesis using assms route_add_wf [OF wf] unfolding routes_inv_def by fastforce
qed

section \<open>Beacons\<close>

lemma beacon_schedule_inv [simp, tn_inv]: "node_inv Q t \<Longrightarrow> node_inv Q (beacon_schedule t now)"
  by (simp add: beacon_schedule_def Let_def case_prod_unfold)

lemma tn_beacon_reset_inv [simp, tn_inv]: "node_inv Q t \<Longrightarrow> node_inv Q (tn_beacon_reset t now)"
  by (simp add: tn_beacon_reset_def) (simp add: config)

lemma length_put [simp]:
  "off + 2 \<le> length buf \<Longrightarrow> length (tn_put_u16 buf off v) = length buf"
  "off + 4 \<le> length buf \<Longrightarrow> length (tn_put_u32 buf off w) = length buf"
  by (auto simp: tn_put_u16_def tn_put_u32_def put_bytes_def)

lemma control_frames_ok:
  assumes "node_inv Q t"
  shows "frame_ok (nd_net_id t) (beacon_frame t seq)" and "frame_ok (nd_net_id t) (probe_frame t seq)"
    and "to \<noteq> TREENET_ADDR_INVALID \<Longrightarrow> frame_ok (nd_net_id t) (ack_frame t to seq)"
    and "nd_parent t \<noteq> TREENET_ADDR_INVALID \<Longrightarrow> origin \<noteq> TREENET_ADDR_INVALID \<Longrightarrow> origin \<noteq> TREENET_ADDR_BROADCAST \<Longrightarrow>
      frame_ok (nd_net_id t) (dao_frame t origin hops seq)"
  using node_invD(1,2) [OF assms]
  by (simp_all add: frame_ok_def frame_fields_ok_def payload_ok_def beacon_frame_def probe_frame_def ack_frame_def
      dao_frame_def tn_beacon_encode_def tn_dao_encode_def Let_def config frame_zero_def)

lemma tn_beacon_send_inv [simp, tn_inv]:
  assumes "node_inv Q t"
  shows "node_inv Q (tn_beacon_send t now)"
proof -
  let ?t = "snd (tn_next_seq t)"
  have t: "node_inv Q ?t" using assms by simp
  have s: "node_inv Q (snd (tn_tx_submit ?t (beacon_frame ?t seq) False TREENET_ADDR_BROADCAST 0))" for seq
    using tn_tx_submit_inv [OF t control_frames_ok(1) [OF t]] .
  have i: "TREENET_BEACON_MIN_MS \<le> nd_trickle_I t" "nd_trickle_I t \<le> TREENET_BEACON_MAX_MS" using node_invD(13,14) [OF assms] .
  then have "unat (nd_trickle_I t * 2) = 2 * unat (nd_trickle_I t)"
    by (simp add: unat_word_ariths word_le_nat_alt config)
  then have "TREENET_BEACON_MIN_MS \<le> nd_trickle_I t * 2" using i(1) by (simp add: word_le_nat_alt)
  then have next': "TREENET_BEACON_MIN_MS \<le> (if nd_trickle_I t * 2 > TREENET_BEACON_MAX_MS then TREENET_BEACON_MAX_MS else nd_trickle_I t * 2)"
      "(if nd_trickle_I t * 2 > TREENET_BEACON_MAX_MS then TREENET_BEACON_MAX_MS else nd_trickle_I t * 2) \<le> TREENET_BEACON_MAX_MS"
    by (simp_all add: config not_less)
  show ?thesis
    using s next' unfolding tn_beacon_send_def Let_def case_prod_unfold by (simp add: if_distrib [of nd_trickle_I] cong: if_cong)
qed

lemma tn_beacon_tick_inv [simp, tn_inv]: "node_inv Q t \<Longrightarrow> node_inv Q (tn_beacon_tick t now)"
  by (simp add: tn_beacon_tick_def Let_def case_prod_unfold)

section \<open>Routing\<close>

lemma tn_dao_send_inv [simp, tn_inv]:
  assumes "node_inv Q t"
  shows "node_inv Q (tn_dao_send t now)"
proof -
  let ?t = "snd (tn_next_seq t)"
  have t: "node_inv Q ?t" using assms by simp
  have "node_inv Q (snd (tn_tx_submit ?t (dao_frame ?t (nd_addr ?t) 0 seq) True nh 0))"
    if "nd_parent t \<noteq> TREENET_ADDR_INVALID" for seq nh
    using tn_tx_submit_inv [OF t control_frames_ok(4) [OF t]] node_invD(1,2) [OF t] that by simp
  then show ?thesis using assms by (simp add: tn_dao_send_def Let_def case_prod_unfold)
qed

lemma tn_dao_handle_inv [simp, tn_inv]:
  assumes "node_inv Q t"
  shows "node_inv Q (snd (tn_dao_handle t f now))"
proof (cases "tn_dao_decode (fr_payload f) (fr_payload_len f)")
  case None
  then show ?thesis using assms by (simp add: tn_dao_handle_def)
next
  case (Some d)
  show ?thesis
  proof (cases "da_origin d = TREENET_ADDR_INVALID \<or> da_origin d = TREENET_ADDR_BROADCAST \<or>
      da_hops d > TREENET_MAX_HOPS \<or> fr_prev f = TREENET_ADDR_INVALID \<or> fr_prev f = TREENET_ADDR_BROADCAST \<or> da_origin d = nd_addr t")
    case True
    then show ?thesis using assms by (auto simp: tn_dao_handle_def Some)
  next
    case False
    define x where "x = t\<lparr>nd_routes := snd (tn_route_add (nd_routes t) (da_origin d) (fr_prev f)
        (case tn_neighbor_find (nd_neighbors t) (fr_prev f) of
           Some i \<Rightarrow> ne_link_cost (nt_entries (nd_neighbors t) ! i) | None \<Rightarrow> 0) (da_hops d + 1) now)\<rparr>"
    have x: "node_inv Q x" and px: "nd_role x = nd_role t" "nd_parent x = nd_parent t"
      using assms False routes_inv_add [OF node_invD(7) [OF assms]] by (simp_all add: x_def)
    then have t: "node_inv Q (snd (tn_next_seq x))" by simp
    have "node_inv Q (snd (tn_tx_submit (snd (tn_next_seq x)) (dao_frame (snd (tn_next_seq x)) (da_origin d) hops seq) True nh 0))"
      if "nd_parent t \<noteq> TREENET_ADDR_INVALID" for hops seq nh
      using tn_tx_submit_inv [OF t control_frames_ok(4) [OF t], of "da_origin d"] False that px by simp
    then show ?thesis
      using assms x px False
      unfolding tn_dao_handle_def Some option.case Let_def x_def [symmetric] case_prod_unfold by simp
  qed
qed

lemma node_inv_tree [tn_inv]:
  assumes "node_inv Q t" and "tree_ok (nd_role t) (nd_addr t) r p c"
  shows "node_inv Q (t\<lparr>nd_rank := r, nd_parent := p, nd_connected := c\<rparr>)"
    and "node_inv Q (t\<lparr>nd_parent := p, nd_rank := r, nd_connected := c\<rparr>)"
    and "node_inv Q (t\<lparr>nd_parent := p, nd_rank := r, nd_parent_since := s, nd_parent_beacon_ms := b, nd_connected := c\<rparr>)"
  using assms by (simp_all add: node_inv_def)

lemma routing_set_parent_inv [tn_inv]:
  assumes "node_inv Q t" and "nd_role t \<noteq> TREENET_ROLE_MASTER" and "p \<noteq> TREENET_ADDR_INVALID" and "p \<noteq> nd_addr t"
    and "r \<noteq> TREENET_RANK_INFINITE"
  shows "node_inv Q (routing_set_parent t p r now)"
proof -
  define x where
    "x = t\<lparr>nd_parent := p, nd_rank := r, nd_parent_since := now, nd_parent_beacon_ms := now, nd_connected := True\<rparr>"
  have "node_inv Q x" unfolding x_def using assms by (intro node_inv_tree(3)) (simp_all add: tree_ok_def)
  then show ?thesis unfolding routing_set_parent_def Let_def x_def [symmetric] by simp
qed

lemma candidate_addr:
  assumes "node_inv Q t" and "candidate t n"
  shows "ne_addr n \<noteq> TREENET_ADDR_INVALID" and "ne_addr n \<noteq> nd_addr t" and "cand n \<noteq> TREENET_RANK_INFINITE"
  using neighbors_inv_entry [OF node_invD(6) [OF assms(1)], of n] assms(2)
  by (auto simp: candidate_def neighbor_usable_def neighbor_fresh_def)

lemma tn_routing_select_parent_inv [simp, tn_inv]:
  assumes "node_inv Q t"
  shows "node_inv Q (snd (tn_routing_select_parent t now))"
proof (cases "nd_role t = TREENET_ROLE_MASTER")
  case True
  then have "node_inv Q (t\<lparr>nd_rank := 0, nd_parent := TREENET_ADDR_INVALID, nd_connected := True\<rparr>)"
    using assms by (intro node_inv_tree(1)) (simp_all add: tree_ok_def)
  then show ?thesis using True by (simp add: tn_routing_select_parent_def Let_def)
next
  case role: False
  obtain best r where b: "best_candidate t = (best, r)" by fastforce
  have set: "node_inv Q (routing_set_parent x (ne_addr (nt_entries (nd_neighbors t) ! k)) r now)"
    if "best = Some k" "node_inv Q x" "nd_role x = nd_role t" "nd_addr x = nd_addr t" for k x
    using best_candidate_Some [OF b [unfolded that(1)]] candidate_addr [OF assms] role that
    by (intro routing_set_parent_inv) auto
  show ?thesis
  proof (cases "\<exists>c. parent_alive t now c")
    case True
    then obtain c where c: "parent_alive t now c" by blast
    have "node_inv Q (t\<lparr>nd_rank := cand c\<rparr>)"
      using assms c role by (simp add: node_inv_def tree_ok_def parent_alive_def)
    then show ?thesis
      unfolding select_parent_alive [OF role c] b prod.case using set by (auto simp: Let_def split: option.split)
  next
    case False
    then have none: "\<And>c. \<not> parent_alive t now c" by blast
    have "node_inv Q (t\<lparr>nd_parent := TREENET_ADDR_INVALID, nd_rank := TREENET_RANK_INFINITE, nd_connected := False\<rparr>)"
      using assms node_invD(1) [OF assms] role by (intro node_inv_tree(2)) (auto simp: tree_ok_def)
    then show ?thesis
      unfolding select_parent_lost [OF role none] b prod.case using set assms by (auto split: option.split)
  qed
qed

lemma tn_routing_on_beacon_inv [simp, tn_inv]:
  assumes "node_inv Q t" and "src \<noteq> TREENET_ADDR_INVALID" and "src \<noteq> nd_addr t"
  shows "node_inv Q (tn_routing_on_beacon t src rank parent flags ivl rssi snr now)"
  using assms node_invD(6) [OF assms(1)] by (simp add: tn_routing_on_beacon_def Let_def)

lemma tn_routing_on_parent_lost_inv [simp, tn_inv]:
  assumes "node_inv Q t" and "nd_role t \<noteq> TREENET_ROLE_MASTER"
  shows "node_inv Q (tn_routing_on_parent_lost t now)"
proof -
  have lost: "node_inv Q (x\<lparr>nd_parent := TREENET_ADDR_INVALID, nd_rank := TREENET_RANK_INFINITE, nd_connected := False\<rparr>)"
    if "node_inv Q x" "nd_role x = nd_role t" for x
    using that assms(2) node_invD(1) [OF that(1)] by (intro node_inv_tree(2)) (auto simp: tree_ok_def)
  show ?thesis
    using assms(1) node_invD(7) [OF assms(1)] by (simp add: tn_routing_on_parent_lost_def Let_def lost)
qed

lemma tn_routing_tick_inv [simp, tn_inv]: "node_inv Q t \<Longrightarrow> node_inv Q (tn_routing_tick t now)"
  by (simp add: tn_routing_tick_def)

section \<open>Sending\<close>

lemma tn_route_next_hop_inv [simp, tn_inv]:
  "node_inv Q t \<Longrightarrow> node_inv Q (snd (tn_route_next_hop t dst))"
  using node_invD(7) [of Q t] by (auto simp: tn_route_next_hop_def Let_def case_prod_unfold split: option.split)

lemma data_frame_ok:
  assumes "node_inv Q t" and "\<not> flood \<Longrightarrow> dst \<noteq> TREENET_ADDR_INVALID" and "len \<le> length p"
  shows "frame_ok (nd_net_id t) (data_frame t flood dst flags seq p len)"
  using node_invD(1,2) [OF assms(1)] assms(2,3)
  by (auto simp: frame_ok_def frame_fields_ok_def payload_ok_def data_frame_def frame_zero_def config)

lemma length_frag_payload:
  "TN_FRAG_HDR_LEN + snd (frag_payload gid count p len i) \<le> length (fst (frag_payload gid count p len i))"
  by (auto simp: frag_payload_def Let_def tn_frag_encode_def memcpy_def put_bytes_def config)

lemma send_frags_inv [tn_inv]:
  assumes "node_inv Q t" and "\<not> flood \<Longrightarrow> dst \<noteq> TREENET_ADDR_INVALID"
  shows "node_inv Q (snd (send_frags flood dst reliable nh gid count p len is t))"
  using assms(1)
proof (induction "is" arbitrary: t)
  case (Cons i "is")
  let ?t = "snd (tn_next_seq t)"
  let ?f = "\<lambda>seq. data_frame ?t flood dst (TN_FLAG_FRAG OR (if reliable then TN_FLAG_WANT_ACK else 0)) seq
      (fst (frag_payload gid count p len i)) (TN_FRAG_HDR_LEN + snd (frag_payload gid count p len i))"
  have "node_inv Q (snd (tn_tx_submit ?t (?f seq) reliable nh 0))" for seq
    using data_frame_ok [of Q ?t flood dst _ "fst (frag_payload gid count p len i)"] assms(2) length_frag_payload Cons.prems
    by (intro tn_tx_submit_inv) auto
  then show ?case using Cons.IH by (simp add: Let_def case_prod_unfold)
qed simp

lemma tn_send_datagram_inv [tn_inv]:
  assumes "node_inv Q t" and "\<not> flood \<Longrightarrow> dst \<noteq> TREENET_ADDR_INVALID" and "\<And>p. data = Some p \<Longrightarrow> len \<le> length p"
  shows "node_inv Q (snd (tn_send_datagram t dst data len flood))"
proof (cases data)
  case None
  then show ?thesis using assms(1) by (simp add: tn_send_datagram_def)
next
  case (Some p)
  define x where "x = snd (if flood then (TREENET_ADDR_BROADCAST, t) else tn_route_next_hop t dst)"
  have x: "node_inv Q x" and y: "node_inv Q (snd (tn_next_seq x))" using assms(1) by (simp_all add: x_def)
  have single: "node_inv Q (snd (tn_tx_submit (snd (tn_next_seq x))
      (data_frame (snd (tn_next_seq x)) flood dst flags seq p len) reliable nh 0))" for flags seq reliable nh
    using tn_tx_submit_inv [OF y data_frame_ok [OF y assms(2)]] assms(3) [OF Some] by simp
  have frags: "node_inv Q (snd (send_frags flood dst reliable nh gid count p len is (snd (tn_next_seq x))))" for reliable nh gid count "is"
    using send_frags_inv [OF y assms(2)] by simp
  show ?thesis
    unfolding tn_send_datagram_def Some option.case Let_def case_prod_unfold x_def [symmetric]
    using assms(1) x single frags by (cases flood) simp_all
qed

lemma treenet_broadcast_node_inv [tn_inv]:
  assumes "node_inv Q t" and "\<And>p. data = Some p \<Longrightarrow> len \<le> length p"
  shows "node_inv Q (snd (treenet_broadcast_node t data len))"
  using tn_send_datagram_inv [of Q t True TREENET_ADDR_BROADCAST data len] assms by (simp add: treenet_broadcast_node_def)

lemma treenet_send_node_inv [tn_inv]:
  assumes "node_inv Q t" and "\<And>p. data = Some p \<Longrightarrow> len \<le> length p"
  shows "node_inv Q (snd (treenet_send_node t dst data len))"
  using tn_send_datagram_inv [of Q t False dst data len] treenet_broadcast_node_inv [of Q t data len] assms
  by (simp add: treenet_send_node_def)

lemma run_app_inv [tn_inv]: "node_inv Q t \<Longrightarrow> app_ok Q a \<Longrightarrow> node_inv Q (run_app a t)"
proof (induction a arbitrary: t)
  case (App_world f k)
  then show ?case using node_invD(5) [OF App_world.prems(1)] by simp
next
  case (App_send dst data len k)
  then show ?case using treenet_send_node_inv [OF App_send.prems(1), of data len dst] by (simp add: Let_def)
next
  case (App_broadcast data len k)
  then show ?case using treenet_broadcast_node_inv [OF App_broadcast.prems(1), of data len] by (simp add: Let_def)
qed simp_all

section \<open>Acknowledgements and the transmit scheduler\<close>

lemma tn_send_ack_inv [simp, tn_inv]: "node_inv Q t \<Longrightarrow> node_inv Q (tn_send_ack t to seq)"
  by (simp add: tn_send_ack_def tn_tx_submit_inv control_frames_ok(3))

lemma tn_link_ack_result_inv [simp, tn_inv]:
  assumes "node_inv Q t"
  shows "node_inv Q (tn_link_ack_result t dst ok)"
proof (cases "tn_neighbor_find (nd_neighbors t) dst")
  case None
  then show ?thesis using assms by (simp add: tn_link_ack_result_def)
next
  case (Some i)
  note inv = node_invD(6) [OF assms]
  note f = neighbors_inv_find [OF inv Some]
  let ?g = "\<lambda>n. if ne_ack_fail n < 0xFF then n\<lparr>ne_ack_fail := ne_ack_fail n + 1\<rparr> else n"
  have key: "keeps_key ?g" "keeps_key (\<lambda>n. n\<lparr>ne_ack_fail := a, ne_suspect_until_ms := s\<rparr>)"
    "keeps_key (\<lambda>n. n\<lparr>ne_suspect_until_ms := s, ne_ack_fail := a\<rparr>)" for a s
    by (simp_all add: keeps_key_def)
  have good: "neighbors_inv (nd_addr t) (nt_update (nd_neighbors t) i (\<lambda>n. n\<lparr>ne_ack_fail := a, ne_suspect_until_ms := s\<rparr>))" for a s
    by (rule neighbors_inv_update [OF inv f(1,2) key(2)]) (simp add: neighbor_ok_def)
  define tbl where "tbl = nt_update (nd_neighbors t) i ?g"
  have tbl: "neighbors_inv (nd_addr t) tbl"
    unfolding tbl_def by (rule neighbors_inv_update [OF inv f(1,2) key(1)]) (simp add: neighbor_ok_def)
  have i': "i < length (nt_entries tbl)" "ne_valid (nt_entries tbl ! i)"
    using f(1,2) by (simp_all add: tbl_def nt_update_def)
  have suspect: "neighbors_inv (nd_addr t) (nt_update tbl i (\<lambda>n. n\<lparr>ne_suspect_until_ms := s, ne_ack_fail := a\<rparr>))" for a s
    by (rule neighbors_inv_update [OF tbl i' key(3)]) (simp add: neighbor_ok_def)
  show ?thesis
    unfolding tn_link_ack_result_def Some option.case Let_def tbl_def [symmetric]
    using assms good tbl suspect by simp
qed

lemma tn_handle_ack_inv [simp, tn_inv]:
  assumes "node_inv Q t"
  shows "node_inv Q (tn_handle_ack t f)"
proof (cases "find_index (\<lambda>s. tx_valid s \<and> tx_reliable s \<and> tx_ack_seq s = fr_seq f) (nd_tx t)")
  case None
  then show ?thesis using assms unfolding tn_handle_ack_def None by simp
next
  case (Some i)
  note q = node_invD(10) [OF assms]
  have "i < TREENET_TX_QUEUE_SIZE" using find_index_SomeD(1) [OF Some] q by (simp add: txq_ok_def)
  then show ?thesis
    using assms q unfolding tn_handle_ack_def Some by (simp add: Let_def txq_ok_update tx_slot_ok_invalid txq_ok_nth)
qed

lemma tx_poll_slot_inv [tn_inv]:
  assumes "node_inv Q t" and "i < TREENET_TX_QUEUE_SIZE"
  shows "node_inv Q (tx_poll_slot t i)"
proof -
  let ?s = "nd_tx t ! i"
  note q = node_invD(10) [OF assms(1)]
  note s = txq_ok_nth [OF q assms(2)]
  have drop: "txq_ok (nd_addr t) (nd_net_id t) ((nd_tx t)[i := ?s\<lparr>tx_valid := False\<rparr>])"
    and delay: "\<And>x. txq_ok (nd_addr t) (nd_net_id t) ((nd_tx t)[i := ?s\<lparr>tx_next_tx_ms := x\<rparr>])"
    using s by (intro txq_ok_update [OF q]; simp add: tx_slot_ok_def)+
  have retry: "txq_ok (nd_addr t) (nd_net_id t) ((nd_tx t)[i := ?s\<lparr>tx_attempts := tx_attempts ?s + 1, tx_next_tx_ms := x\<rparr>])"
    if "tx_reliable ?s" "tx_attempts ?s < TREENET_MAX_RETRIES" for x
  proof -
    have "tx_attempts ?s + 1 \<le> TREENET_MAX_RETRIES" using that(2) by (metis inc_le word_less_def)
    then show ?thesis using s that(1) by (intro txq_ok_update [OF q]) (simp add: tx_slot_ok_def)
  qed
  define x where "x = snd (port_channel_free t)"
  have x: "node_inv Q x" "nd_tx x = nd_tx t" "nd_addr x = nd_addr t" "nd_net_id x = nd_net_id t"
    using assms(1) by (simp_all add: x_def)
  have "node_inv Q (snd (port_tx x (tx_buf ?s) (unat (tx_len ?s))))" if "tx_valid ?s"
    using s that x by (intro port_tx_inv) (simp_all add: tx_slot_ok_def)
  then show ?thesis
    unfolding tx_poll_slot_def Let_def case_prod_unfold x_def [symmetric]
    using assms(1) drop delay retry x by (simp add: not_le)
qed

lemma foldl_inv: "node_inv Q t \<Longrightarrow> (\<And>t i. node_inv Q t \<Longrightarrow> i \<in> set is \<Longrightarrow> node_inv Q (f t i)) \<Longrightarrow> node_inv Q (foldl f t is)"
  by (induction "is" arbitrary: t) simp_all

lemma tn_tx_poll_inv [simp, tn_inv]: "node_inv Q t \<Longrightarrow> node_inv Q (tn_tx_poll t)"
  unfolding tn_tx_poll_def by (rule foldl_inv) (simp_all add: tx_poll_slot_inv)

section \<open>Reception\<close>

lemma on_recv_inv:
  assumes "node_inv Q t"
  shows "node_inv Q (case cf_on_recv (nd_cfg t) of None \<Rightarrow> t | Some on_recv \<Rightarrow> run_app (on_recv src data rssi snr hops) t)"
  using assms node_invD(4) [OF assms] by (auto simp: cfg_ok_def run_app_inv split: option.split)

text \<open>Handing a completed datagram up and releasing its buffer, whatever the application does in between.\<close>

lemma reasm_done_inv:
  assumes "node_inv Q t" and "reasm_ok rs" and "i < length rs"
    and "y = (case cf_on_recv (nd_cfg t) of None \<Rightarrow> TN_STAT_INC st_datagrams_rx_update (t\<lparr>nd_reasm := rs\<rparr>)
      | Some on_recv \<Rightarrow> run_app (on_recv src data rssi snr hops) (TN_STAT_INC st_datagrams_rx_update (t\<lparr>nd_reasm := rs\<rparr>)))"
  shows "node_inv Q (y\<lparr>nd_reasm := (nd_reasm y)[i := (nd_reasm y ! i)\<lparr>re_valid := False\<rparr>]\<rparr>)"
proof -
  define x where "x = TN_STAT_INC st_datagrams_rx_update (t\<lparr>nd_reasm := rs\<rparr>)"
  have x: "node_inv Q x" using assms(1,2) by (simp add: x_def)
  have yx: "y = (case cf_on_recv (nd_cfg x) of None \<Rightarrow> x | Some on_recv \<Rightarrow> run_app (on_recv src data rssi snr hops) x)"
    unfolding assms(4) x_def by simp
  have y: "node_inv Q y" unfolding yx by (rule on_recv_inv [OF x])
  have il: "i < length (nd_reasm y)" using assms(3) by (auto simp: yx x_def split: option.split)
  have "reasm_slot_ok ((nd_reasm y ! i)\<lparr>re_valid := False\<rparr>)"
    using reasm_ok_nth [OF node_invD(11) [OF y] il] by (simp add: reasm_slot_ok_def)
  then show ?thesis using y reasm_ok_update [OF node_invD(11) [OF y]] by simp
qed

lemma tn_reasm_input_inv [tn_inv]:
  assumes "node_inv Q t" and "payload_ok f"
  shows "node_inv Q (tn_reasm_input t f rssi snr now)"
proof (cases "tn_frag_decode (fr_payload f) (fr_payload_len f)")
  case None
  then show ?thesis using assms by (simp add: tn_reasm_input_def)
next
  case (Some fh)
  let ?n = "fr_payload_len f - TN_FRAG_HDR_LEN"
  let ?skip = "fh_count fh = 0 \<or> unat (fh_count fh) > TREENET_MAX_FRAGMENTS \<or> fh_index fh \<ge> fh_count fh \<or>
      unat (fh_index fh) + 1 < unat (fh_count fh) \<and> ?n \<noteq> TN_FRAG_CHUNK \<or>
      (\<exists>r\<in>set (nd_reasm t). re_valid r \<and> re_src r = fr_src f \<and> re_dgram_id r = fh_dgram_id fh \<and> re_count r \<noteq> fh_count fh) \<or>
      unat (fh_index fh) * TN_FRAG_CHUNK + ?n > TREENET_MAX_DATAGRAM"
  show ?thesis
  proof (cases ?skip)
    case True
    then have "tn_reasm_input t f rssi snr now = t" unfolding tn_reasm_input_def Some by (auto simp: Let_def)
    then show ?thesis using assms by simp
  next
    case False
    then have nots: "\<not> (fh_count fh = 0 \<or> unat (fh_count fh) > TREENET_MAX_FRAGMENTS \<or> fh_index fh \<ge> fh_count fh)"
        "\<not> (unat (fh_index fh) + 1 < unat (fh_count fh) \<and> ?n \<noteq> TN_FRAG_CHUNK)"
        "\<not> (\<exists>r\<in>set (nd_reasm t). re_valid r \<and> re_src r = fr_src f \<and> re_dgram_id r = fh_dgram_id fh \<and> re_count r \<noteq> fh_count fh)"
        "\<not> unat (fh_index fh) * TN_FRAG_CHUNK + ?n > TREENET_MAX_DATAGRAM"
      by blast+
    obtain p where p: "fr_payload f = Some p" using Some by (cases "fr_payload f") (auto simp: tn_frag_decode_def)
    obtain i rs where s: "reasm_slot (nd_reasm t) (fr_src f) (fh_dgram_id fh) (fh_count fh) now = (i, rs)" by fastforce
    have c: "0 < unat (fh_count fh)" "unat (fh_count fh) \<le> TREENET_MAX_FRAGMENTS"
      using False by (auto simp: unat_gt_0)
    note slot = reasm_slot_inv [OF node_invD(11) [OF assms(1)] c _ s]
    obtain complete r where st: "reasm_store ((rs ! i)\<lparr>re_last_ms := now\<rparr>) fh (drop TN_FRAG_HDR_LEN p) ?n = (complete, r)" by fastforce
    have "reasm_slot_ok ((rs ! i)\<lparr>re_last_ms := now\<rparr>)"
      using reasm_ok_nth [OF slot(1,2)] False by (simp add: reasm_slot_ok_def frag_at_ok_def)
    then have "reasm_slot_ok r"
      using False slot(3,6) assms(2) p by (intro reasm_store_inv(1) [OF _ _ _ _ _ _ _ st]) (auto simp: payload_ok_def)
    then have rs: "reasm_ok (rs[i := r])" "i < length (rs[i := r])" using reasm_ok_update [OF slot(1)] slot(2) False by auto
    note fin = reasm_done_inv [OF assms(1) rs refl, of "fr_src f" "take (unat (reasm_total r fh)) (re_buf r)" rssi snr "TREENET_MAX_HOPS - fr_hop_limit f"]
    show ?thesis
      unfolding tn_reasm_input_def p Some [unfolded p] Let_def option.case s prod.case st nots [THEN if_not_P]
      using assms(1) rs(1) fin by simp
  qed
qed

lemma tn_deliver_inv [tn_inv]:
  assumes "node_inv Q t" and "payload_ok f"
  shows "node_inv Q (tn_deliver t f rssi snr)"
  using assms on_recv_inv [of Q "TN_STAT_INC st_datagrams_rx_update t"]
  unfolding tn_deliver_def Let_def by (simp add: tn_reasm_input_inv)

lemma tn_handle_data_inv [tn_inv]:
  assumes "node_inv Q t" and "frame_ok (nd_net_id t) f"
  shows "node_inv Q (tn_handle_data t f rssi snr now)"
proof -
  define x where "x = snd (tn_route_next_hop t (fr_dst f))"
  have x: "node_inv Q x" "nd_net_id x = nd_net_id t" using assms(1) by (simp_all add: x_def)
  define y where "y = snd (tn_tx_submit x (f\<lparr>fr_hop_limit := fr_hop_limit f - 1\<rparr>)
      (fr_flags f AND TN_FLAG_WANT_ACK \<noteq> 0) (fst (tn_route_next_hop t (fr_dst f))) 0)"
  have y: "node_inv Q y" unfolding y_def using x assms(2) by (intro tn_tx_submit_inv) simp_all
  have "payload_ok f" using assms(2) by (simp add: frame_ok_def)
  then show ?thesis
    using assms(1) x y node_invD(8) [OF assms(1)] node_invD(8) [OF y]
    unfolding tn_handle_data_def Let_def case_prod_unfold x_def [symmetric] y_def [symmetric] by (simp add: tn_deliver_inv)
qed

lemma tn_handle_flood_inv [tn_inv]:
  assumes "node_inv Q t" and "frame_ok (nd_net_id t) f"
  shows "node_inv Q (tn_handle_flood t f rssi snr now)"
proof -
  define x where "x = tn_deliver (t\<lparr>nd_dup := snd (tn_dupcache_seen (nd_dup t) (fr_src f) (fr_seq f) now)\<rparr>) f rssi snr"
  have x: "node_inv Q x" "nd_net_id x = nd_net_id t"
    using assms node_invD(8) [OF assms(1)] by (simp_all add: x_def tn_deliver_inv frame_ok_def)
  have "node_inv Q (snd (tn_tx_submit z (f\<lparr>fr_hop_limit := fr_hop_limit f - 1\<rparr>) False TREENET_ADDR_BROADCAST d))"
    if "node_inv Q z" "nd_net_id z = nd_net_id t" for z d
    using that assms(2) by (intro tn_tx_submit_inv) simp_all
  then show ?thesis
    using assms(1) x node_invD(8) [OF assms(1)]
    unfolding tn_handle_flood_def Let_def case_prod_unfold x_def [symmetric] by simp
qed

lemma tn_process_frame_inv [tn_inv]:
  assumes "node_inv Q t" and "frame_ok (nd_net_id t) f" and "fr_src f \<noteq> nd_addr t"
  shows "node_inv Q (tn_process_frame t f rssi snr now)"
proof -
  have "fr_src f \<noteq> TREENET_ADDR_INVALID" using assms(2) by (simp add: frame_ok_def frame_fields_ok_def)
  then show ?thesis
    using assms tn_handle_data_inv [OF assms(1,2)] tn_handle_flood_inv [OF assms(1,2)]
    by (auto simp: tn_process_frame_def Let_def case_prod_unfold split: option.split)
qed

lemma rx_one_inv [tn_inv]:
  assumes "node_inv Q t" and "unat (rm_len meta) \<le> length buf"
  shows "node_inv Q (rx_one t meta buf)"
proof (cases "tn_frame_decode (Some buf) (unat (rm_len meta))")
  case None
  then show ?thesis using assms(1) by (simp add: rx_one_def Let_def)
next
  case (Some f)
  note d = tn_frame_decode_fields [OF Some]
  have ok: "frame_ok (nd_net_id t) f" if "fr_net_id f = nd_net_id t"
    using d that assms(2) by (simp add: frame_ok_def payload_ok_def)
  define x where "x = TN_STAT_INC st_frames_rx_update t"
  have x: "node_inv Q x" "nd_net_id x = nd_net_id t" "nd_addr x = nd_addr t" using assms(1) by (simp_all add: x_def)
  have "node_inv Q (x\<lparr>nd_neighbors := tn_neighbor_note_frame (nd_neighbors x) (fr_prev f) (rm_rssi_dbm meta) (rm_snr_db meta) (nd_now_ms x)\<rparr>)"
    if "fr_prev f \<noteq> nd_addr t" "fr_prev f \<noteq> TREENET_ADDR_INVALID"
    using x that node_invD(6) [OF x(1)] by simp
  then show ?thesis
    using x ok unfolding rx_one_def Let_def Some option.case x_def [symmetric] by (simp add: tn_process_frame_inv)
qed

lemma rx_okE:
  assumes "rx_ok rb" and "TREENET_MTU \<le> length buf"
  shows "case tn_ringbuf_pop rb meta buf TREENET_MTU of (ok, rb', meta', buf') \<Rightarrow>
    rx_ok rb' \<and> length buf' = length buf \<and> (ok \<longrightarrow> unat (rm_len meta') \<le> length buf')"
proof -
  obtain rs where rs: "ring_repr rb rs" "list_all rec_fits rs" using assms(1) by (auto simp: rx_ok_def)
  show ?thesis
  proof (cases rs)
    case Nil
    then show ?thesis using rs assms(1) pop_ring_repr_Nil [of rb meta buf TREENET_MTU] by simp
  next
    case (Cons r rs')
    obtain m d where r: "r = (m, d)" by fastforce
    have fits: "unat (rm_len m) \<le> TREENET_MTU" "length d = unat (rm_len m)"
      using rs(2) by (simp_all add: Cons r rec_fits_def rec_ok_def)
    obtain rb' where "tn_ringbuf_pop rb meta buf TREENET_MTU = (True, rb', m, d @ drop (unat (rm_len m)) buf)" "ring_repr rb' rs'"
      using pop_ring_repr_Cons [OF rs(1) [unfolded Cons r] fits(1) assms(2)] .
    then show ?thesis using rs(2) fits assms(2) by (auto simp: rx_ok_def Cons)
  qed
qed

lemma rx_loop_inv [tn_inv]:
  "node_inv Q t \<Longrightarrow> TREENET_MTU \<le> length buf \<Longrightarrow> node_inv Q (rx_loop t meta buf)"
proof (induction t meta buf rule: rx_loop.induct)
  case (1 t meta buf)
  obtain ok rb' meta' buf' where pop: "tn_ringbuf_pop (nd_rx t) meta buf TREENET_MTU = (ok, rb', meta', buf')"
    by (metis prod_cases4)
  have r: "rx_ok rb'" "length buf' = length buf" "ok \<longrightarrow> unat (rm_len meta') \<le> length buf'"
    using rx_okE [OF node_invD(9) [OF 1(2)] 1(3), of meta] pop by auto
  then have t: "node_inv Q (t\<lparr>nd_rx := rb'\<rparr>)" using 1(2) by simp
  show ?case
  proof (cases ok)
    case True
    then have "node_inv Q (rx_one (t\<lparr>nd_rx := rb'\<rparr>) meta' buf')" using t r by (simp add: rx_one_inv)
    then show ?thesis
      using 1(1) [OF pop [symmetric] refl refl refl] 1(3) r(2) True by (simp add: rx_loop.simps [of t] pop)
  next
    case False
    then show ?thesis using t by (simp add: rx_loop.simps [of t] pop)
  qed
qed

lemma tn_rx_drain_inv [simp, tn_inv]: "node_inv Q t \<Longrightarrow> node_inv Q (tn_rx_drain t)"
  unfolding tn_rx_drain_def by (rule rx_loop_inv) simp_all

lemma treenet_rx_node_inv [tn_inv]:
  assumes "node_inv Q t" and "\<And>p. buf = Some p \<Longrightarrow> len \<le> length p"
  shows "node_inv Q (snd (treenet_rx_node t buf len rssi snr))"
proof -
  obtain rs where rs: "ring_repr (nd_rx t) rs" "list_all rec_fits rs" using node_invD(9) [OF assms(1)] by (auto simp: rx_ok_def)
  have "rx_ok (snd (tn_ringbuf_push (nd_rx t) \<lparr>rm_len = of_nat len, rm_rssi_dbm = rssi, rm_snr_db = snr\<rparr> (take len p)))"
    if "len \<le> TREENET_MTU" "buf = Some p" for p
  proof -
    have "unat (of_nat len :: u16) = len" using that(1) by (intro unat_of_nat_lt) (simp add: config)
    then have "rec_fits (\<lparr>rm_len = of_nat len, rm_rssi_dbm = rssi, rm_snr_db = snr\<rparr>, take len p)"
      using that assms(2) by (simp add: rec_fits_def rec_ok_def)
    then show ?thesis
      using push_ring_repr [OF rs(1), of "\<lparr>rm_len = of_nat len, rm_rssi_dbm = rssi, rm_snr_db = snr\<rparr>" "take len p"] rs(2)
      unfolding rx_ok_def by (force simp: rec_fits_def split: if_splits)
  qed
  then show ?thesis
    using assms(1) by (auto simp: treenet_rx_node_def Let_def case_prod_unfold split: option.split)
qed

section \<open>Housekeeping, polling and initialisation\<close>

lemma age_slot_inv [tn_inv]:
  assumes "node_inv Q t" and "i < TREENET_MAX_NEIGHBORS"
  shows "node_inv Q (age_slot t i)"
proof (cases "ne_valid (nt_entries (nd_neighbors t) ! i)")
  case True
  let ?tbl = "nd_neighbors t"
  note inv = node_invD(6) [OF assms(1)]
  note rm = neighbors_inv_remove [OF inv assms(2) True]
  have gone: "ne_addr (nt_entries ?tbl ! i) \<noteq> TREENET_ADDR_INVALID"
    using neighbors_inv_entry(1) [OF inv _ True] assms(2) neighbor_wf_length [OF neighbors_inv_wf [OF inv]] by simp
  define x where "x = tn_emit_event (t\<lparr>nd_routes := snd (tn_route_remove_via (nd_routes t) (ne_addr (nt_entries ?tbl ! i))),
      nd_neighbors := ?tbl\<lparr>nt_entries := (nt_entries ?tbl)[i := neighbor_zero], nt_count := nt_count ?tbl - 1\<rparr>\<rparr>)
      TREENET_EV_NEIGHBOR_REMOVED Arg_NULL"
  have x: "node_inv Q x" "nd_parent x = nd_parent t" "nd_now_ms x = nd_now_ms t" "nd_role x = nd_role t"
    using assms(1) rm(1) node_invD(7) [OF assms(1)] by (simp_all add: x_def)
  moreover have "nd_role x \<noteq> TREENET_ROLE_MASTER" if "ne_addr (nt_entries ?tbl ! i) = nd_parent t"
    using node_invD(15) [OF x(1)] gone that x(2) by (auto simp: tree_ok_def)
  moreover have "age_slot t i = (if tn_elapsed (ne_last_seen_ms (nt_entries ?tbl ! i)) (nd_now_ms t) \<le> TREENET_NEIGHBOR_TIMEOUT_MS
      then t else if ne_addr (nt_entries ?tbl ! i) = nd_parent t then tn_routing_on_parent_lost x (nd_now_ms t) else x)"
    using True rm(2) by (simp add: age_slot_def Let_def x_def)
  ultimately show ?thesis using assms(1) by simp
qed (use assms in \<open>simp add: age_slot_def\<close>)

lemma tn_age_neighbors_inv [simp, tn_inv]: "node_inv Q t \<Longrightarrow> node_inv Q (tn_age_neighbors t)"
  unfolding tn_age_neighbors_def by (rule foldl_inv) (simp_all add: age_slot_inv)

lemma tn_expire_reasm_inv [simp, tn_inv]:
  assumes "node_inv Q t"
  shows "node_inv Q (tn_expire_reasm t)"
proof -
  have "reasm_ok (nd_reasm (tn_expire_reasm t))"
    using node_invD(11) [OF assms] by (auto simp: tn_expire_reasm_def reasm_ok_def list_all_iff reasm_slot_ok_def)
  then show ?thesis using assms by (simp add: tn_expire_reasm_def)
qed

lemma tn_probe_send_inv [simp, tn_inv]:
  assumes "node_inv Q t"
  shows "node_inv Q (tn_probe_send t)"
proof -
  have t: "node_inv Q (snd (tn_next_seq t))" using assms by simp
  show ?thesis
    using tn_tx_submit_inv [OF t control_frames_ok(2) [OF t]] by (simp add: tn_probe_send_def Let_def case_prod_unfold)
qed

lemma flush_loop_inv [tn_inv]:
  "node_inv Q t \<Longrightarrow> (\<And>ev arg. app_ok Q (g ev arg)) \<Longrightarrow> node_inv Q (flush_loop g t)"
proof (induction g t rule: flush_loop.induct)
  case (1 g t)
  show ?case
  proof (cases "eq_count (nd_events t) > 0")
    case True
    obtain e q where e: "eventq_take (nd_events t) = (e, q)" by fastforce
    have "eventq_wf q" using eventq_wf_ops(3) [OF node_invD(12) [OF 1(2)]] True e by simp
    then have t: "node_inv Q (t\<lparr>nd_events := q\<rparr>)" using 1(2) by simp
    then have "node_inv Q (run_app (g (fst e) arg) (t\<lparr>nd_events := q\<rparr>))" for arg using 1(3) by (simp add: run_app_inv)
    then show ?thesis
      using 1(1) [OF True e [symmetric] refl refl] 1(3) True by (simp add: flush_loop.simps [of g t] e Let_def)
  next
    case False
    then show ?thesis using 1(2) by (simp add: flush_loop.simps [of g t])
  qed
qed

lemma tn_events_flush_inv [simp, tn_inv]:
  assumes "node_inv Q t"
  shows "node_inv Q (tn_events_flush t)"
proof (cases "cf_on_event (nd_cfg t)")
  case None
  have "eventq_wf ((nd_events t)\<lparr>eq_head := 0, eq_tail := 0, eq_count := 0\<rparr>)"
    using node_invD(12) [OF assms] by (simp add: eventq_wf_def)
  then show ?thesis using assms None by (simp add: tn_events_flush_def)
next
  case (Some g)
  then have "app_ok Q (g ev arg)" for ev arg using node_invD(4) [OF assms] by (simp add: cfg_ok_def)
  then show ?thesis using assms Some by (simp add: tn_events_flush_def flush_loop_inv)
qed

lemma poll_maintenance_inv [simp, tn_inv]: "node_inv Q t \<Longrightarrow> node_inv Q (poll_maintenance t)"
  using node_invD(7) [of Q t] by (simp add: poll_maintenance_def Let_def)

lemma treenet_poll_node_inv [simp, tn_inv]: "node_inv Q t \<Longrightarrow> node_inv Q (treenet_poll_node t)"
  by (simp add: treenet_poll_node_def Let_def case_prod_unfold)

lemma init_node_inv [tn_inv]:
  assumes "init_args_ok sz st ssz (Some cfg) (Some port)" and "port_ok Q (cf_addr cfg) (cf_net_id cfg) port"
    and "cfg_ok Q cfg" and "Q w"
  shows "node_inv Q (init_node cfg port w)"
proof -
  let ?master = "cf_role cfg = TREENET_ROLE_MASTER"
  have addr: "cf_addr cfg \<noteq> TREENET_ADDR_INVALID" "cf_addr cfg \<noteq> TREENET_ADDR_BROADCAST"
    using assms(1) by (auto simp: init_args_ok_def split: option.splits)
  have rnd: "Q (nd_env (snd (port_rnd x)))" "Q (nd_env (snd (port_now_ms x)))" if "nd_port x = port" "Q (nd_env x)" for x
    using that assms(2) by (auto simp: port_rnd_def port_now_ms_def port_ok_def Let_def case_prod_unfold split: option.split)
  define t where "t = (node_cleared cfg port w)\<lparr>nd_addr := cf_addr cfg, nd_role := cf_role cfg, nd_net_id := cf_net_id cfg\<rparr>"
  define a where "a = (snd (port_rnd t))\<lparr>nd_seq := ucast (fst (port_rnd t)), nd_parent := TREENET_ADDR_INVALID,
      nd_rank := (if ?master then 0 else TREENET_RANK_INFINITE), nd_connected := ?master, nd_joined := ?master,
      nd_trickle_I := TREENET_BEACON_MIN_MS\<rparr>"
  define b where "b = (snd (port_now_ms a))\<lparr>nd_now_ms := fst (port_now_ms a)\<rparr>"
  define c where "c = init_lora (cf_radio cfg) (b\<lparr>nd_neighbors := tn_neighbor_table_init (nd_neighbors b),
      nd_routes := tn_route_init (nd_routes b), nd_dup := tn_dupcache_init (nd_dup b) TREENET_DUP_TTL_MS,
      nd_rx := tn_ringbuf_init (nd_rx b) (replicate TREENET_RX_RING_BYTES 0) TREENET_RX_RING_BYTES,
      nd_tx := replicate TREENET_TX_QUEUE_SIZE tx_slot_zero, nd_reasm := replicate TREENET_REASSEMBLY_SLOTS reasm_zero,
      nd_events := eventq_zero\<rparr>)"
  have "Q (nd_env b)" using rnd assms(4) by (simp add: b_def a_def t_def node_cleared_def)
  then have env: "Q (nd_env c)" by (simp add: c_def init_lora_def)
  have fields: "nd_addr c = cf_addr cfg" "nd_net_id c = cf_net_id cfg" "nd_port c = port" "nd_cfg c = cfg" "nd_role c = cf_role cfg"
      "nd_rank c = (if ?master then 0 else TREENET_RANK_INFINITE)" "nd_parent c = TREENET_ADDR_INVALID" "nd_connected c = ?master"
      "nd_trickle_I c = TREENET_BEACON_MIN_MS"
    by (simp_all add: c_def init_lora_def b_def a_def t_def node_cleared_def)
  have tables: "neighbors_inv (cf_addr cfg) (nd_neighbors c)" "routes_inv (cf_addr cfg) (nd_routes c)" "dupcache_wf (nd_dup c)"
      "txq_ok (cf_addr cfg) (cf_net_id cfg) (nd_tx c)" "reasm_ok (nd_reasm c)" "eventq_wf (nd_events c)"
    by (simp_all add: c_def init_lora_def neighbors_inv_def routes_inv_def txq_ok_def tx_slot_ok_def tx_slot_zero_def
        reasm_ok_def reasm_slot_ok_def reasm_zero_def list_all_iff)
  have "rx_ok (nd_rx c)"
    using ring_repr_init [of 10 "replicate TREENET_RX_RING_BYTES 0" "nd_rx b"] by (auto simp: rx_ok_def c_def init_lora_def config)
  then have c: "node_inv Q c"
    using addr assms(2,3) env fields tables by (simp add: node_inv_def tree_ok_def config)
  define d where "d = (snd (port_rnd c))\<lparr>nd_beacon_timer := tn_timer_start (nd_beacon_timer (snd (port_rnd c))) (nd_now_ms (snd (port_rnd c)))
      (tn_rand_below (fst (port_rnd c)) TREENET_BEACON_MIN_MS)\<rparr>"
  have "node_inv Q d" using c by (simp add: d_def)
  then have d: "node_inv Q (d\<lparr>nd_initialized := True\<rparr>)" by (simp add: node_inv_def)
  have "init_node cfg port w = (let t = d\<lparr>nd_initialized := True\<rparr> in
      if nd_role t = TREENET_ROLE_MASTER then snd (tn_routing_select_parent t (nd_now_ms t)) else tn_probe_send t)"
    unfolding init_node_def Let_def case_prod_unfold t_def [symmetric] a_def [symmetric] b_def [symmetric]
      c_def [symmetric] d_def [symmetric] by simp
  then show ?thesis using d by (simp add: Let_def)
qed

section \<open>Reachable states\<close>

text \<open>
  A run of a node: the host polls it, hands it received buffers, sends and broadcasts, in any
  order, and between the calls the environment changes as \<open>E\<close> allows.
\<close>

inductive node_step :: "('w \<Rightarrow> 'w \<Rightarrow> bool) \<Rightarrow> 'w treenet \<Rightarrow> 'w treenet \<Rightarrow> bool" for E where
  step_poll: "node_step E t (treenet_poll_node t)"
| step_rx: "len \<le> length p \<Longrightarrow> node_step E t (snd (treenet_rx_node t (Some p) len rssi snr))"
| step_send: "len \<le> length p \<Longrightarrow> node_step E t (snd (treenet_send_node t dst (Some p) len))"
| step_broadcast: "len \<le> length p \<Longrightarrow> node_step E t (snd (treenet_broadcast_node t (Some p) len))"
| step_env: "E (nd_env t) w \<Longrightarrow> node_step E t (t\<lparr>nd_env := w\<rparr>)"

definition node_reachable ::
    "'w treenet_config_t \<Rightarrow> 'w treenet_port_t \<Rightarrow> 'w \<Rightarrow> ('w \<Rightarrow> 'w \<Rightarrow> bool) \<Rightarrow> 'w treenet \<Rightarrow> bool" where
  "node_reachable cfg port w E t \<longleftrightarrow>
     (\<exists>sz st ssz t0. treenet_init sz st ssz (Some cfg) (Some port) w = Some t0 \<and> (node_step E)\<^sup>*\<^sup>* t0 t)"

lemma node_step_inv:
  assumes "node_step E t t'" and "node_inv Q t" and "\<And>w w'. E w w' \<Longrightarrow> Q w \<Longrightarrow> Q w'"
  shows "node_inv Q t'"
  using assms(1,2) assms(3) [OF _ node_invD(5) [OF assms(2)]]
  by cases (auto intro!: treenet_rx_node_inv treenet_send_node_inv treenet_broadcast_node_inv)

lemma node_reachable_inv:
  assumes "node_reachable cfg port w E t" and "port_ok Q (cf_addr cfg) (cf_net_id cfg) port" and "cfg_ok Q cfg"
    and "Q w" and "\<And>w w'. E w w' \<Longrightarrow> Q w \<Longrightarrow> Q w'"
  shows "node_inv Q t"
proof -
  obtain sz st ssz t0 where init: "treenet_init sz st ssz (Some cfg) (Some port) w = Some t0" and run: "(node_step E)\<^sup>*\<^sup>* t0 t"
    using assms(1) by (auto simp: node_reachable_def)
  have args: "init_args_ok sz st ssz (Some cfg) (Some port)" and t0: "t0 = init_node cfg port w"
    using init by (auto simp: treenet_init_def split: if_splits)
  have "node_inv Q t0" unfolding t0 by (rule init_node_inv [OF args assms(2-4)])
  with run show ?thesis by induction (use node_step_inv assms(5) in blast)+
qed

text \<open>The identity of a node never changes.\<close>

definition nd_identity :: "'w treenet \<Rightarrow> 'w treenet_config_t \<times> 'w treenet_port_t \<times> treenet_addr_t \<times> treenet_role_t \<times> u16" where
  "nd_identity t = (nd_cfg t, nd_port t, nd_addr t, nd_role t, nd_net_id t)"

lemma nd_identity_static: "nd_static x = nd_static t \<Longrightarrow> nd_identity x = nd_identity t"
  by (simp add: nd_static_def nd_identity_def)

lemma nd_identity_rx: "nd_identity (t\<lparr>nd_rx := rb\<rparr>) = nd_identity t"
  by (simp add: nd_identity_def)

lemma rx_loop_identity: "nd_identity (rx_loop t meta buf) = nd_identity t"
proof (induction t meta buf rule: rx_loop.induct)
  case (1 t meta buf)
  obtain ok rb meta' buf' where pop: "tn_ringbuf_pop (nd_rx t) meta buf TREENET_MTU = (ok, rb, meta', buf')" by (metis prod_cases4)
  have "nd_identity (rx_one (t\<lparr>nd_rx := rb\<rparr>) meta' buf') = nd_identity t"
    by (simp add: nd_identity_static [OF rx_one_keeps] nd_identity_rx)
  then show ?case
    using 1 [OF pop [symmetric] refl refl refl] nd_identity_rx
    by (cases ok) (simp_all add: rx_loop.simps [of t] pop)
qed

lemma treenet_poll_node_identity: "nd_identity (treenet_poll_node t) = nd_identity t"
proof -
  have "nd_identity (tn_rx_drain x) = nd_identity x" "nd_identity (port_timer_arm x d) = nd_identity x"
    "nd_identity (poll_maintenance x) = nd_identity x" "nd_identity (tn_tx_poll x) = nd_identity x"
    "nd_identity (tn_events_flush x) = nd_identity x" "nd_identity (tn_routing_tick x now) = nd_identity x"
    "nd_identity (tn_beacon_tick x now) = nd_identity x" for x :: "'a treenet" and d now
    unfolding tn_rx_drain_def by (rule rx_loop_identity nd_identity_static; simp)+
  moreover have "nd_identity ((snd (port_now_ms t))\<lparr>nd_now_ms := n\<rparr>) = nd_identity t" for n
    by (simp add: nd_identity_def)
  ultimately show ?thesis by (simp add: treenet_poll_node_def Let_def case_prod_unfold)
qed

lemma node_step_identity:
  assumes "node_step E t t'"
  shows "nd_identity t' = nd_identity t"
  using assms
proof cases
  case (step_rx len p rssi snr)
  then show ?thesis by (simp add: treenet_rx_node_def nd_identity_def Let_def case_prod_unfold)
next
  case (step_env w)
  then show ?thesis by (simp add: nd_identity_def)
next
  case step_poll
  then show ?thesis by (simp add: treenet_poll_node_identity)
next
  case (step_send len p dst)
  show ?thesis unfolding step_send by (rule nd_identity_static) simp
next
  case (step_broadcast len p)
  show ?thesis unfolding step_broadcast by (rule nd_identity_static) simp
qed

lemma init_node_identity: "nd_identity (init_node cfg port w) = (cfg, port, cf_addr cfg, cf_role cfg, cf_net_id cfg)"
proof -
  have "nd_identity (snd (tn_routing_select_parent x now)) = nd_identity x" "nd_identity (tn_probe_send x) = nd_identity x"
    for x :: "'a treenet" and now
    by (rule nd_identity_static; simp)+
  then show ?thesis
    by (simp add: init_node_def Let_def case_prod_unfold init_lora_def) (simp add: nd_identity_def node_cleared_def)
qed

lemma node_reachable_identity:
  assumes "node_reachable cfg port w E t"
  shows "nd_addr t = cf_addr cfg" and "nd_role t = cf_role cfg" and "nd_net_id t = cf_net_id cfg"
proof -
  obtain sz st ssz t0 where init: "treenet_init sz st ssz (Some cfg) (Some port) w = Some t0" and run: "(node_step E)\<^sup>*\<^sup>* t0 t"
    using assms by (auto simp: node_reachable_def)
  have "nd_identity t = nd_identity t0" using run by induction (use node_step_identity in metis)+
  also have "\<dots> = (cfg, port, cf_addr cfg, cf_role cfg, cf_net_id cfg)"
    using init init_node_identity by (auto simp: treenet_init_def split: if_splits)
  finally show "nd_addr t = cf_addr cfg" "nd_role t = cf_role cfg" "nd_net_id t = cf_net_id cfg"
    by (simp_all add: nd_identity_def)
qed

end
