(* ===== verification/Tn_Dodag.thy ===== *)
theory Tn_Dodag
  imports Tn_NodeInv
begin

text \<open>
  The tree the nodes build together. A network is a map from addresses to instances, each in the state in which it last ran
  \<open>tn_routing_select_parent\<close>; its parent edges are what that function leaves in \<open>nd_parent\<close>. The interface \<open>dodag\<close> is
  what the ranks promise along edges; it is interpreted on the parent edges of every network in which no
  neighbour has become worse than its last beacon said.
\<close>

section \<open>Ranks along edges\<close>

locale dodag =
  fixes rank :: "'n \<Rightarrow> nat" and edge :: "'n \<Rightarrow> 'n \<Rightarrow> bool" and inc :: nat
  assumes inc_pos: "0 < inc" and edge_rank: "edge n p \<Longrightarrow> rank p + inc \<le> rank n"
begin

lemma path_rank: "(edge ^^ k) n p \<Longrightarrow> rank p + inc * k \<le> rank n"
proof (induction k arbitrary: p)
  case (Suc k)
  then obtain q where q: "(edge ^^ k) n q" "edge q p" by auto
  have "rank q + inc * k \<le> rank n" using Suc.IH q(1) .
  then show ?case using edge_rank [OF q(2)] by simp
qed simp

lemma ancestor_rank: "edge\<^sup>+\<^sup>+ n p \<Longrightarrow> rank p < rank n"
proof (induction rule: tranclp_induct)
  case (base p)
  then show ?case using edge_rank [of n p] inc_pos by simp
next
  case (step q p)
  then show ?case using edge_rank [of q p] by simp
qed

lemma loop_free: "\<not> edge\<^sup>+\<^sup>+ n n"
  using ancestor_rank by blast

end

section \<open>What a node takes for its parent\<close>

lemma select_parent_edge:
  assumes "nd_role t \<noteq> TREENET_ROLE_MASTER" and "nd_parent t \<noteq> nd_addr t" and "candidate t n0"
    and "snd (tn_routing_select_parent t (nd_now_ms t)) = t'"
  shows "\<exists>n. candidate t n \<and> ne_addr n = nd_parent t' \<and> nd_rank t' = cand n"
proof (cases "\<exists>c. parent_alive t (nd_now_ms t) c")
  case True
  then obtain c where c: "parent_alive t (nd_now_ms t) c" by blast
  note cc = parent_alive_candidate [OF c assms(2)]
  obtain b where b: "candidate t b" and t': "t' = (if ne_addr b \<noteq> nd_parent t \<and>
        tn_elapsed (nd_parent_since t) (nd_now_ms t) \<ge> TREENET_PARENT_DWELL_MS \<and>
        unat (cand b) < unat (cand c) * 75 div 100
      then routing_set_parent (t\<lparr>nd_rank := cand c\<rparr>) (ne_addr b) (cand b) (nd_now_ms t)
      else t\<lparr>nd_rank := cand c\<rparr>)" (is "_ = (if ?switch then _ else _)")
    using select_alive_cases [OF assms(1) c assms(2)] assms(4) by metis
  show ?thesis
  proof (cases ?switch)
    case True
    then show ?thesis using b t' by auto
  next
    case False
    then have "t' = t\<lparr>nd_rank := cand c\<rparr>" using t' by auto
    then show ?thesis using cc by auto
  qed
next
  case False
  then have none: "\<And>c. \<not> parent_alive t (nd_now_ms t) c" by blast
  obtain best r where b: "best_candidate t = (best, r)" by fastforce
  then obtain k where k: "best = Some k" using best_candidate_None(2) [of t r n0] assms(3) by (cases best) auto
  show ?thesis
    using assms(4) best_candidate_Some [OF b [unfolded k]]
    unfolding select_parent_lost [OF assms(1) none] b k by auto
qed

lemma select_parent_none:
  assumes "nd_role t \<noteq> TREENET_ROLE_MASTER" and "nd_parent t \<noteq> nd_addr t" and "\<And>n. \<not> candidate t n"
    and "tree_ok (nd_role t) (nd_addr t) (nd_rank t) (nd_parent t) (nd_connected t)"
    and "snd (tn_routing_select_parent t (nd_now_ms t)) = t'"
  shows "nd_parent t' = TREENET_ADDR_INVALID" and "nd_rank t' = TREENET_RANK_INFINITE"
proof -
  have none: "\<not> parent_alive t (nd_now_ms t) c" for c using parent_alive_candidate(1) assms(2,3) by blast
  obtain best r where b: "best_candidate t = (best, r)" by fastforce
  then have "best = None" using best_candidate_Some(2) [of t _ r] assms(3) by (cases best) auto
  then show "nd_parent t' = TREENET_ADDR_INVALID" and "nd_rank t' = TREENET_RANK_INFINITE"
    using assms(1,4,5) unfolding select_parent_lost [OF assms(1) none] b by (auto simp: tree_ok_def split: if_splits)
qed

lemma select_parent_master:
  assumes "nd_role t = TREENET_ROLE_MASTER"
  shows "nd_parent (snd (tn_routing_select_parent t now)) = TREENET_ADDR_INVALID" "nd_rank (snd (tn_routing_select_parent t now)) = 0"
  using assms by (simp_all add: tn_routing_select_parent_def Let_def)

section \<open>The network\<close>

text \<open>The node after it has chosen its parent, and the network of all nodes after that.\<close>

definition selected :: "'w treenet \<Rightarrow> 'w treenet" where
  "selected t = snd (tn_routing_select_parent t (nd_now_ms t))"

definition network :: "(treenet_addr_t \<rightharpoonup> 'w treenet) \<Rightarrow> (treenet_addr_t \<rightharpoonup> 'w treenet)" where
  "network pre a = map_option selected (pre a)"

definition net_rank :: "(treenet_addr_t \<rightharpoonup> 'w treenet) \<Rightarrow> treenet_addr_t \<Rightarrow> nat" where
  "net_rank net a = (case net a of Some t \<Rightarrow> unat (nd_rank t) | None \<Rightarrow> 0)"

definition parent_edge :: "(treenet_addr_t \<rightharpoonup> 'w treenet) \<Rightarrow> treenet_addr_t \<Rightarrow> treenet_addr_t \<Rightarrow> bool" where
  "parent_edge net a b \<longleftrightarrow> net b \<noteq> None \<and> (case net a of Some t \<Rightarrow> nd_parent t = b | None \<Rightarrow> False)"

text \<open>Every node is one the library can be in (its tables and its place in the tree are consistent) and is known by its address.\<close>

definition nodes_ok :: "(treenet_addr_t \<rightharpoonup> 'w treenet) \<Rightarrow> bool" where
  "nodes_ok pre \<longleftrightarrow> (\<forall>a t. pre a = Some t \<longrightarrow> nd_addr t = a \<and> a \<noteq> TREENET_ADDR_INVALID \<and> neighbors_inv a (nd_neighbors t) \<and>
     tree_ok (nd_role t) a (nd_rank t) (nd_parent t) (nd_connected t))"

text \<open>
  Every neighbour a node may attach to is in the network, and its rank is not worse than the rank of its beacon the
  node has recorded.
\<close>

definition none_worse :: "(treenet_addr_t \<rightharpoonup> 'w treenet) \<Rightarrow> bool" where
  "none_worse pre \<longleftrightarrow> (\<forall>a t c. pre a = Some t \<and> candidate t c \<longrightarrow>
     (\<exists>u. pre (ne_addr c) = Some u \<and> nd_rank (selected u) \<le> ne_rank c))"

lemma node_inv_nodes_ok:
  assumes "\<And>a t. pre a = Some t \<Longrightarrow> node_inv Q t \<and> nd_addr t = a"
  shows "nodes_ok pre"
  unfolding nodes_ok_def using assms node_invD(1,6,15) by fast

lemma nodes_okD:
  assumes "nodes_ok pre" and "pre a = Some t"
  shows "nd_addr t = a" "a \<noteq> TREENET_ADDR_INVALID" "neighbors_inv a (nd_neighbors t)"
    "tree_ok (nd_role t) (nd_addr t) (nd_rank t) (nd_parent t) (nd_connected t)"
  using assms by (auto simp: nodes_ok_def)

text \<open>The choice of one node: an edge to a better neighbour, or no parent and no finite rank.\<close>

lemma chosen_parent:
  assumes "nodes_ok pre" and "none_worse pre" and "pre a = Some t" and "nd_role t \<noteq> TREENET_ROLE_MASTER"
  shows "if nd_parent (selected t) = TREENET_ADDR_INVALID then nd_rank (selected t) = TREENET_RANK_INFINITE
    else parent_edge (network pre) a (nd_parent (selected t)) \<and>
      net_rank (network pre) (nd_parent (selected t)) + 8 \<le> unat (nd_rank (selected t)) \<and>
      nd_rank (selected t) \<noteq> TREENET_RANK_INFINITE"
proof -
  note ok = nodes_okD [OF assms(1,3)]
  have other: "nd_parent t \<noteq> nd_addr t" using ok(1,4) assms(4) by (auto simp: tree_ok_def)
  show ?thesis
  proof (cases "\<exists>n. candidate t n")
    case True
    then obtain n where n: "candidate t n" "ne_addr n = nd_parent (selected t)" "nd_rank (selected t) = cand n"
      using select_parent_edge [OF assms(4) other _ refl] unfolding selected_def by blast
    obtain u where u: "pre (ne_addr n) = Some u" "nd_rank (selected u) \<le> ne_rank n"
      using assms(2,3) n(1) unfolding none_worse_def by blast
    have "parent_edge (network pre) a (ne_addr n)"
      using u(1) n(2) assms(3) by (simp add: parent_edge_def network_def)
    moreover have "net_rank (network pre) (ne_addr n) + 8 \<le> unat (cand n)"
      using u candidate_rank_eq [OF n(1)] by (simp add: net_rank_def network_def word_le_nat_alt)
    moreover have "ne_addr n \<noteq> TREENET_ADDR_INVALID" using nodes_okD(2) [OF assms(1) u(1)] .
    moreover have "cand n \<noteq> TREENET_RANK_INFINITE" using n(1) by (simp add: candidate_def)
    ultimately show ?thesis by (simp add: n(2) [symmetric] n(3))
  next
    case False
    then show ?thesis
      using select_parent_none [OF assms(4) other _ ok(4) refl] by (simp add: selected_def)
  qed
qed

lemma parent_edge_network:
  assumes "nodes_ok pre" and "none_worse pre" and "parent_edge (network pre) a b"
  obtains t where "pre a = Some t" and "nd_role t \<noteq> TREENET_ROLE_MASTER" and "b = nd_parent (selected t)"
    and "net_rank (network pre) b + 8 \<le> net_rank (network pre) a" and "nd_rank (selected t) \<noteq> TREENET_RANK_INFINITE"
proof -
  obtain t u where t: "pre a = Some t" "pre b = Some u" "nd_parent (selected t) = b"
    using assms(3) by (auto simp: parent_edge_def network_def split: option.splits)
  have b: "b \<noteq> TREENET_ADDR_INVALID" using nodes_okD(2) [OF assms(1) t(2)] .
  then have role: "nd_role t \<noteq> TREENET_ROLE_MASTER" using select_parent_master(1) [of t] t(3) by (auto simp: selected_def)
  show thesis
    using chosen_parent [OF assms(1,2) t(1) role] b t role
    by (intro that [OF t(1) role]) (auto simp: net_rank_def [of _ a] network_def)
qed

interpretation current: dodag "net_rank (network pre)" "\<lambda>a b. nodes_ok pre \<and> none_worse pre \<and> parent_edge (network pre) a b" 8
  for pre :: "treenet_addr_t \<rightharpoonup> 'w treenet"
  by unfold_locales (auto elim: parent_edge_network)

text \<open>Following the parents from a node with a finite rank ends at a Master.\<close>

lemma master_reached:
  assumes "nodes_ok pre" and "none_worse pre" and "pre a = Some t" and "nd_rank (selected t) \<noteq> TREENET_RANK_INFINITE"
  shows "\<exists>k m u. (parent_edge (network pre) ^^ k) a m \<and> pre m = Some u \<and> nd_role u = TREENET_ROLE_MASTER"
  using assms(3,4)
proof (induction "net_rank (network pre) a" arbitrary: a t rule: less_induct)
  case less
  show ?case
  proof (cases "nd_role t = TREENET_ROLE_MASTER")
    case True
    then show ?thesis using less.prems(1) by (intro exI [of _ 0] exI [of _ a] exI [of _ t]) simp
  next
    case False
    let ?b = "nd_parent (selected t)"
    have e: "parent_edge (network pre) a ?b" "net_rank (network pre) ?b < net_rank (network pre) a"
      using chosen_parent [OF assms(1,2) less.prems(1) False] less.prems
      by (auto simp: net_rank_def [of _ a] network_def split: if_splits)
    then obtain u where u: "pre ?b = Some u" by (auto simp: parent_edge_def network_def)
    have "unat (nd_rank (selected u)) < unat (nd_rank (selected t))"
      using e(2) u less.prems(1) by (simp add: net_rank_def network_def)
    then have "nd_rank (selected u) < TREENET_RANK_INFINITE"
      using rank_le_infinite [of "nd_rank (selected t)"] by (simp add: word_less_nat_alt word_le_nat_alt)
    then obtain k m v where "(parent_edge (network pre) ^^ k) ?b m" "pre m = Some v" "nd_role v = TREENET_ROLE_MASTER"
      using less.hyps [OF e(2) u] by (auto simp: rank_less_infinite)
    then show ?thesis using e(1) relpowp_Suc_I2 [of "parent_edge (network pre)" a ?b k m] by blast
  qed
qed

text \<open>
  Property C12: the parents form trees with a Master at the root. In a network of consistent nodes that have each chosen a parent with
  \<open>tn_routing_select_parent\<close>, suppose that every neighbour a node may attach to belongs to the network and has, after its own choice, no
  worse rank than the node has recorded from its last beacon. Then no cycle of parent pointers exists, and a node that is
  connected (its rank is finite) reaches a Master by following the parents: at every hop the rank falls by at least 8, so
  the way has at most an eighth of the node's rank hops. A node without a finite rank has no parent.
\<close>

theorem parents_lead_to_master:
  assumes "nodes_ok pre" and "none_worse pre" and "pre a = Some t"
  shows "\<not> (parent_edge (network pre))\<^sup>+\<^sup>+ a a \<and>
    (if nd_rank (selected t) = TREENET_RANK_INFINITE then nd_parent (selected t) = TREENET_ADDR_INVALID
     else \<exists>k m u. (parent_edge (network pre) ^^ k) a m \<and> pre m = Some u \<and> nd_role u = TREENET_ROLE_MASTER \<and>
       net_rank (network pre) m = 0 \<and> 8 * k \<le> unat (nd_rank (selected t)))"
proof
  have edges: "parent_edge (network pre) = (\<lambda>a b. nodes_ok pre \<and> none_worse pre \<and> parent_edge (network pre) a b)"
    using assms(1,2) by simp
  show "\<not> (parent_edge (network pre))\<^sup>+\<^sup>+ a a" using current.loop_free [of pre a, folded edges] .
  have rank: "net_rank (network pre) a = unat (nd_rank (selected t))" using assms(3) by (simp add: net_rank_def network_def)
  show "if nd_rank (selected t) = TREENET_RANK_INFINITE then nd_parent (selected t) = TREENET_ADDR_INVALID
     else \<exists>k m u. (parent_edge (network pre) ^^ k) a m \<and> pre m = Some u \<and> nd_role u = TREENET_ROLE_MASTER \<and>
       net_rank (network pre) m = 0 \<and> 8 * k \<le> unat (nd_rank (selected t))"
  proof (cases "nd_rank (selected t) = TREENET_RANK_INFINITE")
    case True
    then have "nd_role t \<noteq> TREENET_ROLE_MASTER" using select_parent_master(2) [of t] by (auto simp: selected_def config)
    then show ?thesis using chosen_parent [OF assms(1-3)] True by (auto split: if_splits)
  next
    case False
    then obtain k m u where m: "(parent_edge (network pre) ^^ k) a m" "pre m = Some u" "nd_role u = TREENET_ROLE_MASTER"
      using master_reached [OF assms] by blast
    moreover have "net_rank (network pre) m = 0"
      using m(2) select_parent_master(2) [OF m(3)] by (simp add: net_rank_def network_def selected_def)
    moreover have "8 * k \<le> unat (nd_rank (selected t))"
      using current.path_rank [where pre = pre, folded edges, of k a m] m(1) rank by simp
    ultimately show ?thesis using False by auto
  qed
qed

text \<open>Master 1, node 2 that has heard it, and node 3 that has heard node 2.\<close>

definition no_neighbors :: tn_neighbor_table_t where
  "no_neighbors = tn_neighbor_table_init \<lparr>nt_entries = [], nt_count = 0\<rparr>"

definition chain_net :: "treenet_addr_t \<rightharpoonup> unit treenet" where
  "chain_net = [1 \<mapsto> (node_plain TREENET_ROLE_MASTER 1 5000 no_neighbors)\<lparr>nd_rank := 0, nd_connected := True\<rparr>,
     2 \<mapsto> node_plain TREENET_ROLE_NODE 2 5000 (heard 5000 1 0 0 no_neighbors),
     3 \<mapsto> node_plain TREENET_ROLE_NODE 3 5000 (heard 5000 2 8 1 no_neighbors)]"

lemma chain_tables:
  "neighbor_wf no_neighbors" "neighbor_look no_neighbors = Map.empty"
  "neighbor_look (heard 5000 1 0 0 no_neighbors) = [1 \<mapsto> heard_entry 5000 1 0 0]"
  "neighbor_look (heard 5000 2 8 1 no_neighbors) = [2 \<mapsto> heard_entry 5000 2 8 1]"
  by (simp_all add: no_neighbors_def heard_look config)

lemma chain_entries:
  "neighbor_usable (heard_entry 5000 1 0 0) 5000 \<and> ne_addr (heard_entry 5000 1 0 0) = 1 \<and> ne_rank (heard_entry 5000 1 0 0) = 0 \<and>
     cand (heard_entry 5000 1 0 0) = 8"
  "neighbor_usable (heard_entry 5000 2 8 1) 5000 \<and> ne_addr (heard_entry 5000 2 8 1) = 2 \<and> ne_rank (heard_entry 5000 2 8 1) = 8 \<and>
     cand (heard_entry 5000 2 8 1) = 16"
  by code_simp+

lemma chain_candidates:
  "\<not> candidate ((node_plain TREENET_ROLE_MASTER 1 5000 no_neighbors)\<lparr>nd_rank := 0, nd_connected := True\<rparr>) n"
  "candidate (node_plain TREENET_ROLE_NODE 2 5000 (heard 5000 1 0 0 no_neighbors)) n \<longleftrightarrow> n = heard_entry 5000 1 0 0"
  "candidate (node_plain TREENET_ROLE_NODE 3 5000 (heard 5000 2 8 1 no_neighbors)) n \<longleftrightarrow> n = heard_entry 5000 2 8 1"
  using valid_entry_iff [OF chain_tables(1), of n] chain_entries
  by (auto simp: candidate_node_plain chain_tables config split: if_splits)
    (auto simp: candidate_def neighbor_usable_def neighbor_fresh_def)

lemma chain_inv:
  "neighbors_inv 1 no_neighbors" "neighbors_inv 2 (heard 5000 1 0 0 no_neighbors)" "neighbors_inv 3 (heard 5000 2 8 1 no_neighbors)"
proof -
  have "neighbors_ok no_neighbors" "neighbors_ok (heard 5000 1 0 0 no_neighbors)" "neighbors_ok (heard 5000 2 8 1 no_neighbors)"
    by (simp_all add: heard_def no_neighbors_def)
  then show "neighbors_inv 1 no_neighbors" "neighbors_inv 2 (heard 5000 1 0 0 no_neighbors)" "neighbors_inv 3 (heard 5000 2 8 1 no_neighbors)"
    by (simp_all add: neighbors_inv_def chain_tables config)
qed

lemma chain_ranks:
  "nd_rank (selected (node_plain TREENET_ROLE_NODE 2 5000 (heard 5000 1 0 0 no_neighbors))) = 8"
  "nd_rank (selected (node_plain TREENET_ROLE_NODE 3 5000 (heard 5000 2 8 1 no_neighbors))) = 16"
  using select_parent_edge [OF _ _ chain_candidates(2) [THEN iffD2, OF refl] refl]
    select_parent_edge [OF _ _ chain_candidates(3) [THEN iffD2, OF refl] refl] chain_entries chain_candidates(2,3)
  by (auto simp: selected_def config)

theorem parents_lead_to_master_witness:
  "\<exists>k m u. (parent_edge (network chain_net) ^^ k) 3 m \<and> chain_net m = Some u \<and> nd_role u = TREENET_ROLE_MASTER \<and> 8 * k \<le> 16"
proof -
  let ?t = "node_plain TREENET_ROLE_NODE 3 5000 (heard 5000 2 8 1 no_neighbors)"
  have "nodes_ok chain_net"
    using chain_inv by (auto simp: nodes_ok_def chain_net_def tree_ok_def config)
  moreover have "none_worse chain_net"
    using chain_candidates chain_entries chain_ranks(1)
      select_parent_master(2) [of "(node_plain TREENET_ROLE_MASTER 1 5000 no_neighbors)\<lparr>nd_rank := 0, nd_connected := True\<rparr>"]
    by (auto simp: none_worse_def chain_net_def selected_def [of "_\<lparr>nd_rank := _, nd_connected := _\<rparr>"] split: if_splits)
  moreover have "chain_net 3 = Some ?t" by (simp add: chain_net_def)
  ultimately show ?thesis
    using parents_lead_to_master [of chain_net 3 ?t] chain_ranks(2) by (auto simp: config)
qed

end
