(* ===== verification/Tn_Handlers.thy ===== *)
theory Tn_Handlers
  imports Tn_NodeInv Tn_Dodag
begin

text \<open>
  The behaviour of the transmit queue and of the frame handlers of \<open>src/src/api/treenet.c\<close> on single frames: what
  queueing a frame means, forwarding and delivery of data frames, flooding, destination advertisements and the next hop they
  give, and sending from the application.
\<close>

section \<open>Queueing a frame\<close>

text \<open>Slot \<open>s\<close> waits to send frame \<open>f\<close>; for a reliable frame it waits for the acknowledgement of \<open>nh\<close>.\<close>

definition holds_frame :: "tn_tx_slot_t \<Rightarrow> tn_frame_t \<Rightarrow> bool \<Rightarrow> treenet_addr_t \<Rightarrow> bool" where
  "holds_frame s f reliable nh \<longleftrightarrow> tx_valid s \<and> take (unat (tx_len s)) (tx_buf s) = frame_wire f \<and>
     tx_reliable s = reliable \<and> tx_attempts s = 0 \<and>
     tx_ack_dst s = (if reliable then nh else TREENET_ADDR_INVALID) \<and> tx_ack_seq s = fr_seq f"

abbreviation free_slot :: "'w treenet \<Rightarrow> nat option" where
  "free_slot t \<equiv> find_index (\<lambda>s. \<not> tx_valid s) (nd_tx t)"

lemma submit_full:
  "free_slot t = None \<Longrightarrow> tn_tx_submit t f reliable nh d = (- 1, TN_STAT_INC st_frames_dropped_update t)"
  unfolding tn_tx_submit_def by (simp only: option.case)

lemma submit_ok:
  assumes "node_inv Q t" and "frame_ok (nd_net_id t) f" and "fr_payload_len f \<le> 178" and "free_slot t = Some i"
  obtains s where "tn_tx_submit t f reliable nh d = (0, (snd (port_rnd t))\<lparr>nd_tx := (nd_tx t)[i := s]\<rparr>)"
    and "holds_frame s (f\<lparr>fr_prev := nd_addr t\<rparr>) reliable nh"
    and "tx_next_tx_ms s = nd_now_ms t + d + tn_rand_below (fst (port_rnd t)) TREENET_CW_MAX * TREENET_SLOT_MS"
proof -
  let ?f = "f\<lparr>fr_prev := nd_addr t\<rparr>" and ?s = "nd_tx t ! i"
  have i: "i < TREENET_TX_QUEUE_SIZE"
    using find_index_SomeD(1) [OF assms(4)] node_invD(10) [OF assms(1)] by (simp add: txq_ok_def)
  have buf: "length (tx_buf ?s) = TREENET_MTU" using txq_ok_nth [OF node_invD(10) [OF assms(1)] i] by (simp add: tx_slot_ok_def)
  have pok: "payload_ok ?f" using frame_ok_stamp [OF assms(2)] by (simp add: frame_ok_def)
  have enc: "tn_frame_encode (tx_buf ?s) TREENET_MTU ?f = (22 + fr_payload_len f, put_bytes (tx_buf ?s) 0 (frame_wire ?f))"
    using tn_frame_encode_wire [OF pok, of TREENET_MTU "tx_buf ?s"] buf assms(3) by (simp add: config)
  have u: "unat (of_nat (22 + fr_payload_len f) :: u16) = 22 + fr_payload_len f"
    using assms(3) by (intro unat_of_nat_lt) simp
  have len: "length (frame_wire ?f) = 22 + fr_payload_len f" by (simp add: frame_wire_def length_frame_body [OF pok])
  define s where "s = ?s\<lparr>tx_buf := put_bytes (tx_buf ?s) 0 (frame_wire ?f), tx_valid := True, tx_len := of_nat (22 + fr_payload_len f),
      tx_reliable := reliable, tx_attempts := 0, tx_ack_dst := (if reliable then nh else TREENET_ADDR_INVALID), tx_ack_seq := fr_seq ?f,
      tx_next_tx_ms := nd_now_ms t + d + tn_rand_below (fst (port_rnd t)) TREENET_CW_MAX * TREENET_SLOT_MS\<rparr>"
  show ?thesis
  proof (rule that)
    show "tn_tx_submit t f reliable nh d = (0, (snd (port_rnd t))\<lparr>nd_tx := (nd_tx t)[i := s]\<rparr>)"
      unfolding tn_tx_submit_def assms(4) option.case Let_def enc prod.case case_prod_unfold s_def by simp
    show "holds_frame s ?f reliable nh" using len u by (simp add: holds_frame_def s_def put_bytes_def)
    show "tx_next_tx_ms s = nd_now_ms t + d + tn_rand_below (fst (port_rnd t)) TREENET_CW_MAX * TREENET_SLOT_MS" by (simp add: s_def)
  qed
qed

text \<open>A later submission leaves an occupied slot alone.\<close>

lemma submit_other_slot:
  assumes "i < length (nd_tx t)" and "tx_valid (nd_tx t ! i)"
  shows "nd_tx (snd (tn_tx_submit t f reliable nh d)) ! i = nd_tx t ! i"
proof (cases "free_slot t")
  case None
  then show ?thesis by (simp add: submit_full del: find_index_None_iff)
next
  case (Some j)
  then have "j \<noteq> i" using assms(2) find_index_SomeD(2) [OF Some] by auto
  then show ?thesis unfolding tn_tx_submit_def Some by (simp add: Let_def case_prod_unfold)
qed

lemma send_ack_other_slot:
  "i < length (nd_tx t) \<Longrightarrow> tx_valid (nd_tx t ! i) \<Longrightarrow> nd_tx (tn_send_ack t to seq) ! i = nd_tx t ! i"
  by (simp add: tn_send_ack_def submit_other_slot)

section \<open>Data frames\<close>

abbreviation want_ack :: "tn_frame_t \<Rightarrow> bool" where
  "want_ack f \<equiv> fr_flags f AND TN_FLAG_WANT_ACK \<noteq> 0"

abbreviation ack_back :: "'w treenet \<Rightarrow> tn_frame_t \<Rightarrow> 'w treenet" where
  "ack_back t f \<equiv> (if want_ack f then tn_send_ack t (fr_prev f) (fr_seq f) else t)"

lemma handle_data_forwards:
  assumes "node_inv Q t" and "frame_ok (nd_net_id t) f" and "fr_payload_len f \<le> 178" and "fr_dst f \<noteq> nd_addr t"
    and "nd_role t \<noteq> TREENET_ROLE_LEAF" and "\<not> tn_dupcache_check (nd_dup t) (fr_src f) (fr_seq f) now" and "fr_hop_limit f > 1"
    and "fst (tn_route_next_hop t (fr_dst f)) = nh" and "nh \<noteq> TREENET_ADDR_INVALID" and "free_slot t = Some i"
    and "tn_handle_data t f rssi snr now = t'"
  shows "holds_frame (nd_tx t' ! i) (f\<lparr>fr_hop_limit := fr_hop_limit f - 1, fr_prev := nd_addr t\<rparr>) (want_ack f) nh"
    and "nd_dup t' = tn_dupcache_mark (nd_dup t) (fr_src f) (fr_seq f) now" and "nd_addr t' = nd_addr t" and "nd_role t' = nd_role t"
proof -
  let ?out = "f\<lparr>fr_hop_limit := fr_hop_limit f - 1\<rparr>"
  define u where "u = snd (tn_route_next_hop t (fr_dst f))"
  have u: "node_inv Q u" "free_slot u = Some i" "nd_net_id u = nd_net_id t" "nd_addr u = nd_addr t" "nd_tx u = nd_tx t" "nd_dup u = nd_dup t"
    using assms(1,10) by (simp_all add: u_def)
  have out: "frame_ok (nd_net_id u) ?out" "fr_payload_len ?out \<le> 178" using assms(2,3) u(3) by (simp_all add: frame_ok_hop)
  obtain s where s: "tn_tx_submit u ?out (want_ack f) nh 0 = (0, (snd (port_rnd u))\<lparr>nd_tx := (nd_tx u)[i := s]\<rparr>)"
      "holds_frame s (?out\<lparr>fr_prev := nd_addr u\<rparr>) (want_ack f) nh"
    by (rule submit_ok [OF u(1) out u(2), of "want_ack f" nh 0])
  define v where "v = (snd (port_rnd u))\<lparr>nd_tx := (nd_tx u)[i := s], nd_dup := tn_dupcache_mark (nd_dup t) (fr_src f) (fr_seq f) now\<rparr>"
  have t': "t' = ack_back v f"
    using assms(4-7,9) unfolding assms(11) [symmetric] tn_handle_data_def Let_def case_prod_unfold u_def [symmetric] assms(8) s(1)
    by (simp add: not_le v_def u(6))
  have i: "i < length (nd_tx v)" "nd_tx v ! i = s" using find_index_SomeD(1) [OF u(2)] by (simp_all add: v_def)
  have "nd_tx t' ! i = s" using i s(2) send_ack_other_slot [of i v] by (simp add: t' holds_frame_def)
  then show "holds_frame (nd_tx t' ! i) (f\<lparr>fr_hop_limit := fr_hop_limit f - 1, fr_prev := nd_addr t\<rparr>) (want_ack f) nh"
    using s(2) u(4) by simp
  show "nd_dup t' = tn_dupcache_mark (nd_dup t) (fr_src f) (fr_seq f) now" "nd_addr t' = nd_addr t" "nd_role t' = nd_role t"
    by (simp_all add: t' v_def u_def)
qed

lemma handle_data_delivers:
  assumes "fr_dst f = nd_addr t" and "\<not> tn_dupcache_check (nd_dup t) (fr_src f) (fr_seq f) now"
  shows "tn_handle_data t f rssi snr now =
    tn_deliver (ack_back (t\<lparr>nd_dup := tn_dupcache_mark (nd_dup t) (fr_src f) (fr_seq f) now\<rparr>) f) f rssi snr"
  using assms by (simp add: tn_handle_data_def tn_dupcache_seen_def Let_def)

lemma deliver_whole:
  "fr_flags f AND TN_FLAG_FRAG = 0 \<Longrightarrow> tn_deliver t f rssi snr =
    deliver_up (TN_STAT_INC st_datagrams_rx_update t) (fr_src f) (frame_data f) rssi snr (TREENET_MAX_HOPS - fr_hop_limit f)"
  by (simp add: tn_deliver_def deliver_up_def Let_def split: option.split)

text \<open>
  Property C16: a router forwards a data frame for another node once. If the frame is new, has hops left, a next hop is known and a transmit
  slot is free, that slot holds the same frame with the hop limit lowered by one and this node as previous hop, addressed to
  the next hop and retransmitted until acknowledged exactly if the sender wanted an acknowledgement. As long as the
  duplicate entry is fresh, another copy of the frame is only acknowledged.
\<close>

theorem data_forwarded_once:
  assumes "node_inv Q t" and "frame_ok (nd_net_id t) f" and "fr_payload_len f \<le> 178" and "fr_dst f \<noteq> nd_addr t"
    and "nd_role t \<noteq> TREENET_ROLE_LEAF" and "\<not> tn_dupcache_check (nd_dup t) (fr_src f) (fr_seq f) now" and "fr_hop_limit f > 1"
    and "fst (tn_route_next_hop t (fr_dst f)) = nh" and "nh \<noteq> TREENET_ADDR_INVALID" and "free_slot t = Some i"
    and "tn_handle_data t f rssi snr now = t'" and "\<not> tn_time_after now' (now + du_ttl_ms (nd_dup t))"
  shows "holds_frame (nd_tx t' ! i) (f\<lparr>fr_hop_limit := fr_hop_limit f - 1, fr_prev := nd_addr t\<rparr>) (want_ack f) nh \<and>
    tn_handle_data t' f rssi' snr' now' = ack_back t' f"
  using handle_data_forwards [OF assms(1-11)] node_invD(8) [OF assms(1)] assms(4,5,12)
  by (simp add: tn_handle_data_def [of t'] check_mark Let_def)

text \<open>A node of role \<open>role\<close> with the neighbours \<open>tbl\<close>, as it stands before it has a parent.\<close>

definition node_ready :: "treenet_role_t \<Rightarrow> treenet_addr_t \<Rightarrow> u32 \<Rightarrow> tn_neighbor_table_t \<Rightarrow> unit treenet" where
  "node_ready role addr now tbl = (node_plain role addr now tbl)
     \<lparr>nd_dup := tn_dupcache_init \<lparr>du_entries = [], du_ttl_ms = 0\<rparr> TREENET_DUP_TTL_MS, nd_trickle_I := TREENET_BEACON_MIN_MS,
      nd_rx := tn_ringbuf_init \<lparr>rb_buf = [], rb_capacity = 0, rb_head = 0, rb_tail = 0, rb_dropped = 0\<rparr>
        (replicate TREENET_RX_RING_BYTES 0) TREENET_RX_RING_BYTES\<rparr>"

lemma node_ready_fields [simp]:
  "nd_addr (node_ready role addr now tbl) = addr" "nd_role (node_ready role addr now tbl) = role"
  "nd_net_id (node_ready role addr now tbl) = 1" "nd_neighbors (node_ready role addr now tbl) = tbl"
  "nd_parent (node_ready role addr now tbl) = 0" "nd_now_ms (node_ready role addr now tbl) = now"
  "nd_dup (node_ready role addr now tbl) = tn_dupcache_init \<lparr>du_entries = [], du_ttl_ms = 0\<rparr> TREENET_DUP_TTL_MS"
  "nd_tx (node_ready role addr now tbl) = replicate TREENET_TX_QUEUE_SIZE tx_slot_zero"
  "nd_routes (node_ready role addr now tbl) = \<lparr>rt_entries = replicate TREENET_MAX_ROUTES route_zero, rt_count = 0\<rparr>"
  "nd_cfg (node_ready role addr now tbl) = cfg_plain role addr" "nd_initialized (node_ready role addr now tbl)"
  by (simp_all add: node_ready_def node_plain_def node_cleared_def)

lemma node_ready_inv:
  assumes "role \<noteq> TREENET_ROLE_MASTER" and "addr \<noteq> TREENET_ADDR_INVALID" and "addr \<noteq> TREENET_ADDR_BROADCAST" and "neighbors_inv addr tbl"
  shows "node_inv (\<lambda>_. True) (node_ready role addr now tbl)"
proof -
  let ?t = "node_ready role addr now tbl"
  have "rx_ok (nd_rx ?t)"
    using ring_repr_init [of 10 "replicate TREENET_RX_RING_BYTES 0"] unfolding rx_ok_def node_ready_def
    by (intro exI [of _ "[]"]) (simp add: config)
  moreover have "routes_inv addr (nd_routes ?t)"
    using route_wf_init [of "nd_routes ?t"] route_look_init [of "nd_routes ?t"] by (simp add: routes_inv_def tn_route_init_def)
  moreover have "txq_ok addr 1 (nd_tx ?t)" "reasm_ok (nd_reasm ?t)"  "nd_trickle_I ?t = TREENET_BEACON_MIN_MS" "eventq_wf (nd_events ?t)"
      "nd_rank ?t = TREENET_RANK_INFINITE" "\<not> nd_connected ?t"
    by (simp_all add: node_ready_def node_plain_def node_cleared_def txq_ok_def tx_slot_ok_def tx_slot_zero_def
        reasm_ok_def reasm_slot_ok_def reasm_zero_def list_all_iff)
  ultimately show ?thesis
    using assms by (simp add: node_inv_def tree_ok_def port_ok_def cfg_ok_def cfg_plain_def config)
qed

lemma two_routers_inv [simp]: "addr \<noteq> 3 \<Longrightarrow> addr \<noteq> 4 \<Longrightarrow> neighbors_inv addr (two_routers now)"
proof -
  assume a: "addr \<noteq> 3" "addr \<noteq> 4"
  have "neighbors_inv addr (tn_neighbor_table_init \<lparr>nt_entries = [], nt_count = 0\<rparr>)" by (simp add: neighbors_inv_def)
  with a show ?thesis unfolding two_routers_def heard_def by (simp add: config)
qed

lemma find_look_None: "tn_neighbor_find tbl addr = None \<longleftrightarrow> neighbor_look tbl addr = None"
  by (simp add: tn_neighbor_find_look)

text \<open>A data frame of node 9 that was last sent by node 4.\<close>

definition frame_via :: "treenet_addr_t \<Rightarrow> tn_frame_t" where
  "frame_via dst = frame_zero\<lparr>fr_version := TREENET_PROTOCOL_VERSION, fr_type := TREENET_FRAME_DATA, fr_flags := TN_FLAG_WANT_ACK,
     fr_src := 9, fr_dst := dst, fr_prev := 4, fr_seq := 7, fr_net_id := 1, fr_hop_limit := 5, fr_payload := Some [1, 2], fr_payload_len := 2\<rparr>"

lemma frame_via_ok: "dst \<noteq> 0 \<Longrightarrow> frame_ok 1 (frame_via dst)"
  by (simp add: frame_ok_def frame_fields_ok_def payload_ok_def frame_via_def config)

lemma empty_queue_free [simp]: "find_index (\<lambda>s. \<not> tx_valid s) (replicate TREENET_TX_QUEUE_SIZE tx_slot_zero) = Some 0"
  unfolding find_index_Some_iff by (simp add: tx_slot_zero_def config)

theorem data_forwarded_once_witness:
  "\<exists>t :: unit treenet. holds_frame (nd_tx (tn_handle_data t (frame_via 3) (- 80) 5 5000) ! 0)
      ((frame_via 3)\<lparr>fr_hop_limit := 4, fr_prev := 2\<rparr>) True 3"
proof -
  let ?t = "node_ready TREENET_ROLE_REPEATER 2 5000 (two_routers 5000)" and ?f = "frame_via 3"
  have f: "fr_dst ?f = 3" "fr_payload_len ?f = 2" "fr_hop_limit ?f = 5" "want_ack ?f" by (simp_all add: frame_via_def config)
  have nh: "fst (tn_route_next_hop ?t 3) = 3" by (simp add: tn_route_next_hop_def find_look_None two_routers_look)
  have inv: "node_inv (\<lambda>_. True) ?t" by (rule node_ready_inv) (simp_all add: config)
  have "holds_frame (nd_tx (tn_handle_data ?t ?f (- 80) 5 5000) ! 0) (?f\<lparr>fr_hop_limit := fr_hop_limit ?f - 1, fr_prev := nd_addr ?t\<rparr>) (want_ack ?f) 3"
    by (rule conjunct1, rule data_forwarded_once [OF inv _ _ _ _ _ _ _ _ _ refl, where now' = 5000 and i = 0])
      (simp_all add: f nh frame_via_ok check_init, simp_all add: tn_time_after_def config)
  then show ?thesis using f by (intro exI [of _ ?t]) simp
qed

text \<open>
  Data for this node is delivered once. A new unfragmented data frame addressed to this node is acknowledged if the
  sender wants it and given to the application with its payload, source and hop count. A further copy within the duplicate
  window is acknowledged again (the first acknowledgement may have been lost) and changes nothing else but the time stamp of the
  duplicate entry.
\<close>

lemma data_delivered_once:
  assumes "node_inv Q t" and "fr_dst f = nd_addr t" and "\<not> tn_dupcache_check (nd_dup t) (fr_src f) (fr_seq f) now"
    and "fr_flags f AND TN_FLAG_FRAG = 0" and "tn_handle_data t f rssi snr now = t'"
    and "\<not> tn_time_after now' (now + du_ttl_ms (nd_dup t))"
  shows "t' = deliver_up (TN_STAT_INC st_datagrams_rx_update
        (ack_back (t\<lparr>nd_dup := tn_dupcache_mark (nd_dup t) (fr_src f) (fr_seq f) now\<rparr>) f))
      (fr_src f) (frame_data f) rssi snr (TREENET_MAX_HOPS - fr_hop_limit f) \<and>
    tn_handle_data t' f rssi' snr' now' =
      ack_back (t'\<lparr>nd_dup := tn_dupcache_mark (nd_dup t') (fr_src f) (fr_seq f) now'\<rparr>) f"
proof -
  have t': "t' = tn_deliver (ack_back (t\<lparr>nd_dup := tn_dupcache_mark (nd_dup t) (fr_src f) (fr_seq f) now\<rparr>) f) f rssi snr"
    using handle_data_delivers [OF assms(2,3)] assms(5) by simp
  have "nd_addr t' = nd_addr t" "nd_dup t' = tn_dupcache_mark (nd_dup t) (fr_src f) (fr_seq f) now" by (simp_all add: t')
  moreover from this have "tn_dupcache_check (nd_dup t') (fr_src f) (fr_seq f) now'"
    using node_invD(8) [OF assms(1)] assms(6) by (simp add: check_mark)
  ultimately have "tn_handle_data t' f rssi' snr' now' = ack_back (t'\<lparr>nd_dup := tn_dupcache_mark (nd_dup t') (fr_src f) (fr_seq f) now'\<rparr>) f"
    using assms(2) by (simp add: tn_handle_data_def tn_dupcache_seen_def Let_def)
  then show ?thesis using assms(4) by (simp add: t' deliver_whole)
qed

section \<open>Floods\<close>

text \<open>
  Property C30: the contention window of a rebroadcast. It is 0 for a link of 10 dB and more, half a second for -20 dB and less,
  linear in between, and never shorter for a weaker link: the nodes at the edge of the sender's range, which heard it worst,
  tend to repeat a flood last. The comments in the code announce the opposite order.
\<close>

theorem flood_window_correct:
  "uint (flood_window snr) = (10 - max (- 20) (min 10 (sint snr))) * 500 div 30 \<and>
   (sint snr \<le> sint snr' \<longrightarrow> flood_window snr' \<le> flood_window snr)"
proof -
  have eq: "uint (flood_window s) = (10 - max (- 20) (min 10 (sint s))) * 500 div 30" for s
  proof -
    define k where "k = (10 - max (- 20) (min 10 (sint s))) * 500"
    have "0 \<le> k" "k \<le> 15000" by (auto simp: k_def)
    then have "uint (word_of_int k :: u32) = k" by (simp add: uint_word_of_int_eq take_bit_int_eq_self)
    moreover have "flood_window s = word_of_int k div 30"
      by (simp add: flood_window_def k_def tn_clamp_i32_def max_def min_def config Let_def)
    ultimately show ?thesis unfolding k_def [symmetric] by (simp add: uint_div_distrib)
  qed
  then show ?thesis by (auto simp: word_le_def intro!: zdiv_mono1)
qed

theorem flood_window_correct_witness: "flood_window 10 \<le> flood_window 0 \<and> flood_window 0 \<le> flood_window (- 20)"
  using flood_window_correct [of 0 10] flood_window_correct [of "- 20" 0] by simp

text \<open>The second half of \<open>tn_handle_flood\<close>: the delay, and the frame with one hop less.\<close>

definition rebroadcast :: "'w treenet \<Rightarrow> tn_frame_t \<Rightarrow> i8 \<Rightarrow> 'w treenet" where
  "rebroadcast t f snr =
     (let (delay, t) =
            (if nd_role t = TREENET_ROLE_REPEATER then (0, t)
             else let (r, t) = port_rnd t in (tn_rand_below r TREENET_SLOT_MS + flood_window snr, t))
      in snd (tn_tx_submit t (f\<lparr>fr_hop_limit := fr_hop_limit f - 1\<rparr>) False TREENET_ADDR_BROADCAST delay))"

lemma handle_flood_new:
  assumes "\<not> tn_dupcache_check (nd_dup t) (fr_src f) (fr_seq f) now"
    and "tn_deliver (t\<lparr>nd_dup := tn_dupcache_mark (nd_dup t) (fr_src f) (fr_seq f) now\<rparr>) f rssi snr = w"
  shows "tn_handle_flood t f rssi snr now = (if nd_role w = TREENET_ROLE_LEAF \<or> fr_hop_limit f \<le> 1 then w else rebroadcast w f snr)"
  using assms by (simp add: tn_handle_flood_def tn_dupcache_seen_def rebroadcast_def Let_def case_prod_unfold)

lemma rebroadcast_dup [simp]: "nd_dup (rebroadcast t f snr) = nd_dup t"
  by (simp add: rebroadcast_def Let_def case_prod_unfold)

lemma rebroadcast_datagrams: "st_datagrams_rx (nd_stats (rebroadcast t f snr)) = st_datagrams_rx (nd_stats t)"
  by (simp add: rebroadcast_def tn_tx_submit_def TN_STAT_INC_def Let_def case_prod_unfold split: option.split)

text \<open>A free slot takes the frame, to be sent after the delay and the backoff of the transmit queue.\<close>

lemma rebroadcast_slot:
  assumes "node_inv Q w" and "frame_ok (nd_net_id w) g" and "fr_payload_len g \<le> 178" and "free_slot w = Some i"
  shows "holds_frame (nd_tx (rebroadcast w g snr) ! i) (g\<lparr>fr_hop_limit := fr_hop_limit g - 1, fr_prev := nd_addr w\<rparr>) False TREENET_ADDR_BROADCAST"
    and "\<exists>extra backoff. tx_next_tx_ms (nd_tx (rebroadcast w g snr) ! i) = nd_now_ms w +
        (if nd_role w = TREENET_ROLE_REPEATER then 0 else extra + flood_window snr) + backoff * TREENET_SLOT_MS \<and>
        extra < TREENET_SLOT_MS \<and> backoff < TREENET_CW_MAX"
proof -
  define v where "v = (if nd_role w = TREENET_ROLE_REPEATER then w else snd (port_rnd w))"
  define d where "d = (if nd_role w = TREENET_ROLE_REPEATER then 0 else tn_rand_below (fst (port_rnd w)) TREENET_SLOT_MS + flood_window snr)"
  let ?g = "g\<lparr>fr_hop_limit := fr_hop_limit g - 1\<rparr>"
  have v: "node_inv Q v" "nd_net_id v = nd_net_id w" "nd_tx v = nd_tx w" "nd_addr v = nd_addr w" "nd_now_ms v = nd_now_ms w"
    using assms(1) by (simp_all add: v_def)
  obtain s where s: "tn_tx_submit v ?g False TREENET_ADDR_BROADCAST d = (0, (snd (port_rnd v))\<lparr>nd_tx := (nd_tx v)[i := s]\<rparr>)"
      "holds_frame s (?g\<lparr>fr_prev := nd_addr v\<rparr>) False TREENET_ADDR_BROADCAST"
      "tx_next_tx_ms s = nd_now_ms v + d + tn_rand_below (fst (port_rnd v)) TREENET_CW_MAX * TREENET_SLOT_MS"
    by (rule submit_ok [OF v(1), of ?g i False TREENET_ADDR_BROADCAST d]) (use assms v in simp_all)
  have "rebroadcast w g snr = snd (tn_tx_submit v ?g False TREENET_ADDR_BROADCAST d)"
    by (simp add: rebroadcast_def v_def d_def case_prod_unfold Let_def)
  then have slot: "nd_tx (rebroadcast w g snr) ! i = s" using s(1) find_index_SomeD(1) [OF assms(4)] v(3) by simp
  show "holds_frame (nd_tx (rebroadcast w g snr) ! i) (g\<lparr>fr_hop_limit := fr_hop_limit g - 1, fr_prev := nd_addr w\<rparr>) False TREENET_ADDR_BROADCAST"
    using s(2) v(4) by (simp add: slot)
  have "tn_rand_below r TREENET_SLOT_MS < TREENET_SLOT_MS" "tn_rand_below r TREENET_CW_MAX < TREENET_CW_MAX" for r
    by (rule tn_rand_below_less, simp add: config)+
  then show "\<exists>extra backoff. tx_next_tx_ms (nd_tx (rebroadcast w g snr) ! i) = nd_now_ms w +
        (if nd_role w = TREENET_ROLE_REPEATER then 0 else extra + flood_window snr) + backoff * TREENET_SLOT_MS \<and>
        extra < TREENET_SLOT_MS \<and> backoff < TREENET_CW_MAX"
    using s(3) v(5) unfolding slot d_def by auto
qed



section \<open>Destination advertisements\<close>

lemma next_hop_by_route:
  assumes "route_wf (nd_routes t)" and "dst \<noteq> nd_addr t" and "tn_neighbor_find (nd_neighbors t) dst = None"
    and "route_look (nd_routes t) dst = Some r"
  shows "fst (tn_route_next_hop t dst) =
    (if tn_elapsed (rt_updated_ms r) (nd_now_ms t) \<le> TREENET_ROUTE_TIMEOUT_MS then rt_next_hop r else nd_parent t)"
  using tn_route_lookup_spec [OF assms(1), of dst "nd_now_ms t" TREENET_ROUTE_TIMEOUT_MS] assms(2-4)
  by (auto simp: tn_route_next_hop_def Let_def not_le split: if_splits)

text \<open>
  Property C17: an advertisement makes its origin reachable. After a router has handled a well-formed advertisement of another
  node, frames for that node go to the neighbour the advertisement came from until the route times out, and to the parent again after
  that (unless the origin is a direct neighbour, which needs no route). A router with another parent passes the advertisement
  on to it, one hop farther from the origin and under a sequence number of its own, as a reliable frame.
\<close>

theorem dao_makes_reachable:
  assumes "node_inv Q t" and "nd_role t \<noteq> TREENET_ROLE_LEAF" and "tn_dao_decode (fr_payload f) (fr_payload_len f) = Some d"
    and "da_origin d \<noteq> TREENET_ADDR_INVALID" and "da_origin d \<noteq> TREENET_ADDR_BROADCAST" and "da_origin d \<noteq> nd_addr t"
    and "da_hops d \<le> TREENET_MAX_HOPS" and "fr_prev f \<noteq> TREENET_ADDR_INVALID" and "fr_prev f \<noteq> TREENET_ADDR_BROADCAST"
    and "tn_neighbor_find (nd_neighbors t) (da_origin d) = None" and "tn_dao_handle t f now = (rc, t')"
  shows "fst (tn_route_next_hop (t'\<lparr>nd_now_ms := now'\<rparr>) (da_origin d)) =
      (if tn_elapsed now now' \<le> TREENET_ROUTE_TIMEOUT_MS then fr_prev f else nd_parent t) \<and>
    (nd_role t \<noteq> TREENET_ROLE_MASTER \<and> nd_parent t \<noteq> TREENET_ADDR_INVALID \<and> fr_prev f \<noteq> nd_parent t \<and> free_slot t = Some i \<longrightarrow>
      rc = 0 \<and> holds_frame (nd_tx t' ! i) ((dao_frame t (da_origin d) (da_hops d + 1) (nd_seq t))\<lparr>fr_prev := nd_addr t\<rparr>) True (nd_parent t))"
proof -
  define c where "c = (case tn_neighbor_find (nd_neighbors t) (fr_prev f) of
      Some i \<Rightarrow> ne_link_cost (nt_entries (nd_neighbors t) ! i) | None \<Rightarrow> 0)"
  define rt where "rt = snd (tn_route_add (nd_routes t) (da_origin d) (fr_prev f) c (da_hops d + 1) now)"
  let ?e = "route_entry (da_origin d) (fr_prev f) c (da_hops d + 1) now"
  define u where "u = t\<lparr>nd_routes := rt, nd_seq := nd_seq t + 1\<rparr>"
  have wf: "route_wf (nd_routes t)" using node_invD(7) [OF assms(1)] by (simp add: routes_inv_def)
  have rt: "route_wf rt" "route_look rt (da_origin d) = Some ?e"
    unfolding rt_def by (rule route_add_wf [OF wf], rule route_add_same [OF wf])
  have handled: "(rc, t') = (if nd_role t = TREENET_ROLE_MASTER then (0, t\<lparr>nd_routes := rt\<rparr>)
      else if nd_parent t = TREENET_ADDR_INVALID then (- 1, t\<lparr>nd_routes := rt\<rparr>)
      else if fr_prev f = nd_parent t then (0, t\<lparr>nd_routes := rt\<rparr>)
      else let r = tn_tx_submit u (dao_frame t (da_origin d) (da_hops d + 1) (nd_seq t)) True (nd_parent t) 0
        in (if fst r \<noteq> 0 then - 1 else 0, snd r))"
    using assms(2,4-6,8,9) leD [OF assms(7)] unfolding assms(11) [symmetric] tn_dao_handle_def assms(3) option.case Let_def c_def [symmetric] rt_def [symmetric]
    by (simp add: tn_next_seq_def u_def dao_frame_def case_prod_unfold)
  then have fields: "nd_routes t' = rt" "nd_neighbors t' = nd_neighbors t" "nd_addr t' = nd_addr t" "nd_parent t' = nd_parent t"
    by (auto simp: u_def Let_def split: if_splits)
  have inv: "node_inv Q u"
    using routes_inv_add [OF node_invD(7) [OF assms(1)]] assms(1,4-6,8,9) by (simp add: u_def rt_def)
  have f: "frame_ok (nd_net_id u) (dao_frame t (da_origin d) (da_hops d + 1) (nd_seq t))"
      "fr_payload_len (dao_frame t (da_origin d) (da_hops d + 1) (nd_seq t)) \<le> 178" if "nd_parent t \<noteq> TREENET_ADDR_INVALID"
    using control_frames_ok(4) [OF assms(1) that assms(4,5)] by (simp_all add: u_def) (simp add: dao_frame_def config)
  have "rc = 0 \<and> holds_frame (nd_tx t' ! i) ((dao_frame t (da_origin d) (da_hops d + 1) (nd_seq t))\<lparr>fr_prev := nd_addr t\<rparr>) True (nd_parent t)"
    if p: "nd_role t \<noteq> TREENET_ROLE_MASTER" "nd_parent t \<noteq> TREENET_ADDR_INVALID" "fr_prev f \<noteq> nd_parent t" "free_slot t = Some i"
  proof -
    have free: "free_slot u = Some i" using p(4) by (simp add: u_def)
    show ?thesis
      by (rule submit_ok [OF inv f [OF p(2)] free, of True "nd_parent t" 0])
        (use handled p find_index_SomeD(1) [OF free] in \<open>simp add: Let_def u_def\<close>)
  qed
  moreover have "fst (tn_route_next_hop (t'\<lparr>nd_now_ms := now'\<rparr>) (da_origin d)) =
      (if tn_elapsed now now' \<le> TREENET_ROUTE_TIMEOUT_MS then fr_prev f else nd_parent t)"
    using next_hop_by_route [of "t'\<lparr>nd_now_ms := now'\<rparr>" "da_origin d" ?e] rt assms(6,10) by (simp add: fields route_entry_def)
  ultimately show ?thesis by blast
qed

theorem dao_makes_reachable_witness:
  "\<exists>t :: unit treenet. fst (tn_route_next_hop t 9) = 0 \<and>
     fst (tn_route_next_hop (snd (tn_dao_handle t ((dao_frame t 9 1 5)\<lparr>fr_prev := 4\<rparr>) 5000)\<lparr>nd_now_ms := 60000\<rparr>) 9) = 4"
proof -
  let ?t = "node_ready TREENET_ROLE_REPEATER 2 5000 (two_routers 5000)" and ?d = "\<lparr>da_origin = 9, da_hops = 1\<rparr>"
  let ?f = "(dao_frame ?t 9 1 5)\<lparr>fr_prev := 4\<rparr>"
  have inv: "node_inv (\<lambda>_. True) ?t" by (rule node_ready_inv) (simp_all add: config)
  have d: "tn_dao_decode (fr_payload ?f) (fr_payload_len ?f) = Some ?d" "fr_prev ?f = 4"
    using dao_codec.decode_encode [of "replicate TN_DAO_PAYLOAD_LEN 0" TN_DAO_PAYLOAD_LEN ?d "[]"] by (simp_all add: dao_frame_def)
  have n: "tn_neighbor_find (two_routers 5000) 9 = None" by (simp add: find_look_None two_routers_look)
  have "fst (tn_route_next_hop (snd (tn_dao_handle ?t ?f 5000)\<lparr>nd_now_ms := 60000\<rparr>) (da_origin ?d)) =
      (if tn_elapsed 5000 60000 \<le> TREENET_ROUTE_TIMEOUT_MS then fr_prev ?f else nd_parent ?t)"
    by (rule conjunct1, rule dao_makes_reachable [OF inv _ d(1), of 5000 "fst (tn_dao_handle ?t ?f 5000)"]) (simp_all add: d n, simp_all add: config)
  moreover have "fst (tn_route_next_hop ?t 9) = 0"
    using n by (simp add: tn_route_next_hop_def tn_route_lookup_def route_zero_def Let_def case_prod_unfold config find_index_Some_iff split: option.split)
  ultimately show ?thesis using d(2) by (intro exI [of _ ?t]) (simp add: tn_elapsed_def config)
qed

end
