(* ===== verification/Tn_Send.thy ===== *)
theory Tn_Send
  imports Tn_Handlers
begin

text \<open>
  Sending from the application (\<open>treenet_send\<close>, \<open>treenet_broadcast\<close> of \<open>src/src/api/treenet.c\<close>): which frames a datagram
  becomes, and that they enter the transmit queue all or none.
\<close>

section \<open>Filling slots of the transmit queue\<close>

text \<open>
  From \<open>t\<close> to \<open>t'\<close> the frames \<open>fs\<close> were queued, each in a slot of its own that was free, and every other slot is as it was.
\<close>

definition queued :: "'w treenet \<Rightarrow> 'w treenet \<Rightarrow> tn_frame_t list \<Rightarrow> bool \<Rightarrow> treenet_addr_t \<Rightarrow> bool" where
  "queued t t' fs reliable nh \<longleftrightarrow> length (nd_tx t') = length (nd_tx t) \<and>
     (\<exists>js. distinct js \<and> length js = length fs \<and> (\<forall>j\<in>set js. j < length (nd_tx t) \<and> \<not> tx_valid (nd_tx t ! j)) \<and>
        (\<forall>k<length fs. holds_frame (nd_tx t' ! (js ! k)) ((fs ! k)\<lparr>fr_prev := nd_addr t\<rparr>) reliable nh) \<and>
        (\<forall>j. j \<notin> set js \<longrightarrow> nd_tx t' ! j = nd_tx t ! j))"

lemma queued_Nil: "nd_tx t' = nd_tx t \<Longrightarrow> queued t t' [] reliable nh"
  by (simp add: queued_def)

lemma queued_one:
  assumes "free_slot t = Some i" and "nd_tx t' = (nd_tx t)[i := s]" and "holds_frame s (f\<lparr>fr_prev := nd_addr t\<rparr>) reliable nh"
  shows "queued t t' [f] reliable nh"
  unfolding queued_def using find_index_SomeD(1,2) [OF assms(1)] assms(2,3) by (auto intro!: exI [of _ "[i]"] simp: nth_list_update)

lemma queued_Cons:
  assumes "queued t u [f] reliable nh" and "queued u v fs reliable nh" and "nd_addr u = nd_addr t"
  shows "queued t v (f # fs) reliable nh"
proof -
  obtain j where j: "j < length (nd_tx t)" "\<not> tx_valid (nd_tx t ! j)" "holds_frame (nd_tx u ! j) (f\<lparr>fr_prev := nd_addr t\<rparr>) reliable nh"
      "\<And>i. i \<noteq> j \<Longrightarrow> nd_tx u ! i = nd_tx t ! i" "length (nd_tx u) = length (nd_tx t)"
    using assms(1) by (auto simp: queued_def length_Suc_conv)
  obtain js where js: "distinct js" "length js = length fs" "\<forall>j\<in>set js. j < length (nd_tx u) \<and> \<not> tx_valid (nd_tx u ! j)"
      "\<forall>k<length fs. holds_frame (nd_tx v ! (js ! k)) ((fs ! k)\<lparr>fr_prev := nd_addr u\<rparr>) reliable nh"
      "\<forall>j. j \<notin> set js \<longrightarrow> nd_tx v ! j = nd_tx u ! j" "length (nd_tx v) = length (nd_tx u)"
    using assms(2) by (auto simp: queued_def)
  have "j \<notin> set js" using js(3) j(3) by (auto simp: holds_frame_def)
  moreover from this have "\<forall>i\<in>set js. i < length (nd_tx t) \<and> \<not> tx_valid (nd_tx t ! i)" using js(3) j(4,5) by metis
  ultimately show ?thesis
    unfolding queued_def using j js assms(3) by (intro conjI exI [of _ "j # js"]) (auto simp: nth_Cons' less_Suc_eq_0_disj)
qed

lemma length_filter_update:
  "i < length xs \<Longrightarrow> P (xs ! i) \<Longrightarrow> \<not> P y \<Longrightarrow> Suc (length (filter P (xs[i := y]))) = length (filter P xs)"
  by (induction xs arbitrary: i) (auto simp: nth_Cons split: nat.splits)

lemma free_slot_None: "tn_tx_free_slots t = 0 \<longleftrightarrow> free_slot t = None"
  by (simp add: tn_tx_free_slots_def filter_empty_conv)

lemma submit_queues:
  assumes "node_inv Q t" and "frame_ok (nd_net_id t) f" and "fr_payload_len f \<le> 178" and "0 < tn_tx_free_slots t"
  shows "fst (tn_tx_submit t f reliable nh d) = 0" and "queued t (snd (tn_tx_submit t f reliable nh d)) [f] reliable nh"
    and "Suc (tn_tx_free_slots (snd (tn_tx_submit t f reliable nh d))) = tn_tx_free_slots t"
proof -
  obtain i where i: "free_slot t = Some i" using assms(4) free_slot_None [of t] by (cases "free_slot t") (simp_all del: find_index_None_iff)
  obtain s where s: "tn_tx_submit t f reliable nh d = (0, (snd (port_rnd t))\<lparr>nd_tx := (nd_tx t)[i := s]\<rparr>)"
      "holds_frame s (f\<lparr>fr_prev := nd_addr t\<rparr>) reliable nh"
    by (rule submit_ok [OF assms(1-3) i, of reliable nh d])
  show "fst (tn_tx_submit t f reliable nh d) = 0" "queued t (snd (tn_tx_submit t f reliable nh d)) [f] reliable nh"
    using s by (simp_all add: queued_one [OF i])
  show "Suc (tn_tx_free_slots (snd (tn_tx_submit t f reliable nh d))) = tn_tx_free_slots t"
    using s find_index_SomeD(1,2) [OF i] by (simp add: tn_tx_free_slots_def length_filter_update holds_frame_def)
qed

section \<open>The frames of a datagram\<close>

definition datagram_frames :: "'w treenet \<Rightarrow> treenet_addr_t \<Rightarrow> u8 list \<Rightarrow> nat \<Rightarrow> tn_frame_t list" where
  "datagram_frames t dst p len =
     (let flood = (dst = TREENET_ADDR_BROADCAST); ack = (if \<not> flood \<and> cf_reliable (nd_cfg t) then TN_FLAG_WANT_ACK else 0)
      in if len \<le> TREENET_MTU - TN_FRAME_OVERHEAD then [data_frame t flood dst ack (nd_seq t) p len]
         else map (\<lambda>i. frag_frame t flood dst (TN_FLAG_FRAG OR ack) (nd_seq t + 1 + of_nat i) (nd_seq t) p len i) [0..<frag_count len])"

lemma frag_frame_static: "nd_static x = nd_static t \<Longrightarrow> frag_frame x = frag_frame t"
  by (intro ext) (simp add: frag_frame_def data_frame_def nd_staticD [of x t])

lemma frag_frame_ok:
  assumes "node_inv Q t" and "\<not> flood \<Longrightarrow> dst \<noteq> TREENET_ADDR_INVALID"
  shows "frame_ok (nd_net_id t) (frag_frame t flood dst flags seq gid p len i)" "fr_payload_len (frag_frame t flood dst flags seq gid p len i) \<le> 178"
proof -
  show "frame_ok (nd_net_id t) (frag_frame t flood dst flags seq gid p len i)"
    unfolding frag_frame_def Let_def case_prod_unfold
    by (rule data_frame_ok [OF assms(1)]) (use assms(2) length_frag_payload in auto)
  show "fr_payload_len (frag_frame t flood dst flags seq gid p len i) \<le> 178"
    by (simp add: frag_frame_def data_frame_def frag_payload_def Let_def config)
qed

lemma send_frags_queues:
  assumes "node_inv Q t" and "\<not> flood \<Longrightarrow> dst \<noteq> TREENET_ADDR_INVALID" and "a \<le> frag_count len" and "frag_count len - a \<le> tn_tx_free_slots t"
  shows "fst (send_frags flood dst reliable nh gid (frag_count len) p len [a..<frag_count len] t) = 0 \<and>
    queued t (snd (send_frags flood dst reliable nh gid (frag_count len) p len [a..<frag_count len] t))
      (map (\<lambda>i. frag_frame t flood dst (TN_FLAG_FRAG OR (if reliable then TN_FLAG_WANT_ACK else 0)) (nd_seq t + of_nat (i - a)) gid p len i)
        [a..<frag_count len]) reliable nh"
  using assms
proof (induction "frag_count len - a" arbitrary: a t)
  case 0
  then show ?case by (simp add: queued_Nil TN_STAT_INC_def)
next
  case (Suc n)
  let ?fl = "TN_FLAG_FRAG OR (if reliable then TN_FLAG_WANT_ACK else 0)"
  let ?F = "\<lambda>t seq. frag_frame t flood dst ?fl seq gid p len"
  have a: "[a..<frag_count len] = a # [Suc a..<frag_count len]" using Suc.hyps(2) by (simp add: upt_conv_Cons)
  define x where "x = snd (tn_next_seq t)"
  have x: "node_inv Q x" "nd_static x = nd_static t" "tn_tx_free_slots x = tn_tx_free_slots t" "nd_tx x = nd_tx t" "nd_seq x = nd_seq t + 1"
    using Suc.prems(1) by (simp_all add: x_def tn_next_seq_def tn_tx_free_slots_def node_inv_def)
  have f: "frame_ok (nd_net_id x) (?F x (nd_seq t) a)" "fr_payload_len (?F x (nd_seq t) a) \<le> 178" "0 < tn_tx_free_slots x"
    using frag_frame_ok [OF x(1) Suc.prems(2)] Suc.hyps(2) Suc.prems(4) x(3) by simp_all
  define y where "y = snd (tn_tx_submit x (?F x (nd_seq t) a) reliable nh 0)"
  note sub = submit_queues [OF x(1) f, of reliable nh 0, folded y_def]
  have y: "node_inv Q y" "nd_static y = nd_static t" "nd_seq y = nd_seq t + 1"
    using tn_tx_submit_inv [OF x(1) f(1)] x(2,5) by (simp_all add: y_def)
  have step: "send_frags flood dst reliable nh gid (frag_count len) p len [a..<frag_count len] t =
      send_frags flood dst reliable nh gid (frag_count len) p len [Suc a..<frag_count len] y"
    unfolding a send_frags.simps Let_def case_prod_unfold using sub(1)
    by (simp add: y_def x_def tn_next_seq_def frag_frame_def Let_def case_prod_unfold)
  have first: "queued t y [?F t (nd_seq t) a] reliable nh"
    using sub(2) x(2,4) nd_staticD(3) [OF x(2)] by (simp add: queued_def frag_frame_static [OF x(2)])
  have m: "map (\<lambda>i. ?F y (nd_seq y + of_nat (i - Suc a)) i) [Suc a..<frag_count len] = map (\<lambda>i. ?F t (nd_seq t + of_nat (i - a)) i) [Suc a..<frag_count len]"
    by (rule map_cong) (auto simp: frag_frame_static [OF y(2)] y(3) add.assoc)
  have rest: "fst (send_frags flood dst reliable nh gid (frag_count len) p len [Suc a..<frag_count len] y) = 0 \<and>
    queued y (snd (send_frags flood dst reliable nh gid (frag_count len) p len [Suc a..<frag_count len] y))
      (map (\<lambda>i. ?F t (nd_seq t + of_nat (i - a)) i) [Suc a..<frag_count len]) reliable nh"
    by (rule Suc.hyps(1) [of "Suc a" y, unfolded m]) (use Suc.hyps(2) Suc.prems(2-4) y(1) sub(3) x(3) in simp_all)
  then show ?case using queued_Cons [OF first conjunct2 [OF rest] nd_staticD(3) [OF y(2)]] unfolding step unfolding a by simp
qed

section \<open>The outcome of a send\<close>

lemma submit_failed:
  assumes "tn_tx_free_slots t = 0"
  shows "fst (tn_tx_submit t f reliable nh d) = - 1" and "nd_tx (snd (tn_tx_submit t f reliable nh d)) = nd_tx t"
  using submit_full [OF free_slot_None [THEN iffD1, OF assms]] by (simp_all add: TN_STAT_INC_def)

definition frames_needed :: "nat \<Rightarrow> nat" where
  "frames_needed len = (if len \<le> TREENET_MTU - TN_FRAME_OVERHEAD then 1 else frag_count len)"

text \<open>What \<open>tn_send_datagram\<close> does once the next hop is known.\<close>

lemma send_datagram_queues:
  assumes "node_inv Q t" and "flood \<longleftrightarrow> dst = TREENET_ADDR_BROADCAST" and "dst \<noteq> TREENET_ADDR_INVALID" and "len \<le> length p"
    and "0 < len" and "len \<le> TREENET_MAX_DATAGRAM" and "(if flood then (TREENET_ADDR_BROADCAST, t) else tn_route_next_hop t dst) = (nh, u)"
    and "nh \<noteq> TREENET_ADDR_INVALID" and "tn_send_datagram t dst (Some p) len flood = (rc, t')"
  shows "if tn_tx_free_slots t < frames_needed len then rc = - 1 \<and> nd_tx t' = nd_tx t
    else rc = 0 \<and> queued t t' (datagram_frames t dst p len) (\<not> flood \<and> cf_reliable (nd_cfg t)) nh"
proof -
  let ?rel = "\<not> flood \<and> cf_reliable (nd_cfg t)"
  let ?ack = "if ?rel then TN_FLAG_WANT_ACK else 0"
  define x where "x = snd (tn_next_seq u)"
  have u: "node_inv Q u" "nd_static u = nd_static t" "nd_seq u = nd_seq t" "nd_tx u = nd_tx t"
    using assms(1,7) tn_route_next_hop_inv [OF assms(1), of dst] tn_route_next_hop_keeps(1) [of t dst] tn_route_next_hop_keeps_fields [of t dst]
    by (auto split: if_splits simp del: tn_route_next_hop_inv tn_route_next_hop_keeps tn_route_next_hop_keeps_fields)
  then have x: "node_inv Q x" "nd_static x = nd_static t" "nd_seq x = nd_seq t + 1" "nd_tx x = nd_tx t" "tn_tx_free_slots x = tn_tx_free_slots t"
      "tn_tx_free_slots u = tn_tx_free_slots t" "fst (tn_next_seq u) = nd_seq t"
    by (simp_all add: x_def tn_next_seq_def tn_tx_free_slots_def node_inv_def nd_static_def)
  note st = nd_staticD [OF x(2)]
  have q: "queued x t' fs rel nh = queued t t' fs rel nh" for fs rel by (simp add: queued_def x(4) st(3))
  have df: "data_frame x = data_frame t" by (intro ext) (simp add: data_frame_def st)
  have dst: "\<not> flood \<Longrightarrow> dst \<noteq> TREENET_ADDR_INVALID" using assms(3) by simp
  note body = assms(9) [unfolded tn_send_datagram_def option.case Let_def assms(7) prod.case case_prod_unfold fst_conv snd_conv x(7) x_def [symmetric]]
  show ?thesis
  proof (cases "len \<le> TREENET_MTU - TN_FRAME_OVERHEAD")
    case True
    let ?f = "data_frame x flood dst ?ack (nd_seq t) p len"
    have f: "frame_ok (nd_net_id x) ?f" "fr_payload_len ?f \<le> 178"
      using data_frame_ok [OF x(1) dst assms(4)] True by (simp_all add: data_frame_def config)
    let ?s = "tn_tx_submit x ?f ?rel nh 0"
    have r: "rc = fst ?s" "nd_tx t' = nd_tx (snd ?s)" "nd_static t' = nd_static (snd ?s)"
      using body True assms(5,6,8) by (auto simp: TN_STAT_INC_def split: if_splits)
    show ?thesis
    proof (cases "tn_tx_free_slots x = 0")
      case False
      note s = submit_queues [OF x(1) f, of ?rel nh 0]
      have "queued x t' [?f] ?rel nh" using s(2) False r(2) by (simp add: queued_def)
      then show ?thesis using True False s(1) r(1) x(5) assms(2) by (simp add: q df frames_needed_def datagram_frames_def Let_def)
    qed (use True r x(4,5) submit_failed [of x ?f ?rel nh 0] in \<open>simp add: frames_needed_def\<close>)
  next
    case False
    have "\<not> TREENET_MAX_FRAGMENTS < frag_count len" using frag_count_bounds(2) [OF assms(5,6)] by (simp add: config)
    then have r: "(rc, t') = (if tn_tx_free_slots t < frag_count len then (- 1, u)
        else send_frags flood dst ?rel nh (nd_seq t) (frag_count len) p len [0..<frag_count len] x)"
      using body False assms(5,6,8) x(6) nd_staticD(1) [OF u(2)] by (auto simp: frag_count_def split: if_splits)
    have "nd_seq t + (1 + y) = nd_seq t + 1 + y" for y by (simp add: add.assoc)
    then have "datagram_frames t dst p len = map (\<lambda>i. frag_frame x flood dst (TN_FLAG_FRAG OR ?ack) (nd_seq x + of_nat (i - 0)) (nd_seq t) p len i) [0..<frag_count len]"
      using False assms(2) by (simp add: datagram_frames_def frag_frame_static [OF x(2)] x(3))
    then show ?thesis
      using r u(4) x(5) send_frags_queues [OF x(1), of flood dst 0 len ?rel nh "nd_seq t" p] dst False q
      by (cases "tn_tx_free_slots t < frag_count len") (auto simp: frames_needed_def dest: sym)
  qed
qed

text \<open>
  Property C10: a send enters the queue as a whole or not at all. Invalid arguments (no data, more than the maximum datagram, this
  node's own or the invalid address) give -1, a destination without next hop -3, a queue without enough free slots for
  every frame of the datagram -1, all with the queue unchanged; the check against the fragment limit (-2) never
  fails. Otherwise the result is 0 and the queue has gained exactly the frames of the datagram: one
  frame with the data, or the fragments with consecutive sequence numbers under the datagram id taken first; they are
  retransmitted until acknowledged if they are unicast and the configuration asks for it.
\<close>

theorem send_all_or_nothing:
  assumes "node_inv Q t" and "nd_initialized t" and "len \<le> length p"
    and "fst (if dst = TREENET_ADDR_BROADCAST then (TREENET_ADDR_BROADCAST, t) else tn_route_next_hop t dst) = nh"
    and "treenet_send_node t dst (Some p) len = (rc, t')"
  shows "if len = 0 \<or> len > TREENET_MAX_DATAGRAM \<or> dst = nd_addr t \<or> dst = TREENET_ADDR_INVALID then rc = - 1 \<and> nd_tx t' = nd_tx t
    else if nh = TREENET_ADDR_INVALID then rc = - 3 \<and> nd_tx t' = nd_tx t
    else if tn_tx_free_slots t < frames_needed len then rc = - 1 \<and> nd_tx t' = nd_tx t
    else rc = 0 \<and> queued t t' (datagram_frames t dst p len) (dst \<noteq> TREENET_ADDR_BROADCAST \<and> cf_reliable (nd_cfg t)) nh"
proof -
  let ?flood = "dst = TREENET_ADDR_BROADCAST"
  define u where "u = snd (if ?flood then (TREENET_ADDR_BROADCAST, t) else tn_route_next_hop t dst)"
  have nh: "(if ?flood then (TREENET_ADDR_BROADCAST, t) else tn_route_next_hop t dst) = (nh, u)"
    using assms(4) by (simp add: u_def prod_eq_iff)
  show ?thesis
  proof (cases "dst = nd_addr t \<or> dst = TREENET_ADDR_INVALID")
    case True
    then show ?thesis using assms(2,5) node_invD(2) [OF assms(1)] by (auto simp: treenet_send_node_def config)
  next
    case False
    then have send: "tn_send_datagram t dst (Some p) len ?flood = (rc, t')"
      using assms(2,5) by (auto simp: treenet_send_node_def treenet_broadcast_node_def split: if_splits)
    have tx: "nd_tx u = nd_tx t" by (simp add: u_def)
    consider "len = 0 \<or> len > TREENET_MAX_DATAGRAM" | "0 < len" "len \<le> TREENET_MAX_DATAGRAM" "nh = TREENET_ADDR_INVALID"
      | "0 < len" "len \<le> TREENET_MAX_DATAGRAM" "nh \<noteq> TREENET_ADDR_INVALID" by fastforce
    then show ?thesis
    proof cases
      case 1
      then show ?thesis using send by (auto simp: tn_send_datagram_def split: if_splits)
    next
      case 2
      then have "\<not> ?flood" using nh by (auto simp: config split: if_splits)
      then show ?thesis using send 2 False tx nh by (auto simp: tn_send_datagram_def Let_def)
    next
      case 3
      then show ?thesis using send_datagram_queues [OF assms(1) _ _ assms(3) 3(1,2) nh 3(3) send] False by simp
    qed
  qed
qed

theorem send_all_or_nothing_witness:
  "\<exists>t :: unit treenet. fst (treenet_send_node t 3 (Some (replicate 600 7)) 600) = 0 \<and>
     queued t (snd (treenet_send_node t 3 (Some (replicate 600 7)) 600)) (datagram_frames t 3 (replicate 600 7) 600) True 3 \<and>
     length (datagram_frames t 3 (replicate 600 7) 600) = 4"
proof -
  let ?t = "node_ready TREENET_ROLE_REPEATER 2 5000 (two_routers 5000)" and ?p = "replicate 600 (7 :: u8)"
  have nh: "fst (if 3 = TREENET_ADDR_BROADCAST then (TREENET_ADDR_BROADCAST, ?t) else tn_route_next_hop ?t 3) = 3"
    by (simp add: tn_route_next_hop_def find_look_None two_routers_look config)
  have inv: "node_inv (\<lambda>_. True) ?t" by (rule node_ready_inv) (simp_all add: config)
  have k: "frames_needed 600 = 4" "tn_tx_free_slots ?t = 8"
    by (simp_all add: frames_needed_def frag_count_def tn_tx_free_slots_def tx_slot_zero_def config)
  have "fst (treenet_send_node ?t 3 (Some ?p) 600) = 0 \<and>
     queued ?t (snd (treenet_send_node ?t 3 (Some ?p) 600)) (datagram_frames ?t 3 ?p 600) True 3"
    using send_all_or_nothing [OF inv _ _ nh, of 600 ?p "fst (treenet_send_node ?t 3 (Some ?p) 600)" "snd (treenet_send_node ?t 3 (Some ?p) 600)"] k
    by (simp add: cfg_plain_def config)
  moreover have "length (datagram_frames ?t 3 ?p 600) = 4" by (simp add: datagram_frames_def frag_count_def config)
  ultimately show ?thesis by blast
qed

end
