(* ===== verification/Tn_Poll.thy ===== *)
theory Tn_Poll
  imports Tn_Handlers
begin

text \<open>
  \<open>treenet_poll\<close> as a whole: one call takes in every pending frame and reports every pending event, and a host that
  sleeps until the deadline the library arms misses nothing.
\<close>

section \<open>Everything pending is handled\<close>

lemma rx_loop_drained:
  "node_inv Q t \<Longrightarrow> TREENET_MTU \<le> length buf \<Longrightarrow> ring_repr (nd_rx (rx_loop t meta buf)) []"
proof (induction t meta buf rule: rx_loop.induct)
  case (1 t meta buf)
  obtain ok rb' meta' buf' where pop: "tn_ringbuf_pop (nd_rx t) meta buf TREENET_MTU = (ok, rb', meta', buf')"
    by (metis prod_cases4)
  have r: "rx_ok rb'" "length buf' = length buf" "ok \<longrightarrow> unat (rm_len meta') \<le> length buf'"
    using rx_okE [OF node_invD(9) [OF 1(2)] 1(3), of meta] pop by auto
  show ?case
  proof (cases ok)
    case True
    have "node_inv Q (rx_one (t\<lparr>nd_rx := rb'\<rparr>) meta' buf')" using 1(2) r True by (simp add: rx_one_inv)
    then show ?thesis
      using 1(1) [OF pop [symmetric] refl refl refl] 1(3) r(2) True by (simp add: rx_loop.simps [of t] pop)
  next
    case False
    obtain rs where rs: "ring_repr (nd_rx t) rs" "list_all rec_fits rs" using node_invD(9) [OF 1(2)] by (auto simp: rx_ok_def)
    have "rs = []"
    proof (cases rs)
      case (Cons x xs)
      have fits: "unat (rm_len (fst x)) \<le> TREENET_MTU" using rs(2) by (simp add: Cons rec_fits_def case_prod_unfold)
      obtain rb'' where "tn_ringbuf_pop (nd_rx t) meta buf TREENET_MTU = (True, rb'', fst x, snd x @ drop (unat (rm_len (fst x))) buf)"
        using pop_ring_repr_Cons [of "nd_rx t" "fst x" "snd x" xs TREENET_MTU buf meta] rs(1) fits 1(3) by (auto simp: Cons)
      then show ?thesis using False pop by simp
    qed simp
    then show ?thesis using False pop pop_ring_repr_Nil [of "nd_rx t" meta buf TREENET_MTU] rs(1) by (simp add: rx_loop.simps [of t] pop)
  qed
qed

lemma flush_loop_events: "eq_count (nd_events (flush_loop g t)) = 0"
proof (induction g t rule: flush_loop.induct)
  case (1 g t)
  then show ?case by (subst flush_loop.simps) (auto simp: Let_def case_prod_unfold word_gt_0)
qed

lemma flush_loop_tree: "nd_parent (flush_loop g t) = nd_parent t \<and> nd_neighbors (flush_loop g t) = nd_neighbors t"
proof (induction g t rule: flush_loop.induct)
  case (1 g t)
  then show ?case by (subst (1 2) flush_loop.simps) (auto simp: Let_def case_prod_unfold)
qed

lemma tn_events_flush_spec:
  "eq_count (nd_events (tn_events_flush t)) = 0" "nd_parent (tn_events_flush t) = nd_parent t" "nd_neighbors (tn_events_flush t) = nd_neighbors t"
  "cf_on_event (nd_cfg t) = None \<Longrightarrow> nd_events (tn_events_flush t) = (nd_events t)\<lparr>eq_head := 0, eq_tail := 0, eq_count := 0\<rparr>"
  by (simp_all add: tn_events_flush_def flush_loop_events flush_loop_tree split: option.split)

text \<open>The state in which \<open>treenet_poll\<close> leaves the housekeeping, before it reports the events.\<close>

definition poll_body :: "'w treenet \<Rightarrow> 'w treenet" where
  "poll_body t =
     (let t = tn_rx_drain t; t = tn_beacon_tick t (nd_now_ms t); t = tn_routing_tick t (nd_now_ms t)
      in tn_tx_poll (poll_maintenance t))"

lemma treenet_poll_node_eq:
  "nd_initialized t \<Longrightarrow> treenet_poll_node t =
     (let u = tn_events_flush (poll_body ((snd (port_now_ms t))\<lparr>nd_now_ms := fst (port_now_ms t)\<rparr>))
      in port_timer_arm u (next_deadline_ms u (nd_now_ms u)))"
  by (simp add: treenet_poll_node_def poll_body_def Let_def case_prod_unfold port_timer_arm_def)

text \<open>
  A poll in three parts: it reads the clock, takes in what was received, and then does the rest: timed control traffic, maintenance and
  transmission, and finally the report of the events and the arming of the timer.
\<close>

definition poll_clock :: "'w treenet \<Rightarrow> 'w treenet" where
  "poll_clock t = (snd (port_now_ms t))\<lparr>nd_now_ms := fst (port_now_ms t)\<rparr>"

definition poll_work :: "'w treenet \<Rightarrow> 'w treenet" where
  "poll_work t = (let t = tn_beacon_tick t (nd_now_ms t); t = tn_routing_tick t (nd_now_ms t) in tn_tx_poll (poll_maintenance t))"

definition poll_report :: "'w treenet \<Rightarrow> 'w treenet" where
  "poll_report t = (let t = tn_events_flush t in port_timer_arm t (next_deadline_ms t (nd_now_ms t)))"

lemma poll_parts:
  "nd_initialized t \<Longrightarrow> treenet_poll_node t = poll_report (poll_work (tn_rx_drain (poll_clock t)))"
  unfolding treenet_poll_node_eq by (simp add: poll_report_def poll_work_def poll_clock_def poll_body_def Let_def)

lemma drain_empty: "ring_repr (nd_rx t) [] \<Longrightarrow> tn_rx_drain t = t"
  by (simp add: tn_rx_drain_def rx_loop.simps [of t] pop_ring_repr_Nil)

lemma poll_clock_fields [simp]:
  "nd_static (poll_clock t) = nd_static (t\<lparr>nd_now_ms := fst (port_now_ms t)\<rparr>)" "nd_tree (poll_clock t) = nd_tree t"
  "nd_tables (poll_clock t) = nd_tables t" "nd_queue (poll_clock t) = nd_queue t" "nd_trickle (poll_clock t) = nd_trickle t"
  "nd_stats (poll_clock t) = nd_stats t"
  by (simp_all add: poll_clock_def port_now_ms_def nd_static_def nd_tree_def nd_tables_def nd_queue_def nd_trickle_def Let_def case_prod_unfold
      split: option.split)

lemma rx_loop_now: "nd_now_ms (rx_loop t meta buf) = nd_now_ms t"
proof (induction t meta buf rule: rx_loop.induct)
  case (1 t meta buf)
  then show ?case by (subst rx_loop.simps) (auto simp: Let_def split: prod.split)
qed

lemma rx_loop_initialized: "nd_initialized (rx_loop t meta buf) = nd_initialized t"
proof (induction t meta buf rule: rx_loop.induct)
  case (1 t meta buf)
  then show ?case by (subst rx_loop.simps) (auto simp: Let_def split: prod.split)
qed

lemma poll_body_initialized: "nd_initialized (poll_body t) = nd_initialized t"
  by (simp add: poll_body_def Let_def nd_staticD(6) [OF loops_keep(2)] nd_staticD(6) [OF poll_maintenance_keeps] tn_rx_drain_def rx_loop_initialized)

lemma poll_body_rx: "node_inv Q t \<Longrightarrow> ring_repr (nd_rx (poll_body t)) []"
  unfolding poll_body_def Let_def tn_rx_drain_def using rx_loop_drained [of Q t]
  by (simp add: nd_staticD(8) [OF loops_keep(2)] nd_staticD(8) [OF poll_maintenance_keeps])

lemma poll_drains:
  assumes "node_inv Q t" and "nd_initialized t"
  shows "ring_repr (nd_rx (treenet_poll_node t)) []"
  unfolding treenet_poll_node_eq [OF assms(2)] Let_def
  using poll_body_rx [of Q "(snd (port_now_ms t))\<lparr>nd_now_ms := fst (port_now_ms t)\<rparr>"] assms(1)
  by (simp add: nd_staticD(8) [OF port_timer_arm_keeps(1)] nd_staticD(8) [OF housekeeping_keeps(4)])

text \<open>
  Property C19: a poll leaves nothing pending. It ends (the receive loop and the event loop of the C code are the terminating functions
  \<open>rx_loop\<close> and \<open>flush_loop\<close>), and then the receive ring holds no frame and the event queue no event, whatever was
  received, whatever the handlers did and whatever the application sends from its callbacks; the node's time is the time
  the clock showed at the start.
\<close>

theorem poll_leaves_nothing_pending:
  assumes "node_inv Q t" and "nd_initialized t"
  shows "ring_repr (nd_rx (treenet_poll_node t)) [] \<and> eq_count (nd_events (treenet_poll_node t)) = 0 \<and>
    nd_now_ms (treenet_poll_node t) = fst (port_now_ms t)"
proof -
  let ?u = "(snd (port_now_ms t))\<lparr>nd_now_ms := fst (port_now_ms t)\<rparr>"
  have "nd_now_ms (poll_body ?u) = nd_now_ms ?u"
    by (simp add: poll_body_def Let_def nd_staticD(7) [OF loops_keep(2)] nd_staticD(7) [OF poll_maintenance_keeps] tn_rx_drain_def rx_loop_now)
  then have "eq_count (nd_events (treenet_poll_node t)) = 0 \<and> nd_now_ms (treenet_poll_node t) = fst (port_now_ms t)"
    unfolding treenet_poll_node_eq [OF assms(2)] Let_def
    by (simp add: nd_staticD(7) [OF port_timer_arm_keeps(1)] nd_staticD(7) [OF housekeeping_keeps(4)]
        nd_treeD(9) [OF port_timer_arm_keeps(2)] tn_events_flush_spec)
  then show ?thesis using poll_drains [OF assms] by simp
qed

theorem poll_leaves_nothing_pending_witness:
  "\<exists>t :: unit treenet. st_frames_rx (nd_stats t) = 0 \<and> nd_now_ms (treenet_poll_node t) = 5000 \<and> ring_repr (nd_rx (treenet_poll_node t)) [] \<and>
     eq_count (nd_events (treenet_poll_node t)) = 0"
proof -
  let ?t = "node_ready TREENET_ROLE_REPEATER 2 5000 (two_routers 5000)"
  have inv: "node_inv (\<lambda>_. True) ?t" by (rule node_ready_inv) (simp_all add: config)
  have "fst (port_now_ms ?t) = 5000" "st_frames_rx (nd_stats ?t) = 0"
    by (simp_all add: port_now_ms_def node_ready_def node_plain_def node_cleared_def port_still_def stats_zero_def)
  then show ?thesis using poll_leaves_nothing_pending [OF inv] by (intro exI [of _ ?t]) simp
qed

section \<open>What the rest of a poll leaves alone\<close>

lemma poll_work_static: "nd_static (poll_work t) = nd_static t"
  by (simp add: poll_work_def Let_def)

lemma poll_report_static: "nd_static (poll_report t) = nd_static t"
  by (simp add: poll_report_def Let_def)

text \<open>Once the received frames are taken in, a poll does not touch the duplicate cache, and of the reassembly slots it only expires some.\<close>

lemma parent_lost_tables [simp]:
  "nd_dup (tn_routing_on_parent_lost t now) = nd_dup t" "nd_reasm (tn_routing_on_parent_lost t now) = nd_reasm t"
  by (simp_all add: tn_routing_on_parent_lost_def Let_def)

lemma log_tables [simp]: "nd_dup (tn_log t level msg) = nd_dup t" "nd_reasm (tn_log t level msg) = nd_reasm t" "nd_now_ms (tn_log t level msg) = nd_now_ms t"
  by (simp_all add: tn_log_def split: option.split)

lemma routing_tick_tables [simp]: "nd_dup (tn_routing_tick t now) = nd_dup t" "nd_reasm (tn_routing_tick t now) = nd_reasm t"
  by (simp_all add: tn_routing_tick_def)

lemma age_neighbors_tables [simp]: "nd_dup (tn_age_neighbors t) = nd_dup t" "nd_reasm (tn_age_neighbors t) = nd_reasm t"
proof -
  have one: "nd_dup (age_slot t k) = nd_dup t \<and> nd_reasm (age_slot t k) = nd_reasm t" for t :: "'a treenet" and k
    by (simp add: age_slot_def Let_def)
  have "nd_dup (foldl age_slot t ks) = nd_dup t \<and> nd_reasm (foldl age_slot t ks) = nd_reasm t" for ks
    by (induction ks arbitrary: t) (simp_all add: one)
  then show "nd_dup (tn_age_neighbors t) = nd_dup t" "nd_reasm (tn_age_neighbors t) = nd_reasm t" by (simp_all add: tn_age_neighbors_def)
qed

lemma maintenance_tables:
  "nd_dup (poll_maintenance t) = nd_dup t" "nd_reasm (poll_maintenance t) \<in> {nd_reasm t, nd_reasm (tn_expire_reasm t)}"
proof -
  have now: "nd_now_ms (tn_age_neighbors x) = nd_now_ms x" for x :: "'a treenet" using nd_staticD(7) [OF loops_keep(1)] .
  have expire: "nd_dup (tn_expire_reasm x) = nd_dup x" for x :: "'a treenet" by (simp add: tn_expire_reasm_def)
  have probe: "nd_dup (tn_probe_send x) = nd_dup x" "nd_reasm (tn_probe_send x) = nd_reasm x" for x :: "'a treenet"
    by (simp_all add: tn_probe_send_def Let_def case_prod_unfold)
  show "nd_dup (poll_maintenance t) = nd_dup t" by (simp add: poll_maintenance_def Let_def expire probe)
  show "nd_reasm (poll_maintenance t) \<in> {nd_reasm t, nd_reasm (tn_expire_reasm t)}"
    by (simp add: poll_maintenance_def Let_def probe) (simp add: tn_expire_reasm_def now)
qed

lemma tx_poll_tables [simp]: "nd_dup (tn_tx_poll t) = nd_dup t" "nd_reasm (tn_tx_poll t) = nd_reasm t"
proof -
  have "nd_tables (foldl tx_poll_slot t js) = nd_tables t" for js by (induction js arbitrary: t) simp_all
  then show "nd_dup (tn_tx_poll t) = nd_dup t" "nd_reasm (tn_tx_poll t) = nd_reasm t"
    unfolding tn_tx_poll_def by (rule nd_tablesD(2), rule nd_tablesD(3))
qed

lemma poll_work_tables:
  "nd_dup (poll_work t) = nd_dup t" "nd_reasm (poll_work t) \<in> {nd_reasm t, nd_reasm (tn_expire_reasm t)}"
proof -
  let ?x = "tn_routing_tick (tn_beacon_tick t (nd_now_ms t)) (nd_now_ms t)"
  have x: "nd_now_ms ?x = nd_now_ms t" "nd_dup ?x = nd_dup t" "nd_reasm ?x = nd_reasm t" by simp_all
  show "nd_dup (poll_work t) = nd_dup t" "nd_reasm (poll_work t) \<in> {nd_reasm t, nd_reasm (tn_expire_reasm t)}"
    using maintenance_tables [of ?x] x by (simp_all add: poll_work_def Let_def) (simp add: tn_expire_reasm_def)
qed

lemma poll_report_tables: "nd_dup (poll_report t) = nd_dup t" "nd_reasm (poll_report t) = nd_reasm t"
proof -
  have "nd_dup (tn_events_flush t) = nd_dup t" "nd_reasm (tn_events_flush t) = nd_reasm t"
    using tn_events_flush_keeps_aux [of _ t] by (simp_all add: tn_events_flush_def split: option.split)
  then show "nd_dup (poll_report t) = nd_dup t" "nd_reasm (poll_report t) = nd_reasm t" by (simp_all add: poll_report_def Let_def)
qed

text \<open>Nor does it deliver anything.\<close>

abbreviation datagrams :: "'w treenet \<Rightarrow> u32" where
  "datagrams t \<equiv> st_datagrams_rx (nd_stats t)"

lemma submit_datagrams [simp]: "datagrams (snd (tn_tx_submit t f reliable nh d)) = datagrams t"
  by (simp add: tn_tx_submit_def TN_STAT_INC_def Let_def case_prod_unfold split: option.split)

lemma control_datagrams [simp]:
  "datagrams (snd (tn_next_seq t)) = datagrams t" "datagrams (tn_dao_send t now) = datagrams t" "datagrams (tn_probe_send t) = datagrams t"
  "datagrams (beacon_schedule t now) = datagrams t" "datagrams (tn_beacon_reset t now) = datagrams t" "datagrams (tn_beacon_tick t now) = datagrams t"
  "datagrams (tn_emit_event t ev arg) = datagrams t" "datagrams (tn_log t level msg) = datagrams t"
  by (simp_all add: tn_next_seq_def tn_dao_send_def tn_probe_send_def beacon_schedule_def tn_beacon_reset_def tn_beacon_tick_def tn_beacon_send_def
      tn_emit_event_def tn_log_def TN_STAT_INC_def Let_def case_prod_unfold split: option.split)

lemma routing_datagrams [simp]:
  "datagrams (routing_set_parent t p r now) = datagrams t" "datagrams (snd (tn_routing_select_parent t now)) = datagrams t"
  "datagrams (tn_routing_on_parent_lost t now) = datagrams t" "datagrams (tn_routing_tick t now) = datagrams t"
  "datagrams (age_slot t k) = datagrams t" "datagrams (tn_link_ack_result t dst ok) = datagrams t"
proof -
  show set: "datagrams (routing_set_parent t p r now) = datagrams t" for t :: "'a treenet" and p r now
    by (simp add: routing_set_parent_def TN_STAT_INC_def Let_def)
  show sel: "datagrams (snd (tn_routing_select_parent t now)) = datagrams t" for t :: "'a treenet" and now
    by (simp add: tn_routing_select_parent_def set Let_def case_prod_unfold split: option.split)
  show lost: "datagrams (tn_routing_on_parent_lost t now) = datagrams t" for t :: "'a treenet" and now
    by (simp add: tn_routing_on_parent_lost_def sel Let_def)
  show "datagrams (tn_routing_tick t now) = datagrams t" "datagrams (age_slot t k) = datagrams t" "datagrams (tn_link_ack_result t dst ok) = datagrams t"
    by (simp_all add: tn_routing_tick_def age_slot_def tn_link_ack_result_def lost sel Let_def split: option.split)
qed

lemma poll_work_datagrams: "datagrams (poll_work t) = datagrams t"
proof -
  have fold: "datagrams (foldl g t js) = datagrams t" if "\<And>t j. datagrams (g t j) = datagrams t" for g :: "'a treenet \<Rightarrow> nat \<Rightarrow> 'a treenet" and t js
    by (induction js arbitrary: t) (simp_all add: that)
  have "datagrams (snd (port_tx t buf len)) = datagrams t" "datagrams (snd (port_channel_free t)) = datagrams t" for t :: "'a treenet" and buf len
    by (simp_all add: port_tx_def port_channel_free_def Let_def case_prod_unfold split: option.split)
  then have "datagrams (tx_poll_slot t j) = datagrams t" for t :: "'a treenet" and j
    by (simp add: tx_poll_slot_def TN_STAT_INC_def TN_STAT_ADD_def Let_def case_prod_unfold)
  moreover have "datagrams (poll_maintenance t) = datagrams t" for t :: "'a treenet"
    by (simp add: poll_maintenance_def tn_age_neighbors_def tn_expire_reasm_def fold Let_def)
  ultimately show ?thesis by (simp add: poll_work_def tn_tx_poll_def fold Let_def)
qed

lemma public_calls_datagrams:
  "datagrams (snd (treenet_broadcast_node t data len)) = datagrams t" "datagrams (snd (treenet_send_node t dst data len)) = datagrams t"
proof -
  have frags: "datagrams (snd (send_frags flood dst reliable nh gid count p len is t)) = datagrams t" for flood dst reliable nh gid count p len "is" and t :: "'a treenet"
    by (induction "is" arbitrary: t) (simp_all add: TN_STAT_INC_def Let_def case_prod_unfold)
  have "datagrams (snd (tn_route_next_hop t dst)) = datagrams t" for dst and t :: "'a treenet"
    by (simp add: tn_route_next_hop_def Let_def case_prod_unfold split: option.split)
  then have "datagrams (snd (tn_send_datagram t dst data len flood)) = datagrams t" for dst data len flood
    by (simp add: tn_send_datagram_def frags TN_STAT_INC_def Let_def case_prod_unfold split: option.split)
  then show "datagrams (snd (treenet_broadcast_node t data len)) = datagrams t" "datagrams (snd (treenet_send_node t dst data len)) = datagrams t"
    by (simp_all add: treenet_broadcast_node_def treenet_send_node_def)
qed

lemma run_app_datagrams: "datagrams (run_app a x) = datagrams x"
  by (rule run_app_preserves [where P = "\<lambda>y. datagrams y = datagrams x"]) (simp_all add: public_calls_datagrams)

lemma poll_report_datagrams: "datagrams (poll_report t) = datagrams t"
proof -
  have "datagrams (flush_loop g x) = datagrams x" for g and x :: "'a treenet"
  proof (induction g x rule: flush_loop.induct)
    case (1 g x)
    then show ?case by (subst flush_loop.simps) (auto simp: Let_def case_prod_unfold run_app_datagrams)
  qed
  then have "datagrams (tn_events_flush t) = datagrams t" by (simp add: tn_events_flush_def split: option.split)
  then show ?thesis by (simp add: poll_report_def port_timer_arm_def Let_def split: option.split)
qed

section \<open>The parent is a known neighbour\<close>

definition parent_known :: "'w treenet \<Rightarrow> bool" where
  "parent_known t \<longleftrightarrow> nd_parent t = TREENET_ADDR_INVALID \<or> neighbor_look (nd_neighbors t) (nd_parent t) \<noteq> None"

lemma parent_known_tree: "nd_parent u = nd_parent t \<Longrightarrow> nd_neighbors u = nd_neighbors t \<Longrightarrow> parent_known u = parent_known t"
  by (simp add: parent_known_def)

lemma best_candidate_known:
  assumes "neighbor_wf (nd_neighbors t)" and "best_candidate t = (Some b, r)"
  shows "neighbor_look (nd_neighbors t) (ne_addr (nt_entries (nd_neighbors t) ! b)) \<noteq> None"
  using best_candidate_Some [OF assms(2)] candidate_look [OF assms(1)] by auto

lemma select_parent_known:
  assumes "neighbor_wf (nd_neighbors t)"
  shows "parent_known (snd (tn_routing_select_parent t now))"
proof (cases "nd_role t = TREENET_ROLE_MASTER")
  case True
  then show ?thesis by (simp add: tn_routing_select_parent_def parent_known_def Let_def tn_emit_event_def)
next
  case False
  obtain b r where b: "best_candidate t = (b, r)" by fastforce
  have k: "b = Some i \<Longrightarrow> neighbor_look (nd_neighbors t) (ne_addr (nt_entries (nd_neighbors t) ! i)) \<noteq> None" for i
    using best_candidate_known [OF assms] b by simp
  show ?thesis
  proof (cases "\<exists>c. parent_alive t now c")
    case True
    then obtain c where c: "parent_alive t now c" by blast
    then show ?thesis using k unfolding select_parent_alive [OF False c] b
      by (cases b) (auto simp: parent_known_def Let_def parent_alive_def)
  next
    case lost: False
    then show ?thesis using k select_parent_lost [OF False, of now] unfolding b
      by (cases b) (auto simp: parent_known_def tn_emit_event_def)
  qed
qed

lemma parent_lost_known: "node_inv Q t \<Longrightarrow> parent_known (tn_routing_on_parent_lost t now)"
  unfolding tn_routing_on_parent_lost_def Let_def
  by (rule select_parent_known) (simp add: tn_emit_event_def neighbors_inv_wf [OF node_invD(6)])

lemma routing_tick_known:
  assumes "node_inv Q t"
  shows "parent_known (tn_routing_tick t now)"
proof -
  have "node_inv Q (tn_log t l m)" for l m
    using assms node_invD(3,5) [OF assms] by (auto simp: tn_log_def port_ok_def split: option.split)
  then show ?thesis
    using node_invD(15) [OF assms] parent_lost_known [of Q] unfolding tn_routing_tick_def
    by (auto simp: tree_ok_def) (auto simp: parent_known_def tn_neighbor_find_look)
qed

lemma age_slot_known:
  assumes "node_inv Q t" and "i < TREENET_MAX_NEIGHBORS" and "parent_known t"
  shows "parent_known (age_slot t i)"
proof (cases "ne_valid (nt_entries (nd_neighbors t) ! i)")
  case True
  let ?tbl = "nd_neighbors t"
  note inv = node_invD(6) [OF assms(1)] and wf = neighbors_inv_wf [OF node_invD(6) [OF assms(1)]]
  note rm = neighbors_inv_remove [OF inv assms(2) True] and r = slots_remove [OF wf [unfolded neighbor_wf_def] assms(2) True, of neighbor_zero]
  define x where "x = tn_emit_event (t\<lparr>nd_routes := snd (tn_route_remove_via (nd_routes t) (ne_addr (nt_entries ?tbl ! i))),
      nd_neighbors := ?tbl\<lparr>nt_entries := (nt_entries ?tbl)[i := neighbor_zero], nt_count := nt_count ?tbl - 1\<rparr>\<rparr>)
      TREENET_EV_NEIGHBOR_REMOVED Arg_NULL"
  have x: "node_inv Q x" "nd_parent x = nd_parent t" using assms(1) rm(1) node_invD(7) [OF assms(1)] by (simp_all add: x_def)
  have "parent_known x" if "ne_addr (nt_entries ?tbl ! i) \<noteq> nd_parent t"
    using that assms(3) r by (simp add: parent_known_def x_def tn_emit_event_def neighbor_look_def)
  moreover have "age_slot t i = (if tn_elapsed (ne_last_seen_ms (nt_entries ?tbl ! i)) (nd_now_ms t) \<le> TREENET_NEIGHBOR_TIMEOUT_MS
      then t else if ne_addr (nt_entries ?tbl ! i) = nd_parent t then tn_routing_on_parent_lost x (nd_now_ms t) else x)"
    using True rm(2) by (simp add: age_slot_def Let_def x_def)
  ultimately show ?thesis using assms(3) parent_lost_known [OF x(1)] by simp
qed (use assms in \<open>simp add: age_slot_def\<close>)

lemma foldl_known:
  "node_inv Q t \<Longrightarrow> parent_known t \<Longrightarrow>
   (\<And>t i. node_inv Q t \<Longrightarrow> parent_known t \<Longrightarrow> i \<in> set js \<Longrightarrow> node_inv Q (f t i) \<and> parent_known (f t i)) \<Longrightarrow> parent_known (foldl f t js)"
  by (induction js arbitrary: t) simp_all

lemma maintenance_known:
  assumes "node_inv Q t" and "parent_known t"
  shows "parent_known (poll_maintenance t)"
proof -
  let ?t = "t\<lparr>nd_routes := snd (tn_route_expire (nd_routes t) (nd_now_ms t) TREENET_ROUTE_TIMEOUT_MS)\<rparr>"
  have "node_inv Q ?t" "parent_known ?t" using assms node_invD(7) [OF assms(1)] by (simp_all add: parent_known_def)
  then have "parent_known (tn_age_neighbors ?t)"
    unfolding tn_age_neighbors_def by (rule foldl_known) (simp add: age_slot_inv age_slot_known)
  then have "parent_known (tn_expire_reasm (tn_age_neighbors ?t))" by (simp add: parent_known_def tn_expire_reasm_def)
  moreover have "parent_known (tn_probe_send x) = parent_known x" "parent_known (tn_dao_send x now) = parent_known x" for x :: "'a treenet" and now
    by (rule parent_known_tree; simp add: tn_probe_send_def Let_def case_prod_unfold)+
  ultimately show ?thesis using assms(2) by (simp add: poll_maintenance_def Let_def)
qed

lemma emit_known: "parent_known (tn_emit_event t ev arg) = parent_known t"
  by (simp add: parent_known_def tn_emit_event_def)

lemma update_known:
  assumes "neighbor_wf tbl" and "i < length (nt_entries tbl)" and "ne_valid (nt_entries tbl ! i)" and "keeps_key f" and "neighbor_look tbl k \<noteq> None"
  shows "neighbor_look (nt_update tbl i f) k \<noteq> None"
  using nt_update_keep [OF assms(1-4)] assms(5) by auto

lemma link_ack_known:
  assumes "node_inv Q t" and "parent_known t"
  shows "parent_known (tn_link_ack_result t dst ok)"
proof (cases "tn_neighbor_find (nd_neighbors t) dst")
  case (Some i)
  note inv = node_invD(6) [OF assms(1)]
  note f = neighbors_inv_find [OF inv Some]
  let ?g = "\<lambda>n. if ne_ack_fail n < 0xFF then n\<lparr>ne_ack_fail := ne_ack_fail n + 1\<rparr> else n"
  have key: "keeps_key ?g" "keeps_key (\<lambda>n. n\<lparr>ne_ack_fail := a, ne_suspect_until_ms := s\<rparr>)"
    "keeps_key (\<lambda>n. n\<lparr>ne_suspect_until_ms := s, ne_ack_fail := a\<rparr>)" for a s
    by (simp_all add: keeps_key_def)
  define tbl where "tbl = nt_update (nd_neighbors t) i ?g"
  have wf: "neighbor_wf (nt_update (nd_neighbors t) i g)" if "keeps_key g" for g
    using nt_update_keep [OF neighbors_inv_wf [OF inv] f(1,2) that] by simp
  have i': "i < length (nt_entries tbl)" "ne_valid (nt_entries tbl ! i)" using f(1,2) by (simp_all add: tbl_def nt_update_def)
  note k = update_known [OF neighbors_inv_wf [OF inv] f(1,2)] and k' = update_known [OF wf [OF key(1), folded tbl_def] i']
  have tbl: "parent_known (t\<lparr>nd_neighbors := tbl\<rparr>)" using assms(2) k [OF key(1)] by (auto simp: parent_known_def tbl_def)
  have "neighbor_wf (nt_update tbl i (\<lambda>n. n\<lparr>ne_suspect_until_ms := s, ne_ack_fail := a\<rparr>))" for a s
    using nt_update_keep [OF wf [OF key(1), folded tbl_def] i' key(3)] by simp
  then show ?thesis
    using assms(2) k [OF key(2)] k' [OF key(3)] tbl
    unfolding tn_link_ack_result_def Some option.case Let_def tbl_def [symmetric]
    by (auto intro!: select_parent_known) (auto simp: parent_known_def)
qed (use assms(2) in \<open>simp add: tn_link_ack_result_def\<close>)

lemma tx_poll_slot_known:
  assumes "node_inv Q t" and "i < TREENET_TX_QUEUE_SIZE" and "parent_known t"
  shows "parent_known (tx_poll_slot t i)"
proof -
  let ?s = "nd_tx t ! i"
  let ?t = "t\<lparr>nd_tx := (nd_tx t)[i := ?s\<lparr>tx_valid := False\<rparr>]\<rparr>"
  have "node_inv Q ?t"
    using assms(1) txq_ok_update [OF node_invD(10) [OF assms(1)] tx_slot_ok_invalid] txq_ok_nth [OF node_invD(10) [OF assms(1)] assms(2)] by simp
  moreover have "parent_known ?t" using assms(3) by (simp add: parent_known_def)
  ultimately have "parent_known (tn_emit_event (tn_link_ack_result ?t (tx_ack_dst ?s) False) TREENET_EV_TX_FAILED Arg_NULL)"
    using link_ack_known by (simp add: emit_known)
  then show ?thesis
    using assms(3) unfolding tx_poll_slot_def Let_def case_prod_unfold by (auto simp: parent_known_def TN_STAT_INC_def TN_STAT_ADD_def)
qed

lemma poll_body_known:
  assumes "node_inv Q t"
  shows "parent_known (poll_body t)"
proof -
  define x where "x = tn_beacon_tick (tn_rx_drain t) (nd_now_ms (tn_rx_drain t))"
  have x: "node_inv Q x" using assms by (simp add: x_def)
  define y where "y = poll_maintenance (tn_routing_tick x (nd_now_ms x))"
  have "node_inv Q y" "parent_known y" using x maintenance_known [OF tn_routing_tick_inv [OF x] routing_tick_known [OF x]] by (simp_all add: y_def)
  then have "parent_known (tn_tx_poll y)"
    unfolding tn_tx_poll_def by (rule foldl_known) (simp add: tx_poll_slot_inv tx_poll_slot_known)
  then show ?thesis by (simp add: poll_body_def x_def y_def Let_def)
qed

section \<open>Deadlines\<close>

text \<open>Before a deadline, time still has to pass.\<close>

lemma deadline_in_later:
  assumes "d < deadline_in due now"
  shows "deadline_in due (now + d) = deadline_in due now - d" and "deadline_in due (now + d) \<noteq> 0"
    and "0 < d \<Longrightarrow> tn_time_after due (now + d)"
proof -
  have r: "\<not> tn_time_after now due" "d < due - now" using assms by (auto simp: deadline_in_def split: if_splits)
  define r where "r = due - now"
  have due: "due = now + r" by (simp add: r_def)
  have rn: "unat (now - due) = (if r = 0 then 0 else 2 ^ 32 - unat r)" using unat_sub_if' [of 0 r] by (auto simp: due unat_eq_0)
  have r32: "unat r < 2 ^ 32" by (rule order.strict_trans2 [OF unsigned_less]) simp
  have r31: "unat r \<le> 2 ^ 31" using r rn r32 by (auto simp: tn_time_after_iff_unat r_def split: if_splits)
  have rd: "unat (r - d) = unat r - unat d" "unat d < unat r" using r(2) unat_sub [of d r] by (simp_all add: r_def word_less_nat_alt word_le_nat_alt)
  have nd: "now + d - due = d - r" by (simp add: due)
  have "unat (now + d - due) = 2 ^ 32 - unat (r - d)" unfolding nd using unat_sub_if' [of d r] rd by simp
  then have na: "\<not> tn_time_after (now + d) due" using rd r31 by (simp add: tn_time_after_iff_unat)
  moreover have "due - (now + d) = r - d" by (simp add: due)
  ultimately show "deadline_in due (now + d) = deadline_in due now - d" using r by (simp add: deadline_in_def r_def)
  show "deadline_in due (now + d) \<noteq> 0" using na rd \<open>due - (now + d) = r - d\<close> by (auto simp: deadline_in_def)
  show "tn_time_after due (now + d)" if "0 < d"
    unfolding tn_time_after_iff_unat \<open>due - (now + d) = r - d\<close> using that rd r31 by (simp add: word_less_nat_alt)
qed

lemma less_earliest: "d < earliest best ds \<longleftrightarrow> d < best \<and> list_all (\<lambda>x. d < x) ds"
proof (induction ds arbitrary: best)
  case (Cons x ds)
  have "earliest best (x # ds) = earliest (min x best) ds" by (simp add: earliest_def min_def less_le)
  then show ?case using Cons.IH [of "min x best"] by (simp add: min_less_iff_conj conj_ac)
qed (simp add: earliest_def)

lemma deadline_pos: "d < deadline_in due now \<Longrightarrow> 0 < deadline_in due (now + d)"
  using deadline_in_later(2) by (simp add: word_gt_0)

lemma earliest_append: "earliest (earliest best xs) ys = earliest best (xs @ ys)"
  by (simp add: earliest_def)

text \<open>The times at which the maintenance of a node is due.\<close>

definition maint_dues :: "'w treenet \<Rightarrow> u32 list" where
  "maint_dues t =
     map (\<lambda>r. rt_updated_ms r + TREENET_ROUTE_TIMEOUT_MS) (filter rt_valid (rt_entries (nd_routes t))) @
     map (\<lambda>n. ne_last_seen_ms n + TREENET_NEIGHBOR_TIMEOUT_MS) (filter ne_valid (nt_entries (nd_neighbors t))) @
     map (\<lambda>r. re_last_ms r + TREENET_REASM_TIMEOUT_MS) (filter re_valid (nd_reasm t)) @
     (if nd_role t = TREENET_ROLE_MASTER then []
      else if nd_connected t then [nd_dao_last_ms t + TREENET_ROUTE_REFRESH_MS] else [nd_probe_last_ms t + TREENET_PROBE_INTERVAL_MS])"

lemma next_maint_deadline_eq: "next_maint_deadline t now = earliest UINT32_MAX (map (\<lambda>due. deadline_in due now) (maint_dues t))"
  by (simp add: next_maint_deadline_def maint_dues_def earliest_append Let_def o_def)

lemma maint_later:
  assumes "d < next_maint_deadline t now"
  shows "next_maint_deadline t (now + d) \<noteq> 0"
proof -
  have "list_all (\<lambda>due. d < deadline_in due now) (maint_dues t)" using assms by (simp add: next_maint_deadline_eq less_earliest list.pred_map o_def)
  then have "list_all (\<lambda>due. 0 < deadline_in due (now + d)) (maint_dues t)" by (rule list.pred_mono_strong) (rule deadline_pos)
  then have "0 < next_maint_deadline t (now + d)" by (simp add: next_maint_deadline_eq less_earliest list.pred_map o_def)
  then show ?thesis by simp
qed

lemma timer_later: "d < tn_timer_remaining tm now \<Longrightarrow> 0 < d \<Longrightarrow> tn_timer_fire tm (now + d) = (False, tm)"
  using deadline_in_later(3) [of d "tm_next_ms tm" now]
  by (auto simp: tn_timer_remaining_def tn_timer_fire_def tn_timer_expired_def deadline_in_def split: if_splits)

lemma next_deadlineD:
  assumes "d < next_deadline_ms t now"
  shows "d < tn_timer_remaining (nd_beacon_timer t) now" and "d < next_maint_deadline t now"
    and "\<And>s. s \<in> set (nd_tx t) \<Longrightarrow> tx_valid s \<Longrightarrow> d < deadline_in (tx_next_tx_ms s) now"
    and "nd_role t \<noteq> TREENET_ROLE_MASTER \<Longrightarrow> nd_parent t \<noteq> TREENET_ADDR_INVALID \<Longrightarrow>
      d < deadline_in (nd_parent_beacon_ms t + TREENET_PARENT_TIMEOUT_MS) now"
  using assms by (auto simp: next_deadline_ms_def Let_def less_earliest list_all_iff split: if_splits)

lemma parent_not_overdue:
  assumes "d < deadline_in (stamp + TREENET_PARENT_TIMEOUT_MS) now" and "tn_elapsed stamp now < 0x80000000"
  shows "\<not> tn_elapsed stamp (now + d) > TREENET_PARENT_TIMEOUT_MS"
proof -
  define e where "e = now - stamp"
  have now: "now = stamp + e" by (simp add: e_def)
  have e: "unat e < 2 ^ 31" using assms(2) by (simp add: tn_elapsed_def e_def word_less_nat_alt)
  have T: "unat TREENET_PARENT_TIMEOUT_MS < 2 ^ 31" by (simp add: config)
  have "\<not> tn_time_after now (stamp + TREENET_PARENT_TIMEOUT_MS)" "d < TREENET_PARENT_TIMEOUT_MS - e"
    using assms(1) by (auto simp: deadline_in_def now split: if_splits)
  then have "e \<le> TREENET_PARENT_TIMEOUT_MS" "d < TREENET_PARENT_TIMEOUT_MS - e" using tn_time_after_plus [OF e T, of stamp] by (auto simp: now)
  then have "unat (e + d) < unat TREENET_PARENT_TIMEOUT_MS"
    using T by (auto simp: unat_plus_if' word_less_nat_alt unat_sub word_le_nat_alt)
  then show ?thesis by (simp add: tn_elapsed_def now word_less_nat_alt add.assoc)
qed

text \<open>When nothing is due, each part of a poll leaves the node as it is.\<close>

lemma poll_body_idle:
  assumes "node_inv Q t" and "ring_repr (nd_rx t) []" and "parent_known t" and "nd_now_ms t = now + d" and "0 < d"
    and "d < next_deadline_ms t now" and "tn_elapsed (nd_parent_beacon_ms t) now < 0x80000000"
  shows "poll_body t = t"
proof -
  note dl = next_deadlineD [OF assms(6)]
  have rx: "tn_rx_drain t = t"
    by (simp add: tn_rx_drain_def rx_loop.simps [of t] pop_ring_repr_Nil [OF assms(2)])
  have beacon: "tn_beacon_tick t (nd_now_ms t) = t"
    using timer_later [OF dl(1) assms(5)] by (simp add: tn_beacon_tick_def assms(4))
  have "tn_neighbor_find (nd_neighbors t) (nd_parent t) \<noteq> None" if "nd_parent t \<noteq> TREENET_ADDR_INVALID"
    using assms(3) that by (auto simp: parent_known_def tn_neighbor_find_look)
  then have tick: "tn_routing_tick t (nd_now_ms t) = t"
    using parent_not_overdue [OF dl(4) assms(7)] by (auto simp: tn_routing_tick_def assms(4))
  have maint: "poll_maintenance t = t"
    using maint_later [OF dl(2)] by (simp add: poll_maintenance_def assms(4))
  have "tx_poll_slot t i = t" if "i < TREENET_TX_QUEUE_SIZE" for i
  proof -
    have "nd_tx t ! i \<in> set (nd_tx t)" using that node_invD(10) [OF assms(1)] by (simp add: txq_ok_def)
    then have "tn_time_after (tx_next_tx_ms (nd_tx t ! i)) (nd_now_ms t)" if "tx_valid (nd_tx t ! i)"
      using deadline_in_later(3) [OF dl(3) assms(5)] that by (simp add: assms(4))
    then show ?thesis by (cases "tx_valid (nd_tx t ! i)") (simp_all add: tx_poll_slot_def Let_def)
  qed
  then have "foldl tx_poll_slot t js = t" if "set js \<subseteq> {..<TREENET_TX_QUEUE_SIZE}" for js using that by (induction js) auto
  from this [of "[0..<TREENET_TX_QUEUE_SIZE]"] have "tn_tx_poll t = t" by (simp add: tn_tx_poll_def subset_iff)
  then show ?thesis by (simp add: poll_body_def Let_def rx beacon tick maint)
qed

text \<open>
  Property C11: the armed deadline is sound. After a poll, let the host call again earlier than the delay the library gave to the timer,
  and let nothing be received in between. Then the second poll does nothing but note the time and arm the timer again: no
  frame is sent or scheduled, no entry expires, no event is reported. So a host that sleeps until the deadline loses nothing.
  The one assumption on time stamps is that the parent was last heard less than 2^31 ms ago.
\<close>

theorem early_poll_does_nothing:
  assumes "node_inv Q t0" and "nd_initialized t0" and "treenet_poll_node t0 = t"
    and "0 < d" and "d < next_deadline_ms t (nd_now_ms t)" and "tn_elapsed (nd_parent_beacon_ms t) (nd_now_ms t) < 0x80000000"
    and "port_now_ms (t\<lparr>nd_env := w\<rparr>) = (nd_now_ms t + d, t\<lparr>nd_env := w'\<rparr>)" and "Q w'"
  shows "treenet_poll_node (t\<lparr>nd_env := w\<rparr>) =
    (let u = t\<lparr>nd_env := w', nd_now_ms := nd_now_ms t + d\<rparr> in port_timer_arm u (next_deadline_ms u (nd_now_ms u)))"
proof -
  define u where "u = t\<lparr>nd_env := w', nd_now_ms := nd_now_ms t + d\<rparr>"
  define b where "b = poll_body ((snd (port_now_ms t0))\<lparr>nd_now_ms := fst (port_now_ms t0)\<rparr>)"
  let ?e = "tn_events_flush b"
  have b: "parent_known b" unfolding b_def by (rule poll_body_known [of Q]) (use assms(1) in simp)
  have t: "t = port_timer_arm ?e (next_deadline_ms ?e (nd_now_ms ?e))"
    using assms(3) unfolding treenet_poll_node_eq [OF assms(2)] Let_def b_def by simp
  have tree: "nd_tree t = nd_tree ?e" "nd_static t = nd_static ?e" unfolding t by simp_all
  have "nd_parent ?e = nd_parent b" "nd_neighbors ?e = nd_neighbors b" by (rule tn_events_flush_spec)+
  then have "parent_known u" using b nd_treeD(2,8) [OF tree(1)] by (simp add: u_def parent_known_def)
  moreover have "node_inv Q u" using assms(1,3,8) by (auto simp: u_def)
  moreover have "ring_repr (nd_rx u) []" using poll_drains [OF assms(1,2)] assms(3) by (simp add: u_def)
  moreover have "next_deadline_ms u (nd_now_ms t) = next_deadline_ms t (nd_now_ms t)"
    by (simp add: next_deadline_ms_def next_maint_deadline_def u_def Let_def)
  ultimately have body: "poll_body u = u"
    using assms(4-6) by (intro poll_body_idle [of Q u "nd_now_ms t" d]) (simp_all add: u_def)
  have "nd_events t = (nd_events t)\<lparr>eq_head := 0, eq_tail := 0, eq_count := 0\<rparr>" if "cf_on_event (nd_cfg t) = None"
    using that tn_events_flush_spec(4) [of b] nd_treeD(9) [OF tree(1)] nd_staticD(1) [OF tree(2)] nd_staticD(1) [OF housekeeping_keeps(4), of b] by simp
  moreover have "eq_count (nd_events t) = 0" using tn_events_flush_spec(1) nd_treeD(9) [OF tree(1)] by simp
  ultimately have flush: "tn_events_flush u = u"
    by (auto simp: tn_events_flush_def u_def flush_loop.simps split: option.split)
  have "nd_initialized t" using assms(2) nd_staticD(6) [OF tree(2)] nd_staticD(6) [OF housekeeping_keeps(4), of b] by (simp add: poll_body_initialized b_def)
  then have "treenet_poll_node (t\<lparr>nd_env := w\<rparr>) = (let e = tn_events_flush (poll_body u) in port_timer_arm e (next_deadline_ms e (nd_now_ms e)))"
    using treenet_poll_node_eq [of "t\<lparr>nd_env := w\<rparr>"] assms(7) by (simp add: u_def)
  then show ?thesis unfolding body flush by (simp add: u_def)
qed

text \<open>A Master whose environment is its clock.\<close>

definition port_clock :: "u32 treenet_port_t" where
  "port_clock = \<lparr>po_tx = Some (\<lambda>buf w. (0, w)), po_now_ms = Some (\<lambda>w. (w, w)), po_rnd = Some (\<lambda>w. (7, w)),
     po_channel_free = None, po_log = None, po_timer_arm = None\<rparr>"

definition master_clock :: "u32 treenet" where
  "master_clock = init_node (cfg_plain TREENET_ROLE_MASTER 1) port_clock 5000"

lemma master_clock_fields:
  "nd_beacon_timer master_clock = \<lparr>tm_next_ms = 5007, tm_interval = 0, tm_active = True\<rparr>" "nd_tx master_clock = replicate TREENET_TX_QUEUE_SIZE tx_slot_zero"
  "nd_port master_clock = port_clock" "nd_role master_clock = TREENET_ROLE_MASTER" "nd_cfg master_clock = cfg_plain TREENET_ROLE_MASTER 1"
  "nd_rx master_clock = tn_ringbuf_init \<lparr>rb_buf = [], rb_capacity = 0, rb_head = 0, rb_tail = 0, rb_dropped = 0\<rparr> (replicate TREENET_RX_RING_BYTES 0) TREENET_RX_RING_BYTES"
  "nd_events master_clock = eventq_zero" "nd_parent master_clock = 0" "nd_initialized master_clock" "nd_parent_beacon_ms master_clock = 0"
  "maint_dues master_clock = []" "nd_now_ms master_clock = 5000"
  by (simp_all add: master_clock_def init_node_def node_cleared_def port_rnd_def port_now_ms_def port_clock_def init_lora_def cfg_plain_def
      tn_routing_select_parent_def tn_timer_start_def tn_rand_below_def maint_dues_def tn_route_init_def tn_neighbor_table_init_def
      route_zero_def reasm_zero_def config)

lemma master_clock_inv: "node_inv (\<lambda>_. True) master_clock"
  unfolding master_clock_def
  by (rule init_node_inv [of 0 "Some 0" 0]) (simp_all add: init_args_ok_def cfg_plain_def port_clock_def port_ok_def cfg_ok_def config)

lemma master_clock_deadline:
  assumes "nd_beacon_timer t = nd_beacon_timer master_clock" "nd_tx t = nd_tx master_clock" "maint_dues t = []" "nd_role t = TREENET_ROLE_MASTER"
  shows "next_deadline_ms t now = tn_timer_remaining \<lparr>tm_next_ms = 5007, tm_interval = 0, tm_active = True\<rparr> now"
proof -
  have "UINT32_MAX = - 1" by simp
  then have "\<not> UINT32_MAX < x" for x by (simp only: not_less word_order.extremum)
  then show ?thesis using assms by (simp add: next_deadline_ms_def next_maint_deadline_eq earliest_def master_clock_fields tx_slot_zero_def Let_def)
qed

lemma maint_dues_clock [simp]: "maint_dues (t\<lparr>nd_env := w, nd_now_ms := n\<rparr>) = maint_dues t"
  by (simp add: maint_dues_def)

lemma master_clock_poll: "treenet_poll_node (master_clock\<lparr>nd_env := 5001\<rparr>) = master_clock\<lparr>nd_env := 5001, nd_now_ms := 5001\<rparr>"
proof -
  let ?u = "master_clock\<lparr>nd_env := 5001, nd_now_ms := 5001\<rparr>"
  have "ring_repr (nd_rx ?u) []"
    using ring_repr_init [of 10 "replicate TREENET_RX_RING_BYTES 0"] by (simp add: master_clock_fields config)
  moreover have "next_deadline_ms ?u 5000 = 7"
    using master_clock_deadline [of ?u 5000] by (simp add: master_clock_fields tn_timer_remaining_def tn_time_after_def)
  ultimately have "poll_body ?u = ?u"
    using master_clock_inv by (intro poll_body_idle [of "\<lambda>_. True" ?u 5000 1]) (simp_all add: parent_known_def master_clock_fields config tn_elapsed_def)
  moreover have "tn_events_flush ?u = ?u" by (simp add: tn_events_flush_def master_clock_fields cfg_plain_def eventq_zero_def)
  ultimately show ?thesis
    using treenet_poll_node_eq [of "master_clock\<lparr>nd_env := 5001\<rparr>"] by (simp add: master_clock_fields port_now_ms_def port_clock_def port_timer_arm_def)
qed

theorem early_poll_does_nothing_witness:
  "treenet_poll_node (master_clock\<lparr>nd_now_ms := 5001, nd_env := 5004\<rparr>) = master_clock\<lparr>nd_env := 5004, nd_now_ms := 5004\<rparr>"
proof -
  let ?b = "master_clock\<lparr>nd_env := 5001\<rparr>" and ?t = "master_clock\<lparr>nd_env := 5001, nd_now_ms := 5001\<rparr>"
  have inv: "node_inv (\<lambda>_. True) ?b" using master_clock_inv by simp
  have "next_deadline_ms ?t (nd_now_ms ?t) = 6"
    using master_clock_deadline [of ?t 5001] by (simp add: master_clock_fields tn_timer_remaining_def tn_time_after_def)
  then have "treenet_poll_node (?t\<lparr>nd_env := 5004\<rparr>) =
    (let u = ?t\<lparr>nd_env := 5004, nd_now_ms := nd_now_ms ?t + 3\<rparr> in port_timer_arm u (next_deadline_ms u (nd_now_ms u)))"
    by (intro early_poll_does_nothing [OF inv _ master_clock_poll])
      (simp_all add: master_clock_fields port_now_ms_def port_clock_def tn_elapsed_def)
  then show ?thesis by (simp add: port_timer_arm_def master_clock_fields port_clock_def)
qed

end
