(* ===== verification/Tn_Journey.thy ===== *)
theory Tn_Journey
  imports Tn_Send Tn_Poll
begin

text \<open>
  The way of a datagram through the network: from \<open>treenet_send\<close> at its source over any chain of routers, each of which takes
  the frame from its radio (\<open>treenet_rx\<close>, \<open>tn_rx_drain\<close>) and queues it again, to the application of the destination.
\<close>

section \<open>Taking in a frame\<close>

text \<open>A frame arrives by radio and the next poll takes it from the ring.\<close>

definition takes_in :: "'w treenet \<Rightarrow> u8 list \<Rightarrow> i16 \<Rightarrow> i8 \<Rightarrow> 'w treenet" where
  "takes_in t bs rssi snr = tn_rx_drain (snd (treenet_rx_node t (Some bs) (length bs) rssi snr))"

text \<open>A node of network \<open>net\<close> that has handled everything it received so far.\<close>

definition listens :: "u16 \<Rightarrow> 'w treenet \<Rightarrow> bool" where
  "listens net t \<longleftrightarrow> node_inv (\<lambda>_. True) t \<and> nd_initialized t \<and> nd_net_id t = net \<and>
     ring_repr (nd_rx t) [] \<and> rb_capacity (nd_rx t) = of_nat TREENET_RX_RING_BYTES"

text \<open>What the reception of a frame from a neighbour leaves alone before the frame is processed.\<close>

definition nd_before where
  "nd_before t = (nd_cfg t, nd_port t, nd_addr t, nd_role t, nd_net_id t, nd_initialized t, nd_now_ms t, nd_parent t,
     nd_routes t, nd_dup t, nd_reasm t, nd_tx t, nd_seq t, st_datagrams_rx (nd_stats t), nd_connected t, nd_joined t)"

lemma nd_beforeD:
  assumes "nd_before x = nd_before t"
  shows "nd_cfg x = nd_cfg t" and "nd_addr x = nd_addr t" and "nd_role x = nd_role t" and "nd_net_id x = nd_net_id t"
    and "nd_now_ms x = nd_now_ms t" and "nd_parent x = nd_parent t" and "nd_routes x = nd_routes t" and "nd_dup x = nd_dup t"
    and "nd_reasm x = nd_reasm t" and "nd_tx x = nd_tx t" and "st_datagrams_rx (nd_stats x) = st_datagrams_rx (nd_stats t)"
    and "nd_initialized x = nd_initialized t" and "nd_connected x = nd_connected t" and "nd_joined x = nd_joined t" and "nd_seq x = nd_seq t"
  using assms by (simp_all add: nd_before_def)

lemma emit_before: "nd_before (tn_emit_event t ev arg) = nd_before t"
  by (simp add: nd_before_def tn_emit_event_def)

lemma rx_one_processes:
  assumes "node_inv Q t" and "tn_frame_decode (Some buf) (unat (rm_len meta)) = Some f" and "fr_net_id f = nd_net_id t" and "fr_src f \<noteq> nd_addr t"
  obtains x where "rx_one t meta buf = tn_process_frame x f (rm_rssi_dbm meta) (rm_snr_db meta) (nd_now_ms t)"
    and "node_inv Q x" and "nd_before x = nd_before t" and "nd_rx x = nd_rx t"
    and "fr_prev f \<noteq> nd_addr t \<and> fr_prev f \<noteq> TREENET_ADDR_INVALID \<longrightarrow>
      nd_neighbors x = tn_neighbor_note_frame (nd_neighbors t) (fr_prev f) (rm_rssi_dbm meta) (rm_snr_db meta) (nd_now_ms t)"
proof -
  define y where "y = TN_STAT_INC st_frames_rx_update t"
  define z where "z = y\<lparr>nd_neighbors := tn_neighbor_note_frame (nd_neighbors y) (fr_prev f) (rm_rssi_dbm meta) (rm_snr_db meta) (nd_now_ms y)\<rparr>"
  define x where "x = (if fr_prev f \<noteq> nd_addr y \<and> fr_prev f \<noteq> TREENET_ADDR_INVALID
    then if tn_neighbor_find (nd_neighbors y) (fr_prev f) = None then tn_emit_event z TREENET_EV_NEIGHBOR_ADDED Arg_NULL else z else y)"
  have y: "node_inv Q y" "nd_before y = nd_before t" "nd_rx y = nd_rx t" "nd_addr y = nd_addr t" "nd_net_id y = nd_net_id t"
    using assms(1) by (simp_all add: y_def nd_before_def TN_STAT_INC_def)
  have "node_inv Q z" if "fr_prev f \<noteq> nd_addr y" "fr_prev f \<noteq> TREENET_ADDR_INVALID"
    using that y(1) node_invD(6) [OF y(1)] by (simp add: z_def)
  moreover have "nd_before z = nd_before y" "nd_rx z = nd_rx y" by (simp_all add: z_def nd_before_def)
  ultimately have x: "node_inv Q x" "nd_before x = nd_before t" "nd_rx x = nd_rx t"
    using y by (auto simp: x_def emit_before)
  have tbl: "nd_neighbors x = tn_neighbor_note_frame (nd_neighbors t) (fr_prev f) (rm_rssi_dbm meta) (rm_snr_db meta) (nd_now_ms t)"
    if "fr_prev f \<noteq> nd_addr t" "fr_prev f \<noteq> TREENET_ADDR_INVALID"
    using that y(4) by (simp add: x_def z_def) (simp add: y_def)
  have "rx_one t meta buf = tn_process_frame x f (rm_rssi_dbm meta) (rm_snr_db meta) (nd_now_ms x)"
    unfolding rx_one_def y_def [symmetric] assms(2) option.case Let_def z_def [symmetric] using assms(3,4) y(4,5)
    by (simp add: x_def)
  then show thesis using that x tbl nd_beforeD(5) [OF x(2)] by simp
qed

lemma nd_rx_same: "nd_rx t = rb \<Longrightarrow> t\<lparr>nd_rx := rb\<rparr> = t"
  by auto

lemma ring_ops_capacity:
  "rb_capacity (snd (tn_ringbuf_push rb m d)) = rb_capacity rb" "rb_capacity (fst (snd (tn_ringbuf_pop rb meta out cap))) = rb_capacity rb"
  by (simp_all add: tn_ringbuf_push_def tn_ringbuf_pop_def ring_write_at_def Let_def)

lemma drain_one:
  assumes "ring_repr (nd_rx t) [(m, d)]" and "unat (rm_len m) \<le> TREENET_MTU"
  obtains rb buf where "ring_repr rb []" and "rb_capacity rb = rb_capacity (nd_rx t)" and "tn_rx_drain t = rx_one (t\<lparr>nd_rx := rb\<rparr>) m (d @ buf)"
proof -
  let ?m = "\<lparr>rm_len = 0, rm_rssi_dbm = 0, rm_snr_db = 0\<rparr>" and ?b = "replicate TREENET_MTU 0"
  obtain rb where rb: "tn_ringbuf_pop (nd_rx t) ?m ?b TREENET_MTU = (True, rb, m, d @ drop (unat (rm_len m)) ?b)" "ring_repr rb []"
    by (rule pop_ring_repr_Cons [OF assms, of ?b ?m]) simp_all
  let ?x = "rx_one (t\<lparr>nd_rx := rb\<rparr>) m (d @ drop (unat (rm_len m)) ?b)"
  have x: "nd_rx ?x = rb" using nd_staticD(8) [OF rx_one_keeps, of "t\<lparr>nd_rx := rb\<rparr>"] by simp
  have "tn_rx_drain t = rx_loop ?x m (d @ drop (unat (rm_len m)) ?b)"
    unfolding tn_rx_drain_def by (subst rx_loop.simps) (simp add: rb(1) del: drop_replicate)
  also have "\<dots> = ?x\<lparr>nd_rx := rb\<rparr>" by (subst rx_loop.simps) (simp add: x pop_ring_repr_Nil [OF rb(2)])
  also have "\<dots> = ?x" using x by (rule nd_rx_same)
  finally have "tn_rx_drain t = ?x" .
  moreover have "rb_capacity rb = rb_capacity (nd_rx t)" using ring_ops_capacity(2) [of "nd_rx t" ?m ?b TREENET_MTU] rb(1) by simp
  ultimately show thesis using that rb(2) by blast
qed


lemma takes_in_frame:
  assumes "listens net t" and "frame_ok net f" and "fr_payload_len f \<le> 178" and "fr_src f \<noteq> nd_addr t"
  obtains x rest where "takes_in t (frame_wire f) rssi snr =
      tn_process_frame x (f\<lparr>fr_payload := Some (frame_data f @ rest)\<rparr>) rssi snr (nd_now_ms t)"
    and "node_inv (\<lambda>_. True) x" and "nd_before x = nd_before t" and "listens net x"
    and "fr_prev f \<noteq> nd_addr t \<and> fr_prev f \<noteq> TREENET_ADDR_INVALID \<longrightarrow>
      nd_neighbors x = tn_neighbor_note_frame (nd_neighbors t) (fr_prev f) rssi snr (nd_now_ms t)"
proof -
  let ?n = "22 + fr_payload_len f"
  let ?m = "\<lparr>rm_len = of_nat ?n, rm_rssi_dbm = rssi, rm_snr_db = snr\<rparr>"
  have t: "node_inv (\<lambda>_. True) t" "nd_initialized t" "nd_net_id t = net" "ring_repr (nd_rx t) []" "rb_capacity (nd_rx t) = 1024"
    using assms(1) by (simp_all add: listens_def config)
  have ok: "payload_ok f" "frame_fields_ok f" "fr_net_id f = net" using assms(2) by (simp_all add: frame_ok_def)
  have len: "length (frame_wire f) = ?n" by (simp add: frame_wire_def length_frame_body [OF ok(1)])
  have n: "unat (of_nat ?n :: u16) = ?n" using assms(3) by (intro unat_of_nat_lt) simp
  have rec: "rec_ok (?m, frame_wire f)" using len n by (simp add: rec_ok_def)
  have wf: "ring_wf (nd_rx t)" and used: "tn_ringbuf_used (nd_rx t) = 0"
    using t(4) by (simp_all add: ring_repr_def flip: length_ring_bytes)
  have "length (rb_buf (nd_rx t)) = 1024" using wf t(5) by (simp add: ring_wf_def)
  then have "fst (tn_ringbuf_push (nd_rx t) ?m (frame_wire f))"
    by (intro push_bytes(1) [OF wf rec]) (use n used assms(3) in simp)
  then obtain rb where push: "tn_ringbuf_push (nd_rx t) ?m (frame_wire f) = (True, rb)" "ring_repr rb [(?m, frame_wire f)]"
    using push_ring_repr [OF t(4) rec] by (cases "tn_ringbuf_push (nd_rx t) ?m (frame_wire f)") auto
  have cap: "rb_capacity rb = 1024" using ring_ops_capacity(1) [of "nd_rx t" ?m "frame_wire f"] push(1) t(5) by simp
  have rx: "snd (treenet_rx_node t (Some (frame_wire f)) (length (frame_wire f)) rssi snr) = t\<lparr>nd_rx := rb\<rparr>"
    using push(1) t(2) assms(3) unfolding len by (simp add: treenet_rx_node_def len config)
  obtain rb' buf where d: "ring_repr rb' []" "rb_capacity rb' = 1024" "tn_rx_drain (t\<lparr>nd_rx := rb\<rparr>) = rx_one (t\<lparr>nd_rx := rb'\<rparr>) ?m (frame_wire f @ buf)"
    using drain_one [of "t\<lparr>nd_rx := rb\<rparr>" ?m "frame_wire f"] push(2) n assms(3) cap by (auto simp: config)
  let ?g = "f\<lparr>fr_payload := Some (frame_data f @ u16_bytes (crc16_ccitt_false (frame_body f)) @ buf)\<rparr>"
  have dec: "tn_frame_decode (Some (frame_wire f @ buf)) (unat (rm_len ?m)) = Some ?g"
    using tn_frame_decode_wire [OF ok(1,2), of buf] n by simp
  have "node_inv (\<lambda>_. True) (t\<lparr>nd_rx := rb'\<rparr>)"
    using t(1) d(1) by (auto simp: rx_ok_def intro!: node_inv_assign exI [of _ "[]"])
  moreover have "fr_net_id ?g = nd_net_id (t\<lparr>nd_rx := rb'\<rparr>)" "fr_src ?g \<noteq> nd_addr (t\<lparr>nd_rx := rb'\<rparr>)"
    using ok(3) t(3) assms(4) by simp_all
  ultimately obtain x where x: "rx_one (t\<lparr>nd_rx := rb'\<rparr>) ?m (frame_wire f @ buf) =
        tn_process_frame x ?g (rm_rssi_dbm ?m) (rm_snr_db ?m) (nd_now_ms (t\<lparr>nd_rx := rb'\<rparr>))"
      "node_inv (\<lambda>_. True) x" "nd_before x = nd_before (t\<lparr>nd_rx := rb'\<rparr>)" "nd_rx x = nd_rx (t\<lparr>nd_rx := rb'\<rparr>)"
      "fr_prev ?g \<noteq> nd_addr (t\<lparr>nd_rx := rb'\<rparr>) \<and> fr_prev ?g \<noteq> TREENET_ADDR_INVALID \<longrightarrow> nd_neighbors x =
        tn_neighbor_note_frame (nd_neighbors (t\<lparr>nd_rx := rb'\<rparr>)) (fr_prev ?g) (rm_rssi_dbm ?m) (rm_snr_db ?m) (nd_now_ms (t\<lparr>nd_rx := rb'\<rparr>))"
    by (rule rx_one_processes [OF _ dec])
  have b: "nd_before (t\<lparr>nd_rx := rb'\<rparr>) = nd_before t" by (simp add: nd_before_def)
  show thesis
  proof (rule that)
    show "takes_in t (frame_wire f) rssi snr = tn_process_frame x ?g rssi snr (nd_now_ms t)"
      unfolding takes_in_def rx d(3) x(1) by simp
    show "listens net x"
      using x d(1,2) nd_beforeD [OF x(3) [unfolded b]] t(2,3) by (simp add: listens_def config)
  qed (use x b in simp_all)
qed


section \<open>Routers\<close>

text \<open>The bytes a slot of the transmit queue hands to the radio.\<close>

definition slot_bytes :: "tn_tx_slot_t \<Rightarrow> u8 list" where
  "slot_bytes s = take (unat (tx_len s)) (tx_buf s)"

text \<open>What router \<open>r\<close> queues in its first free slot when it takes in the bytes \<open>bs\<close>, and what comes out of a chain of routers.\<close>

definition passes_on :: "'w treenet \<Rightarrow> u8 list \<Rightarrow> i16 \<Rightarrow> i8 \<Rightarrow> u8 list option" where
  "passes_on r bs rssi snr =
     (case free_slot r of
        None \<Rightarrow> None
      | Some i \<Rightarrow>
          let s = nd_tx (takes_in r bs rssi snr) ! i
          in (if tx_valid s then Some (slot_bytes s) else None))"

fun relay :: "('w treenet \<times> i16 \<times> i8) list \<Rightarrow> u8 list \<Rightarrow> u8 list option" where
  "relay [] bs = Some bs"
| "relay ((r, rssi, snr) # hs) bs = (case passes_on r bs rssi snr of None \<Rightarrow> None | Some bs' \<Rightarrow> relay hs bs')"

text \<open>
  Node \<open>r\<close> can pass on a frame from \<open>src\<close> to \<open>dst\<close> with sequence number \<open>seq\<close>: it is a router on the way that has not seen the
  frame, has a parent or a fresh route to the destination, and has a free slot in its transmit queue.
\<close>

definition router_ready :: "u16 \<Rightarrow> treenet_addr_t \<Rightarrow> treenet_addr_t \<Rightarrow> u16 \<Rightarrow> 'w treenet \<Rightarrow> bool" where
  "router_ready net src dst seq r \<longleftrightarrow> listens net r \<and> nd_role r \<noteq> TREENET_ROLE_LEAF \<and> nd_addr r \<noteq> src \<and> nd_addr r \<noteq> dst \<and>
     \<not> tn_dupcache_check (nd_dup r) src seq (nd_now_ms r) \<and> 0 < tn_tx_free_slots r \<and>
     (nd_parent r \<noteq> TREENET_ADDR_INVALID \<or>
      (case route_look (nd_routes r) dst of
         None \<Rightarrow> False
       | Some e \<Rightarrow> tn_elapsed (rt_updated_ms e) (nd_now_ms r) \<le> TREENET_ROUTE_TIMEOUT_MS))"

lemma next_hop_known:
  assumes "node_inv Q t" and "dst \<noteq> nd_addr t" and "dst \<noteq> TREENET_ADDR_INVALID"
    and "nd_parent t \<noteq> TREENET_ADDR_INVALID \<or>
      (case route_look (nd_routes t) dst of None \<Rightarrow> False | Some e \<Rightarrow> tn_elapsed (rt_updated_ms e) (nd_now_ms t) \<le> TREENET_ROUTE_TIMEOUT_MS)"
  shows "fst (tn_route_next_hop t dst) \<noteq> TREENET_ADDR_INVALID"
proof (cases "tn_neighbor_find (nd_neighbors t) dst = None")
  case True
  have rt: "route_wf (nd_routes t)" "route_look (nd_routes t) dst = Some e \<Longrightarrow> rt_next_hop e \<noteq> TREENET_ADDR_INVALID" for e
    using node_invD(7) [OF assms(1)] by (auto simp: routes_inv_def)
  show ?thesis
  proof (cases "route_look (nd_routes t) dst")
    case None
    then have "fst (tn_route_lookup (nd_routes t) dst now to) = None" for now to
      using tn_route_lookup_spec [OF rt(1), of dst now to] by simp
    then show ?thesis using True None assms(2,4) by (simp add: tn_route_next_hop_def Let_def case_prod_unfold)
  next
    case (Some e)
    then show ?thesis using next_hop_by_route [OF rt(1) assms(2) True Some] rt(2) [OF Some] assms(4) by (simp split: if_splits)
  qed
qed (use assms(2,3) in \<open>simp add: tn_route_next_hop_def\<close>)


lemma free_slot_some: "0 < tn_tx_free_slots t \<Longrightarrow> \<exists>i. free_slot t = Some i"
  using free_slot_None [of t] by (cases "free_slot t") (simp_all del: find_index_None_iff)

lemma holds_frame_bytes: "holds_frame s f reliable nh \<Longrightarrow> tx_valid s \<and> slot_bytes s = frame_wire f"
  by (simp add: holds_frame_def slot_bytes_def)

lemma frame_wire_data: "frame_data g = frame_data f \<Longrightarrow> frame_header g = frame_header f \<Longrightarrow> frame_wire g = frame_wire f"
  by (simp add: frame_wire_def frame_body_def)

text \<open>A router passes the frame on with the hop limit lowered and itself as previous hop.\<close>

lemma router_passes_on:
  assumes "router_ready net (fr_src f) (fr_dst f) (fr_seq f) r" and "frame_ok net f" and "fr_payload_len f \<le> 178"
    and "fr_type f = TREENET_FRAME_DATA" and "1 < fr_hop_limit f"
  shows "passes_on r (frame_wire f) rssi snr = Some (frame_wire (f\<lparr>fr_hop_limit := fr_hop_limit f - 1, fr_prev := nd_addr r\<rparr>))"
proof -
  have r: "listens net r" "nd_role r \<noteq> TREENET_ROLE_LEAF" "fr_src f \<noteq> nd_addr r" "fr_dst f \<noteq> nd_addr r" "nd_net_id r = net"
      "\<not> tn_dupcache_check (nd_dup r) (fr_src f) (fr_seq f) (nd_now_ms r)" "0 < tn_tx_free_slots r"
    using assms(1) by (auto simp: router_ready_def listens_def)
  obtain i where i: "free_slot r = Some i" using free_slot_some [OF r(7)] by blast
  obtain x rest where x: "takes_in r (frame_wire f) rssi snr =
        tn_process_frame x (f\<lparr>fr_payload := Some (frame_data f @ rest)\<rparr>) rssi snr (nd_now_ms r)"
      "node_inv (\<lambda>_. True) x" "nd_before x = nd_before r"
    by (rule takes_in_frame [OF r(1) assms(2,3) r(3)])
  let ?g = "f\<lparr>fr_payload := Some (frame_data f @ rest)\<rparr>" and ?t = "takes_in r (frame_wire f) rssi snr"
  note b = nd_beforeD [OF x(3)]
  have dl: "length (frame_data f) = fr_payload_len f" using assms(2) by (simp add: frame_ok_def length_frame_data)
  have g: "frame_ok (nd_net_id x) ?g" "frame_data ?g = frame_data f" "fr_dst ?g = fr_dst f"
    using assms(2) r(5) dl by (simp_all add: frame_ok_def frame_fields_ok_def payload_ok_def b(4) frame_data_def [of ?g])
  have nh: "fst (tn_route_next_hop x (fr_dst f)) \<noteq> TREENET_ADDR_INVALID"
    by (rule next_hop_known [OF x(2)]) (use assms(1,2) r(4) in \<open>simp_all add: b(2,5-7) router_ready_def frame_ok_def frame_fields_ok_def cong: option.case_cong\<close>)
  have handle: "?t = tn_handle_data x ?g rssi snr (nd_now_ms r)"
    unfolding x(1) tn_process_frame_def using assms(4) by (simp add: config)
  have "holds_frame (nd_tx ?t ! i) (?g\<lparr>fr_hop_limit := fr_hop_limit ?g - 1, fr_prev := nd_addr x\<rparr>) (want_ack ?g)
      (fst (tn_route_next_hop x (fr_dst f)))"
    by (rule handle_data_forwards(1) [OF x(2) g(1) _ _ _ _ _ _ nh _ handle [symmetric]])
      (use assms(3,5) r(2,4,6) i in \<open>simp_all add: b(2,3,8,10)\<close>)
  note slot = holds_frame_bytes [OF this]
  have "frame_wire (?g\<lparr>fr_hop_limit := fr_hop_limit ?g - 1, fr_prev := nd_addr x\<rparr>) =
      frame_wire (f\<lparr>fr_hop_limit := fr_hop_limit f - 1, fr_prev := nd_addr r\<rparr>)"
    by (rule frame_wire_data) (use dl b(2) in \<open>simp_all add: frame_header_def, simp add: frame_data_def cong: option.case_cong\<close>)
  then show ?thesis using slot i by (simp add: passes_on_def Let_def)
qed


text \<open>After any chain of routers shorter than the hop limit the frame is the same but for hop limit and previous hop.\<close>

lemma relay_frame:
  assumes "\<forall>h\<in>set hs. router_ready net (fr_src f) (fr_dst f) (fr_seq f) (fst h)" and "frame_ok net f" and "fr_payload_len f \<le> 178"
    and "fr_type f = TREENET_FRAME_DATA" and "length hs < unat (fr_hop_limit f)"
  shows "\<exists>prev. relay hs (frame_wire f) = Some (frame_wire (f\<lparr>fr_hop_limit := fr_hop_limit f - of_nat (length hs), fr_prev := prev\<rparr>))"
  using assms
proof (induction hs arbitrary: f)
  case Nil
  have "f\<lparr>fr_hop_limit := fr_hop_limit f - of_nat (length []), fr_prev := fr_prev f\<rparr> = f" by simp
  then show ?case by (metis relay.simps(1))
next
  case (Cons h hs)
  obtain r rssi snr where h: "h = (r, rssi, snr)" by (cases h)
  let ?g = "f\<lparr>fr_hop_limit := fr_hop_limit f - 1, fr_prev := nd_addr r\<rparr>"
  have "1 < unat (fr_hop_limit f)" using Cons.prems(5) by simp
  then have hop: "1 < fr_hop_limit f" "unat (fr_hop_limit f - 1) = unat (fr_hop_limit f) - 1"
    by (simp_all add: word_less_nat_alt unat_sub_if')
  have step: "passes_on r (frame_wire f) rssi snr = Some (frame_wire ?g)"
    using Cons.prems hop(1) by (intro router_passes_on) (simp_all add: h)
  have "\<exists>prev. relay hs (frame_wire ?g) = Some (frame_wire (?g\<lparr>fr_hop_limit := fr_hop_limit ?g - of_nat (length hs), fr_prev := prev\<rparr>))"
    using Cons.prems hop(2) frame_ok_stamp [of net "f\<lparr>fr_hop_limit := fr_hop_limit f - 1\<rparr>" "nd_addr r"]
    by (intro Cons.IH) simp_all
  then show ?case by (simp add: h step diff_diff_eq)
qed


section \<open>The destination\<close>

text \<open>The copy \<open>g\<close> of frame \<open>f\<close> that arrives after \<open>n\<close> routers.\<close>

definition arrived :: "tn_frame_t \<Rightarrow> nat \<Rightarrow> tn_frame_t \<Rightarrow> bool" where
  "arrived f n g \<longleftrightarrow> (\<exists>prev rest. g = f\<lparr>fr_hop_limit := fr_hop_limit f - of_nat n, fr_prev := prev, fr_payload := Some (frame_data f @ rest)\<rparr>)"

lemma arrivedD:
  assumes "arrived f n g" and "payload_ok f"
  shows "fr_src g = fr_src f" and "fr_dst g = fr_dst f" and "fr_seq g = fr_seq f" and "fr_flags g = fr_flags f" and "fr_type g = fr_type f"
    and "fr_payload_len g = fr_payload_len f" and "frame_data g = frame_data f" and "payload_ok g" and "fr_hop_limit g = fr_hop_limit f - of_nat n"
  using assms length_frame_data [OF assms(2)] by (auto simp: arrived_def payload_ok_def frame_data_def [of "_\<lparr>fr_payload := _\<rparr>"])

lemma frame_data_fields [simp]:
  "frame_data (f\<lparr>fr_hop_limit := h\<rparr>) = frame_data f" "frame_data (f\<lparr>fr_prev := a\<rparr>) = frame_data f"
  by (simp_all add: frame_data_def cong: option.case_cong)

lemma frame_travels:
  assumes "frame_ok net f" and "fr_payload_len f \<le> 178" and "fr_type f = TREENET_FRAME_DATA"
    and "\<forall>h\<in>set hs. router_ready net (fr_src f) (fr_dst f) (fr_seq f) (fst h)" and "length hs < unat (fr_hop_limit f)"
    and "listens net d" and "fr_dst f = nd_addr d" and "fr_src f \<noteq> nd_addr d" and "\<not> tn_dupcache_check (nd_dup d) (fr_src f) (fr_seq f) (nd_now_ms d)"
  obtains bs x g where "relay hs (frame_wire (f\<lparr>fr_prev := a\<rparr>)) = Some bs"
    and "takes_in d bs rssi snr = tn_deliver (ack_back (x\<lparr>nd_dup := tn_dupcache_mark (nd_dup d) (fr_src f) (fr_seq f) (nd_now_ms d)\<rparr>) g) g rssi snr"
    and "arrived f (length hs) g" and "node_inv (\<lambda>_. True) x" and "nd_before x = nd_before d" and "listens net x"
proof -
  have pok: "payload_ok f" using assms(1) by (simp add: frame_ok_def)
  have "\<exists>prev. relay hs (frame_wire (f\<lparr>fr_prev := a\<rparr>)) = Some (frame_wire (f\<lparr>fr_prev := a, fr_hop_limit := fr_hop_limit f - of_nat (length hs), fr_prev := prev\<rparr>))"
    using relay_frame [of hs net "f\<lparr>fr_prev := a\<rparr>"] assms(2-5) frame_ok_stamp [OF assms(1), of a] by simp
  then obtain prev where relay: "relay hs (frame_wire (f\<lparr>fr_prev := a\<rparr>)) = Some (frame_wire (f\<lparr>fr_hop_limit := fr_hop_limit f - of_nat (length hs), fr_prev := prev\<rparr>))"
    by auto
  let ?h = "f\<lparr>fr_hop_limit := fr_hop_limit f - of_nat (length hs), fr_prev := prev\<rparr>"
  have h: "frame_ok net ?h" "fr_payload_len ?h \<le> 178" "fr_src ?h \<noteq> nd_addr d"
    using frame_ok_stamp [of net "f\<lparr>fr_hop_limit := fr_hop_limit f - of_nat (length hs)\<rparr>" prev] assms(1,2,8) by simp_all
  obtain x rest where x: "takes_in d (frame_wire ?h) rssi snr =
        tn_process_frame x (?h\<lparr>fr_payload := Some (frame_data ?h @ rest)\<rparr>) rssi snr (nd_now_ms d)"
      "node_inv (\<lambda>_. True) x" "nd_before x = nd_before d" "listens net x"
    by (rule takes_in_frame [OF assms(6) h])
  define g where "g = ?h\<lparr>fr_payload := Some (frame_data ?h @ rest)\<rparr>"
  have g: "arrived f (length hs) g" unfolding arrived_def g_def by (intro exI [of _ prev] exI [of _ rest]) simp
  note gf = arrivedD [OF g pok]
  note b = nd_beforeD [OF x(3)]
  have new: "fr_dst g = nd_addr x" "\<not> tn_dupcache_check (nd_dup x) (fr_src g) (fr_seq g) (nd_now_ms d)"
    unfolding gf(1-3) b(2,8) by (fact assms(7), fact assms(9))
  have "takes_in d (frame_wire ?h) rssi snr = tn_handle_data x g rssi snr (nd_now_ms d)"
    unfolding x(1) g_def [symmetric] tn_process_frame_def using assms(3) by (simp add: gf(5) config)
  also have "\<dots> = tn_deliver (ack_back (x\<lparr>nd_dup := tn_dupcache_mark (nd_dup d) (fr_src f) (fr_seq f) (nd_now_ms d)\<rparr>) g) g rssi snr"
    by (simp only: handle_data_delivers [OF new] gf(1,3) b(8))
  finally show thesis using that relay g x(2-4) by blast
qed


section \<open>From application to application\<close>

lemma send_node_queues:
  assumes "node_inv Q s" and "nd_initialized s" and "dst \<noteq> nd_addr s" and "dst \<noteq> TREENET_ADDR_INVALID" and "dst \<noteq> TREENET_ADDR_BROADCAST"
    and "0 < len" and "len \<le> TREENET_MAX_DATAGRAM" and "len \<le> length p" and "fst (tn_route_next_hop s dst) \<noteq> TREENET_ADDR_INVALID"
    and "frames_needed len \<le> tn_tx_free_slots s" and "treenet_send_node s dst (Some p) len = (rc, s')"
  shows "rc = 0" and "queued s s' (datagram_frames s dst p len) (cf_reliable (nd_cfg s)) (fst (tn_route_next_hop s dst))"
proof -
  have "tn_send_datagram s dst (Some p) len False = (rc, s')"
    using assms(2-5,11) by (auto simp: treenet_send_node_def split: if_splits)
  then have "rc = 0 \<and> queued s s' (datagram_frames s dst p len) (cf_reliable (nd_cfg s)) (fst (tn_route_next_hop s dst))"
    using send_datagram_queues [OF assms(1) _ assms(4,8,6,7) _ assms(9), of False "snd (tn_route_next_hop s dst)" rc s'] assms(5,10) by simp
  then show "rc = 0" "queued s s' (datagram_frames s dst p len) (cf_reliable (nd_cfg s)) (fst (tn_route_next_hop s dst))" by simp_all
qed

lemma st_rx_ack [simp]: "st_datagrams_rx (nd_stats (tn_send_ack t to seq)) = st_datagrams_rx (nd_stats t)"
  by (simp add: tn_send_ack_def tn_tx_submit_def TN_STAT_INC_def port_rnd_def Let_def case_prod_unfold split: option.split)

text \<open>
  Property C4: a datagram travels from application to application. Let node \<open>s\<close> send \<open>len\<close> bytes that fit one frame to node \<open>d\<close>, with a
  next hop and a free slot. Let the frame pass any chain of up to seven routers of the network, each of which hears the frame from
  the one before, has not seen it, has a parent or a fresh route and a free slot. Then the send succeeds, what the
  last router queues is a frame that \<open>d\<close> accepts, and \<open>d\<close> hands the application exactly the bytes that were
  sent, with the address of \<open>s\<close> and the number of routers as hop count.
\<close>

theorem datagram_end_to_end:
  assumes "node_inv Q s" and "nd_initialized s" and "0 < tn_tx_free_slots s" and "fst (tn_route_next_hop s (nd_addr d)) \<noteq> TREENET_ADDR_INVALID"
    and "0 < len" and "len \<le> TREENET_MTU - TN_FRAME_OVERHEAD" and "len \<le> length p" and "nd_addr d \<noteq> nd_addr s"
    and "\<forall>h\<in>set hs. router_ready (nd_net_id s) (nd_addr s) (nd_addr d) (nd_seq s) (fst h)" and "length hs < unat TREENET_MAX_HOPS"
    and "listens (nd_net_id s) d" and "\<not> tn_dupcache_check (nd_dup d) (nd_addr s) (nd_seq s) (nd_now_ms d)"
    and "treenet_send_node s (nd_addr d) (Some p) len = (rc, s')"
  shows "rc = 0 \<and> (\<exists>i bs u. \<not> tx_valid (nd_tx s ! i) \<and> tx_valid (nd_tx s' ! i) \<and> relay hs (slot_bytes (nd_tx s' ! i)) = Some bs \<and>
    takes_in d bs rssi snr = deliver_up u (nd_addr s) (take len p) rssi snr (of_nat (length hs)) \<and>
    nd_cfg u = nd_cfg d \<and> st_datagrams_rx (nd_stats u) = st_datagrams_rx (nd_stats d) + 1)"
proof -
  let ?dst = "nd_addr d" and ?rel = "cf_reliable (nd_cfg s)"
  let ?f = "data_frame s False ?dst (if ?rel then TN_FLAG_WANT_ACK else 0) (nd_seq s) p len"
  have dst: "?dst \<noteq> TREENET_ADDR_INVALID" "?dst \<noteq> TREENET_ADDR_BROADCAST"
    using assms(11) node_invD(1,2) [of "\<lambda>_. True" d] by (simp_all add: listens_def)
  have len: "len \<le> TREENET_MAX_DATAGRAM" "frames_needed len \<le> tn_tx_free_slots s" using assms(3,6) by (simp_all add: frames_needed_def config)
  note send = send_node_queues [OF assms(1,2,8) dst assms(5) len(1) assms(7,4) len(2) assms(13)]
  have fs: "datagram_frames s ?dst p len = [?f]" using assms(6) dst(2) by (simp add: datagram_frames_def)
  then obtain i where i: "\<not> tx_valid (nd_tx s ! i)" "holds_frame (nd_tx s' ! i) (?f\<lparr>fr_prev := nd_addr s\<rparr>) ?rel (fst (tn_route_next_hop s ?dst))"
    using send(2) by (auto simp: queued_def length_Suc_conv)
  have f: "frame_ok (nd_net_id s) ?f" using data_frame_ok [OF assms(1) _ assms(7), of False ?dst] dst(1) by simp
  have ff: "fr_src ?f = nd_addr s" "fr_dst ?f = ?dst" "fr_seq ?f = nd_seq s" "fr_type ?f = TREENET_FRAME_DATA" "fr_hop_limit ?f = TREENET_MAX_HOPS"
      "fr_payload_len ?f \<le> 178" "fr_flags ?f AND TN_FLAG_FRAG = 0" "frame_data ?f = take len p"
    using assms(6) by (simp_all add: data_frame_def frame_data_def config)
  have bytes: "slot_bytes (nd_tx s' ! i) = frame_wire (?f\<lparr>fr_prev := nd_addr s\<rparr>)" using holds_frame_bytes [OF i(2)] by simp
  obtain bs x g where j: "relay hs (slot_bytes (nd_tx s' ! i)) = Some bs"
      "takes_in d bs rssi snr = tn_deliver (ack_back (x\<lparr>nd_dup := tn_dupcache_mark (nd_dup d) (fr_src ?f) (fr_seq ?f) (nd_now_ms d)\<rparr>) g) g rssi snr"
      "arrived ?f (length hs) g" "nd_before x = nd_before d"
    unfolding bytes by (rule frame_travels [OF f ff(6,4), of hs d "nd_addr s" rssi snr]) (use assms(8-12) ff in simp_all)
  note g = arrivedD [OF j(3) conjunct1 [OF conjunct2 [OF f [unfolded frame_ok_def]]]]
  define u where "u = TN_STAT_INC st_datagrams_rx_update (ack_back (x\<lparr>nd_dup := tn_dupcache_mark (nd_dup d) (fr_src ?f) (fr_seq ?f) (nd_now_ms d)\<rparr>) g)"
  have "TREENET_MAX_HOPS - fr_hop_limit g = of_nat (length hs)" using g(9) ff(5) by simp
  then have "takes_in d bs rssi snr = deliver_up u (nd_addr s) (take len p) rssi snr (of_nat (length hs))"
    unfolding j(2) using ff g by (simp add: deliver_whole u_def)
  moreover have "nd_cfg u = nd_cfg d" "st_datagrams_rx (nd_stats u) = st_datagrams_rx (nd_stats d) + 1"
    using nd_beforeD [OF j(4)] by (simp_all add: u_def, simp add: TN_STAT_INC_def)
  ultimately show ?thesis using send(1) i j(1) holds_frame_bytes by blast
qed


text \<open>A Repeater that has joined the network below \<open>parent\<close>.\<close>

definition node_joined :: "treenet_addr_t \<Rightarrow> treenet_addr_t \<Rightarrow> unit treenet" where
  "node_joined addr parent =
     (node_ready TREENET_ROLE_REPEATER addr 5000 (tn_neighbor_table_init \<lparr>nt_entries = [], nt_count = 0\<rparr>))
       \<lparr>nd_rank := 512, nd_parent := parent, nd_connected := True\<rparr>"

lemma node_joined_fields [simp]:
  "nd_addr (node_joined addr parent) = addr" "nd_role (node_joined addr parent) = TREENET_ROLE_REPEATER"
  "nd_net_id (node_joined addr parent) = 1" "nd_parent (node_joined addr parent) = parent" "nd_now_ms (node_joined addr parent) = 5000"
  "nd_dup (node_joined addr parent) = tn_dupcache_init \<lparr>du_entries = [], du_ttl_ms = 0\<rparr> TREENET_DUP_TTL_MS"
  "nd_initialized (node_joined addr parent)" "tn_tx_free_slots (node_joined addr parent) = 8"
  by (simp_all add: node_joined_def tn_tx_free_slots_def tx_slot_zero_def config)

lemma node_ready_listens: "node_inv (\<lambda>_. True) (node_ready role addr now tbl) \<Longrightarrow> listens 1 (node_ready role addr now tbl)"
proof -
  assume "node_inv (\<lambda>_. True) (node_ready role addr now tbl)"
  moreover have "nd_rx (node_ready role addr now tbl) = tn_ringbuf_init \<lparr>rb_buf = [], rb_capacity = 0, rb_head = 0, rb_tail = 0, rb_dropped = 0\<rparr>
      (replicate TREENET_RX_RING_BYTES 0) TREENET_RX_RING_BYTES"
    by (simp add: node_ready_def)
  moreover have "ring_repr (tn_ringbuf_init rb (replicate TREENET_RX_RING_BYTES 0) TREENET_RX_RING_BYTES) []" for rb
    using ring_repr_init [of 10 "replicate TREENET_RX_RING_BYTES 0" rb] by (simp add: config)
  moreover have "rb_capacity (tn_ringbuf_init rb (replicate TREENET_RX_RING_BYTES 0) TREENET_RX_RING_BYTES) = of_nat TREENET_RX_RING_BYTES" for rb
    using is_pow2_power [of 10] by (simp add: tn_ringbuf_init_def config)
  ultimately show ?thesis by (simp add: listens_def)
qed

lemma node_joined_listens:
  assumes "addr \<noteq> 0" and "addr \<noteq> 0xFFFFFFFF" and "parent \<noteq> 0" and "parent \<noteq> addr"
  shows "listens 1 (node_joined addr parent)"
proof -
  let ?t = "node_ready TREENET_ROLE_REPEATER addr 5000 (tn_neighbor_table_init \<lparr>nt_entries = [], nt_count = 0\<rparr>)"
  have t: "node_inv (\<lambda>_. True) ?t" using assms(1,2) by (intro node_ready_inv) (simp_all add: neighbors_inv_def config)
  then have "node_inv (\<lambda>_. True) (node_joined addr parent)"
    unfolding node_joined_def using assms(3,4) by (intro node_inv_tree(1)) (simp_all add: tree_ok_def config)
  then show ?thesis using node_ready_listens [OF t] by (simp add: listens_def node_joined_def)
qed

lemma node_joined_next_hop: "dst \<noteq> addr \<Longrightarrow> fst (tn_route_next_hop (node_joined addr parent) dst) = parent"
proof -
  assume "dst \<noteq> addr"
  moreover have "tn_neighbor_find (nd_neighbors (node_joined addr parent)) dst = None"
    by (simp add: node_joined_def find_look_None)
  moreover have "route_look (nd_routes (node_joined addr parent)) dst = None"
    using route_look_init [of "nd_routes (node_joined addr parent)"] by (simp add: node_joined_def tn_route_init_def)
  ultimately show ?thesis
    by (simp add: tn_route_next_hop_def tn_route_lookup_def route_look_None_find Let_def config del: find_index_None_iff)
qed

lemma node_joined_ready:
  assumes "addr \<noteq> 0" and "addr \<noteq> 0xFFFFFFFF" and "parent \<noteq> 0" and "parent \<noteq> addr" and "addr \<noteq> src" and "addr \<noteq> dst"
  shows "router_ready 1 src dst seq (node_joined addr parent)"
  using node_joined_listens [OF assms(1-4)] assms by (simp add: router_ready_def config)

theorem datagram_end_to_end_witness:
  "\<exists>s' i bs u. treenet_send_node (node_joined 2 3) 9 (Some [1, 2, 3]) 3 = (0, s') \<and>
     relay [(node_joined 3 4, - 80, 5), (node_joined 4 1, - 95, - 3)] (slot_bytes (nd_tx s' ! i)) = Some bs \<and>
     takes_in (node_joined 9 4) bs (- 70) 8 = deliver_up u 2 [1, 2, 3] (- 70) 8 2"
proof -
  let ?s = "node_joined 2 3" and ?d = "node_joined 9 4" and ?hs = "[(node_joined 3 4, - 80 :: i16, 5 :: i8), (node_joined 4 1, - 95, - 3)]"
  obtain rc s' where send: "treenet_send_node ?s 9 (Some [1, 2, 3]) 3 = (rc, s')" by (cases "treenet_send_node ?s 9 (Some [1, 2, 3]) 3")
  have inv: "node_inv (\<lambda>_. True) ?s" using node_joined_listens [of 2 3] by (simp add: listens_def)
  have "rc = 0 \<and> (\<exists>i bs u. \<not> tx_valid (nd_tx ?s ! i) \<and> tx_valid (nd_tx s' ! i) \<and> relay ?hs (slot_bytes (nd_tx s' ! i)) = Some bs \<and>
    takes_in ?d bs (- 70) 8 = deliver_up u (nd_addr ?s) (take 3 [1, 2, 3]) (- 70) 8 (of_nat (length ?hs)) \<and>
    nd_cfg u = nd_cfg ?d \<and> st_datagrams_rx (nd_stats u) = st_datagrams_rx (nd_stats ?d) + 1)"
    by (rule datagram_end_to_end [OF inv])
      (use send in \<open>simp_all add: node_joined_next_hop node_joined_listens node_joined_ready check_init\<close>, simp_all add: config)
  then show ?thesis using send by auto
qed

section \<open>Datagrams in fragments\<close>

text \<open>
  The destination as its host runs it: \<open>poll_in d w\<close> is one call of \<open>treenet_poll\<close> when the world outside (the clock included) is in
  state \<open>w\<close>, and \<open>clock\<close> is the time it reads from the port then. Between two fragments the host may poll any number of times.
\<close>

abbreviation poll_in :: "'d treenet \<Rightarrow> 'd \<Rightarrow> 'd treenet" where
  "poll_in d w \<equiv> treenet_poll_node (d\<lparr>nd_env := w\<rparr>)"

definition clock :: "'d treenet_port_t \<Rightarrow> 'd \<Rightarrow> u32" where
  "clock port w = (case po_now_ms port of None \<Rightarrow> 0 | Some f \<Rightarrow> fst (f w))"

text \<open>
  The arrival of fragment \<open>k\<close> at its destination over the routers \<open>hs\<close> (in the states they have then): the host polls in the worlds
  \<open>idle\<close>, the radio hands over the frame with \<open>treenet_rx\<close>, and the host polls in the world \<open>w\<close>. The sender hands the bytes \<open>sent k\<close> to
  its radio.
\<close>

type_synonym ('d, 'w) leg = "nat \<times> ('w treenet \<times> i16 \<times> i8) list \<times> i16 \<times> i8 \<times> 'd list \<times> 'd"

definition receive :: "(nat \<Rightarrow> u8 list) \<Rightarrow> 'd treenet \<Rightarrow> ('d, 'w) leg \<Rightarrow> 'd treenet" where
  "receive sent d leg =
     (case leg of (k, hs, rssi, snr, idle, w) \<Rightarrow>
        let d = foldl poll_in d idle
        in case relay hs (sent k) of
             None \<Rightarrow> d
           | Some bs \<Rightarrow> poll_in (snd (treenet_rx_node d (Some bs) (length bs) rssi snr)) w)"

definition leg_ok :: "u16 \<Rightarrow> treenet_addr_t \<Rightarrow> treenet_addr_t \<Rightarrow> u16 \<Rightarrow> ('d, 'w) leg \<Rightarrow> bool" where
  "leg_ok net src dst gid leg \<longleftrightarrow> (case leg of (k, hs, rssi, snr, idle, w) \<Rightarrow>
     length hs < unat TREENET_MAX_HOPS \<and> (\<forall>h\<in>set hs. router_ready net src dst (gid + 1 + of_nat k) (fst h)))"

text \<open>
  No poll between two fragments comes later than the lifetime of an incomplete datagram after the last fragment; \<open>recent\<close> is the time
  of that fragment, \<^const>\<open>None\<close> before the first one.
\<close>

definition still_alive :: "u32 option \<Rightarrow> u32 \<Rightarrow> bool" where
  "still_alive recent now \<longleftrightarrow> (case recent of None \<Rightarrow> True | Some t0 \<Rightarrow> tn_elapsed t0 now \<le> TREENET_REASM_TIMEOUT_MS)"

fun in_time :: "'d treenet_port_t \<Rightarrow> u32 option \<Rightarrow> ('d, 'w) leg list \<Rightarrow> bool" where
  "in_time port recent [] = True"
| "in_time port recent ((k, hs, rssi, snr, idle, w) # legs) =
     ((\<forall>v\<in>set idle. still_alive recent (clock port v)) \<and> in_time port (Some (clock port w)) legs)"

text \<open>
  Node \<open>d\<close>, which was \<open>d0\<close> before, has received the fragments \<open>S\<close> of the datagram \<open>gid\<close> of \<open>src\<close>, the last one at \<open>recent\<close>, and
  delivered nothing since.
\<close>

definition gathers ::
    "'d treenet \<Rightarrow> u16 \<Rightarrow> treenet_addr_t \<Rightarrow> u16 \<Rightarrow> u8 list \<Rightarrow> nat \<Rightarrow> nat set \<Rightarrow> u32 option \<Rightarrow> 'd treenet \<Rightarrow> bool" where
  "gathers d0 net src gid p len S recent d \<longleftrightarrow> listens net d \<and> nd_addr d = nd_addr d0 \<and> nd_cfg d = nd_cfg d0 \<and> nd_port d = nd_port d0 \<and>
     st_datagrams_rx (nd_stats d) = st_datagrams_rx (nd_stats d0) \<and>
     (\<forall>k<frag_count len. k \<notin> S \<longrightarrow> (\<forall>now. \<not> tn_dupcache_check (nd_dup d) src (gid + 1 + of_nat k) now)) \<and>
     (case recent of
        None \<Rightarrow> S = {} \<and> (\<forall>r\<in>set (nd_reasm d). \<not> frag_match src gid r)
      | Some t0 \<Rightarrow> \<exists>j. collecting (nd_reasm d) src gid p len j S \<and> re_last_ms (nd_reasm d ! j) = t0)"

lemma listens_static: "listens net x \<Longrightarrow> nd_static z = nd_static x \<Longrightarrow> node_inv (\<lambda>_. True) z \<Longrightarrow> listens net z"
  by (simp add: listens_def nd_staticD [of z x])

text \<open>The work of a poll after the reception keeps a datagram whose last fragment is recent enough.\<close>

lemma collecting_expire:
  assumes "collecting (nd_reasm t) src gid p len j S" and "tn_elapsed (re_last_ms (nd_reasm t ! j)) (nd_now_ms t) \<le> TREENET_REASM_TIMEOUT_MS"
  shows "collecting (nd_reasm (tn_expire_reasm t)) src gid p len j S" and "nd_reasm (tn_expire_reasm t) ! j = nd_reasm t ! j"
  using assms by (auto simp: collecting_def tn_expire_reasm_def frag_match_def)

lemma expire_no_match: "\<forall>r\<in>set (nd_reasm t). \<not> frag_match src gid r \<Longrightarrow> \<forall>r\<in>set (nd_reasm (tn_expire_reasm t)). \<not> frag_match src gid r"
  by (auto simp: tn_expire_reasm_def frag_match_def)

lemma poll_rest_inv: "node_inv (\<lambda>_. True) t \<Longrightarrow> node_inv (\<lambda>_. True) (poll_report (poll_work t))"
  by (simp add: poll_report_def poll_work_def Let_def)

lemma gathers_rest:
  assumes "gathers d0 net src gid p len S recent d" and "still_alive recent (nd_now_ms d)"
  shows "gathers d0 net src gid p len S recent (poll_report (poll_work d))"
proof -
  let ?e = "poll_report (poll_work d)"
  have st: "nd_static ?e = nd_static d" by (simp add: poll_report_static poll_work_static)
  have tb: "nd_dup ?e = nd_dup d" "nd_reasm ?e \<in> {nd_reasm d, nd_reasm (tn_expire_reasm d)}" "datagrams ?e = datagrams d"
    using poll_work_tables [of d] by (simp_all add: poll_report_tables poll_report_datagrams poll_work_datagrams)
  have d: "listens net d" using assms(1) by (simp add: gathers_def)
  have l: "listens net ?e" by (rule listens_static [OF d st]) (use d in \<open>simp add: listens_def poll_rest_inv\<close>)
  have "case recent of None \<Rightarrow> S = {} \<and> (\<forall>r\<in>set (nd_reasm ?e). \<not> frag_match src gid r)
      | Some t0 \<Rightarrow> \<exists>j. collecting (nd_reasm ?e) src gid p len j S \<and> re_last_ms (nd_reasm ?e ! j) = t0"
  proof (cases recent)
    case None
    then show ?thesis using assms(1) tb(2) expire_no_match [of d src gid] by (auto simp: gathers_def)
  next
    case (Some t0)
    then obtain j where j: "collecting (nd_reasm d) src gid p len j S" "re_last_ms (nd_reasm d ! j) = t0" using assms(1) by (auto simp: gathers_def)
    then have "tn_elapsed (re_last_ms (nd_reasm d ! j)) (nd_now_ms d) \<le> TREENET_REASM_TIMEOUT_MS"
      using assms(2) Some by (simp add: still_alive_def)
    note ex = collecting_expire [OF j(1) this]
    show ?thesis using tb(2) j ex Some by auto
  qed
  then show ?thesis using assms(1) l tb(1,3) nd_staticD [OF st] by (simp add: gathers_def)
qed

lemma poll_clock_world:
  "nd_now_ms (poll_clock (d\<lparr>nd_env := w\<rparr>)) = clock (nd_port d) w" "nd_port (poll_clock (d\<lparr>nd_env := w\<rparr>)) = nd_port d"
  "nd_rx (poll_clock (d\<lparr>nd_env := w\<rparr>)) = nd_rx d" "nd_initialized (poll_clock (d\<lparr>nd_env := w\<rparr>)) = nd_initialized d"
  "nd_net_id (poll_clock (d\<lparr>nd_env := w\<rparr>)) = nd_net_id d" "nd_addr (poll_clock (d\<lparr>nd_env := w\<rparr>)) = nd_addr d"
  "nd_cfg (poll_clock (d\<lparr>nd_env := w\<rparr>)) = nd_cfg d" "nd_dup (poll_clock (d\<lparr>nd_env := w\<rparr>)) = nd_dup d"
  "nd_reasm (poll_clock (d\<lparr>nd_env := w\<rparr>)) = nd_reasm d" "nd_stats (poll_clock (d\<lparr>nd_env := w\<rparr>)) = nd_stats d"
  by (simp_all add: poll_clock_def port_now_ms_def clock_def Let_def case_prod_unfold split: option.split)

lemma poll_clock_listens: "listens net d \<Longrightarrow> listens net (poll_clock (d\<lparr>nd_env := w\<rparr>))"
  by (simp add: listens_def poll_clock_world) (simp add: poll_clock_def)

lemma gathers_clock:
  assumes "gathers d0 net src gid p len S recent d"
  shows "gathers d0 net src gid p len S recent (poll_clock (d\<lparr>nd_env := w\<rparr>))"
  using assms by (simp add: gathers_def poll_clock_world poll_clock_listens split: option.splits)

lemma idle_polls:
  assumes "gathers d0 net src gid p len S recent d" and "\<forall>v\<in>set idle. still_alive recent (clock (nd_port d0) v)"
  shows "gathers d0 net src gid p len S recent (foldl poll_in d idle)"
  using assms
proof (induction idle arbitrary: d)
  case (Cons v idle)
  let ?e = "poll_clock (d\<lparr>nd_env := v\<rparr>)"
  have d: "nd_initialized d" "ring_repr (nd_rx d) []" "nd_port d = nd_port d0" using Cons.prems(1) by (simp_all add: gathers_def listens_def)
  have "gathers d0 net src gid p len S recent (poll_report (poll_work ?e))"
    by (rule gathers_rest [OF gathers_clock [OF Cons.prems(1)]]) (use Cons.prems(2) d(3) in \<open>simp add: poll_clock_world\<close>)
  moreover have "poll_in d v = poll_report (poll_work ?e)"
    using d by (simp add: poll_parts drain_empty poll_clock_world)
  ultimately show ?case using Cons by simp
qed simp

text \<open>A poll that finds one received frame takes it in and then does the rest of its work.\<close>

lemma poll_takes_in:
  assumes "nd_initialized d"
  shows "poll_in (snd (treenet_rx_node d (Some bs) (length bs) rssi snr)) w =
    poll_report (poll_work (takes_in (poll_clock (d\<lparr>nd_env := w\<rparr>)) bs rssi snr))"
proof -
  define rb where "rb = nd_rx (snd (treenet_rx_node d (Some bs) (length bs) rssi snr))"
  have rx: "snd (treenet_rx_node t (Some bs) (length bs) rssi snr) = t\<lparr>nd_rx := rb\<rparr>"
    if "nd_rx t = nd_rx d" "nd_initialized t" for t :: "'a treenet"
    using that assms by (simp add: rb_def treenet_rx_node_def Let_def case_prod_unfold)
  have "poll_clock (d\<lparr>nd_rx := rb, nd_env := w\<rparr>) = (poll_clock (d\<lparr>nd_env := w\<rparr>))\<lparr>nd_rx := rb\<rparr>"
    by (cases "po_now_ms (nd_port d)") (simp_all add: poll_clock_def port_now_ms_def Let_def case_prod_unfold)
  then show ?thesis using assms rx [of d] rx [of "poll_clock (d\<lparr>nd_env := w\<rparr>)"]
    by (simp add: poll_parts takes_in_def poll_clock_world)
qed

lemma arrived_carries:
  assumes "arrived (frag_frame s flood dst flags seq gid p len i) n g" and "payload_ok (frag_frame s flood dst flags seq gid p len i)"
  shows "carries_frag (nd_addr s) gid p len i g"
  using arrivedD [OF assms]
  by (simp add: carries_frag_def frag_frame_def data_frame_def frame_data_def [of "_\<lparr>fr_payload_len := _\<rparr>"] split: prod.splits)

lemma reasm_take:
  fixes t :: "'w treenet"
  assumes "0 < len" and "len \<le> TREENET_MAX_DATAGRAM" and "len \<le> length p" and "i < frag_count len" and "carries_frag src gid p len i f"
    and "nd_reasm t \<noteq> []" and "i \<notin> S"
    and "S = {} \<and> (\<forall>r\<in>set (nd_reasm t). \<not> frag_match src gid r) \<or> (\<exists>j. collecting (nd_reasm t) src gid p len j S)"
  obtains rs j where "collecting rs src gid p len j (insert i S)"
    and "tn_reasm_input t f rssi snr now =
      (if insert i S = {..<frag_count len}
       then reasm_finish (deliver_up (TN_STAT_INC st_datagrams_rx_update (t\<lparr>nd_reasm := rs\<rparr>))
              src (take len p) rssi snr (TREENET_MAX_HOPS - fr_hop_limit f)) j
       else t\<lparr>nd_reasm := rs\<rparr>)"
    and "re_last_ms (rs ! j) = now"
  using assms(8)
proof (elim disjE conjE exE)
  assume "S = {}" "\<forall>r\<in>set (nd_reasm t). \<not> frag_match src gid r"
  then show thesis using reasm_start [OF assms(1-6), of rssi snr now] that by auto
next
  fix j
  assume "collecting (nd_reasm t) src gid p len j S"
  then show thesis using reasm_step [OF assms(1-5), of t j S rssi snr now] assms(7) that by auto
qed

lemma fragment_seq_eq: "k < 7 \<Longrightarrow> k' < 7 \<Longrightarrow> gid + 1 + of_nat k = gid + 1 + (of_nat k' :: u16) \<longleftrightarrow> k = k'"
  by (auto simp: of_nat_eq_iff word_of_nat_eq_iff take_bit_nat_eq_self)


text \<open>Node \<open>s\<close> hands the fragments of the first \<open>len\<close> bytes of \<open>p\<close> to its radio, fragment \<open>k\<close> as the bytes \<open>sent k\<close>.\<close>

definition fragments_sent :: "'w treenet \<Rightarrow> treenet_addr_t \<Rightarrow> u16 \<Rightarrow> u8 list \<Rightarrow> nat \<Rightarrow> (nat \<Rightarrow> u8 list) \<Rightarrow> bool" where
  "fragments_sent s dst gid p len sent \<longleftrightarrow> 0 < len \<and> len \<le> TREENET_MAX_DATAGRAM \<and> len \<le> length p \<and> node_inv (\<lambda>_. True) s \<and> dst \<noteq> nd_addr s \<and>
     (\<forall>k<frag_count len. \<exists>ack. sent k =
        frame_wire ((frag_frame s False dst (TN_FLAG_FRAG OR ack) (gid + 1 + of_nat k) gid p len k)\<lparr>fr_prev := nd_addr s\<rparr>))"

lemma receive_fragment:
  assumes "fragments_sent s (nd_addr d0) gid p len sent" and "gathers d0 (nd_net_id s) (nd_addr s) gid p len S recent d"
    and "k < frag_count len" and "k \<notin> S" and "leg_ok (nd_net_id s) (nd_addr s) (nd_addr d0) gid (k, hs, rssi, snr, idle, w)"
  obtains bs z rs j where "relay hs (sent k) = Some bs" and "node_inv (\<lambda>_. True) (takes_in (poll_clock (d\<lparr>nd_env := w\<rparr>)) bs rssi snr)"
    and "listens (nd_net_id s) z" and "nd_addr z = nd_addr d" and "nd_cfg z = nd_cfg d" and "nd_port z = nd_port d"
    and "st_datagrams_rx (nd_stats z) = st_datagrams_rx (nd_stats d)" and "nd_now_ms z = clock (nd_port d0) w"
    and "nd_dup z = tn_dupcache_mark (nd_dup d) (nd_addr s) (gid + 1 + of_nat k) (clock (nd_port d0) w)"
    and "collecting rs (nd_addr s) gid p len j (insert k S)" and "re_last_ms (rs ! j) = clock (nd_port d0) w"
    and "takes_in (poll_clock (d\<lparr>nd_env := w\<rparr>)) bs rssi snr =
      (if insert k S = {..<frag_count len}
       then reasm_finish (deliver_up (TN_STAT_INC st_datagrams_rx_update (z\<lparr>nd_reasm := rs\<rparr>))
              (nd_addr s) (take len p) rssi snr (of_nat (length hs))) j
       else z\<lparr>nd_reasm := rs\<rparr>)"
proof -
  have len: "0 < len" "len \<le> TREENET_MAX_DATAGRAM" "len \<le> length p" "node_inv (\<lambda>_. True) s" "nd_addr d0 \<noteq> nd_addr s"
    using assms(1) by (simp_all add: fragments_sent_def)
  obtain ack where sent: "sent k =
      frame_wire ((frag_frame s False (nd_addr d0) (TN_FLAG_FRAG OR ack) (gid + 1 + of_nat k) gid p len k)\<lparr>fr_prev := nd_addr s\<rparr>)"
    using assms(1,3) by (auto simp: fragments_sent_def)
  let ?e = "poll_clock (d\<lparr>nd_env := w\<rparr>)" and ?seq = "gid + 1 + of_nat k" and ?now = "clock (nd_port d0) w"
  let ?f = "frag_frame s False (nd_addr d0) (TN_FLAG_FRAG OR ack) ?seq gid p len k"
  note world = poll_clock_world [of w d]
  have d: "listens (nd_net_id s) ?e" "nd_addr d = nd_addr d0" "nd_port d = nd_port d0" "\<not> tn_dupcache_check (nd_dup d) (nd_addr s) ?seq ?now"
    using assms(2-4) poll_clock_listens [of "nd_net_id s" d w] by (simp_all add: gathers_def)
  have inv: "node_inv (\<lambda>_. True) d" using assms(2) by (simp add: gathers_def listens_def)
  have f: "frame_ok (nd_net_id s) ?f" "fr_payload_len ?f \<le> 178"
    using frag_frame_ok [OF len(4), of False "nd_addr d0"] node_invD(1) [OF inv] d(2) by simp_all
  have ff: "fr_src ?f = nd_addr s" "fr_dst ?f = nd_addr d0" "fr_seq ?f = ?seq" "fr_type ?f = TREENET_FRAME_DATA"
      "fr_hop_limit ?f = TREENET_MAX_HOPS" "fr_flags ?f = TN_FLAG_FRAG OR ack"
    by (simp_all add: frag_frame_def data_frame_def split: prod.split)
  obtain bs x g where j: "relay hs (sent k) = Some bs"
      "takes_in ?e bs rssi snr = tn_deliver (ack_back (x\<lparr>nd_dup := tn_dupcache_mark (nd_dup ?e) (fr_src ?f) (fr_seq ?f) (nd_now_ms ?e)\<rparr>) g) g rssi snr"
      "arrived ?f (length hs) g" "node_inv (\<lambda>_. True) x" "nd_before x = nd_before ?e" "listens (nd_net_id s) x"
    unfolding sent by (rule frame_travels [OF f ff(4), of hs ?e "nd_addr s" rssi snr])
      (use assms(5) len(5) d world ff in \<open>simp_all add: leg_ok_def\<close>)
  define z where "z = ack_back (x\<lparr>nd_dup := tn_dupcache_mark (nd_dup d) (nd_addr s) ?seq ?now\<rparr>) g"
  have pok: "payload_ok ?f" using f(1) by (simp add: frame_ok_def)
  note g = arrivedD [OF j(3) pok] and b = nd_beforeD [OF j(5)]
  have port: "nd_port x = nd_port ?e" using j(5) by (simp add: nd_before_def)
  have z: "node_inv (\<lambda>_. True) z" "nd_static z = nd_static x" "nd_reasm z = nd_reasm d" "nd_now_ms z = ?now"
    using j(4) node_invD(8) [OF inv] b(5,9) world d(3) by (simp_all add: z_def)
  have frag: "fr_flags g AND TN_FLAG_FRAG \<noteq> 0" using g(4) ff(6) by (simp add: config word_ao_dist)
  have "takes_in ?e bs rssi snr = tn_deliver z g rssi snr" unfolding j(2) z_def using ff(1,3) world(1,8) d(3) by simp
  then have r: "takes_in ?e bs rssi snr = tn_reasm_input z g rssi snr ?now" using frag z(4) by (simp add: tn_deliver_def)
  have ne: "nd_reasm z \<noteq> []" using node_invD(11) [OF z(1)] by (auto simp: reasm_ok_def config)
  have hops: "TREENET_MAX_HOPS - fr_hop_limit g = of_nat (length hs)" using g(9) ff(5) by simp
  obtain rs j' where rs: "collecting rs (nd_addr s) gid p len j' (insert k S)"
      "tn_reasm_input z g rssi snr ?now =
       (if insert k S = {..<frag_count len}
        then reasm_finish (deliver_up (TN_STAT_INC st_datagrams_rx_update (z\<lparr>nd_reasm := rs\<rparr>))
              (nd_addr s) (take len p) rssi snr (TREENET_MAX_HOPS - fr_hop_limit g)) j'
        else z\<lparr>nd_reasm := rs\<rparr>)"
      "re_last_ms (rs ! j') = ?now"
    by (rule reasm_take [OF len(1-3) assms(3) arrived_carries [OF j(3) pok] ne assms(4)])
      (use assms(2) z(3) in \<open>auto simp: gathers_def split: option.splits\<close>)
  show thesis
  proof (rule that [OF j(1) _ listens_static [OF j(6) z(2,1)] _ _ _ _ z(4) _ rs(1,3)])
    show "node_inv (\<lambda>_. True) (takes_in ?e bs rssi snr)" unfolding r using z(1) g(8) by (rule tn_reasm_input_inv)
    show "nd_dup z = tn_dupcache_mark (nd_dup d) (nd_addr s) ?seq ?now" "nd_addr z = nd_addr d" "nd_cfg z = nd_cfg d" "nd_port z = nd_port d"
      "st_datagrams_rx (nd_stats z) = st_datagrams_rx (nd_stats d)"
      using b port world by (simp_all add: z_def)
  qed (use r rs(2) hops in simp)
qed

lemma receive_takes_in:
  assumes "gathers d0 net src gid p len S recent (foldl poll_in d idle)" and "relay hs (sent k) = Some bs"
  shows "receive sent d (k, hs, rssi, snr, idle, w) =
    poll_report (poll_work (takes_in (poll_clock ((foldl poll_in d idle)\<lparr>nd_env := w\<rparr>)) bs rssi snr))"
  using assms by (simp add: receive_def gathers_def listens_def poll_takes_in)

lemma receive_gathers:
  assumes "fragments_sent s (nd_addr d0) gid p len sent" and "gathers d0 (nd_net_id s) (nd_addr s) gid p len S recent d"
    and "k < frag_count len" and "k \<notin> S" and "leg_ok (nd_net_id s) (nd_addr s) (nd_addr d0) gid (k, hs, rssi, snr, idle, w)"
    and "insert k S \<noteq> {..<frag_count len}" and "\<forall>v\<in>set idle. still_alive recent (clock (nd_port d0) v)"
  shows "gathers d0 (nd_net_id s) (nd_addr s) gid p len (insert k S) (Some (clock (nd_port d0) w)) (receive sent d (k, hs, rssi, snr, idle, w))"
proof -
  let ?d = "foldl poll_in d idle" and ?now = "clock (nd_port d0) w"
  let ?e = "poll_clock (?d\<lparr>nd_env := w\<rparr>)"
  note idle = idle_polls [OF assms(2,7)]
  obtain bs z rs j where z: "relay hs (sent k) = Some bs" "node_inv (\<lambda>_. True) (takes_in ?e bs rssi snr)" "listens (nd_net_id s) z"
      "nd_addr z = nd_addr ?d" "nd_cfg z = nd_cfg ?d" "nd_port z = nd_port ?d" "st_datagrams_rx (nd_stats z) = st_datagrams_rx (nd_stats ?d)"
      "nd_now_ms z = ?now" "nd_dup z = tn_dupcache_mark (nd_dup ?d) (nd_addr s) (gid + 1 + of_nat k) ?now"
      "collecting rs (nd_addr s) gid p len j (insert k S)" "re_last_ms (rs ! j) = ?now" "takes_in ?e bs rssi snr = z\<lparr>nd_reasm := rs\<rparr>"
    by (rule receive_fragment [OF assms(1) idle assms(3-5)]) (use assms(6) in simp)
  have d: "listens (nd_net_id s) (z\<lparr>nd_reasm := rs\<rparr>)" using z(2,3) unfolding z(12) by (simp add: listens_def)
  have dup: "dupcache_wf (nd_dup ?d)" using idle node_invD(8) by (auto simp: gathers_def listens_def)
  have n: "frag_count len \<le> 6" using assms(1) frag_count_bounds(2) by (simp add: fragments_sent_def)
  have "\<not> tn_dupcache_check (nd_dup z) (nd_addr s) (gid + 1 + of_nat k') now'" if "k' < frag_count len" "k' \<notin> insert k S" for k' now'
    using that idle assms(3) n fragment_seq_eq [of k' k gid] by (simp add: z(9) check_mark [OF dup] gathers_def)
  then have "gathers d0 (nd_net_id s) (nd_addr s) gid p len (insert k S) (Some ?now) (z\<lparr>nd_reasm := rs\<rparr>)"
    using d idle z(4-7,10,11) by (auto simp: gathers_def)
  then have "gathers d0 (nd_net_id s) (nd_addr s) gid p len (insert k S) (Some ?now) (poll_report (poll_work (z\<lparr>nd_reasm := rs\<rparr>)))"
    by (rule gathers_rest) (simp add: still_alive_def z(8) tn_elapsed_def config)
  then show ?thesis unfolding z(12) [symmetric] receive_takes_in [where sent = sent and k = k, OF idle z(1)] .
qed

lemma finish_datagrams: "datagrams (poll_report (poll_work (reasm_finish (deliver_up t src data rssi snr hops) j))) = datagrams t"
  by (simp add: poll_report_datagrams poll_work_datagrams reasm_finish_def deliver_up_def run_app_datagrams split: option.split)

text \<open>The time of the last fragment after the arrivals \<open>legs\<close>.\<close>

definition latest :: "'d treenet_port_t \<Rightarrow> u32 option \<Rightarrow> ('d, 'w) leg list \<Rightarrow> u32 option" where
  "latest port recent legs = foldl (\<lambda>r (k, hs, rssi, snr, idle, w). Some (clock port w)) recent legs"

lemma in_time_snoc:
  "in_time port recent (legs @ [(k, hs, rssi, snr, idle, w)]) \<longleftrightarrow>
     in_time port recent legs \<and> (\<forall>v\<in>set idle. still_alive (latest port recent legs) (clock port v))"
  by (induction port recent legs rule: in_time.induct) (auto simp: latest_def)

lemma receive_all_gathers:
  assumes "fragments_sent s (nd_addr d0) gid p len sent" and "gathers d0 (nd_net_id s) (nd_addr s) gid p len S recent d"
    and "\<forall>leg\<in>set legs. leg_ok (nd_net_id s) (nd_addr s) (nd_addr d0) gid leg" and "distinct (map fst legs)"
    and "S \<inter> set (map fst legs) = {}" and "S \<union> set (map fst legs) \<subset> {..<frag_count len}" and "in_time (nd_port d0) recent legs"
  shows "gathers d0 (nd_net_id s) (nd_addr s) gid p len (S \<union> set (map fst legs)) (latest (nd_port d0) recent legs) (foldl (receive sent) d legs)"
  using assms(2-7)
proof (induction legs arbitrary: S recent d)
  case (Cons leg legs)
  obtain k hs rssi snr idle w where leg: "leg = (k, hs, rssi, snr, idle, w)" by (cases leg)
  have "gathers d0 (nd_net_id s) (nd_addr s) gid p len (insert k S) (Some (clock (nd_port d0) w)) (receive sent d leg)"
    unfolding leg by (rule receive_gathers [OF assms(1) Cons.prems(1)]) (use Cons.prems in \<open>auto simp: leg\<close>)
  then have "gathers d0 (nd_net_id s) (nd_addr s) gid p len (insert k S \<union> set (map fst legs)) (latest (nd_port d0) (Some (clock (nd_port d0) w)) legs)
      (foldl (receive sent) (receive sent d leg) legs)"
    by (rule Cons.IH) (use Cons.prems in \<open>auto simp: leg\<close>)
  then show ?case by (simp add: leg latest_def)
qed (simp add: latest_def)

lemma queued_fragments:
  assumes "node_inv Q s" and "0 < len" and "len \<le> TREENET_MAX_DATAGRAM" and "len \<le> length p" and "dst \<noteq> nd_addr s" "dst \<noteq> TREENET_ADDR_BROADCAST"
    and "TREENET_MTU - TN_FRAME_OVERHEAD < len" and "queued s s' (datagram_frames s dst p len) reliable nh"
  obtains js where "distinct js" and "length js = frag_count len" and "\<forall>j\<in>set js. \<not> tx_valid (nd_tx s ! j) \<and> tx_valid (nd_tx s' ! j)"
    and "fragments_sent s dst (nd_seq s) p len (\<lambda>k. slot_bytes (nd_tx s' ! (js ! k)))"
proof -
  define ack where "ack = (if cf_reliable (nd_cfg s) then TN_FLAG_WANT_ACK else 0)"
  let ?F = "\<lambda>i. frag_frame s False dst (TN_FLAG_FRAG OR ack) (nd_seq s + 1 + of_nat i) (nd_seq s) p len i"
  have fs: "datagram_frames s dst p len = map ?F [0..<frag_count len]"
    using assms(6,7) by (simp add: datagram_frames_def ack_def)
  obtain js where js: "distinct js" "length js = frag_count len" "\<forall>j\<in>set js. \<not> tx_valid (nd_tx s ! j)"
      "\<forall>k<frag_count len. holds_frame (nd_tx s' ! (js ! k)) ((?F k)\<lparr>fr_prev := nd_addr s\<rparr>) reliable nh"
    using assms(8) unfolding queued_def fs by auto
  have "slot_bytes (nd_tx s' ! (js ! k)) = frame_wire ((?F k)\<lparr>fr_prev := nd_addr s\<rparr>) \<and> tx_valid (nd_tx s' ! (js ! k))"
    if "k < frag_count len" for k using js(4) that holds_frame_bytes by blast
  moreover have "node_inv (\<lambda>_. True) s" using assms(1) by (rule node_inv_weaken)
  ultimately show thesis
    using assms(2-5) js(1-3) by (intro that [of js]) (auto simp: fragments_sent_def in_set_conv_nth)
qed


text \<open>
  Property C3: a fragmented datagram travels from application to application. Let node \<open>s\<close> send more bytes than fit one frame, up to the
  maximum datagram, to node \<open>d\<close>, with a next hop and enough free slots. Each fragment is queued in a slot of its own. Let the fragments
  reach \<open>d\<close> in any order, each over a chain of up to seven routers that can pass it on, while the host of \<open>d\<close> calls \<open>treenet_poll\<close>
  after every fragment and any number of times in between, none of those later than the lifetime of an incomplete datagram
  (\<open>TREENET_REASM_TIMEOUT_MS\<close>) after the last fragment. Then the send succeeds, and the poll that takes in the last fragment
  hands the application exactly the bytes that were sent before it goes on with its other work; it is the only datagram \<open>d\<close> delivers in
  all these polls.
\<close>

theorem fragments_end_to_end:
  assumes "node_inv Q s" and "nd_initialized s" and "frag_count len \<le> tn_tx_free_slots s" and "fst (tn_route_next_hop s (nd_addr d)) \<noteq> TREENET_ADDR_INVALID"
    and "TREENET_MTU - TN_FRAME_OVERHEAD < len" and "len \<le> TREENET_MAX_DATAGRAM" and "len \<le> length p" and "nd_addr d \<noteq> nd_addr s"
    and "listens (nd_net_id s) d" and "\<forall>r\<in>set (nd_reasm d). \<not> frag_match (nd_addr s) (nd_seq s) r"
    and "\<forall>k<frag_count len. \<forall>now. \<not> tn_dupcache_check (nd_dup d) (nd_addr s) (nd_seq s + 1 + of_nat k) now"
    and "\<forall>leg\<in>set (legs @ [(k, hs, rssi, snr, idle, w)]). leg_ok (nd_net_id s) (nd_addr s) (nd_addr d) (nd_seq s) leg"
    and "distinct (map fst (legs @ [(k, hs, rssi, snr, idle, w)]))"
    and "set (map fst (legs @ [(k, hs, rssi, snr, idle, w)])) = {..<frag_count len}"
    and "in_time (nd_port d) None (legs @ [(k, hs, rssi, snr, idle, w)])"
    and "treenet_send_node s (nd_addr d) (Some p) len = (rc, s')"
  shows "rc = 0 \<and> (\<exists>js u j d'. distinct js \<and> length js = frag_count len \<and> (\<forall>i\<in>set js. \<not> tx_valid (nd_tx s ! i) \<and> tx_valid (nd_tx s' ! i)) \<and>
    foldl (receive (\<lambda>k. slot_bytes (nd_tx s' ! (js ! k)))) d (legs @ [(k, hs, rssi, snr, idle, w)]) = d' \<and>
    d' = poll_report (poll_work (reasm_finish (deliver_up u (nd_addr s) (take len p) rssi snr (of_nat (length hs))) j)) \<and>
    nd_cfg u = nd_cfg d \<and> st_datagrams_rx (nd_stats u) = st_datagrams_rx (nd_stats d) + 1 \<and>
    st_datagrams_rx (nd_stats d') = st_datagrams_rx (nd_stats d) + 1)"
proof -
  let ?net = "nd_net_id s" and ?src = "nd_addr s" and ?dst = "nd_addr d" and ?gid = "nd_seq s"
  have dst: "?dst \<noteq> TREENET_ADDR_INVALID" "?dst \<noteq> TREENET_ADDR_BROADCAST"
    using assms(9) node_invD(1,2) [of "\<lambda>_. True" d] by (simp_all add: listens_def)
  have len: "0 < len" "frames_needed len \<le> tn_tx_free_slots s" using assms(3,5) by (simp_all add: frames_needed_def)
  note send = send_node_queues [OF assms(1,2,8) dst len(1) assms(6,7,4) len(2) assms(16)]
  obtain js where js: "distinct js" "length js = frag_count len" "\<forall>j\<in>set js. \<not> tx_valid (nd_tx s ! j) \<and> tx_valid (nd_tx s' ! j)"
      "fragments_sent s ?dst ?gid p len (\<lambda>k. slot_bytes (nd_tx s' ! (js ! k)))"
    by (rule queued_fragments [OF assms(1) len(1) assms(6-8) dst(2) assms(5) send(2)])
  let ?sent = "\<lambda>k. slot_bytes (nd_tx s' ! (js ! k))"
  let ?d = "foldl poll_in (foldl (receive ?sent) d legs) idle" and ?S = "set (map fst legs)"
  have k: "k \<notin> ?S" "k < frag_count len" "insert k ?S = {..<frag_count len}" using assms(13,14) by auto
  have "gathers d ?net ?src ?gid p len {} None d" using assms(9-11) by (simp add: gathers_def)
  then have "gathers d ?net ?src ?gid p len ({} \<union> ?S) (latest (nd_port d) None legs) (foldl (receive ?sent) d legs)"
    by (rule receive_all_gathers [OF js(4)]) (use assms(12,13,15) k in \<open>auto simp: in_time_snoc\<close>)
  then have g: "gathers d ?net ?src ?gid p len ?S (latest (nd_port d) None legs) ?d"
    by (intro idle_polls) (use assms(15) in \<open>simp_all add: in_time_snoc\<close>)
  obtain bs z rs j where z: "relay hs (?sent k) = Some bs" "nd_cfg z = nd_cfg ?d" "st_datagrams_rx (nd_stats z) = st_datagrams_rx (nd_stats ?d)"
      "takes_in (poll_clock (?d\<lparr>nd_env := w\<rparr>)) bs rssi snr =
        reasm_finish (deliver_up (TN_STAT_INC st_datagrams_rx_update (z\<lparr>nd_reasm := rs\<rparr>)) ?src (take len p) rssi snr (of_nat (length hs))) j"
    by (rule receive_fragment [OF js(4) g k(2,1), of hs rssi snr idle w]) (use assms(12) k(3) in simp_all)
  define u where "u = TN_STAT_INC st_datagrams_rx_update (z\<lparr>nd_reasm := rs\<rparr>)"
  have u: "nd_cfg u = nd_cfg d" "st_datagrams_rx (nd_stats u) = st_datagrams_rx (nd_stats d) + 1"
    using g z(2,3) by (simp_all add: u_def TN_STAT_INC_def gathers_def)
  have "foldl (receive ?sent) d (legs @ [(k, hs, rssi, snr, idle, w)]) =
      poll_report (poll_work (reasm_finish (deliver_up u ?src (take len p) rssi snr (of_nat (length hs))) j))"
    using receive_takes_in [where sent = ?sent and k = k, OF g z(1)] z(4) by (simp add: u_def)
  then show ?thesis using send(1) js(1-3) u finish_datagrams [of u] by metis
qed

text \<open>A node in a world that is nothing but the time in milliseconds.\<close>

definition port_timed :: "u32 treenet_port_t" where
  "port_timed = \<lparr>po_tx = Some (\<lambda>buf w. (0, w)), po_now_ms = Some (\<lambda>w. (w, w)), po_rnd = Some (\<lambda>w. (7, w)),
     po_channel_free = None, po_log = None, po_timer_arm = None\<rparr>"

definition node_timed :: "treenet_addr_t \<Rightarrow> treenet_addr_t \<Rightarrow> u32 treenet" where
  "node_timed addr parent = (node_cleared (cfg_plain TREENET_ROLE_REPEATER addr) port_timed 5000)
     \<lparr>nd_addr := addr, nd_role := TREENET_ROLE_REPEATER, nd_net_id := 1, nd_now_ms := 5000, nd_initialized := True,
      nd_rank := 512, nd_parent := parent, nd_connected := True, nd_neighbors := tn_neighbor_table_init \<lparr>nt_entries = [], nt_count = 0\<rparr>,
      nd_dup := tn_dupcache_init \<lparr>du_entries = [], du_ttl_ms = 0\<rparr> TREENET_DUP_TTL_MS, nd_trickle_I := TREENET_BEACON_MIN_MS,
      nd_rx := tn_ringbuf_init \<lparr>rb_buf = [], rb_capacity = 0, rb_head = 0, rb_tail = 0, rb_dropped = 0\<rparr>
        (replicate TREENET_RX_RING_BYTES 0) TREENET_RX_RING_BYTES\<rparr>"

lemma node_timed_fields [simp]:
  "nd_addr (node_timed addr parent) = addr" "nd_net_id (node_timed addr parent) = 1" "nd_port (node_timed addr parent) = port_timed"
  "nd_dup (node_timed addr parent) = tn_dupcache_init \<lparr>du_entries = [], du_ttl_ms = 0\<rparr> TREENET_DUP_TTL_MS"
  "nd_reasm (node_timed addr parent) = replicate TREENET_REASSEMBLY_SLOTS reasm_zero"
  by (simp_all add: node_timed_def node_cleared_def)

lemma node_timed_listens:
  assumes "addr \<noteq> 0" and "addr \<noteq> 0xFFFFFFFF" and "parent \<noteq> 0" and "parent \<noteq> addr"
  shows "listens 1 (node_timed addr parent)"
proof -
  let ?t = "node_timed addr parent" and ?rb = "\<lparr>rb_buf = [], rb_capacity = 0, rb_head = 0, rb_tail = 0, rb_dropped = 0\<rparr> :: tn_ringbuf_t"
  have rx: "nd_rx ?t = tn_ringbuf_init ?rb (replicate TREENET_RX_RING_BYTES 0) TREENET_RX_RING_BYTES" by (simp add: node_timed_def)
  have ring: "ring_repr (nd_rx ?t) []" "rb_capacity (nd_rx ?t) = of_nat TREENET_RX_RING_BYTES"
    unfolding rx using ring_repr_init [of 10 "replicate TREENET_RX_RING_BYTES 0" ?rb] is_pow2_power [of 10] by (simp_all add: tn_ringbuf_init_def config)
  then have "rx_ok (nd_rx ?t)" unfolding rx_ok_def by (intro exI [of _ "[]"]) simp
  moreover have "routes_inv addr (nd_routes ?t)" using route_wf_init [of "nd_routes ?t"] route_look_init [of "nd_routes ?t"]
    by (simp add: routes_inv_def tn_route_init_def node_timed_def node_cleared_def)
  moreover have "neighbors_inv addr (nd_neighbors ?t)" by (simp add: node_timed_def neighbors_inv_def)
  moreover have "txq_ok addr 1 (nd_tx ?t)" "reasm_ok (nd_reasm ?t)" "nd_trickle_I ?t = TREENET_BEACON_MIN_MS" "eventq_wf (nd_events ?t)"
      "nd_rank ?t = 512" "nd_connected ?t" "nd_parent ?t = parent" "nd_role ?t = TREENET_ROLE_REPEATER" "nd_cfg ?t = cfg_plain TREENET_ROLE_REPEATER addr"
    by (simp_all add: node_timed_def node_cleared_def txq_ok_def tx_slot_ok_def tx_slot_zero_def reasm_ok_def reasm_slot_ok_def reasm_zero_def list_all_iff)
  ultimately have "node_inv (\<lambda>_. True) ?t"
    using assms by (simp add: node_inv_def tree_ok_def port_ok_def cfg_ok_def cfg_plain_def config)
  then show ?thesis using ring by (simp add: listens_def node_timed_def)
qed

theorem fragments_end_to_end_witness:
  "\<exists>s' js u j. treenet_send_node (node_joined 2 3) 9 (Some (replicate 200 7)) 200 = (0, s') \<and>
     foldl (receive (\<lambda>k. slot_bytes (nd_tx s' ! (js ! k)))) (node_timed 9 4)
       [(1, [(node_joined 3 4, - 80, 5)], - 90, 1, [5500], 6000),
        (0, [(node_joined 3 4, - 80, 5), (node_joined 4 1, - 95, - 3)], - 70, 8, [7000, 14000], 20000)] =
     poll_report (poll_work (reasm_finish (deliver_up u 2 (replicate 200 7) (- 70) 8 2) j))"
proof -
  let ?s = "node_joined 2 3" and ?d = "node_timed 9 4" and ?p = "replicate 200 (7 :: u8)"
  let ?hs = "[(node_joined 3 4, - 80 :: i16, 5 :: i8), (node_joined 4 1, - 95, - 3)]" and ?idle = "[7000, 14000] :: u32 list"
  let ?legs = "[(1 :: nat, [(node_joined 3 4, - 80 :: i16, 5 :: i8)], - 90 :: i16, 1 :: i8, [5500] :: u32 list, 6000 :: u32)]"
  obtain rc s' where send: "treenet_send_node ?s 9 (Some ?p) 200 = (rc, s')" by (cases "treenet_send_node ?s 9 (Some ?p) 200")
  have inv: "node_inv (\<lambda>_. True) ?s" using node_joined_listens [of 2 3] by (simp add: listens_def)
  have n: "frag_count 200 = 2" by (simp add: frag_count_def config)
  have re: "\<forall>r\<in>set (nd_reasm ?d). \<not> frag_match a b r" for a b by (simp add: frag_match_def reasm_zero_def)
  have time: "in_time port_timed None (?legs @ [(0, ?hs, - 70, 8, ?idle, 20000)])"
    by (simp add: clock_def port_timed_def still_alive_def tn_elapsed_def config)
  have "rc = 0 \<and> (\<exists>js u j d'. distinct js \<and> length js = frag_count 200 \<and> (\<forall>i\<in>set js. \<not> tx_valid (nd_tx ?s ! i) \<and> tx_valid (nd_tx s' ! i)) \<and>
    foldl (receive (\<lambda>k. slot_bytes (nd_tx s' ! (js ! k)))) ?d (?legs @ [(0, ?hs, - 70, 8, ?idle, 20000)]) = d' \<and>
    d' = poll_report (poll_work (reasm_finish (deliver_up u (nd_addr ?s) (take 200 ?p) (- 70) 8 (of_nat (length ?hs))) j)) \<and>
    nd_cfg u = nd_cfg ?d \<and> st_datagrams_rx (nd_stats u) = st_datagrams_rx (nd_stats ?d) + 1 \<and>
    st_datagrams_rx (nd_stats d') = st_datagrams_rx (nd_stats ?d) + 1)"
    by (rule fragments_end_to_end [OF inv])
      (use send re time in \<open>simp_all add: n node_joined_next_hop node_timed_listens leg_ok_def node_joined_ready check_init\<close>, auto simp: config)
  then show ?thesis using send by auto
qed

end
