(* ===== verification/Tn_Hop.thy ===== *)
theory Tn_Hop
  imports Tn_Journey
begin

text \<open>
  One reliable hop: the receiver of a frame that wants an acknowledgement queues one, and the sender that takes it in
  releases the slot of the frame (\<open>tn_send_ack\<close>, \<open>tn_handle_ack\<close> of \<open>src/src/api/treenet.c\<close>). Acknowledgements
  name a sequence number only, which is not enough for a router.
\<close>

section \<open>Occupied slots stay\<close>

text \<open>From \<open>t\<close> to \<open>u\<close> no slot of the transmit queue that was in use has changed.\<close>

definition keeps_slots :: "'w treenet \<Rightarrow> 'w treenet \<Rightarrow> bool" where
  "keeps_slots t u \<longleftrightarrow> length (nd_tx u) = length (nd_tx t) \<and>
     (\<forall>i<length (nd_tx t). tx_valid (nd_tx t ! i) \<longrightarrow> nd_tx u ! i = nd_tx t ! i)"

lemma keeps_slots_refl [simp]: "nd_tx u = nd_tx t \<Longrightarrow> keeps_slots t u"
  by (simp add: keeps_slots_def)

lemma keeps_slots_trans: "keeps_slots t u \<Longrightarrow> keeps_slots u v \<Longrightarrow> keeps_slots t v"
  by (auto simp: keeps_slots_def)

lemma keeps_slots_tx: "keeps_slots t u \<Longrightarrow> nd_tx v = nd_tx u \<Longrightarrow> keeps_slots t v"
  by (simp add: keeps_slots_def)

lemma keeps_slots_update [simp]:
  "keeps_slots t (x\<lparr>nd_reasm := rs\<rparr>) = keeps_slots t x" "keeps_slots t (TN_STAT_INC g x) = keeps_slots t x"
  by (simp_all add: keeps_slots_def TN_STAT_INC_def)

lemma length_submit [simp]: "length (nd_tx (snd (tn_tx_submit t f reliable nh d))) = length (nd_tx t)"
  by (simp add: tn_tx_submit_def Let_def case_prod_unfold split: option.split)

lemma submit_keeps_slots: "keeps_slots t (snd (tn_tx_submit t f reliable nh d))"
  by (simp add: keeps_slots_def submit_other_slot)

lemma ack_keeps_slots: "keeps_slots t (tn_send_ack t to seq)"
  by (simp add: tn_send_ack_def submit_keeps_slots)

lemma tn_next_seq_tx [simp]: "nd_tx (snd (tn_next_seq t)) = nd_tx t"
  by (simp add: tn_next_seq_def)

lemma send_frags_keeps_slots: "keeps_slots t (snd (send_frags flood dst reliable nh gid count p len is t))"
proof (induction "is" arbitrary: t)
  case (Cons i "is")
  define x where "x = snd (tn_next_seq t)"
  have sub: "keeps_slots t (snd (tn_tx_submit x f rel nh 0))" for f rel
    by (rule keeps_slots_trans [OF _ submit_keeps_slots]) (simp add: x_def)
  note rest = keeps_slots_trans [OF sub Cons.IH]
  show ?case unfolding send_frags.simps Let_def case_prod_unfold x_def [symmetric] by (simp add: sub rest)
qed simp

lemma send_datagram_keeps_slots: "keeps_slots t (snd (tn_send_datagram t dst data len flood))"
proof (cases data)
  case (Some p)
  define u where "u = snd (if flood then (TREENET_ADDR_BROADCAST, t) else tn_route_next_hop t dst)"
  define x where "x = snd (tn_next_seq u)"
  have tx: "nd_tx u = nd_tx t" "nd_tx x = nd_tx t" by (simp_all add: u_def x_def)
  have sub: "keeps_slots t (snd (tn_tx_submit x f rel nh 0))" for f rel nh
    using keeps_slots_trans [OF keeps_slots_refl [OF tx(2)] submit_keeps_slots] .
  have frags: "keeps_slots t (snd (send_frags fl dst rel nh gid count p len is x))" for fl rel nh gid count "is"
    using keeps_slots_trans [OF keeps_slots_refl [OF tx(2)] send_frags_keeps_slots] .
  show ?thesis
    unfolding tn_send_datagram_def Some option.case Let_def case_prod_unfold u_def [symmetric] x_def [symmetric]
    by (simp add: tx sub frags)
qed (simp add: tn_send_datagram_def)

lemma public_calls_keep_slots:
  "keeps_slots t (snd (treenet_broadcast_node t data len))" "keeps_slots t (snd (treenet_send_node t dst data len))"
  by (simp_all add: treenet_send_node_def treenet_broadcast_node_def send_datagram_keeps_slots)

lemma run_app_keeps_slots: "keeps_slots t (run_app a t)"
  by (rule run_app_preserves [where P = "keeps_slots t"])
    (auto intro: keeps_slots_tx keeps_slots_trans public_calls_keep_slots)

lemma run_app_keeps_slots': "keeps_slots t u \<Longrightarrow> keeps_slots t (run_app a u)"
  using run_app_keeps_slots keeps_slots_trans by blast

lemma deliver_keeps_slots: "keeps_slots t (tn_deliver t f rssi snr)"
proof -
  have "keeps_slots t (tn_reasm_input t f rssi snr now)" for now
    unfolding tn_reasm_input_def Let_def case_prod_unfold by (simp add: run_app_keeps_slots' split: option.split)
  then show ?thesis
    unfolding tn_deliver_def Let_def by (simp add: run_app_keeps_slots' split: option.split)
qed


section \<open>The receiver acknowledges\<close>

text \<open>
  From \<open>r\<close> to \<open>t\<close> the acknowledgement of sequence number \<open>seq\<close> for \<open>to\<close> was queued: slot \<open>k\<close>, free in \<open>r\<close>, is in use in \<open>t\<close> and
  waits to send it.
\<close>

definition acks :: "'w treenet \<Rightarrow> 'w treenet \<Rightarrow> treenet_addr_t \<Rightarrow> u16 \<Rightarrow> nat \<Rightarrow> bool" where
  "acks r t to seq k \<longleftrightarrow> k < length (nd_tx t) \<and> \<not> tx_valid (nd_tx r ! k) \<and>
     holds_frame (nd_tx t ! k) ((ack_frame t to seq)\<lparr>fr_prev := nd_addr t\<rparr>) False to"

lemma ack_frame_static: "nd_static u = nd_static t \<Longrightarrow> ack_frame u = ack_frame t"
  by (intro ext) (simp add: ack_frame_def nd_staticD [of u t])

lemma acks_keeps: "acks r t to seq k \<Longrightarrow> keeps_slots t u \<Longrightarrow> nd_static u = nd_static t \<Longrightarrow> acks r u to seq k"
  using ack_frame_static [of u t] nd_staticD(3) [of u t] by (simp add: acks_def keeps_slots_def holds_frame_def)

lemma acks_before: "acks u t to seq k \<Longrightarrow> keeps_slots r u \<Longrightarrow> length (nd_tx t) = length (nd_tx r) \<Longrightarrow> acks r t to seq k"
  by (auto simp: acks_def keeps_slots_def)

lemma send_ack_acks:
  assumes "node_inv Q t" and "to \<noteq> TREENET_ADDR_INVALID" and "to \<noteq> TREENET_ADDR_BROADCAST" and "0 < tn_tx_free_slots t"
  obtains k where "acks t (tn_send_ack t to seq) to seq k"
proof -
  let ?a = "ack_frame t to seq"
  obtain i where i: "free_slot t = Some i" using free_slot_some [OF assms(4)] by blast
  have a: "frame_ok (nd_net_id t) ?a" "fr_payload_len ?a \<le> 178"
    using control_frames_ok(3) [OF assms(1,2)] by (simp_all add: ack_frame_def frame_zero_def)
  obtain s where s: "tn_tx_submit t ?a False to 0 = (0, (snd (port_rnd t))\<lparr>nd_tx := (nd_tx t)[i := s]\<rparr>)"
      "holds_frame s (?a\<lparr>fr_prev := nd_addr t\<rparr>) False to"
    by (rule submit_ok [OF assms(1) a i, of False to 0])
  have st: "nd_static (tn_send_ack t to seq) = nd_static t" by simp
  have "nd_tx (tn_send_ack t to seq) = (nd_tx t)[i := s]" using assms(2,3) s(1) by (simp add: tn_send_ack_def)
  then have "acks t (tn_send_ack t to seq) to seq i"
    using s(2) find_index_SomeD(1,2) [OF i] by (simp add: acks_def ack_frame_static [OF st])
  then show thesis by (rule that)
qed

lemma handle_data_acks:
  assumes "node_inv Q t" and "frame_ok (nd_net_id t) f" and "fr_payload_len f \<le> 178" and "want_ack f"
    and "fr_prev f \<noteq> TREENET_ADDR_INVALID" and "fr_prev f \<noteq> TREENET_ADDR_BROADCAST" and "0 < tn_tx_free_slots t"
    and "fr_dst f = nd_addr t \<or> nd_role t \<noteq> TREENET_ROLE_LEAF \<and> (tn_dupcache_check (nd_dup t) (fr_src f) (fr_seq f) now \<or>
      fr_hop_limit f > 1 \<and> fst (tn_route_next_hop t (fr_dst f)) \<noteq> TREENET_ADDR_INVALID \<and> 2 \<le> tn_tx_free_slots t)"
  obtains k where "acks t (tn_handle_data t f rssi snr now) (fr_prev f) (fr_seq f) k"
proof (cases "fr_dst f = nd_addr t")
  case True
  let ?t = "t\<lparr>nd_dup := snd (tn_dupcache_seen (nd_dup t) (fr_src f) (fr_seq f) now)\<rparr>"
  have "node_inv Q ?t" "0 < tn_tx_free_slots ?t"
    using assms(1,7) node_invD(8) [OF assms(1)] by (simp_all add: tn_dupcache_seen_def tn_tx_free_slots_def)
  then obtain k where k: "acks ?t (tn_send_ack ?t (fr_prev f) (fr_seq f)) (fr_prev f) (fr_seq f) k"
    using send_ack_acks [OF _ assms(5,6), of Q ?t "fr_seq f"] by blast
  have "acks ?t (tn_deliver (tn_send_ack ?t (fr_prev f) (fr_seq f)) f rssi snr) (fr_prev f) (fr_seq f) k"
    using acks_keeps [OF k deliver_keeps_slots] by simp
  moreover have "acks ?t = acks t" by (simp add: acks_def fun_eq_iff)
  ultimately show thesis using k True assms(4) that [of k] by (simp add: tn_handle_data_def Let_def case_prod_unfold)
next
  case False
  show thesis
  proof (cases "tn_dupcache_check (nd_dup t) (fr_src f) (fr_seq f) now")
    case True
    obtain k where "acks t (tn_send_ack t (fr_prev f) (fr_seq f)) (fr_prev f) (fr_seq f) k" by (rule send_ack_acks [OF assms(1,5-7)])
    then show thesis using that [of k] False True assms(4,8) by (auto simp: tn_handle_data_def Let_def)
  next
    case new: False
    define u where "u = snd (tn_route_next_hop t (fr_dst f))"
    let ?out = "f\<lparr>fr_hop_limit := fr_hop_limit f - 1\<rparr>" and ?nh = "fst (tn_route_next_hop t (fr_dst f))"
    define v where "v = (snd (tn_tx_submit u ?out True ?nh 0))\<lparr>nd_dup := tn_dupcache_mark (nd_dup t) (fr_src f) (fr_seq f) now\<rparr>"
    have u: "node_inv Q u" "frame_ok (nd_net_id u) ?out" "fr_payload_len ?out \<le> 178" "tn_tx_free_slots u = tn_tx_free_slots t" "nd_dup u = nd_dup t"
      using assms(1-3) by (simp_all add: u_def tn_tx_free_slots_def)
    have "0 < tn_tx_free_slots u" using u(4) assms(7) by simp
    note sub = submit_queues [OF u(1-3) this, of True ?nh 0]
    have "tn_tx_free_slots v = tn_tx_free_slots (snd (tn_tx_submit u ?out True ?nh 0))" by (simp add: v_def tn_tx_free_slots_def)
    then have v: "node_inv Q v" "0 < tn_tx_free_slots v"
      using tn_tx_submit_inv [OF u(1,2)] node_invD(8) [OF assms(1)] sub(3) u(4) assms(8) False new
      by (simp_all add: v_def)
    obtain k where "acks v (tn_send_ack v (fr_prev f) (fr_seq f)) (fr_prev f) (fr_seq f) k" by (rule send_ack_acks [OF v(1) assms(5,6) v(2)])
    moreover have "keeps_slots t v"
      using keeps_slots_trans [OF keeps_slots_refl submit_keeps_slots, of u t] by (simp add: v_def u_def keeps_slots_def)
    moreover have "length (nd_tx (tn_send_ack v (fr_prev f) (fr_seq f))) = length (nd_tx t)"
      using ack_keeps_slots [of v] calculation(2) by (simp add: keeps_slots_def)
    ultimately have k: "acks t (tn_send_ack v (fr_prev f) (fr_seq f)) (fr_prev f) (fr_seq f) k" by (rule acks_before)
    have "tn_handle_data t f rssi snr now = tn_send_ack v (fr_prev f) (fr_seq f)"
      unfolding tn_handle_data_def Let_def case_prod_unfold u_def [symmetric] using assms(4,8) False new sub(1) u(5)
      by (simp add: v_def flip: not_le)
    then show thesis using k that by simp
  qed
qed


section \<open>The sender is done\<close>

text \<open>The slot of the frame an acknowledgement of \<open>seq\<close> is taken for.\<close>

abbreviation pending :: "u16 \<Rightarrow> tn_tx_slot_t \<Rightarrow> bool" where
  "pending seq s \<equiv> tx_valid s \<and> tx_reliable s \<and> tx_ack_seq s = seq"

lemma handle_ack_slot:
  assumes "tn_neighbor_find (nd_neighbors t) (fr_src f) \<noteq> None" and "find_index (pending (fr_seq f)) (nd_tx t) = Some i"
  shows "tn_handle_ack t f = tn_emit_event (tn_link_ack_result (t\<lparr>nd_tx := (nd_tx t)[i := (nd_tx t ! i)\<lparr>tx_valid := False\<rparr>]\<rparr>)
      (tx_ack_dst (nd_tx t ! i)) (fr_src f = tx_ack_dst (nd_tx t ! i))) TREENET_EV_TX_DONE Arg_NULL"
  unfolding tn_handle_ack_def assms(2) Let_def option.case using assms(1) by (simp only: if_False not_False_eq_True)

lemma note_frame_known: "neighbor_wf tbl \<Longrightarrow> neighbor_look (tn_neighbor_note_frame tbl a rssi snr now) a \<noteq> None"
  using neighbor_upsert_found(2) [of tbl a _ "frame_noted rssi snr now"] neighbor_upsert_new(2) [of tbl a "frame_noted rssi snr now" now] keeps_key_noted(1)
  by (cases "neighbor_look tbl a") (auto simp: note_frame_upsert)

text \<open>The acknowledgement of the next hop itself: the link is healthy again.\<close>

lemma link_ack_ok:
  assumes "neighbor_wf (nd_neighbors t)" and "neighbor_look (nd_neighbors t) a \<noteq> None"
  obtains n where "nd_tx (tn_link_ack_result t a True) = nd_tx t" and "neighbor_look (nd_neighbors (tn_link_ack_result t a True)) a = Some n"
    and "ne_ack_fail n = 0" and "ne_suspect_until_ms n = 0"
proof -
  let ?g = "\<lambda>n. n\<lparr>ne_ack_fail := 0, ne_suspect_until_ms := 0\<rparr>"
  obtain i where i: "tn_neighbor_find (nd_neighbors t) a = Some i" using assms(2) by (auto simp: tn_neighbor_find_look)
  have e: "i < length (nt_entries (nd_neighbors t))" "ne_valid (nt_entries (nd_neighbors t) ! i)" "ne_addr (nt_entries (nd_neighbors t) ! i) = a"
    using find_index_SomeD(1,2) [OF i [unfolded tn_neighbor_find_def]] by simp_all
  have "neighbor_look (nt_update (nd_neighbors t) i ?g) a = Some (?g (nt_entries (nd_neighbors t) ! i))"
    using nt_update_keep(2) [OF assms(1) e(1,2), of ?g] e(3) by (simp add: keeps_key_def)
  then show thesis using i by (intro that [of "?g (nt_entries (nd_neighbors t) ! i)"]) (simp_all add: tn_link_ack_result_def)
qed

lemma handle_ack_payload: "tn_handle_ack t (f\<lparr>fr_payload := p\<rparr>) = tn_handle_ack t f"
  by (simp add: tn_handle_ack_def Let_def cong: option.case_cong)

lemma takes_in_ack:
  assumes "listens net s" and "frame_ok net a" and "fr_payload_len a = 0" and "fr_type a = TREENET_FRAME_ACK" and "fr_dst a = nd_addr s"
    and "fr_src a \<noteq> nd_addr s" and "fr_prev a = fr_src a"
  obtains x where "takes_in s (frame_wire a) rssi snr = tn_handle_ack x a" and "nd_before x = nd_before s"
    and "node_inv (\<lambda>_. True) x" and "neighbor_look (nd_neighbors x) (fr_src a) \<noteq> None"
proof -
  have "fr_payload_len a \<le> 178" using assms(3) by simp
  then obtain x rest where x: "takes_in s (frame_wire a) rssi snr = tn_process_frame x (a\<lparr>fr_payload := Some (frame_data a @ rest)\<rparr>) rssi snr (nd_now_ms s)"
      "node_inv (\<lambda>_. True) x" "nd_before x = nd_before s" "fr_prev a \<noteq> nd_addr s \<and> fr_prev a \<noteq> TREENET_ADDR_INVALID \<longrightarrow>
        nd_neighbors x = tn_neighbor_note_frame (nd_neighbors s) (fr_prev a) rssi snr (nd_now_ms s)"
    by (rule takes_in_frame [OF assms(1,2) _ assms(6), of rssi snr])
  have wf: "neighbor_wf (nd_neighbors s)" using assms(1) neighbors_inv_wf [OF node_invD(6)] by (auto simp: listens_def)
  have "fr_src a \<noteq> TREENET_ADDR_INVALID" using assms(2) by (simp add: frame_ok_def frame_fields_ok_def)
  then have "nd_neighbors x = tn_neighbor_note_frame (nd_neighbors s) (fr_src a) rssi snr (nd_now_ms s)" using x(4) assms(6,7) by simp
  then have known: "neighbor_look (nd_neighbors x) (fr_src a) \<noteq> None" using note_frame_known [OF wf] by simp
  have "takes_in s (frame_wire a) rssi snr = tn_handle_ack x a"
    unfolding x(1) tn_process_frame_def using assms(4,5) nd_beforeD(2) [OF x(3)] by (simp add: config handle_ack_payload)
  then show thesis using that [OF _ x(3,2) known] by simp
qed


text \<open>The first pending slot with this number is slot \<open>i\<close>.\<close>

lemma first_pending:
  assumes "i < length ss" and "pending seq (ss ! i)" and "\<forall>j<i. \<not> pending seq (ss ! j)"
  shows "find_index (pending seq) ss = Some i"
  using assms by (simp add: find_index_Some_iff)

lemma ack_frame_fields:
  fixes seq :: u16
  assumes "node_inv Q r" and "to \<noteq> TREENET_ADDR_INVALID" and "nd_net_id r = net"
  defines "a \<equiv> (ack_frame r to seq)\<lparr>fr_prev := nd_addr r\<rparr>"
  shows "frame_ok net a" and "fr_payload_len a = 0" and "fr_type a = TREENET_FRAME_ACK" and "fr_dst a = to" and "fr_src a = nd_addr r"
    and "fr_prev a = nd_addr r" and "fr_seq a = seq"
  using control_frames_ok(3) [OF assms(1,2)] frame_ok_stamp assms(3) by (simp_all add: a_def) (simp_all add: ack_frame_def frame_zero_def)

text \<open>What the receiver of a data frame must be for the frame to be acknowledged: its destination or a router that passes it on.\<close>

definition hop_ready :: "u16 \<Rightarrow> tn_frame_t \<Rightarrow> 'w treenet \<Rightarrow> bool" where
  "hop_ready net f r \<longleftrightarrow>
     (if fr_dst f = nd_addr r then listens net r \<and> fr_src f \<noteq> nd_addr r \<and> 0 < tn_tx_free_slots r
      else router_ready net (fr_src f) (fr_dst f) (fr_seq f) r \<and> 1 < fr_hop_limit f \<and> 2 \<le> tn_tx_free_slots r)"

lemma hop_acks:
  assumes "hop_ready net f r" and "frame_ok net f" and "fr_payload_len f \<le> 178" and "fr_type f = TREENET_FRAME_DATA" and "want_ack f"
    and "fr_prev f \<noteq> TREENET_ADDR_INVALID" and "fr_prev f \<noteq> TREENET_ADDR_BROADCAST"
  obtains k where "acks r (takes_in r (frame_wire f) rssi snr) (fr_prev f) (fr_seq f) k"
    and "node_inv (\<lambda>_. True) (takes_in r (frame_wire f) rssi snr)"
    and "nd_addr (takes_in r (frame_wire f) rssi snr) = nd_addr r" and "nd_net_id (takes_in r (frame_wire f) rssi snr) = net"
proof -
  have r: "listens net r" "fr_src f \<noteq> nd_addr r" "0 < tn_tx_free_slots r"
    using assms(1) by (auto simp: hop_ready_def router_ready_def split: if_splits)
  obtain x rest where x: "takes_in r (frame_wire f) rssi snr =
        tn_process_frame x (f\<lparr>fr_payload := Some (frame_data f @ rest)\<rparr>) rssi snr (nd_now_ms r)"
      "node_inv (\<lambda>_. True) x" "nd_before x = nd_before r"
    by (rule takes_in_frame [OF r(1) assms(2,3) r(2)])
  let ?g = "f\<lparr>fr_payload := Some (frame_data f @ rest)\<rparr>"
  note b = nd_beforeD [OF x(3)]
  have net: "nd_net_id x = net" using b(4) r(1) by (simp add: listens_def)
  have g: "frame_ok (nd_net_id x) ?g"
    using assms(2) net length_frame_data [of f] by (simp add: frame_ok_def frame_fields_ok_def payload_ok_def)
  have free: "tn_tx_free_slots x = tn_tx_free_slots r" by (simp add: tn_tx_free_slots_def b(10))
  have handle: "takes_in r (frame_wire f) rssi snr = tn_handle_data x ?g rssi snr (nd_now_ms r)"
    unfolding x(1) tn_process_frame_def using assms(4) by (simp add: config)
  have nh: "fst (tn_route_next_hop x (fr_dst f)) \<noteq> TREENET_ADDR_INVALID" if "fr_dst f \<noteq> nd_addr r"
    by (rule next_hop_known [OF x(2)])
      (use that assms(1,2) in \<open>simp_all add: hop_ready_def b(2,5-7) router_ready_def frame_ok_def frame_fields_ok_def cong: option.case_cong\<close>)
  have "fr_dst ?g = nd_addr x \<or> nd_role x \<noteq> TREENET_ROLE_LEAF \<and> (tn_dupcache_check (nd_dup x) (fr_src ?g) (fr_seq ?g) (nd_now_ms r) \<or>
      fr_hop_limit ?g > 1 \<and> fst (tn_route_next_hop x (fr_dst ?g)) \<noteq> TREENET_ADDR_INVALID \<and> 2 \<le> tn_tx_free_slots x)"
    using assms(1) nh unfolding b(2,3) free by (auto simp: hop_ready_def router_ready_def split: if_splits)
  then obtain k where k: "acks x (tn_handle_data x ?g rssi snr (nd_now_ms r)) (fr_prev ?g) (fr_seq ?g) k"
    by (rule handle_data_acks [OF x(2) g, rotated 5]) (use assms(3,5-7) r(3) free in simp_all)
  have "node_inv (\<lambda>_. True) (tn_handle_data x ?g rssi snr (nd_now_ms r))" by (rule tn_handle_data_inv [OF x(2) g])
  moreover have "acks r (tn_handle_data x ?g rssi snr (nd_now_ms r)) (fr_prev f) (fr_seq f) k" using k b(10) by (simp add: acks_def)
  ultimately show thesis using that [of k] b(2) net unfolding handle by simp
qed


text \<open>
  The way of an acknowledgement back: \<open>s\<close> sends the frame \<open>f\<close>, \<open>r\<close> answers, and \<open>s\<close> settles the first slot that waits for the
  sequence number of \<open>f\<close>.
\<close>

lemma ack_returns:
  assumes "listens net s" and "find_index (pending (fr_seq f)) (nd_tx s) = Some i"
    and "frame_ok net f" and "fr_payload_len f \<le> 178" and "fr_type f = TREENET_FRAME_DATA" and "want_ack f" and "fr_prev f = nd_addr s"
    and "hop_ready net f r" and "nd_addr r \<noteq> nd_addr s"
  obtains k x where "takes_in s (slot_bytes (nd_tx (takes_in r (frame_wire f) rssi snr) ! k)) rssi' snr' =
      tn_emit_event (tn_link_ack_result (x\<lparr>nd_tx := (nd_tx s)[i := (nd_tx s ! i)\<lparr>tx_valid := False\<rparr>]\<rparr>)
        (tx_ack_dst (nd_tx s ! i)) (nd_addr r = tx_ack_dst (nd_tx s ! i))) TREENET_EV_TX_DONE Arg_NULL"
    and "acks r (takes_in r (frame_wire f) rssi snr) (nd_addr s) (fr_seq f) k"
    and "nd_before x = nd_before s" and "node_inv (\<lambda>_. True) x" and "neighbor_look (nd_neighbors x) (nd_addr r) \<noteq> None"
proof -
  let ?r = "takes_in r (frame_wire f) rssi snr"
  have s: "nd_addr s \<noteq> TREENET_ADDR_INVALID" "nd_addr s \<noteq> TREENET_ADDR_BROADCAST" using assms(1) node_invD(1,2) by (auto simp: listens_def)
  obtain k where k: "acks r ?r (fr_prev f) (fr_seq f) k" "node_inv (\<lambda>_. True) ?r" "nd_addr ?r = nd_addr r" "nd_net_id ?r = net"
    by (rule hop_acks [OF assms(8,3-6), of rssi snr]) (simp_all only: assms(7) s not_False_eq_True)
  let ?a = "(ack_frame ?r (nd_addr s) (fr_seq f))\<lparr>fr_prev := nd_addr ?r\<rparr>"
  note a = ack_frame_fields [OF k(2) s(1) k(4), of "fr_seq f"]
  have bytes: "slot_bytes (nd_tx ?r ! k) = frame_wire ?a" using k(1) holds_frame_bytes unfolding acks_def assms(7) by blast
  have src: "fr_src ?a = nd_addr r" "fr_prev ?a = fr_src ?a" by (simp_all only: a(5,6)) (rule k(3))
  have other: "fr_src ?a \<noteq> nd_addr s" unfolding src(1) by (rule assms(9))
  obtain x where x: "takes_in s (frame_wire ?a) rssi' snr' = tn_handle_ack x ?a" "nd_before x = nd_before s" "node_inv (\<lambda>_. True) x"
      "neighbor_look (nd_neighbors x) (fr_src ?a) \<noteq> None"
    by (rule takes_in_ack [OF assms(1) a(1-4) other src(2)])
  note b = nd_beforeD [OF x(2)]
  have find: "find_index (pending (fr_seq ?a)) (nd_tx x) = Some i" unfolding b(10) a(7) by (rule assms(2))
  have known: "tn_neighbor_find (nd_neighbors x) (fr_src ?a) \<noteq> None" using x(4) unfolding find_look_None .
  show thesis
    by (rule that [OF _ k(1) [unfolded assms(7)] x(2,3) x(4) [unfolded src(1)]]) (simp only: bytes x(1) handle_ack_slot [OF known find] b(10) src(1))
qed

text \<open>
  Property C7: a reliable hop. Node \<open>s\<close> has a data frame in transmit slot \<open>i\<close>, at any number of attempts, that waits for the acknowledgement of node \<open>r\<close>,
  and no earlier slot waits for the same sequence number. If \<open>r\<close> is the destination or a router that can pass the frame on, then \<open>r\<close>, once it
  has taken in what \<open>s\<close> sends, has queued an acknowledgement to \<open>s\<close>: a transmit slot \<open>k\<close> that was free is in use and holds the
  acknowledgement frame with the sequence number. And \<open>s\<close>, once it has taken in the acknowledgement, has released
  exactly this slot and considers the link to \<open>r\<close> healthy, whatever the applications do in their callbacks.
\<close>

theorem hop_acknowledged:
  assumes "listens net s" and "i < length (nd_tx s)" and "pending (fr_seq f) (nd_tx s ! i)" and "tx_ack_dst (nd_tx s ! i) = nd_addr r"
    and "slot_bytes (nd_tx s ! i) = frame_wire f" and "\<forall>j<i. \<not> pending (fr_seq f) (nd_tx s ! j)"
    and "frame_ok net f" and "fr_payload_len f \<le> 178" and "fr_type f = TREENET_FRAME_DATA" and "want_ack f" and "fr_prev f = nd_addr s"
    and "hop_ready net f r" and "nd_addr r \<noteq> nd_addr s"
  shows "\<exists>k n r' s'. r' = takes_in r (slot_bytes (nd_tx s ! i)) rssi snr \<and> acks r r' (nd_addr s) (fr_seq f) k \<and>
    s' = takes_in s (slot_bytes (nd_tx r' ! k)) rssi' snr' \<and>
    nd_tx s' = (nd_tx s)[i := (nd_tx s ! i)\<lparr>tx_valid := False\<rparr>] \<and>
    neighbor_look (nd_neighbors s') (nd_addr r) = Some n \<and> ne_ack_fail n = 0 \<and> ne_suspect_until_ms n = 0"
proof -
  have "find_index (pending (fr_seq f)) (nd_tx s) = Some i" by (rule first_pending [OF assms(2,3,6)])
  from ack_returns [OF assms(1) this assms(7-13), of rssi snr rssi' snr'] obtain k x where
    x: "takes_in s (slot_bytes (nd_tx (takes_in r (frame_wire f) rssi snr) ! k)) rssi' snr' =
        tn_emit_event (tn_link_ack_result (x\<lparr>nd_tx := (nd_tx s)[i := (nd_tx s ! i)\<lparr>tx_valid := False\<rparr>]\<rparr>)
          (tx_ack_dst (nd_tx s ! i)) (nd_addr r = tx_ack_dst (nd_tx s ! i))) TREENET_EV_TX_DONE Arg_NULL"
      "acks r (takes_in r (frame_wire f) rssi snr) (nd_addr s) (fr_seq f) k" "node_inv (\<lambda>_. True) x" "neighbor_look (nd_neighbors x) (nd_addr r) \<noteq> None" .
  define y where "y = x\<lparr>nd_tx := (nd_tx s)[i := (nd_tx s ! i)\<lparr>tx_valid := False\<rparr>]\<rparr>"
  have "neighbor_wf (nd_neighbors y)" "neighbor_look (nd_neighbors y) (nd_addr r) \<noteq> None"
    using x(4) neighbors_inv_wf [OF node_invD(6) [OF x(3)]] by (simp_all add: y_def)
  then obtain n where n: "nd_tx (tn_link_ack_result y (nd_addr r) True) = nd_tx y" "neighbor_look (nd_neighbors (tn_link_ack_result y (nd_addr r) True)) (nd_addr r) = Some n"
      "ne_ack_fail n = 0" "ne_suspect_until_ms n = 0" by (rule link_ack_ok)
  have "takes_in s (slot_bytes (nd_tx (takes_in r (slot_bytes (nd_tx s ! i)) rssi snr) ! k)) rssi' snr' =
      tn_emit_event (tn_link_ack_result y (nd_addr r) True) TREENET_EV_TX_DONE Arg_NULL"
    unfolding assms(5) x(1) y_def assms(4) by simp
  moreover have "acks r (takes_in r (slot_bytes (nd_tx s ! i)) rssi snr) (nd_addr s) (fr_seq f) k" unfolding assms(5) by (rule x(2))
  ultimately show ?thesis using n
    by (intro exI [of _ k] exI [of _ n] exI [of _ "takes_in r (slot_bytes (nd_tx s ! i)) rssi snr"])
      (simp add: tn_emit_event_def y_def)
qed

text \<open>A failed acknowledgement of a node other than the parent leaves the transmit queue alone.\<close>

lemma link_ack_fail_tx:
  assumes "dst \<noteq> nd_parent t"
  shows "nd_tx (tn_link_ack_result t dst False) = nd_tx t"
proof (cases "tn_neighbor_find (nd_neighbors t) dst")
  case (Some i)
  have e: "i < length (nt_entries (nd_neighbors t))" "ne_addr (nt_entries (nd_neighbors t) ! i) = dst"
    using find_index_SomeD(1,2) [OF Some [unfolded tn_neighbor_find_def]] by simp_all
  then show ?thesis using assms unfolding tn_link_ack_result_def Some by (simp add: Let_def nt_update_def)
qed (simp add: tn_link_ack_result_def)

text \<open>
  Property C33: an acknowledgement can settle the wrong frame. Sequence numbers are counted per source, and a router keeps those of the frames it passes
  on, so two slots of its queue can wait for the same number. The acknowledgement for the frame in the later slot \<open>j\<close>
  (queued by its receiver in slot \<open>k\<close>) then releases the earlier slot \<open>i\<close>: the frame in \<open>i\<close>, which nobody acknowledged, is not sent again, and the frame in \<open>j\<close>, which arrived, is.
\<close>

theorem ack_settles_wrong_frame:
  assumes "listens net s" and "i < j" and "j < length (nd_tx s)" and "pending (fr_seq f) (nd_tx s ! i)" and "\<forall>k<i. \<not> pending (fr_seq f) (nd_tx s ! k)"
    and "pending (fr_seq f) (nd_tx s ! j)" and "slot_bytes (nd_tx s ! j) = frame_wire f"
    and "tx_ack_dst (nd_tx s ! i) \<noteq> nd_addr r" and "tx_ack_dst (nd_tx s ! i) \<noteq> nd_parent s"
    and "frame_ok net f" and "fr_payload_len f \<le> 178" and "fr_type f = TREENET_FRAME_DATA" and "want_ack f" and "fr_prev f = nd_addr s"
    and "hop_ready net f r" and "nd_addr r \<noteq> nd_addr s"
  shows "\<exists>k r' s'. r' = takes_in r (slot_bytes (nd_tx s ! j)) rssi snr \<and> acks r r' (nd_addr s) (fr_seq f) k \<and>
    s' = takes_in s (slot_bytes (nd_tx r' ! k)) rssi' snr' \<and>
    \<not> tx_valid (nd_tx s' ! i) \<and> nd_tx s' ! j = nd_tx s ! j"
proof -
  have i: "i < length (nd_tx s)" using assms(2,3) by simp
  have "find_index (pending (fr_seq f)) (nd_tx s) = Some i" by (rule first_pending [OF i assms(4,5)])
  from ack_returns [OF assms(1) this assms(10-16), of rssi snr rssi' snr'] obtain k x where
    x: "takes_in s (slot_bytes (nd_tx (takes_in r (frame_wire f) rssi snr) ! k)) rssi' snr' =
        tn_emit_event (tn_link_ack_result (x\<lparr>nd_tx := (nd_tx s)[i := (nd_tx s ! i)\<lparr>tx_valid := False\<rparr>]\<rparr>)
          (tx_ack_dst (nd_tx s ! i)) (nd_addr r = tx_ack_dst (nd_tx s ! i))) TREENET_EV_TX_DONE Arg_NULL"
      "acks r (takes_in r (frame_wire f) rssi snr) (nd_addr s) (fr_seq f) k" "nd_before x = nd_before s" .
  define y where "y = x\<lparr>nd_tx := (nd_tx s)[i := (nd_tx s ! i)\<lparr>tx_valid := False\<rparr>]\<rparr>"
  have settled: "takes_in s (slot_bytes (nd_tx (takes_in r (slot_bytes (nd_tx s ! j)) rssi snr) ! k)) rssi' snr' =
      tn_emit_event (tn_link_ack_result y (tx_ack_dst (nd_tx s ! i)) False) TREENET_EV_TX_DONE Arg_NULL"
    unfolding assms(7) x(1) y_def using assms(8) by simp
  have queue: "nd_tx (tn_link_ack_result y (tx_ack_dst (nd_tx s ! i)) False) = nd_tx y"
    by (rule link_ack_fail_tx) (use assms(9) nd_beforeD(6) [OF x(3)] in \<open>simp add: y_def\<close>)
  show ?thesis
    by (rule exI [of _ k], rule exI, rule exI, rule conjI [OF refl], rule conjI [OF x(2) [folded assms(7)]], rule conjI [OF refl])
      (use assms(2) i in \<open>simp add: settled tn_emit_event_def queue\<close>, simp add: y_def)
qed

text \<open>Node 2 passes on two frames for node 5, from the nodes 9 and 8, by way of the nodes 3 and 4.\<close>

definition one_queued :: "unit treenet" where
  "one_queued = snd (tn_tx_submit (node_joined 2 1) (frame_via 5) True 3 0)"

definition two_queued :: "unit treenet" where
  "two_queued = snd (tn_tx_submit one_queued ((frame_via 5)\<lparr>fr_src := 8\<rparr>) True 4 0)"

lemma frame_via_fields [simp]:
  "fr_src (frame_via dst) = 9" "fr_dst (frame_via dst) = dst" "fr_seq (frame_via dst) = 7" "fr_payload_len (frame_via dst) = 2"
  "fr_type (frame_via dst) = TREENET_FRAME_DATA" "fr_hop_limit (frame_via dst) = 5" "want_ack (frame_via dst)"
  by (simp_all add: frame_via_def config)

lemma queued_examples:
  shows "listens 1 one_queued" and "nd_addr one_queued = 2" and "length (nd_tx one_queued) = 8"
    and "holds_frame (nd_tx one_queued ! 0) ((frame_via 5)\<lparr>fr_prev := 2\<rparr>) True 3"
    and "listens 1 two_queued" and "nd_addr two_queued = 2" and "nd_parent two_queued = 1" and "length (nd_tx two_queued) = 8"
    and "nd_tx two_queued ! 0 = nd_tx one_queued ! 0"
    and "holds_frame (nd_tx two_queued ! 1) ((frame_via 5)\<lparr>fr_src := 8, fr_prev := 2\<rparr>) True 4"
proof -
  let ?t = "node_joined 2 1" and ?f = "frame_via 5" and ?g = "(frame_via 5)\<lparr>fr_src := 8\<rparr>"
  have t: "listens 1 ?t" "node_inv (\<lambda>_. True) ?t" using node_joined_listens [of 2 1] by (simp_all add: listens_def)
  have tx: "nd_tx ?t = replicate TREENET_TX_QUEUE_SIZE tx_slot_zero" by (simp add: node_joined_def)
  have f: "frame_ok (nd_net_id ?t) ?f" "frame_ok 1 ?g"
    using frame_via_ok [of 5] by (simp_all add: frame_ok_def frame_fields_ok_def payload_ok_def frame_via_def config)
  obtain a where a: "tn_tx_submit ?t ?f True 3 0 = (0, (snd (port_rnd ?t))\<lparr>nd_tx := (nd_tx ?t)[0 := a]\<rparr>)" "holds_frame a (?f\<lparr>fr_prev := nd_addr ?t\<rparr>) True 3"
    by (rule submit_ok [OF t(2) f(1), of 0 True 3 0]) (simp_all add: tx)
  have one: "nd_static one_queued = nd_static ?t" "nd_tree one_queued = nd_tree ?t" "nd_tx one_queued = (nd_tx ?t)[0 := a]" "node_inv (\<lambda>_. True) one_queued"
    using tn_tx_submit_inv [OF t(2) f(1), of True 3 0] a(1) by (simp_all add: one_queued_def)
  show "listens 1 one_queued" by (rule listens_static [OF t(1) one(1,4)])
  show n2: "nd_addr one_queued = 2" using nd_staticD(3) [OF one(1)] by simp
  show "length (nd_tx one_queued) = 8" "holds_frame (nd_tx one_queued ! 0) (?f\<lparr>fr_prev := 2\<rparr>) True 3"
    using a(2) one(3) tx by (simp_all add: config)
  have va: "tx_valid a" using a(2) by (simp add: holds_frame_def)
  have free: "free_slot one_queued = Some 1"
    unfolding one(3) tx find_index_Some_iff using va by (simp add: tx_slot_zero_def config less_Suc_eq)
  have net: "nd_net_id one_queued = 1" using nd_staticD(5) [OF one(1)] by simp
  obtain b where b: "tn_tx_submit one_queued ?g True 4 0 = (0, (snd (port_rnd one_queued))\<lparr>nd_tx := (nd_tx one_queued)[1 := b]\<rparr>)"
      "holds_frame b (?g\<lparr>fr_prev := nd_addr one_queued\<rparr>) True 4"
    by (rule submit_ok [OF one(4), of ?g 1 True 4 0]) (simp_all add: net f(2) free)
  have two: "nd_static two_queued = nd_static ?t" "nd_tree two_queued = nd_tree ?t" "nd_tx two_queued = (nd_tx one_queued)[1 := b]" "node_inv (\<lambda>_. True) two_queued"
    using tn_tx_submit_inv [OF one(4), of ?g True 4 0] f(2) net one(1,2) b(1) by (simp_all add: two_queued_def)
  show "listens 1 two_queued" by (rule listens_static [OF t(1) two(1,4)])
  show "nd_addr two_queued = 2" "nd_parent two_queued = 1" using nd_staticD(3) [OF two(1)] nd_treeD(2) [OF two(2)] by simp_all
  show "length (nd_tx two_queued) = 8" "nd_tx two_queued ! 0 = nd_tx one_queued ! 0"
    "holds_frame (nd_tx two_queued ! 1) ((frame_via 5)\<lparr>fr_src := 8, fr_prev := 2\<rparr>) True 4"
    using b(2) n2 two(3) one(3) tx by (simp_all add: config)
qed


lemma holds_frame_pending: "holds_frame s f True nh \<Longrightarrow> pending (fr_seq f) s \<and> tx_ack_dst s = nh \<and> slot_bytes s = frame_wire f"
  by (simp add: holds_frame_def slot_bytes_def)

lemma frame_via_stamped: "frame_ok 1 ((frame_via 5)\<lparr>fr_prev := 2\<rparr>)" "frame_ok 1 ((frame_via 5)\<lparr>fr_src := 8, fr_prev := 2\<rparr>)"
  by (simp_all add: frame_ok_def frame_fields_ok_def payload_ok_def frame_via_def config)

theorem hop_acknowledged_witness:
  "\<exists>k r' s'. r' = takes_in (node_joined 3 4) (slot_bytes (nd_tx one_queued ! 0)) (- 80) 5 \<and> acks (node_joined 3 4) r' 2 7 k \<and>
     s' = takes_in one_queued (slot_bytes (nd_tx r' ! k)) (- 85) 4 \<and>
     tx_valid (nd_tx one_queued ! 0) \<and> \<not> tx_valid (nd_tx s' ! 0)"
proof -
  let ?f = "(frame_via 5)\<lparr>fr_prev := 2\<rparr>" and ?r = "node_joined 3 4"
  note q = queued_examples(1-4)
  note p = holds_frame_pending [OF q(4)]
  have hop: "hop_ready 1 ?f ?r" using node_joined_ready [of 3 4 9 5 7] by (simp add: hop_ready_def)
  have "\<exists>k n r' s'. r' = takes_in ?r (slot_bytes (nd_tx one_queued ! 0)) (- 80) 5 \<and> acks ?r r' (nd_addr one_queued) (fr_seq ?f) k \<and>
    s' = takes_in one_queued (slot_bytes (nd_tx r' ! k)) (- 85) 4 \<and>
    nd_tx s' = (nd_tx one_queued)[0 := (nd_tx one_queued ! 0)\<lparr>tx_valid := False\<rparr>] \<and>
    neighbor_look (nd_neighbors s') (nd_addr ?r) = Some n \<and> ne_ack_fail n = 0 \<and> ne_suspect_until_ms n = 0"
    by (rule hop_acknowledged [OF q(1) _ _ _ _ _ frame_via_stamped(1) _ _ _ _ hop]) (use p q in simp_all)
  then obtain k r' s' where r': "r' = takes_in ?r (slot_bytes (nd_tx one_queued ! 0)) (- 80) 5" "acks ?r r' 2 7 k"
    and s': "s' = takes_in one_queued (slot_bytes (nd_tx r' ! k)) (- 85) 4"
      "nd_tx s' = (nd_tx one_queued)[0 := (nd_tx one_queued ! 0)\<lparr>tx_valid := False\<rparr>]" using q(2) by auto
  have "tx_valid (nd_tx one_queued ! 0)" "\<not> tx_valid (nd_tx s' ! 0)" using p q(3) s'(2) by simp_all
  then show ?thesis using r' s'(1) by blast
qed

theorem ack_settles_wrong_frame_witness:
  "\<exists>k r' s'. r' = takes_in (node_joined 4 1) (slot_bytes (nd_tx two_queued ! 1)) (- 80) 5 \<and> acks (node_joined 4 1) r' 2 7 k \<and>
     s' = takes_in two_queued (slot_bytes (nd_tx r' ! k)) (- 85) 4 \<and>
     \<not> tx_valid (nd_tx s' ! 0) \<and> nd_tx s' ! 1 = nd_tx two_queued ! 1"
proof -
  let ?f = "(frame_via 5)\<lparr>fr_src := 8, fr_prev := 2\<rparr>" and ?r = "node_joined 4 1"
  note q = queued_examples
  note p = holds_frame_pending [OF q(10)] and p0 = holds_frame_pending [OF q(4)]
  have hop: "hop_ready 1 ?f ?r" using node_joined_ready [of 4 1 8 5 7] by (simp add: hop_ready_def)
  have "\<exists>k r' s'. r' = takes_in ?r (slot_bytes (nd_tx two_queued ! 1)) (- 80) 5 \<and> acks ?r r' (nd_addr two_queued) (fr_seq ?f) k \<and>
     s' = takes_in two_queued (slot_bytes (nd_tx r' ! k)) (- 85) 4 \<and> \<not> tx_valid (nd_tx s' ! 0) \<and> nd_tx s' ! 1 = nd_tx two_queued ! 1"
    by (rule ack_settles_wrong_frame [OF q(5) _ _ _ _ _ _ _ _ frame_via_stamped(2) _ _ _ _ hop]) (use p p0 q in simp_all)
  then show ?thesis using q(6) by simp
qed

end
