(* ===== verification/Tn_Safety.thy ===== *)
theory Tn_Safety
  imports Tn_NodeInv
begin

text \<open>
  What the invariant of \<open>Tn_NodeInv\<close> means for every state a node can reach: the invariant itself, what
  a node transmits, its position in the tree, and the beacons it sends.
\<close>

section \<open>The invariant holds in every reachable state\<close>

text \<open>
  Property C2: in every state reachable from a successful \<open>treenet_init\<close> by polling, receiving arbitrary
  buffers, sending and broadcasting, in any order and with any behaviour of the environment, the node
  invariant holds: neighbour, route and reassembly tables, duplicate cache, receive ring and event
  queue are well formed, the transmit slots hold complete frames of this node, the Trickle interval is in
  its bounds and the tree position is consistent. A predicate \<open>Q\<close> on the environment that port
  and application keep is kept as well.
\<close>

theorem node_invariant:
  assumes "node_reachable cfg port w E t" and "port_ok Q (cf_addr cfg) (cf_net_id cfg) port" and "cfg_ok Q cfg"
    and "Q w" and "\<And>w w'. E w w' \<Longrightarrow> Q w \<Longrightarrow> Q w'"
  shows "node_inv Q t"
  by (rule node_reachable_inv [OF assms])

text \<open>A node that was initialised and polled once.\<close>

definition node_fresh :: "treenet_role_t \<Rightarrow> treenet_addr_t \<Rightarrow> unit treenet" where
  "node_fresh role addr = init_node (cfg_plain role addr) (port_still 5000) ()"

lemma node_fresh_reachable:
  assumes "addr \<noteq> 0" and "addr \<noteq> 0xFFFFFFFF" and "role = TREENET_ROLE_NODE \<or> role = TREENET_ROLE_MASTER"
  shows "node_reachable (cfg_plain role addr) (port_still 5000) () E (treenet_poll_node (node_fresh role addr))"
proof -
  have "treenet_init 0 (Some 0) 0 (Some (cfg_plain role addr)) (Some (port_still 5000)) () = Some (node_fresh role addr)"
    using assms by (auto simp: treenet_init_def init_args_ok_def cfg_plain_def port_still_def config node_fresh_def)
  then show ?thesis unfolding node_reachable_def using step_poll [of E "node_fresh role addr"] by blast
qed

lemma cfg_plain_ok [simp]: "cfg_ok Q (cfg_plain role addr)"
  by (simp add: cfg_ok_def cfg_plain_def)

lemma cfg_plain_sel [simp]: "cf_addr (cfg_plain role addr) = addr" "cf_role (cfg_plain role addr) = role" "cf_net_id (cfg_plain role addr) = 1"
  by (simp_all add: cfg_plain_def)

lemma port_ok_True [simp]: "port_ok (\<lambda>_. True) addr net port"
  by (simp add: port_ok_def)

theorem node_invariant_witness: "node_inv (\<lambda>_. True) (treenet_poll_node (node_fresh TREENET_ROLE_NODE 2))"
  using node_invariant [OF node_fresh_reachable [of 2 TREENET_ROLE_NODE "\<lambda>_ _. True"], of "\<lambda>_. True"] by simp

section \<open>Transmissions\<close>

text \<open>
  A port that records what it is given to transmit, most recent first, in the part \<open>sent\<close> of the environment,
  and callbacks that leave this record alone.
\<close>

definition port_logs :: "('w \<Rightarrow> u8 list list) \<Rightarrow> 'w treenet_port_t \<Rightarrow> bool" where
  "port_logs sent port \<longleftrightarrow>
     (\<forall>f bs w. po_tx port = Some f \<longrightarrow> sent (snd (f bs w)) = bs # sent w) \<and>
     (\<forall>f w. po_now_ms port = Some f \<longrightarrow> sent (snd (f w)) = sent w) \<and>
     (\<forall>f w. po_rnd port = Some f \<longrightarrow> sent (snd (f w)) = sent w) \<and>
     (\<forall>f w. po_channel_free port = Some f \<longrightarrow> sent (snd (f w)) = sent w) \<and>
     (\<forall>f level msg w. po_log port = Some f \<longrightarrow> sent (f level msg w) = sent w) \<and>
     (\<forall>f d w. po_timer_arm port = Some f \<longrightarrow> sent (f d w) = sent w)"

primrec app_quiet :: "('w \<Rightarrow> u8 list list) \<Rightarrow> 'w app \<Rightarrow> bool" where
  "app_quiet sent App_done \<longleftrightarrow> True"
| "app_quiet sent (App_world f k) \<longleftrightarrow> (\<forall>w. sent (f w) = sent w) \<and> (\<forall>w. app_quiet sent (k w))"
| "app_quiet sent (App_send dst data len k) \<longleftrightarrow> (\<forall>p. data = Some p \<longrightarrow> len \<le> length p) \<and> (\<forall>rc. app_quiet sent (k rc))"
| "app_quiet sent (App_broadcast data len k) \<longleftrightarrow> (\<forall>p. data = Some p \<longrightarrow> len \<le> length p) \<and> (\<forall>rc. app_quiet sent (k rc))"
| "app_quiet sent (App_view k) \<longleftrightarrow> (\<forall>v. app_quiet sent (k v))"

definition cfg_quiet :: "('w \<Rightarrow> u8 list list) \<Rightarrow> 'w treenet_config_t \<Rightarrow> bool" where
  "cfg_quiet sent cfg \<longleftrightarrow>
     (\<forall>g src data rssi snr hops. cf_on_recv cfg = Some g \<longrightarrow> app_quiet sent (g src data rssi snr hops)) \<and>
     (\<forall>g ev arg. cf_on_event cfg = Some g \<longrightarrow> app_quiet sent (g ev arg))"

lemma app_quiet_ok: "app_quiet sent a \<Longrightarrow> app_ok (\<lambda>w. P (sent w)) a"
  by (induction a) simp_all

lemma cfg_quiet_ok: "cfg_quiet sent cfg \<Longrightarrow> cfg_ok (\<lambda>w. P (sent w)) cfg"
  by (simp add: cfg_quiet_def cfg_ok_def app_quiet_ok)

lemma port_logs_ok:
  "port_logs sent port \<Longrightarrow> port_ok (\<lambda>w. list_all (wire_ok addr net) (sent w)) addr net port"
  by (simp add: port_logs_def port_ok_def)

text \<open>
  Property C1: whatever a node receives and whatever its application does, every buffer it hands to the radio is a
  complete frame of at most \<open>TREENET_MTU\<close> bytes that passes the decoder of its neighbours, names
  this node as the previous hop and carries the network id of this node.
\<close>

theorem transmits_only_own_frames:
  assumes "node_reachable cfg port w (\<lambda>w w'. sent w' = sent w) t" and "port_logs sent port" and "cfg_quiet sent cfg"
    and "sent w = []" and "bs \<in> set (sent (nd_env t))"
  shows "length bs \<le> TREENET_MTU \<and> (\<exists>f. tn_frame_decode (Some bs) (length bs) = Some f \<and>
      fr_prev f = cf_addr cfg \<and> fr_net_id f = cf_net_id cfg)"
proof -
  have "list_all (wire_ok (cf_addr cfg) (cf_net_id cfg)) (sent (nd_env t))"
    using node_invD(5) [OF node_reachable_inv [OF assms(1) port_logs_ok [OF assms(2)] cfg_quiet_ok [OF assms(3)]]] assms(4)
    by simp
  then have "wire_ok (cf_addr cfg) (cf_net_id cfg) bs" using assms(5) by (simp add: list_all_iff)
  then show ?thesis by (auto simp: wire_ok_def split: option.splits)
qed

text \<open>A port whose environment is the list of transmitted buffers.\<close>

definition port_log :: "u8 list list treenet_port_t" where
  "port_log = \<lparr>po_tx = Some (\<lambda>buf w. (0, buf # w)), po_now_ms = Some (\<lambda>w. (5000, w)), po_rnd = Some (\<lambda>w. (0, w)),
     po_channel_free = None, po_log = None, po_timer_arm = None\<rparr>"

theorem transmits_only_own_frames_witness:
  "list_all (\<lambda>bs. length bs \<le> TREENET_MTU \<and>
       (\<exists>f. tn_frame_decode (Some bs) (length bs) = Some f \<and> fr_prev f = 2 \<and> fr_net_id f = 1))
     (nd_env (treenet_poll_node (init_node (cfg_plain TREENET_ROLE_NODE 2) port_log [])))"
proof -
  let ?t = "init_node (cfg_plain TREENET_ROLE_NODE 2) port_log []"
  have "treenet_init 0 (Some 0) 0 (Some (cfg_plain TREENET_ROLE_NODE 2)) (Some port_log) [] = Some ?t"
    by (simp add: treenet_init_def init_args_ok_def cfg_plain_def port_log_def config)
  then have "node_reachable (cfg_plain TREENET_ROLE_NODE 2) port_log [] (\<lambda>w w'. id w' = id w) (treenet_poll_node ?t)"
    unfolding node_reachable_def using step_poll [of _ ?t] by blast
  then show ?thesis
    using transmits_only_own_frames [of "cfg_plain TREENET_ROLE_NODE 2" port_log "[]" id "treenet_poll_node ?t"]
    by (simp add: port_logs_def port_log_def cfg_quiet_def cfg_plain_def list_all_iff)
qed

section \<open>Tree position and beacons\<close>

text \<open>
  Property C23: in every reachable state the Master has rank 0 and no parent and is connected; any other node is connected
  exactly when it has a parent, exactly when its rank is finite, and is never its own parent.
\<close>

theorem tree_position_consistent:
  assumes "node_reachable cfg port w E t" and "cfg_ok (\<lambda>_. True) cfg"
  shows "if cf_role cfg = TREENET_ROLE_MASTER
    then nd_rank t = 0 \<and> nd_parent t = TREENET_ADDR_INVALID \<and> nd_connected t
    else (nd_connected t \<longleftrightarrow> nd_parent t \<noteq> TREENET_ADDR_INVALID) \<and> (nd_connected t \<longleftrightarrow> nd_rank t \<noteq> TREENET_RANK_INFINITE) \<and>
      nd_parent t \<noteq> cf_addr cfg"
  using node_invD(15) [OF node_reachable_inv [OF assms(1) port_ok_True assms(2)]] node_reachable_identity [OF assms(1)]
  by (auto simp: tree_ok_def)

theorem tree_position_consistent_witness:
  "nd_rank (treenet_poll_node (node_fresh TREENET_ROLE_MASTER 1)) = 0 \<and>
   nd_connected (treenet_poll_node (node_fresh TREENET_ROLE_MASTER 1))"
  using tree_position_consistent [OF node_fresh_reachable [of 1 TREENET_ROLE_MASTER "\<lambda>_ _. True"]] by simp

lemma beacon_payload_ok:
  assumes "node_inv Q t"
  shows "\<not> beacon_bad (beacon_frame t seq) (beacon_payload t)"
proof -
  let ?i = "nd_trickle_I t div 100"
  have i: "3000 \<le> unat (nd_trickle_I t)" "unat (nd_trickle_I t) \<le> 12000"
    using node_invD(13,14) [OF assms] by (simp_all add: word_le_nat_alt config)
  have d: "unat ?i = unat (nd_trickle_I t) div 100" by (simp add: unat_div)
  then have d': "30 \<le> unat ?i" "unat ?i \<le> 120" using i by (auto simp: less_eq_div_iff_mult_less_eq)
  then have ivl: "bp_interval_100ms (beacon_payload t) = ucast ?i"
    by (simp add: beacon_payload_def Let_def word_less_nat_alt)
  have u: "unat (ucast ?i :: u16) = unat ?i"
    using d' unfolding unsigned_ucast_eq unsigned_take_bit_eq by (intro take_bit_nat_eq_self) simp
  have "unat (ucast (ucast ?i :: u16) * 100 :: u32) = unat (ucast ?i :: u16) * 100 mod 2 ^ 32"
    by (simp add: unat_word_ariths)
  then have "unat (ucast (ucast ?i :: u16) * 100 :: u32) = unat ?i * 100"
    unfolding u using d' by simp
  then have "\<not> (ucast (ucast ?i :: u16) * 100 :: u32) < TREENET_BEACON_MIN_MS div 2" "\<not> (ucast (ucast ?i :: u16) * 100 :: u32) > TREENET_BEACON_MAX_MS"
    using d' by (simp_all add: word_less_nat_alt config)
  moreover have "bp_parent (beacon_payload t) \<noteq> fr_src (beacon_frame t seq)"
    using node_invD(1,15) [OF assms] by (auto simp: beacon_payload_def beacon_frame_def Let_def tree_ok_def split: if_splits)
  moreover have "\<not> (bp_flags (beacon_payload t) AND TN_BEACON_HAS_PARENT \<noteq> 0 \<and> bp_rank (beacon_payload t) \<ge> TREENET_RANK_INFINITE)"
    using node_invD(15) [OF assms] rank_le_infinite [of "nd_rank t"]
    by (auto simp: beacon_payload_def Let_def tree_ok_def TN_BEACON_HAS_PARENT_def TN_BEACON_ROUTER_def config split: if_splits)
  ultimately show ?thesis by (simp add: beacon_bad_def ivl)
qed

text \<open>
  Property C25: neighbours accept the beacons of a reachable node: the payload decodes to the rank, parent, flags and interval of
  the node and passes the checks of \<open>tn_process_frame\<close> (interval within half the minimum and the maximum, parent
  different from the sender, finite rank if it claims a parent).
\<close>

theorem own_beacon_accepted:
  assumes "node_reachable cfg port w E t" and "cfg_ok (\<lambda>_. True) cfg"
  shows "tn_beacon_decode (fr_payload (beacon_frame t seq)) (fr_payload_len (beacon_frame t seq)) = Some (beacon_payload t) \<and>
    \<not> beacon_bad (beacon_frame t seq) (beacon_payload t)"
proof
  show "tn_beacon_decode (fr_payload (beacon_frame t seq)) (fr_payload_len (beacon_frame t seq)) = Some (beacon_payload t)"
    using beacon_codec.decode_encode [of "replicate TN_BEACON_PAYLOAD_LEN 0" TN_BEACON_PAYLOAD_LEN "beacon_payload t" "[]"]
    by (simp add: beacon_frame_def)
  show "\<not> beacon_bad (beacon_frame t seq) (beacon_payload t)"
    by (rule beacon_payload_ok [OF node_reachable_inv [OF assms(1) port_ok_True assms(2)]]) simp_all
qed

theorem own_beacon_accepted_witness:
  "\<not> beacon_bad (beacon_frame (treenet_poll_node (node_fresh TREENET_ROLE_NODE 2)) 7)
      (beacon_payload (treenet_poll_node (node_fresh TREENET_ROLE_NODE 2)))"
  using own_beacon_accepted [OF node_fresh_reachable [of 2 TREENET_ROLE_NODE "\<lambda>_ _. True"]] by simp

end
