(* ===== verification/Tn_Join.thy ===== *)
theory Tn_Join
  imports Tn_Hop Tn_Safety
begin

text \<open>
  How a node joins the network: it hears a beacon (\<open>tn_beacon_send\<close> of \<open>src/src/link/beacon.c\<close>), selects a parent
  and announces itself to it (\<open>src/src/routing/routing.c\<close>), and the parent learns the route back.
\<close>

section \<open>Hearing a beacon\<close>

lemma beacon_heard:
  assumes "listens (nd_net_id m) t" and "node_inv Q m" and "nd_addr m \<noteq> nd_addr t"
  obtains x where "takes_in t (frame_wire ((beacon_frame m seq)\<lparr>fr_prev := nd_addr m\<rparr>)) rssi snr =
      tn_routing_on_beacon (TN_STAT_INC st_beacons_rx_update x) (nd_addr m) (nd_rank m) (nd_parent m) (bp_flags (beacon_payload m))
        (bp_interval_100ms (beacon_payload m)) rssi snr (nd_now_ms t)"
    and "node_inv (\<lambda>_. True) x" and "nd_before x = nd_before t" and "listens (nd_net_id m) x"
    and "nd_neighbors x = tn_neighbor_note_frame (nd_neighbors t) (nd_addr m) rssi snr (nd_now_ms t)"
proof -
  let ?f = "(beacon_frame m seq)\<lparr>fr_prev := nd_addr m\<rparr>"
  have f: "frame_ok (nd_net_id m) ?f" "fr_payload_len ?f \<le> 178" "fr_src ?f \<noteq> nd_addr t"
    using frame_ok_stamp [OF control_frames_ok(1) [OF assms(2)]] assms(3) by (simp_all add: beacon_frame_def config)
  obtain x rest where x: "takes_in t (frame_wire ?f) rssi snr = tn_process_frame x (?f\<lparr>fr_payload := Some (frame_data ?f @ rest)\<rparr>) rssi snr (nd_now_ms t)"
      "node_inv (\<lambda>_. True) x" "nd_before x = nd_before t" "listens (nd_net_id m) x" "fr_prev ?f \<noteq> nd_addr t \<and> fr_prev ?f \<noteq> TREENET_ADDR_INVALID \<longrightarrow>
        nd_neighbors x = tn_neighbor_note_frame (nd_neighbors t) (fr_prev ?f) rssi snr (nd_now_ms t)"
    by (rule takes_in_frame [OF assms(1) f])
  let ?g = "?f\<lparr>fr_payload := Some (frame_data ?f @ rest)\<rparr>" and ?b = "beacon_payload m"
  have enc: "length (tn_beacon_encode (replicate TN_BEACON_PAYLOAD_LEN 0) ?b) = TN_BEACON_PAYLOAD_LEN" by (rule beacon_codec.encode_length) simp
  have dec: "tn_beacon_decode (fr_payload ?g) (fr_payload_len ?g) = Some ?b"
    using beacon_codec.decode_encode [of "replicate TN_BEACON_PAYLOAD_LEN 0" TN_BEACON_PAYLOAD_LEN ?b rest] enc
    by (simp add: beacon_frame_def frame_data_def)
  have bad: "\<not> beacon_bad ?g ?b" using beacon_payload_ok [OF assms(2), of seq] by (simp add: beacon_bad_def)
  have "fr_type ?g = TREENET_FRAME_BEACON" "fr_src ?g = nd_addr m" "bp_rank ?b = nd_rank m" "bp_parent ?b = nd_parent m"
    by (simp_all add: beacon_frame_def beacon_payload_def Let_def)
  then have "tn_process_frame x ?g rssi snr (nd_now_ms t) = tn_routing_on_beacon (TN_STAT_INC st_beacons_rx_update x) (nd_addr m) (nd_rank m)
      (nd_parent m) (bp_flags ?b) (bp_interval_100ms ?b) rssi snr (nd_now_ms t)"
    unfolding tn_process_frame_def dec option.case using bad by simp
  then show thesis using that x node_invD(1) [OF assms(2)] assms(3) by simp
qed


section \<open>Choosing a parent\<close>

lemma not_suspect: "unat now \<le> 2 ^ 31 \<Longrightarrow> \<not> tn_time_after 0 now"
  using unat_u32_less [of now] unat_sub_if' [of 0 now] by (auto simp: tn_time_after_iff_unat)

text \<open>A new sender, after its first frame and beacon.\<close>

lemma first_beacon_entry:
  assumes "neighbor_wf tbl" and "neighbor_look tbl a = None"
  obtains e where "neighbor_look (tn_neighbor_note_beacon (tn_neighbor_note_frame tbl a rssi snr now) a rank parent flags ivl rssi' snr' now) a = Some e"
    and "ne_addr e = a" and "ne_valid e" and "ne_rank e = rank" and "ne_flags e = flags" and "ne_last_seen_ms e = now" and "ne_suspect_until_ms e = 0"
    and "unat (ne_link_cost e) \<le> 768"
proof -
  let ?first = "frame_noted rssi snr now (neighbor_new a now)"
  let ?e = "beacon_noted rank parent flags ivl rssi' snr' now ?first"
  let ?t = "tn_neighbor_note_frame tbl a rssi snr now"
  have t: "neighbor_wf ?t" "neighbor_look ?t a = Some ?first"
    using neighbor_upsert_new [OF assms keeps_key_noted(1), of now rssi snr now] by (simp_all add: note_frame_upsert)
  have "neighbor_look (tn_neighbor_note_beacon ?t a rank parent flags ivl rssi' snr' now) a = Some ?e"
    using neighbor_upsert_found(2) [OF t keeps_key_noted(2)] by (simp add: note_beacon_upsert)
  moreover have "ne_addr ?e = a" "ne_valid ?e" "ne_rank ?e = rank" "ne_flags ?e = flags" "ne_last_seen_ms ?e = now" "ne_suspect_until_ms ?e = 0"
    by (simp_all add: beacon_noted_def frame_noted_def neighbor_new_def neighbor_zero_def)
  moreover have "ne_link_cost ?e \<le> 768" unfolding beacon_noted_def by (rule update_cost_link_cost(2))
  ultimately show thesis by (intro that [of ?e]) (simp_all add: word_le_nat_alt)
qed

text \<open>The announcement a node queues for a new parent.\<close>

lemma set_parent_announces:
  assumes "node_inv Q t" and "nd_role t \<noteq> TREENET_ROLE_MASTER" and "p \<noteq> TREENET_ADDR_INVALID" and "p \<noteq> nd_addr t" and "p \<noteq> nd_parent t"
    and "r \<noteq> TREENET_RANK_INFINITE" and "free_slot t = Some i" and "routing_set_parent t p r now = t'"
  obtains seq where "holds_frame (nd_tx t' ! i) ((dao_frame t' (nd_addr t) 0 seq)\<lparr>fr_prev := nd_addr t\<rparr>) True p"
proof -
  define u where "u = t\<lparr>nd_parent := p, nd_rank := r, nd_parent_since := now, nd_parent_beacon_ms := now, nd_connected := True\<rparr>"
  define v where "v = (if \<not> nd_joined u then tn_emit_event (tn_emit_event (u\<lparr>nd_joined := True\<rparr>) TREENET_EV_JOINED Arg_NULL) TREENET_EV_NETWORK_READY Arg_NULL
    else tn_emit_event (TN_STAT_INC st_parent_changes_update u) TREENET_EV_PARENT_CHANGED Arg_parent)"
  define z where "z = tn_beacon_reset v now"
  define x where "x = snd (tn_next_seq z)"
  have t': "t' = tn_dao_send z now"
    unfolding assms(8) [symmetric] routing_set_parent_def Let_def using assms(5) by (simp add: v_def z_def u_def)
  have "node_inv Q (t\<lparr>nd_parent := p, nd_rank := r, nd_connected := True\<rparr>)"
    using assms(1-4,6) by (intro node_inv_tree) (simp_all add: tree_ok_def)
  then have u: "node_inv Q u" by (simp add: u_def node_inv_def)
  have x: "node_inv Q x" "nd_static x = nd_static t" "nd_parent x = p" "nd_tx x = nd_tx t" "nd_role x = nd_role t" "nd_addr x = nd_addr t"
    using u by (simp_all add: x_def z_def v_def) (simp_all add: u_def nd_static_def tn_next_seq_def TN_STAT_INC_def tn_emit_event_def)
  let ?f = "dao_frame x (nd_addr x) 0 (fst (tn_next_seq z))"
  have f: "frame_ok (nd_net_id x) ?f" "fr_payload_len ?f \<le> 178"
    using control_frames_ok(4) [OF x(1), of "nd_addr x"] node_invD(1,2) [OF x(1)] x(3) assms(3) by (simp_all add: dao_frame_def config)
  have free: "free_slot x = Some i" using assms(7) x(4) by simp
  obtain s where s: "tn_tx_submit x ?f True p 0 = (0, (snd (port_rnd x))\<lparr>nd_tx := (nd_tx x)[i := s]\<rparr>)" "holds_frame s (?f\<lparr>fr_prev := nd_addr x\<rparr>) True p"
    by (rule submit_ok [OF x(1) f free, of True p 0])
  have "nd_role z \<noteq> TREENET_ROLE_MASTER" "nd_parent z = p" "nd_addr z = nd_addr x" "p \<noteq> TREENET_ADDR_INVALID"
    using x(3,5,6) assms(2,3) by (simp_all add: x_def tn_next_seq_def)
  then have "t' = (snd (port_rnd x))\<lparr>nd_tx := (nd_tx x)[i := s], nd_dao_last_ms := now\<rparr>"
    unfolding t' tn_dao_send_def Let_def case_prod_unfold x_def [symmetric] using s(1) x(3,6) by simp
  moreover have "dao_frame t' = dao_frame x" if "nd_parent t' = nd_parent x" "nd_net_id t' = nd_net_id x"
    using that by (intro ext) (simp add: dao_frame_def)
  ultimately have "holds_frame (nd_tx t' ! i) ((dao_frame t' (nd_addr t) 0 (fst (tn_next_seq z)))\<lparr>fr_prev := nd_addr t\<rparr>) True p"
    using s(2) find_index_SomeD(1) [OF free] x(6) by simp
  then show thesis by (rule that)
qed


lemma dao_handle_route:
  assumes "node_inv Q t" and "nd_role t \<noteq> TREENET_ROLE_LEAF" and "tn_dao_decode (fr_payload f) (fr_payload_len f) = Some d"
    and "da_origin d \<noteq> TREENET_ADDR_INVALID" and "da_origin d \<noteq> TREENET_ADDR_BROADCAST" and "da_origin d \<noteq> nd_addr t"
    and "da_hops d \<le> TREENET_MAX_HOPS" and "fr_prev f \<noteq> TREENET_ADDR_INVALID" and "fr_prev f \<noteq> TREENET_ADDR_BROADCAST"
  obtains cost where "route_look (nd_routes (snd (tn_dao_handle t f now))) (da_origin d) = Some (route_entry (da_origin d) (fr_prev f) cost (da_hops d + 1) now)"
proof -
  define c where "c = (case tn_neighbor_find (nd_neighbors t) (fr_prev f) of
      Some i \<Rightarrow> ne_link_cost (nt_entries (nd_neighbors t) ! i) | None \<Rightarrow> 0)"
  define rt where "rt = snd (tn_route_add (nd_routes t) (da_origin d) (fr_prev f) c (da_hops d + 1) now)"
  have "route_wf (nd_routes t)" using node_invD(7) [OF assms(1)] by (simp add: routes_inv_def)
  then have "route_look rt (da_origin d) = Some (route_entry (da_origin d) (fr_prev f) c (da_hops d + 1) now)"
    unfolding rt_def by (rule route_add_same)
  moreover have "nd_routes (snd (tn_dao_handle t f now)) = rt"
    using assms(2,4-6,8,9) leD [OF assms(7)]
    unfolding tn_dao_handle_def assms(3) option.case Let_def c_def [symmetric] rt_def [symmetric] by (simp add: case_prod_unfold tn_next_seq_def)
  ultimately show thesis by (intro that) simp
qed

text \<open>The parent takes in the announcement of a node and knows the way to it.\<close>

lemma announcement_heard:
  assumes "listens net m" and "nd_role m \<noteq> TREENET_ROLE_LEAF" and "node_inv Q t'" and "nd_net_id t' = net" and "nd_parent t' = nd_addr m"
    and "nd_addr t' \<noteq> nd_addr m" and "nd_addr t' = a"
  obtains e where "route_look (nd_routes (takes_in m (frame_wire ((dao_frame t' a 0 seq)\<lparr>fr_prev := a\<rparr>)) rssi snr)) a = Some e"
    and "rt_next_hop e = a" and "rt_updated_ms e = nd_now_ms m"
    and "fst (tn_route_next_hop (takes_in m (frame_wire ((dao_frame t' a 0 seq)\<lparr>fr_prev := a\<rparr>)) rssi snr) a) = a"
proof -
  let ?f = "(dao_frame t' a 0 seq)\<lparr>fr_prev := a\<rparr>" and ?d = "\<lparr>da_origin = a, da_hops = 0\<rparr>"
  have a: "a \<noteq> TREENET_ADDR_INVALID" "a \<noteq> TREENET_ADDR_BROADCAST" "a \<noteq> nd_addr m" "nd_parent t' \<noteq> TREENET_ADDR_INVALID"
    using node_invD(1,2) [OF assms(3)] assms(1,5-7) node_invD(1) [of "\<lambda>_. True" m] by (auto simp: listens_def)
  have f: "frame_ok net ?f" "fr_payload_len ?f \<le> 178" "fr_src ?f \<noteq> nd_addr m"
    using frame_ok_stamp [OF control_frames_ok(4) [OF assms(3) a(4,1,2)]] assms(4) a(3) by (simp_all add: dao_frame_def config)
  obtain x rest where x: "takes_in m (frame_wire ?f) rssi snr = tn_process_frame x (?f\<lparr>fr_payload := Some (frame_data ?f @ rest)\<rparr>) rssi snr (nd_now_ms m)"
      "node_inv (\<lambda>_. True) x" "nd_before x = nd_before m"
    by (rule takes_in_frame [OF assms(1) f])
  let ?g = "?f\<lparr>fr_payload := Some (frame_data ?f @ rest)\<rparr>"
  note b = nd_beforeD [OF x(3)]
  have enc: "length (tn_dao_encode (replicate TN_DAO_PAYLOAD_LEN 0) ?d) = TN_DAO_PAYLOAD_LEN" by (rule dao_codec.encode_length) simp
  have dec: "tn_dao_decode (fr_payload ?g) (fr_payload_len ?g) = Some ?d"
    using dao_codec.decode_encode [of "replicate TN_DAO_PAYLOAD_LEN 0" TN_DAO_PAYLOAD_LEN ?d rest] enc by (simp add: dao_frame_def frame_data_def)
  have role: "nd_role x \<noteq> TREENET_ROLE_LEAF" using b(3) assms(2) by simp
  have prev: "fr_prev ?g = a" by simp
  obtain cost where e: "route_look (nd_routes (snd (tn_dao_handle x ?g (nd_now_ms m)))) (da_origin ?d) =
      Some (route_entry (da_origin ?d) (fr_prev ?g) cost (da_hops ?d + 1) (nd_now_ms m))"
    by (rule dao_handle_route [OF x(2) role dec]) (use a b(2) in \<open>simp_all add: config\<close>)
  have "fr_type ?g = TREENET_FRAME_DAO" "fr_dst ?g = nd_addr x" using assms(5) b(2) by (simp_all add: dao_frame_def)
  then have "nd_routes (tn_process_frame x ?g rssi snr (nd_now_ms m)) = nd_routes (snd (tn_dao_handle x ?g (nd_now_ms m)))"
    unfolding tn_process_frame_def Let_def case_prod_unfold by (simp add: config)
  then have r: "route_look (nd_routes (takes_in m (frame_wire ?f) rssi snr)) a = Some (route_entry a a cost 1 (nd_now_ms m))" using e by (simp add: x(1))
  have g: "frame_ok (nd_net_id x) ?g"
    using f(1) assms(1) b(4) length_frame_data [of ?f] by (simp add: frame_ok_def frame_fields_ok_def payload_ok_def listens_def)
  have "node_inv (\<lambda>_. True) (takes_in m (frame_wire ?f) rssi snr)"
    unfolding x(1) by (rule tn_process_frame_inv [OF x(2) g]) (use a b(2) in \<open>simp add: dao_frame_def\<close>)
  then have "route_wf (nd_routes (takes_in m (frame_wire ?f) rssi snr))" using node_invD(7) by (auto simp: routes_inv_def)
  note hop = next_hop_by_route [OF this _ _ r]
  have "fst (tn_route_next_hop (takes_in m (frame_wire ?f) rssi snr) a) = a"
  proof (cases "tn_neighbor_find (nd_neighbors (takes_in m (frame_wire ?f) rssi snr)) a = None")
    case True
    then show ?thesis using hop a(3) b(2,5) by (simp add: x(1) tn_elapsed_def)
  next
    case False
    then show ?thesis using a(3) b(2) by (simp add: tn_route_next_hop_def x(1))
  qed
  then show thesis using r by (intro that [of "route_entry a a cost 1 (nd_now_ms m)"]) simp_all
qed


text \<open>A node without a parent that hears the beacon of a new router selects a parent no worse than this router.\<close>

lemma candidate_rank_bound:
  assumes "unat (ne_rank e) < 64000" and "unat (ne_link_cost e) \<le> 768" and "ne_flags e AND TN_BEACON_ROUTER \<noteq> 0"
  shows "cand e \<noteq> TREENET_RANK_INFINITE" and "unat (cand e) \<le> unat (ne_rank e) + 776"
proof -
  have fin: "ne_rank e \<noteq> TREENET_RANK_INFINITE" using assms(1) by (auto simp: config)
  have "unat (ne_rank e + 8 + ne_link_cost e) = unat (ne_rank e) + 8 + unat (ne_link_cost e)" using assms(1,2) by (simp add: unat_word_ariths)
  then have "unat (ne_rank e + 8 + ne_link_cost e) \<noteq> unat TREENET_RANK_INFINITE" using assms(1,2) by (simp only: config) simp
  then have "ne_rank e + 8 + ne_link_cost e \<noteq> TREENET_RANK_INFINITE" by metis
  then show c: "cand e \<noteq> TREENET_RANK_INFINITE" unfolding candidate_rank_cases using assms fin by simp
  show "unat (cand e) \<le> unat (ne_rank e) + 776" using candidate_rank_finite(1) [OF c] assms(2) by simp
qed

text \<open>The routing step on a first beacon: the beacon's sender becomes a candidate, and the node, which has no parent,
  adopts the best candidate it knows.\<close>

lemma beacon_candidate:
  assumes "node_inv Q y" and "unat (nd_now_ms y) \<le> 2 ^ 31" and "neighbor_wf tbl" and "neighbor_look tbl a = None"
    and "nd_neighbors y = tn_neighbor_note_beacon (tn_neighbor_note_frame tbl a rssi snr (nd_now_ms y)) a rank parent flags ivl rssi snr (nd_now_ms y)"
    and "a \<noteq> nd_addr y" and "unat rank < 64000" and "flags AND TN_BEACON_ROUTER \<noteq> 0"
  obtains e where "candidate y e" and "unat (cand e) \<le> unat rank + 776"
proof -
  let ?now = "nd_now_ms y"
  obtain e where e: "neighbor_look (nd_neighbors y) a = Some e" "ne_addr e = a" "ne_valid e" "ne_rank e = rank" "ne_flags e = flags"
      "ne_last_seen_ms e = ?now" "ne_suspect_until_ms e = 0" "unat (ne_link_cost e) \<le> 768"
    by (rule first_beacon_entry [OF assms(3,4), of rssi snr ?now rank parent flags ivl rssi snr]) (simp add: assms(5))
  note c = candidate_rank_bound [of e, unfolded e(4,5), OF assms(7) e(8) assms(8)]
  have "neighbor_usable e ?now"
    using e(3,6,7) not_suspect [OF assms(2)] by (simp add: neighbor_usable_def neighbor_fresh_def tn_elapsed_def)
  moreover have "e \<in> set (nt_entries (nd_neighbors y))"
    using valid_entry_iff [OF neighbors_inv_wf [OF node_invD(6) [OF assms(1)]], of e] e(1,2) by simp
  ultimately have "candidate y e" using c(1) e(2) assms(6) by (simp add: candidate_def)
  then show thesis using that c(2) by blast
qed

lemma beacon_selects:
  assumes "node_inv Q x" and "nd_role x \<noteq> TREENET_ROLE_MASTER" and "nd_parent x = TREENET_ADDR_INVALID" and "unat (nd_now_ms x) \<le> 2 ^ 31"
    and "neighbor_wf tbl" and "neighbor_look tbl a = None" and "nd_neighbors x = tn_neighbor_note_frame tbl a rssi snr (nd_now_ms x)"
    and "a \<noteq> TREENET_ADDR_INVALID" and "a \<noteq> nd_addr x" and "unat rank < 64000" and "flags AND TN_BEACON_ROUTER \<noteq> 0"
  obtains y p r where "tn_routing_on_beacon x a rank parent flags ivl rssi snr (nd_now_ms x) = routing_set_parent y p r (nd_now_ms x)"
    and "node_inv Q y" and "nd_static y = nd_static x" and "nd_tx y = nd_tx x" and "nd_parent y = TREENET_ADDR_INVALID"
    and "p \<noteq> TREENET_ADDR_INVALID" and "p \<noteq> nd_addr x" and "r \<noteq> TREENET_RANK_INFINITE"
    and "unat r \<le> unat rank + 776" and "neighbor_look tbl = Map.empty \<longrightarrow> p = a"
proof -
  let ?now = "nd_now_ms x"
  define y where "y = x\<lparr>nd_neighbors := tn_neighbor_note_beacon (nd_neighbors x) a rank parent flags ivl rssi snr ?now\<rparr>"
  have y: "node_inv Q y" using assms(1,8,9) node_invD(6) [OF assms(1)] by (simp add: y_def)
  have nb: "nd_neighbors y = tn_neighbor_note_beacon (tn_neighbor_note_frame tbl a rssi snr (nd_now_ms y)) a rank parent flags ivl rssi snr (nd_now_ms y)"
    by (simp add: y_def assms(7))
  obtain e where e: "candidate y e" "unat (cand e) \<le> unat rank + 776"
    by (rule beacon_candidate [OF y _ assms(5,6) nb _ assms(10,11)]) (use assms(4,9) in \<open>simp_all add: y_def\<close>)
  obtain b r where b: "best_candidate y = (Some b, r)" using best_candidate_None(2) [of y _ e] e(1) by (cases "best_candidate y") (metis option.exhaust)
  let ?b = "nt_entries (nd_neighbors y) ! b"
  note best = best_candidate_Some [OF b]
  have lost: "\<not> parent_alive y ?now c" for c using assms(3) by (simp add: parent_alive_def y_def)
  have "tn_routing_on_beacon x a rank parent flags ivl rssi snr ?now = snd (tn_routing_select_parent y ?now)"
    using assms(3,8) by (simp add: tn_routing_on_beacon_def y_def)
  also have "\<dots> = routing_set_parent y (ne_addr ?b) r ?now"
    using select_parent_lost [OF _ lost] assms(2) b by (simp add: y_def)
  finally have set: "tn_routing_on_beacon x a rank parent flags ivl rssi snr ?now = routing_set_parent y (ne_addr ?b) r ?now" .
  have r: "unat r \<le> unat rank + 776" using best(4) [OF e(1)] e(2) by (simp add: word_le_nat_alt)
  have only: "ne_addr ?b = a" if "neighbor_look tbl = Map.empty"
  proof -
    have "neighbor_look (nd_neighbors y) k = None" if "k \<noteq> a" for k
      using neighbor_upsert_dom [of _ _ k a] that \<open>neighbor_look tbl = Map.empty\<close> assms(5) neighbor_upsert_wf
      by (simp add: y_def assms(7) note_frame_upsert note_beacon_upsert)
    then show ?thesis using candidate_look [OF neighbors_inv_wf [OF node_invD(6) [OF y]] best(2)] by force
  qed
  show thesis
    by (rule that [OF set y _ _ _ _ _ _ r])
      (use candidate_addr [OF y best(2)] best(3) assms(3) only in \<open>simp_all add: y_def nd_static_def\<close>)
qed


text \<open>
  Property C6: a node joins by a single beacon. Node \<open>t\<close> has no parent and does not know router \<open>m\<close>; it takes in a beacon of \<open>m\<close> during the first
  half of the period of its clock. Then it is connected, its rank is at most the rank of \<open>m\<close> plus the step and the largest link cost, and
  its queue holds an announcement to its parent, to be repeated until acknowledged. If it knew no neighbour before, \<open>m\<close> is the
  parent. And if \<open>m\<close> is the parent and takes in the announcement, it has a fresh route to \<open>t\<close> and sends data for \<open>t\<close> there.
\<close>

theorem join_by_beacon:
  assumes "listens net m" and "nd_role m \<noteq> TREENET_ROLE_LEAF" and "unat (nd_rank m) < 64000"
    and "listens net t" and "nd_role t \<noteq> TREENET_ROLE_MASTER" and "nd_parent t = TREENET_ADDR_INVALID" and "0 < tn_tx_free_slots t"
    and "unat (nd_now_ms t) \<le> 2 ^ 31" and "neighbor_look (nd_neighbors t) (nd_addr m) = None" and "nd_addr m \<noteq> nd_addr t"
    and "takes_in t (frame_wire ((beacon_frame m seq)\<lparr>fr_prev := nd_addr m\<rparr>)) rssi snr = t'"
  shows "nd_connected t' \<and> nd_joined t' \<and> unat (nd_rank t') \<le> unat (nd_rank m) + 776 \<and>
    (neighbor_look (nd_neighbors t) = Map.empty \<longrightarrow> nd_parent t' = nd_addr m) \<and>
    (\<exists>i seq'. holds_frame (nd_tx t' ! i) ((dao_frame t' (nd_addr t) 0 seq')\<lparr>fr_prev := nd_addr t\<rparr>) True (nd_parent t') \<and>
      (nd_parent t' = nd_addr m \<longrightarrow>
        (\<exists>e m'. m' = takes_in m (slot_bytes (nd_tx t' ! i)) rssi' snr' \<and> route_look (nd_routes m') (nd_addr t) = Some e \<and>
          rt_next_hop e = nd_addr t \<and> rt_updated_ms e = nd_now_ms m \<and> fst (tn_route_next_hop m' (nd_addr t)) = nd_addr t)))"
proof -
  have m: "node_inv (\<lambda>_. True) m" "nd_net_id m = net" using assms(1) by (simp_all add: listens_def)
  have am: "nd_addr m \<noteq> TREENET_ADDR_INVALID" using node_invD(1) [OF m(1)] .
  have wf: "neighbor_wf (nd_neighbors t)" using assms(4) neighbors_inv_wf [OF node_invD(6)] by (auto simp: listens_def)
  have lm: "listens (nd_net_id m) t" using assms(4) m(2) by simp
  obtain x where x: "takes_in t (frame_wire ((beacon_frame m seq)\<lparr>fr_prev := nd_addr m\<rparr>)) rssi snr =
        tn_routing_on_beacon (TN_STAT_INC st_beacons_rx_update x) (nd_addr m) (nd_rank m) (nd_parent m) (bp_flags (beacon_payload m))
          (bp_interval_100ms (beacon_payload m)) rssi snr (nd_now_ms t)"
      "node_inv (\<lambda>_. True) x" "nd_before x = nd_before t"
      "nd_neighbors x = tn_neighbor_note_frame (nd_neighbors t) (nd_addr m) rssi snr (nd_now_ms t)"
    by (rule beacon_heard [OF lm m(1) assms(10)])
  note b = nd_beforeD [OF x(3)]
  define x1 where "x1 = TN_STAT_INC st_beacons_rx_update x"
  have x1: "node_inv (\<lambda>_. True) x1" "nd_static x1 = nd_static x" "nd_neighbors x1 = nd_neighbors x" "nd_parent x1 = nd_parent x" "nd_tx x1 = nd_tx x"
    using x(2) by (simp_all add: x1_def)
  note st = nd_staticD [OF x1(2)]
  have router: "bp_flags (beacon_payload m) AND TN_BEACON_ROUTER \<noteq> 0"
    using assms(2) by (simp add: beacon_payload_def Let_def TN_BEACON_ROUTER_def TN_BEACON_HAS_PARENT_def word_ao_dist)
  obtain y p r where y: "tn_routing_on_beacon x1 (nd_addr m) (nd_rank m) (nd_parent m) (bp_flags (beacon_payload m))
        (bp_interval_100ms (beacon_payload m)) rssi snr (nd_now_ms x1) = routing_set_parent y p r (nd_now_ms x1)"
      "node_inv (\<lambda>_. True) y" "nd_static y = nd_static x1" "nd_tx y = nd_tx x1" "nd_parent y = TREENET_ADDR_INVALID"
      "p \<noteq> TREENET_ADDR_INVALID" "p \<noteq> nd_addr x1" "r \<noteq> TREENET_RANK_INFINITE"
      "unat r \<le> unat (nd_rank m) + 776" "neighbor_look (nd_neighbors t) = Map.empty \<longrightarrow> p = nd_addr m"
    by (rule beacon_selects [OF x1(1) _ _ _ wf assms(9) _ am _ assms(3) router]) (use assms(5,6,8,10) x1(3,4) x(4) st b in simp_all)
  have t': "t' = routing_set_parent y p r (nd_now_ms x1)" using assms(11) x(1) y(1) st(7) b(5) by (simp add: x1_def)
  have ys: "nd_addr y = nd_addr t" "nd_role y = nd_role t" "nd_net_id y = net"
    using nd_staticD [OF y(3)] st b assms(4) by (simp_all add: listens_def)
  have "0 < tn_tx_free_slots y" using assms(7) y(4) x1(5) b(10) by (simp add: tn_tx_free_slots_def)
  then obtain i where i: "free_slot y = Some i" using free_slot_some by blast
  obtain seq' where dao: "holds_frame (nd_tx t' ! i) ((dao_frame t' (nd_addr y) 0 seq')\<lparr>fr_prev := nd_addr y\<rparr>) True p"
    by (rule set_parent_announces [OF y(2) _ y(6) _ _ y(8) i t' [symmetric]]) (use assms(5) y(5-7) ys nd_staticD(3) [OF y(3)] in simp_all)
  have t1: "node_inv (\<lambda>_. True) t'" "nd_net_id t' = net" "nd_addr t' = nd_addr t" "nd_parent t' = p"
    unfolding t' using routing_set_parent_inv [OF y(2) _ y(6) _ y(8)] assms(5) y(7) ys nd_staticD(3) [OF y(3)] by simp_all
  have route: "\<exists>e m'. m' = takes_in m (slot_bytes (nd_tx t' ! i)) rssi' snr' \<and> route_look (nd_routes m') (nd_addr t) = Some e \<and>
      rt_next_hop e = nd_addr t \<and> rt_updated_ms e = nd_now_ms m \<and> fst (tn_route_next_hop m' (nd_addr t)) = nd_addr t" if "p = nd_addr m"
  proof -
    have pm: "nd_parent t' = nd_addr m" "nd_addr t' \<noteq> nd_addr m" using that t1(3,4) assms(10) by auto
    have bytes: "slot_bytes (nd_tx t' ! i) = frame_wire ((dao_frame t' (nd_addr t) 0 seq')\<lparr>fr_prev := nd_addr t\<rparr>)"
      using holds_frame_bytes [OF dao] ys(1) by simp
    show ?thesis by (rule announcement_heard [OF assms(1,2) t1(1,2) pm t1(3), of seq' rssi' snr']) (auto simp: bytes)
  qed
  show ?thesis
  proof (intro conjI exI [of _ i] exI [of _ seq'])
    show "holds_frame (nd_tx t' ! i) ((dao_frame t' (nd_addr t) 0 seq')\<lparr>fr_prev := nd_addr t\<rparr>) True (nd_parent t')" using dao ys(1) t1(4) by simp
  qed (use y(9,10) route t1(4) in \<open>simp_all add: t'\<close>)
qed


theorem join_by_beacon_witness:
  "\<exists>t' i m'. t' = takes_in (node_ready TREENET_ROLE_NODE 2 5000 (tn_neighbor_table_init \<lparr>nt_entries = [], nt_count = 0\<rparr>))
      (frame_wire ((beacon_frame (node_joined 3 4) 7)\<lparr>fr_prev := 3\<rparr>)) (- 80) 5 \<and> nd_connected t' \<and> nd_parent t' = 3 \<and>
    m' = takes_in (node_joined 3 4) (slot_bytes (nd_tx t' ! i)) (- 80) 5 \<and> fst (tn_route_next_hop m' 2) = 2"
proof -
  let ?tbl = "tn_neighbor_table_init \<lparr>nt_entries = [], nt_count = 0\<rparr>"
  let ?t = "node_ready TREENET_ROLE_NODE 2 5000 ?tbl" and ?m = "node_joined 3 4"
  define t' where "t' = takes_in ?t (frame_wire ((beacon_frame ?m 7)\<lparr>fr_prev := nd_addr ?m\<rparr>)) (- 80) 5"
  have "node_inv (\<lambda>_. True) ?t" by (rule node_ready_inv) (simp_all add: neighbors_inv_def config)
  then have t: "listens 1 ?t" by (rule node_ready_listens)
  have m: "listens 1 ?m" by (rule node_joined_listens) simp_all
  have "nd_rank ?m = 512" "tn_tx_free_slots ?t = 8" by (simp_all add: node_joined_def tn_tx_free_slots_def tx_slot_zero_def config)
  then have "nd_connected t' \<and> nd_joined t' \<and> unat (nd_rank t') \<le> unat (nd_rank ?m) + 776 \<and>
    (neighbor_look (nd_neighbors ?t) = Map.empty \<longrightarrow> nd_parent t' = nd_addr ?m) \<and>
    (\<exists>i seq'. holds_frame (nd_tx t' ! i) ((dao_frame t' (nd_addr ?t) 0 seq')\<lparr>fr_prev := nd_addr ?t\<rparr>) True (nd_parent t') \<and>
      (nd_parent t' = nd_addr ?m \<longrightarrow>
        (\<exists>e m'. m' = takes_in ?m (slot_bytes (nd_tx t' ! i)) (- 80) 5 \<and> route_look (nd_routes m') (nd_addr ?t) = Some e \<and>
          rt_next_hop e = nd_addr ?t \<and> rt_updated_ms e = nd_now_ms ?m \<and> fst (tn_route_next_hop m' (nd_addr ?t)) = nd_addr ?t)))"
    by (intro join_by_beacon [OF m _ _ t _ _ _ _ _ _ t'_def [symmetric]]) (simp_all add: config)
  then show ?thesis by (auto simp: t'_def)
qed

end
