(* ===== verification/Tn_Flood.thy ===== *)
theory Tn_Flood
  imports Tn_Hop
begin

text \<open>
  The way of a broadcast through the network: from \<open>treenet_broadcast\<close> at its source over any chain of nodes, each of which takes the
  frame from its radio (\<open>treenet_rx\<close>, \<open>tn_rx_drain\<close>), hands the datagram to its application and queues the frame again
  (\<open>tn_handle_flood\<close> of \<open>src/api/treenet.c\<close>).
\<close>

section \<open>A node that hears a flood\<close>

text \<open>
  From \<open>r\<close> to \<open>t\<close> one datagram was counted and handed to the application of \<open>r\<close>; after that the node did at most
  one thing, it queued one frame for all its neighbours.
\<close>

definition hands_up :: "'w treenet \<Rightarrow> 'w treenet \<Rightarrow> treenet_addr_t \<Rightarrow> u8 list \<Rightarrow> i16 \<Rightarrow> i8 \<Rightarrow> nat \<Rightarrow> bool" where
  "hands_up r t src data rssi snr hops \<longleftrightarrow>
     (\<exists>u. nd_cfg u = nd_cfg r \<and> st_datagrams_rx (nd_stats u) = st_datagrams_rx (nd_stats r) + 1 \<and>
        (let w = deliver_up u src data rssi snr (of_nat hops) in t = w \<or> (\<exists>f. t = rebroadcast w f snr)))"

text \<open>From \<open>r\<close> to \<open>t\<close> a free slot of the transmit queue was filled with the bytes \<open>bs\<close>.\<close>

definition offers :: "'w treenet \<Rightarrow> 'w treenet \<Rightarrow> u8 list \<Rightarrow> bool" where
  "offers r t bs \<longleftrightarrow>
     (\<exists>i<length (nd_tx r). \<not> tx_valid (nd_tx r ! i) \<and> tx_valid (nd_tx t ! i) \<and> slot_bytes (nd_tx t ! i) = bs)"

text \<open>The application of \<open>r\<close> leaves a slot of the transmit queue free when it handles a datagram.\<close>

definition leaves_room :: "'w treenet \<Rightarrow> bool" where
  "leaves_room r \<longleftrightarrow> (\<forall>u src data rssi snr hops. nd_cfg u = nd_cfg r \<and> nd_tx u = nd_tx r \<longrightarrow>
     0 < tn_tx_free_slots (deliver_up u src data rssi snr hops))"

lemma deliver_up_keeps:
  "node_inv Q u \<Longrightarrow> node_inv Q (deliver_up u src data rssi snr hops)" "nd_static (deliver_up u src data rssi snr hops) = nd_static u"
  "keeps_slots u (deliver_up u src data rssi snr hops)"
  by (auto simp: deliver_up_def on_recv_inv run_app_keeps_slots split: option.split)

lemma listens_takes_flood:
  assumes "listens net r" and "frame_ok net f" and "fr_payload_len f \<le> 178" and "fr_type f = TREENET_FRAME_FLOOD"
    and "fr_flags f AND TN_FLAG_FRAG = 0" and "fr_src f \<noteq> nd_addr r" and "\<not> tn_dupcache_check (nd_dup r) (fr_src f) (fr_seq f) (nd_now_ms r)"
  obtains u rest where "nd_cfg u = nd_cfg r" and "st_datagrams_rx (nd_stats u) = st_datagrams_rx (nd_stats r) + 1"
    and "node_inv (\<lambda>_. True) u" and "nd_tx u = nd_tx r" and "nd_addr u = nd_addr r" and "nd_net_id u = net"
    and "takes_in r (frame_wire f) rssi snr =
      (let w = deliver_up u (fr_src f) (frame_data f) rssi snr (TREENET_MAX_HOPS - fr_hop_limit f)
       in if nd_role r = TREENET_ROLE_LEAF \<or> fr_hop_limit f \<le> 1 then w
          else rebroadcast w (f\<lparr>fr_payload := Some (frame_data f @ rest)\<rparr>) snr)"
proof -
  obtain x rest where x: "takes_in r (frame_wire f) rssi snr =
        tn_process_frame x (f\<lparr>fr_payload := Some (frame_data f @ rest)\<rparr>) rssi snr (nd_now_ms r)"
      "node_inv (\<lambda>_. True) x" "nd_before x = nd_before r"
    by (rule takes_in_frame [OF assms(1-3,6)])
  let ?g = "f\<lparr>fr_payload := Some (frame_data f @ rest)\<rparr>"
  note b = nd_beforeD [OF x(3)]
  have dl: "length (frame_data f) = fr_payload_len f" using assms(2) by (simp add: frame_ok_def length_frame_data)
  define u where "u = TN_STAT_INC st_datagrams_rx_update (x\<lparr>nd_dup := tn_dupcache_mark (nd_dup x) (fr_src f) (fr_seq f) (nd_now_ms r)\<rparr>)"
  let ?w = "deliver_up u (fr_src f) (frame_data f) rssi snr (TREENET_MAX_HOPS - fr_hop_limit f)"
  have w: "tn_deliver (x\<lparr>nd_dup := tn_dupcache_mark (nd_dup x) (fr_src ?g) (fr_seq ?g) (nd_now_ms r)\<rparr>) ?g rssi snr = ?w"
    using assms(5) dl by (simp add: deliver_whole u_def frame_data_def [of ?g])
  have role: "nd_role ?w = nd_role r"
    using nd_staticD(4) [OF deliver_up_keeps(2), of u] b(3) by (simp add: u_def)
  have "takes_in r (frame_wire f) rssi snr = tn_handle_flood x ?g rssi snr (nd_now_ms r)"
    unfolding x(1) tn_process_frame_def using assms(4) by (simp add: config)
  also have "\<dots> = (if nd_role r = TREENET_ROLE_LEAF \<or> fr_hop_limit f \<le> 1 then ?w else rebroadcast ?w ?g snr)"
    using handle_flood_new [OF _ w] assms(7) b(8) role by simp
  finally show thesis
    by (intro that [of u rest]) (use x(2) b node_invD(8) [OF x(2)] assms(1) in \<open>simp_all add: u_def listens_def TN_STAT_INC_def\<close>)
qed

section \<open>Passing a flood on\<close>

text \<open>Node \<open>r\<close> takes up a flood of \<open>src\<close> with number \<open>seq\<close>: it has handled all it received and has not seen the frame.\<close>

definition flood_hearer :: "u16 \<Rightarrow> treenet_addr_t \<Rightarrow> u16 \<Rightarrow> 'w treenet \<Rightarrow> bool" where
  "flood_hearer net src seq r \<longleftrightarrow> listens net r \<and> nd_addr r \<noteq> src \<and> \<not> tn_dupcache_check (nd_dup r) src seq (nd_now_ms r)"

text \<open>And it can pass the flood on: it is no Leaf, and a slot is free once its application is done.\<close>

definition flood_router :: "u16 \<Rightarrow> treenet_addr_t \<Rightarrow> u16 \<Rightarrow> 'w treenet \<Rightarrow> bool" where
  "flood_router net src seq r \<longleftrightarrow> flood_hearer net src seq r \<and> nd_role r \<noteq> TREENET_ROLE_LEAF \<and> leaves_room r"

lemma hearer_hands_up:
  assumes "flood_hearer net (fr_src f) (fr_seq f) r" and "frame_ok net f" and "fr_payload_len f \<le> 178" and "fr_type f = TREENET_FRAME_FLOOD"
    and "fr_flags f AND TN_FLAG_FRAG = 0" and "TREENET_MAX_HOPS - fr_hop_limit f = of_nat k"
  shows "hands_up r (takes_in r (frame_wire f) rssi snr) (fr_src f) (frame_data f) rssi snr k"
proof -
  have r: "listens net r" "fr_src f \<noteq> nd_addr r" "\<not> tn_dupcache_check (nd_dup r) (fr_src f) (fr_seq f) (nd_now_ms r)"
    using assms(1) by (auto simp: flood_hearer_def)
  show ?thesis
    by (rule listens_takes_flood [OF r(1) assms(2-5) r(2,3), of rssi snr]) (auto simp: hands_up_def assms(6) Let_def)
qed

lemma router_offers:
  assumes "flood_router net (fr_src f) (fr_seq f) r" and "frame_ok net f" and "fr_payload_len f \<le> 178" and "fr_type f = TREENET_FRAME_FLOOD"
    and "fr_flags f AND TN_FLAG_FRAG = 0" and "1 < fr_hop_limit f"
  shows "offers r (takes_in r (frame_wire f) rssi snr) (frame_wire (f\<lparr>fr_hop_limit := fr_hop_limit f - 1, fr_prev := nd_addr r\<rparr>))"
proof -
  have r: "listens net r" "fr_src f \<noteq> nd_addr r" "\<not> tn_dupcache_check (nd_dup r) (fr_src f) (fr_seq f) (nd_now_ms r)"
      "nd_role r \<noteq> TREENET_ROLE_LEAF" "leaves_room r"
    using assms(1) by (auto simp: flood_router_def flood_hearer_def)
  obtain u rest where u: "nd_cfg u = nd_cfg r" "node_inv (\<lambda>_. True) u" "nd_tx u = nd_tx r" "nd_addr u = nd_addr r" "nd_net_id u = net"
    and t: "takes_in r (frame_wire f) rssi snr =
      (let w = deliver_up u (fr_src f) (frame_data f) rssi snr (TREENET_MAX_HOPS - fr_hop_limit f)
       in if nd_role r = TREENET_ROLE_LEAF \<or> fr_hop_limit f \<le> 1 then w else rebroadcast w (f\<lparr>fr_payload := Some (frame_data f @ rest)\<rparr>) snr)"
    by (rule listens_takes_flood [OF r(1) assms(2-5) r(2,3), of rssi snr])
  define w where "w = deliver_up u (fr_src f) (frame_data f) rssi snr (TREENET_MAX_HOPS - fr_hop_limit f)"
  let ?g = "f\<lparr>fr_payload := Some (frame_data f @ rest)\<rparr>" and ?h = "f\<lparr>fr_hop_limit := fr_hop_limit f - 1, fr_prev := nd_addr r\<rparr>"
  have "nd_static w = nd_static u" by (simp add: w_def deliver_up_keeps)
  then have w: "node_inv (\<lambda>_. True) w" "nd_net_id w = net" "nd_addr w = nd_addr r" "keeps_slots u w"
    using u nd_staticD [of w u] by (simp_all add: w_def deliver_up_keeps)
  obtain i where i: "free_slot w = Some i" using r(5) u(1,3) free_slot_some [of w] by (auto simp: leaves_room_def w_def)
  have dl: "length (frame_data f) = fr_payload_len f" using assms(2) by (simp add: frame_ok_def length_frame_data)
  have g: "frame_ok net ?g" using assms(2) dl by (simp add: frame_ok_def frame_fields_ok_def payload_ok_def)
  have "holds_frame (nd_tx (rebroadcast w ?g snr) ! i) (?g\<lparr>fr_hop_limit := fr_hop_limit ?g - 1, fr_prev := nd_addr w\<rparr>) False TREENET_ADDR_BROADCAST"
    by (rule rebroadcast_slot(1) [OF w(1) _ _ i]) (use g assms(3) w(2) in simp_all)
  moreover have "frame_wire (?g\<lparr>fr_hop_limit := fr_hop_limit ?g - 1, fr_prev := nd_addr w\<rparr>) = frame_wire ?h"
    by (rule frame_wire_data) (use dl w(3) in \<open>simp_all add: frame_header_def, simp add: frame_data_def cong: option.case_cong\<close>)
  moreover have "takes_in r (frame_wire f) rssi snr = rebroadcast w ?g snr" using t r(4) assms(6) by (simp add: w_def Let_def)
  moreover have "i < length (nd_tx r)" "\<not> tx_valid (nd_tx r ! i)"
    using find_index_SomeD(1,2) [OF i] w(4) u(3) by (auto simp: keeps_slots_def)
  ultimately show ?thesis unfolding offers_def using holds_frame_bytes by metis
qed

section \<open>The spread of a broadcast\<close>

text \<open>
  Bytes \<open>bs\<close> go out on the radio after \<open>n\<close> hops, the first node of the chain takes them in, hands \<open>data\<close> up and offers the bytes the next
  one takes in; what the last one offers is \<open>bs'\<close>.
\<close>

inductive spreads :: "treenet_addr_t \<Rightarrow> u8 list \<Rightarrow> nat \<Rightarrow> ('w treenet \<times> i16 \<times> i8) list \<Rightarrow> u8 list \<Rightarrow> u8 list \<Rightarrow> bool" for src data where
  spreads_Nil: "spreads src data n [] bs bs"
| spreads_Cons: "t = takes_in r bs rssi snr \<Longrightarrow> hands_up r t src data rssi snr n \<Longrightarrow> offers r t bs' \<Longrightarrow>
    spreads src data (Suc n) hs bs' bs'' \<Longrightarrow> spreads src data n ((r, rssi, snr) # hs) bs bs''"

lemma flood_spreads:
  assumes "\<forall>h\<in>set hs. flood_router net (fr_src f) (fr_seq f) (fst h)" and "frame_ok net f" and "fr_payload_len f \<le> 178"
    and "fr_type f = TREENET_FRAME_FLOOD" and "fr_flags f AND TN_FLAG_FRAG = 0"
    and "fr_hop_limit f = TREENET_MAX_HOPS - of_nat n" and "n + length hs < 8"
  shows "\<exists>prev. spreads (fr_src f) (frame_data f) n hs (frame_wire f)
    (frame_wire (f\<lparr>fr_hop_limit := TREENET_MAX_HOPS - of_nat (n + length hs), fr_prev := prev\<rparr>))"
  using assms
proof (induction hs arbitrary: f n)
  case Nil
  have "f\<lparr>fr_hop_limit := TREENET_MAX_HOPS - of_nat (n + length []), fr_prev := fr_prev f\<rparr> = f" using Nil.prems(6) by simp
  then show ?case by (metis spreads_Nil)
next
  case (Cons h hs)
  obtain r rssi snr where h: "h = (r, rssi, snr)" by (cases h)
  let ?g = "f\<lparr>fr_hop_limit := fr_hop_limit f - 1, fr_prev := nd_addr r\<rparr>"
  have "n < 7" using Cons.prems(7) by simp
  then have "n \<in> {0, 1, 2, 3, 4, 5, 6}" by auto
  then have hop: "1 < fr_hop_limit f" "TREENET_MAX_HOPS - fr_hop_limit f = of_nat n" "fr_hop_limit ?g = TREENET_MAX_HOPS - of_nat (Suc n)"
    using Cons.prems(6) by (auto simp: config)
  have router: "flood_router net (fr_src f) (fr_seq f) r" using Cons.prems(1) by (simp add: h)
  then have hearer: "flood_hearer net (fr_src f) (fr_seq f) r" by (simp add: flood_router_def)
  have "\<exists>prev. spreads (fr_src ?g) (frame_data ?g) (Suc n) hs (frame_wire ?g)
      (frame_wire (?g\<lparr>fr_hop_limit := TREENET_MAX_HOPS - of_nat (Suc n + length hs), fr_prev := prev\<rparr>))"
    using Cons.prems hop(3) frame_ok_stamp [of net "f\<lparr>fr_hop_limit := fr_hop_limit f - 1\<rparr>" "nd_addr r"]
    by (intro Cons.IH) simp_all
  then obtain prev where "spreads (fr_src f) (frame_data f) (Suc n) hs (frame_wire ?g)
      (frame_wire (f\<lparr>fr_hop_limit := TREENET_MAX_HOPS - of_nat (n + length (h # hs)), fr_prev := prev\<rparr>))"
    by (auto simp: add.commute add.left_commute)
  then show ?case unfolding h
    using spreads_Cons [OF refl hearer_hands_up [OF hearer Cons.prems(2-5) hop(2)] router_offers [OF router Cons.prems(2-5) hop(1)]] by blast
qed

text \<open>
  Property C5: a broadcast reaches everyone on a path of up to seven routers. Let node \<open>s\<close> broadcast \<open>len\<close> bytes that fit one frame, with a free
  slot. Let the frame pass any chain of routers of the network that have not seen it and whose applications leave a
  transmit slot free, and let node \<open>d\<close>, of any role, hear the last one. Then the call succeeds, every router on the way and \<open>d\<close>
  hand their application exactly the bytes that were sent, with the address of \<open>s\<close> and the number of routers passed as hop
  count, and every router offers the frame to its own neighbours after that.
\<close>

theorem broadcast_end_to_end:
  assumes "node_inv Q s" and "nd_initialized s" and "0 < tn_tx_free_slots s"
    and "0 < len" and "len \<le> TREENET_MTU - TN_FRAME_OVERHEAD" and "len \<le> length p"
    and "\<forall>h\<in>set hs. flood_router (nd_net_id s) (nd_addr s) (nd_seq s) (fst h)" and "length hs < unat TREENET_MAX_HOPS"
    and "flood_hearer (nd_net_id s) (nd_addr s) (nd_seq s) d" and "treenet_broadcast_node s (Some p) len = (rc, s')"
  shows "rc = 0 \<and> (\<exists>b bs. offers s s' b \<and> spreads (nd_addr s) (take len p) 0 hs b bs \<and>
    hands_up d (takes_in d bs rssi snr) (nd_addr s) (take len p) rssi snr (length hs))"
proof -
  let ?f = "data_frame s True TREENET_ADDR_BROADCAST 0 (nd_seq s) p len" and ?all = TREENET_ADDR_BROADCAST
  have len: "len \<le> TREENET_MAX_DATAGRAM" "frames_needed len = 1" using assms(5) by (simp_all add: frames_needed_def config)
  have "rc = 0 \<and> queued s s' (datagram_frames s ?all p len) False ?all"
    using send_datagram_queues [OF assms(1) _ _ assms(6,4) len(1), of True ?all ?all s rc s'] assms(2,3,10) len(2)
    by (simp add: treenet_broadcast_node_def) (simp add: config)
  moreover have "datagram_frames s ?all p len = [?f]" using assms(5) by (simp add: datagram_frames_def)
  ultimately obtain i where rc: "rc = 0" and i: "i < length (nd_tx s)" "\<not> tx_valid (nd_tx s ! i)"
      "holds_frame (nd_tx s' ! i) (?f\<lparr>fr_prev := nd_addr s\<rparr>) False ?all"
    by (auto simp: queued_def length_Suc_conv)
  let ?g = "?f\<lparr>fr_prev := nd_addr s\<rparr>"
  have offer: "offers s s' (frame_wire ?g)" unfolding offers_def using i holds_frame_bytes by blast
  have f: "frame_ok (nd_net_id s) ?g" using data_frame_ok [OF assms(1) _ assms(6), of True ?all] by (intro frame_ok_stamp) simp
  have ff: "fr_src ?g = nd_addr s" "fr_seq ?g = nd_seq s" "fr_type ?g = TREENET_FRAME_FLOOD" "fr_hop_limit ?g = TREENET_MAX_HOPS - of_nat 0"
      "fr_payload_len ?g \<le> 178" "fr_flags ?g AND TN_FLAG_FRAG = 0" "frame_data ?g = take len p"
    using assms(5) by (simp_all add: data_frame_def frame_data_def config)
  have n: "0 + length hs < 8" using assms(8) by (simp add: config)
  obtain prev where sp: "spreads (nd_addr s) (take len p) 0 hs (frame_wire ?g)
      (frame_wire (?g\<lparr>fr_hop_limit := TREENET_MAX_HOPS - of_nat (length hs), fr_prev := prev\<rparr>))"
    using flood_spreads [OF _ f ff(5,3,6,4) n] assms(7) unfolding ff by auto
  let ?h = "?g\<lparr>fr_hop_limit := TREENET_MAX_HOPS - of_nat (length hs), fr_prev := prev\<rparr>"
  have h: "frame_ok (nd_net_id s) ?h" using frame_ok_stamp [of _ "?g\<lparr>fr_hop_limit := TREENET_MAX_HOPS - of_nat (length hs)\<rparr>" prev] f by simp
  have "hands_up d (takes_in d (frame_wire ?h) rssi snr) (fr_src ?h) (frame_data ?h) rssi snr (length hs)"
    by (rule hearer_hands_up [OF _ h]) (use assms(9) ff in simp_all)
  then have "hands_up d (takes_in d (frame_wire ?h) rssi snr) (nd_addr s) (take len p) rssi snr (length hs)" using ff by simp
  with rc offer sp show ?thesis by blast
qed

lemma node_joined_floods:
  assumes "addr \<noteq> 0" and "addr \<noteq> 0xFFFFFFFF" and "parent \<noteq> 0" and "parent \<noteq> addr" and "addr \<noteq> src"
  shows "flood_router 1 src seq (node_joined addr parent)"
proof -
  have "leaves_room (node_joined addr parent)"
    unfolding leaves_room_def using node_joined_fields(8) [of addr parent]
    by (auto simp: deliver_up_def node_joined_def cfg_plain_def tn_tx_free_slots_def)
  then show ?thesis using node_joined_listens [OF assms(1-4)] assms by (simp add: flood_router_def flood_hearer_def)
qed

theorem broadcast_end_to_end_witness:
  "\<exists>s' b bs. treenet_broadcast_node (node_joined 2 3) (Some [1, 2, 3]) 3 = (0, s') \<and>
     spreads 2 [1, 2, 3] 0 [(node_joined 3 4, - 80, 5), (node_joined 4 1, - 95, - 3)] b bs \<and>
     hands_up (node_joined 9 4) (takes_in (node_joined 9 4) bs (- 70) 8) 2 [1, 2, 3] (- 70) 8 2"
proof -
  let ?s = "node_joined 2 3" and ?hs = "[(node_joined 3 4, - 80 :: i16, 5 :: i8), (node_joined 4 1, - 95, - 3)]"
  obtain rc s' where send: "treenet_broadcast_node ?s (Some [1, 2, 3]) 3 = (rc, s')" by (cases "treenet_broadcast_node ?s (Some [1, 2, 3]) 3")
  have inv: "node_inv (\<lambda>_. True) ?s" using node_joined_listens [of 2 3] by (simp add: listens_def)
  have d: "flood_hearer 1 2 (nd_seq ?s) (node_joined 9 4)" using node_joined_floods [of 9 4 2] by (simp add: flood_router_def)
  have "rc = 0 \<and> (\<exists>b bs. offers ?s s' b \<and> spreads (nd_addr ?s) (take 3 [1, 2, 3]) 0 ?hs b bs \<and>
      hands_up (node_joined 9 4) (takes_in (node_joined 9 4) bs (- 70) 8) (nd_addr ?s) (take 3 [1, 2, 3]) (- 70) 8 (length ?hs))"
    by (rule broadcast_end_to_end [OF inv]) (use send d in \<open>simp_all add: node_joined_floods\<close>, simp_all add: config)
  then show ?thesis using send by (auto simp: numeral_2_eq_2)
qed

end
