(* ===== verification/Tn_Switches.thy ===== *)
theory Tn_Switches
  imports Tn_Journey
begin

text \<open>
  The feature switches of \<open>include/treenet/config.h\<close>. The other theories have every switch at its default; here each operation that the
  preprocessor varies takes its switch as first argument. At the default value it is the operation of the other
  theories (\<open>default_switches\<close>); the theorems say what the library does at the other value, and what happens
  between nodes that were built differently. The compile-time checks of the sources are stated here as well.
\<close>

section \<open>TREENET_ENABLE_STATS and TREENET_ENABLE_LOG\<close>

definition TN_STAT_INC_sw ::
    "bool \<Rightarrow> ((u32 \<Rightarrow> u32) \<Rightarrow> treenet_stats_t \<Rightarrow> treenet_stats_t) \<Rightarrow> 'w treenet \<Rightarrow> 'w treenet" where
  "TN_STAT_INC_sw stats field t = (if stats then t\<lparr>nd_stats := field (\<lambda>v. v + 1) (nd_stats t)\<rparr> else t)"

definition TN_STAT_ADD_sw ::
    "bool \<Rightarrow> ((u32 \<Rightarrow> u32) \<Rightarrow> treenet_stats_t \<Rightarrow> treenet_stats_t) \<Rightarrow> u32 \<Rightarrow> 'w treenet \<Rightarrow> 'w treenet" where
  "TN_STAT_ADD_sw stats field n t = (if stats then t\<lparr>nd_stats := field (\<lambda>v. v + n) (nd_stats t)\<rparr> else t)"

definition tn_log_sw :: "bool \<Rightarrow> 'w treenet \<Rightarrow> int \<Rightarrow> string \<Rightarrow> 'w treenet" where
  "tn_log_sw log t level msg =
     (if log then case po_log (nd_port t) of None \<Rightarrow> t | Some f \<Rightarrow> t\<lparr>nd_env := f level msg (nd_env t)\<rparr> else t)"

section \<open>TREENET_ENABLE_FRAME_CRC\<close>

definition TN_FRAME_TRAILER_sw :: "bool \<Rightarrow> nat" where
  "TN_FRAME_TRAILER_sw crc = (if crc then 2 else 0)"

definition TN_FRAME_OVERHEAD_sw :: "bool \<Rightarrow> nat" where
  "TN_FRAME_OVERHEAD_sw crc = TN_FRAME_HDR + TN_FRAME_TRAILER_sw crc"

definition tn_frame_encode_sw :: "bool \<Rightarrow> u8 list \<Rightarrow> nat \<Rightarrow> tn_frame_t \<Rightarrow> nat \<times> u8 list" where
  "tn_frame_encode_sw crc buf cap frame =
     (if fr_payload_len frame > 0 \<and> fr_payload frame = None then (0, buf)
      else
        let body = TN_FRAME_HDR + fr_payload_len frame;
            total = body + TN_FRAME_TRAILER_sw crc
        in if total > cap \<or> total > TREENET_MTU then (0, buf)
           else
             let buf = put_bytes buf 0
                   [push_bit 4 (fr_version frame AND 0x0F) OR (fr_type frame AND 0x0F)];
                 buf = put_bytes buf 1 [fr_flags frame];
                 buf = tn_put_u32 buf 2 (fr_src frame);
                 buf = tn_put_u32 buf 6 (fr_dst frame);
                 buf = tn_put_u16 buf 10 (fr_seq frame);
                 buf = tn_put_u16 buf 12 (fr_net_id frame);
                 buf = put_bytes buf 14 [fr_hop_limit frame];
                 buf = put_bytes buf 15 [fr_sec frame];
                 buf = tn_put_u32 buf TN_FRAME_OFF_PREV (fr_prev frame);
                 buf = (case fr_payload frame of
                          Some p \<Rightarrow> if fr_payload_len frame > 0
                                    then memcpy buf TN_FRAME_HDR p (fr_payload_len frame) else buf
                        | None \<Rightarrow> buf);
                 buf = (if crc then tn_put_u16 buf body (tn_frame_crc buf body) else buf)
             in (total, buf))"

definition tn_frame_decode_sw :: "bool \<Rightarrow> u8 list option \<Rightarrow> nat \<Rightarrow> tn_frame_t option" where
  "tn_frame_decode_sw crc bufp len =
     (case bufp of None \<Rightarrow> None
      | Some buf \<Rightarrow>
        if len < TN_FRAME_OVERHEAD_sw crc then None
        else if crc \<and> tn_frame_crc buf (len - TN_FRAME_TRAILER_sw crc) \<noteq> tn_get_u16 buf (len - TN_FRAME_TRAILER_sw crc) then None
        else
          let version = drop_bit 4 (buf ! 0) AND 0x0F;
              type = buf ! 0 AND 0x0F
          in if version \<noteq> TREENET_PROTOCOL_VERSION then None
             else
               let out = \<lparr>fr_version = version, fr_type = type, fr_flags = buf ! 1,
                          fr_src = tn_get_u32 buf 2, fr_dst = tn_get_u32 buf 6,
                          fr_seq = tn_get_u16 buf 10, fr_net_id = tn_get_u16 buf 12,
                          fr_hop_limit = buf ! 14, fr_sec = buf ! 15,
                          fr_prev = tn_get_u32 buf TN_FRAME_OFF_PREV,
                          fr_payload = None, fr_payload_len = 0\<rparr>
               in if fr_src out = TREENET_ADDR_INVALID \<or> fr_src out = TREENET_ADDR_BROADCAST \<or>
                     fr_dst out = TREENET_ADDR_INVALID
                  then None
                  else Some (out\<lparr>fr_payload := Some (drop TN_FRAME_HDR buf),
                                 fr_payload_len := len - TN_FRAME_OVERHEAD_sw crc\<rparr>))"

section \<open>TREENET_ENABLE_FRAGMENTATION\<close>

definition tn_deliver_sw :: "bool \<Rightarrow> 'w treenet \<Rightarrow> tn_frame_t \<Rightarrow> i16 \<Rightarrow> i8 \<Rightarrow> 'w treenet" where
  "tn_deliver_sw frag t f rssi snr =
     (if frag \<and> fr_flags f AND TN_FLAG_FRAG \<noteq> 0 then tn_reasm_input t f rssi snr (nd_now_ms t)
      else
        let t = TN_STAT_INC st_datagrams_rx_update t
        in case cf_on_recv (nd_cfg t) of
             None \<Rightarrow> t
           | Some on_recv \<Rightarrow>
               let hops = TREENET_MAX_HOPS - fr_hop_limit f
               in run_app (on_recv (fr_src f) (frame_data f) rssi snr hops) t)"

definition tn_expire_reasm_sw :: "bool \<Rightarrow> 'w treenet \<Rightarrow> 'w treenet" where
  "tn_expire_reasm_sw frag t =
     (if frag
      then t\<lparr>nd_reasm := map (\<lambda>r. if re_valid r \<and> tn_elapsed (re_last_ms r) (nd_now_ms t) > TREENET_REASM_TIMEOUT_MS
                                then r\<lparr>re_valid := False\<rparr> else r) (nd_reasm t)\<rparr>
      else t)"

definition tn_send_datagram_sw ::
    "bool \<Rightarrow> 'w treenet \<Rightarrow> treenet_addr_t \<Rightarrow> u8 list option \<Rightarrow> nat \<Rightarrow> bool \<Rightarrow> int \<times> 'w treenet" where
  "tn_send_datagram_sw frag t dst data len flood =
     (case data of
        None \<Rightarrow> (- 1, t)
      | Some p \<Rightarrow>
          if len = 0 \<or> len > TREENET_MAX_DATAGRAM then (- 1, t)
          else
            let max_payload = TREENET_MTU - TN_FRAME_OVERHEAD;
                reliable = (\<not> flood \<and> cf_reliable (nd_cfg t));
                (nh, t) = (if flood then (TREENET_ADDR_BROADCAST, t) else tn_route_next_hop t dst)
            in if \<not> flood \<and> nh = TREENET_ADDR_INVALID then (- 3, t)
               else if len \<le> max_payload then
                 let (seq, t) = tn_next_seq t;
                     f = data_frame t flood dst (if reliable then TN_FLAG_WANT_ACK else 0) seq p len;
                     (rc, t) = tn_tx_submit t f reliable nh 0;
                     t = (if rc = 0 then TN_STAT_INC st_datagrams_tx_update t else t)
                 in (rc, t)
               else if frag then
                 let count = (len + TN_FRAG_CHUNK - 1) div TN_FRAG_CHUNK
                 in if count > TREENET_MAX_FRAGMENTS then (- 2, t)
                    else if tn_tx_free_slots t < count then (- 1, t)
                    else
                      let (dgram_id, t) = tn_next_seq t
                      in send_frags flood dst reliable nh dgram_id count p len [0..<count] t
               else (- 2, t))"

text \<open>With every switch at its default these are the operations of the other theories.\<close>

lemma default_switches:
  "TN_STAT_INC_sw True = TN_STAT_INC" "TN_STAT_ADD_sw True = TN_STAT_ADD" "tn_log_sw True = tn_log"
  "tn_frame_encode_sw True = tn_frame_encode" "tn_frame_decode_sw True = tn_frame_decode"
  "tn_deliver_sw True = tn_deliver" "tn_expire_reasm_sw True = tn_expire_reasm" "tn_send_datagram_sw True = tn_send_datagram"
proof -
  note trailer = TN_FRAME_TRAILER_sw_def TN_FRAME_OVERHEAD_sw_def TN_FRAME_TRAILER_def TN_FRAME_OVERHEAD_def
  show "TN_STAT_INC_sw True = TN_STAT_INC" "TN_STAT_ADD_sw True = TN_STAT_ADD" "tn_log_sw True = tn_log"
    by (simp_all add: fun_eq_iff TN_STAT_INC_sw_def TN_STAT_INC_def TN_STAT_ADD_sw_def TN_STAT_ADD_def tn_log_sw_def tn_log_def)
  show "tn_frame_encode_sw True = tn_frame_encode" unfolding fun_eq_iff tn_frame_encode_sw_def tn_frame_encode_def trailer if_True by simp
  show "tn_frame_decode_sw True = tn_frame_decode"
    unfolding fun_eq_iff tn_frame_decode_sw_def tn_frame_decode_def trailer if_True simp_thms Let_def by simp
  show "tn_deliver_sw True = tn_deliver" by (simp add: fun_eq_iff tn_deliver_sw_def tn_deliver_def)
  show "tn_expire_reasm_sw True = tn_expire_reasm" by (simp add: fun_eq_iff tn_expire_reasm_sw_def tn_expire_reasm_def)
  show "tn_send_datagram_sw True = tn_send_datagram" unfolding fun_eq_iff tn_send_datagram_sw_def tn_send_datagram_def if_True by simp
qed

section \<open>Frames with and without trailer\<close>

text \<open>The bytes of a frame on the air.\<close>

definition frame_wire_sw :: "bool \<Rightarrow> tn_frame_t \<Rightarrow> u8 list" where
  "frame_wire_sw crc f = frame_body f @ (if crc then u16_bytes (crc16_ccitt_false (frame_body f)) else [])"

lemma frame_wire_sw_True: "frame_wire_sw True f = frame_wire f"
  by (simp add: frame_wire_sw_def frame_wire_def)

lemma length_frame_wire_sw: "payload_ok f \<Longrightarrow> length (frame_wire_sw crc f) = TN_FRAME_OVERHEAD_sw crc + fr_payload_len f"
  by (simp add: frame_wire_sw_def TN_FRAME_OVERHEAD_sw_def TN_FRAME_TRAILER_sw_def length_frame_body TN_FRAME_HDR_def)

lemma encode_sw_wire:
  assumes "payload_ok f" and "TN_FRAME_OVERHEAD_sw crc + fr_payload_len f \<le> min cap TREENET_MTU" and "cap \<le> length buf"
  shows "tn_frame_encode_sw crc buf cap f = (TN_FRAME_OVERHEAD_sw crc + fr_payload_len f, put_bytes buf 0 (frame_wire_sw crc f))"
proof (cases crc)
  case True
  then show ?thesis
    using tn_frame_encode_wire [OF assms(1) _ assms(3)] assms(2)
    by (simp add: default_switches frame_wire_sw_True TN_FRAME_OVERHEAD_sw_def TN_FRAME_TRAILER_sw_def TN_FRAME_HDR_def)
next
  case False
  have "\<not> (fr_payload_len f > 0 \<and> fr_payload f = None)" using assms(1) by (auto simp: payload_ok_def)
  moreover have "\<not> (20 + fr_payload_len f + 0 > cap \<or> 20 + fr_payload_len f + 0 > TREENET_MTU)"
    using assms(2) False by (auto simp: TN_FRAME_OVERHEAD_sw_def TN_FRAME_TRAILER_sw_def TN_FRAME_HDR_def)
  ultimately show ?thesis
    using False unfolding tn_frame_encode_sw_def Let_def TN_FRAME_HDR_def TN_FRAME_OVERHEAD_sw_def TN_FRAME_TRAILER_sw_def TN_FRAME_OFF_PREV_def
      tn_put_bytes header_written body_written [OF assms(1)] frame_wire_sw_def
    by simp
qed

text \<open>Without the check the decoder takes whatever follows the header as payload.\<close>

lemma decode_bare_body:
  assumes "payload_ok f" and "frame_fields_ok f"
  shows "tn_frame_decode_sw False (Some (frame_body f @ rest)) (20 + fr_payload_len f + n) =
    Some (f\<lparr>fr_payload := Some (frame_data f @ rest), fr_payload_len := fr_payload_len f + n\<rparr>)"
proof -
  have body: "frame_body f @ rest = frame_header f @ frame_data f @ rest" by (simp add: frame_body_def)
  have "drop_bit 4 ((frame_header f @ r) ! 0) AND 0x0F = TREENET_PROTOCOL_VERSION"
      "(frame_header f @ r) ! 0 AND 0x0F = fr_type f" for r
    using assms(2) unfolding frame_header_fields(1) nibbles by (auto simp: frame_fields_ok_def config)
  then show ?thesis
    using assms(2) unfolding tn_frame_decode_sw_def frame_fields_ok_def body
    by (simp add: config frame_header_fields(2-) Let_def TN_FRAME_OVERHEAD_sw_def TN_FRAME_TRAILER_sw_def)
qed

text \<open>
  Property C20: frame round trip, with and without the checksum trailer. For a frame with valid fields that fits the buffer and the MTU, the
  encoder returns the frame's length, writes nothing beyond that length, and the decoder of a node built with the
  same switch returns the same header fields and the same payload bytes.
\<close>

theorem frame_round_trip_sw:
  assumes "payload_ok f" and "frame_fields_ok f"
    and "TN_FRAME_OVERHEAD_sw crc + fr_payload_len f \<le> min cap TREENET_MTU" and "cap \<le> length buf"
  shows "\<exists>buf' g. tn_frame_encode_sw crc buf cap f = (TN_FRAME_OVERHEAD_sw crc + fr_payload_len f, buf') \<and>
    length buf' = length buf \<and>
    drop (TN_FRAME_OVERHEAD_sw crc + fr_payload_len f) buf' = drop (TN_FRAME_OVERHEAD_sw crc + fr_payload_len f) buf \<and>
    tn_frame_decode_sw crc (Some buf') (TN_FRAME_OVERHEAD_sw crc + fr_payload_len f) = Some g \<and>
    g\<lparr>fr_payload := fr_payload f\<rparr> = f \<and> frame_data g = frame_data f"
proof -
  let ?n = "TN_FRAME_OVERHEAD_sw crc + fr_payload_len f"
  note len = length_frame_wire_sw [OF assms(1), of crc]
  have put: "put_bytes buf 0 (frame_wire_sw crc f) = frame_wire_sw crc f @ drop ?n buf" by (simp add: put_bytes_def len)
  have full: "length (put_bytes buf 0 (frame_wire_sw crc f)) = length buf"
    using assms(3,4) by (intro length_put_bytes) (simp add: len)
  obtain rest where dec: "tn_frame_decode_sw crc (Some (frame_wire_sw crc f @ drop ?n buf)) ?n =
      Some (f\<lparr>fr_payload := Some (frame_data f @ rest)\<rparr>)"
  proof (cases crc)
    case True
    then have "tn_frame_decode_sw crc (Some (frame_wire_sw crc f @ drop ?n buf)) ?n =
        Some (f\<lparr>fr_payload := Some (frame_data f @ u16_bytes (crc16_ccitt_false (frame_body f)) @ drop ?n buf)\<rparr>)"
      using tn_frame_decode_wire [OF assms(1,2), of "drop ?n buf"]
      by (simp add: default_switches frame_wire_sw_True TN_FRAME_OVERHEAD_sw_def TN_FRAME_TRAILER_sw_def TN_FRAME_HDR_def)
    then show thesis by (rule that)
  next
    case False
    then have "tn_frame_decode_sw crc (Some (frame_wire_sw crc f @ drop ?n buf)) ?n = Some (f\<lparr>fr_payload := Some (frame_data f @ drop ?n buf)\<rparr>)"
      using decode_bare_body [OF assms(1,2), of "drop ?n buf" 0]
      by (simp add: frame_wire_sw_def TN_FRAME_OVERHEAD_sw_def TN_FRAME_TRAILER_sw_def TN_FRAME_HDR_def)
    then show thesis by (rule that)
  qed
  have "frame_data (f\<lparr>fr_payload := Some (frame_data f @ rest)\<rparr>) = frame_data f"
    using length_frame_data [OF assms(1)] by (simp add: frame_data_def [of "f\<lparr>fr_payload := _\<rparr>"])
  then show ?thesis
    unfolding encode_sw_wire [OF assms(1,3,4)] using full dec len by (simp add: put)
qed

theorem frame_round_trip_sw_witness:
  "(\<exists>buf' g. tn_frame_encode_sw True (replicate 30 0) 30 frame_example = (25, buf') \<and>
     tn_frame_decode_sw True (Some buf') 25 = Some g \<and> frame_data g = [1, 2, 3]) \<and>
   (\<exists>buf' g. tn_frame_encode_sw False (replicate 30 0) 30 frame_example = (23, buf') \<and>
     tn_frame_decode_sw False (Some buf') 23 = Some g \<and> frame_data g = [1, 2, 3])"
proof -
  have f: "payload_ok frame_example" "frame_fields_ok frame_example" "fr_payload_len frame_example = 3" "frame_data frame_example = [1, 2, 3]"
    by (simp_all add: payload_ok_def frame_fields_ok_def frame_example_def frame_data_def config)
  have ov: "TN_FRAME_OVERHEAD_sw True = 22" "TN_FRAME_OVERHEAD_sw False = 20" "TREENET_MTU = 200"
    by (simp_all add: TN_FRAME_OVERHEAD_sw_def TN_FRAME_TRAILER_sw_def config)
  show ?thesis
    using frame_round_trip_sw [OF f(1,2), of True 30 "replicate 30 0"] frame_round_trip_sw [OF f(1,2), of False 30 "replicate 30 0"]
    unfolding f(3,4) ov by auto
qed

text \<open>Networks that mix the two settings: a node without the check accepts a checked frame and hands the trailer up with the payload.\<close>

lemma trailer_becomes_payload:
  assumes "payload_ok f" and "frame_fields_ok f"
  shows "\<exists>g. tn_frame_decode_sw False (Some (frame_wire f)) (22 + fr_payload_len f) = Some g \<and>
    frame_data g = frame_data f @ u16_bytes (crc16_ccitt_false (frame_body f))"
proof -
  let ?c = "u16_bytes (crc16_ccitt_false (frame_body f))"
  let ?g = "f\<lparr>fr_payload := Some (frame_data f @ ?c), fr_payload_len := fr_payload_len f + 2\<rparr>"
  have n: "22 + fr_payload_len f = 20 + fr_payload_len f + 2" by simp
  have "tn_frame_decode_sw False (Some (frame_wire f)) (22 + fr_payload_len f) = Some ?g"
    unfolding n frame_wire_def by (rule decode_bare_body [OF assms])
  moreover have "frame_data (f\<lparr>fr_payload := Some xs, fr_payload_len := k\<rparr>) = take k xs" for xs k by (simp add: frame_data_def)
  then have "frame_data ?g = frame_data f @ ?c" using length_frame_data [OF assms(1)] by simp
  ultimately show ?thesis by blast
qed

section \<open>Without the fragmentation layer\<close>

text \<open>What a fragment of a datagram carries: its four header bytes and its part of the data.\<close>

definition frag_bytes :: "u16 \<Rightarrow> u8 list \<Rightarrow> nat \<Rightarrow> nat \<Rightarrow> u8 list" where
  "frag_bytes gid p len i =
     tn_frag_encode (replicate 4 0) \<lparr>fh_dgram_id = gid, fh_index = of_nat i, fh_count = of_nat (frag_count len)\<rparr> @
     take (chunk_size len i) (drop (i * TN_FRAG_CHUNK) p)"

lemma carries_frag_bytes:
  assumes "0 < len" and "len \<le> TREENET_MAX_DATAGRAM" and "len \<le> length p" and "i < frag_count len" and "carries_frag src gid p len i f"
  shows "fr_src f = src" and "frame_data f = frag_bytes gid p len i"
  using assms(5) frag_payload_eq [OF assms(1-4), of gid]
  by (auto simp: carries_frag_def frag_bytes_def config split: prod.splits)

text \<open>
  Property C34: a node built without the fragmentation layer. It sends what fits one frame exactly as a node with the layer does, and refuses
  everything else with an error and an unchanged transmit queue. But the layer's flag is ignored on reception: if a
  node with the layer sends it a datagram in fragments, its application is handed every fragment as a datagram of
  its own, beginning with the four bytes of the fragment header.
\<close>

theorem without_fragmentation:
  assumes "0 < len" and "len \<le> TREENET_MAX_DATAGRAM" and "len \<le> length p"
  shows "(if len \<le> TREENET_MTU - TN_FRAME_OVERHEAD then tn_send_datagram_sw False t dst (Some p) len flood = tn_send_datagram t dst (Some p) len flood
      else fst (tn_send_datagram_sw False t dst (Some p) len flood) \<in> {- 2, - 3} \<and>
        nd_tx (snd (tn_send_datagram_sw False t dst (Some p) len flood)) = nd_tx t) \<and>
    (\<forall>i<frag_count len. \<forall>f. carries_frag src gid p len i f \<longrightarrow>
      tn_deliver_sw False d f rssi snr = deliver_up (TN_STAT_INC st_datagrams_rx_update d) src (frag_bytes gid p len i) rssi snr
        (TREENET_MAX_HOPS - fr_hop_limit f))"
proof (intro conjI allI impI)
  show "if len \<le> TREENET_MTU - TN_FRAME_OVERHEAD then tn_send_datagram_sw False t dst (Some p) len flood = tn_send_datagram t dst (Some p) len flood
      else fst (tn_send_datagram_sw False t dst (Some p) len flood) \<in> {- 2, - 3} \<and>
        nd_tx (snd (tn_send_datagram_sw False t dst (Some p) len flood)) = nd_tx t"
    using assms(1,2) unfolding tn_send_datagram_sw_def tn_send_datagram_def Let_def case_prod_unfold by simp
  fix i f assume "i < frag_count len" and "carries_frag src gid p len i f"
  then show "tn_deliver_sw False d f rssi snr = deliver_up (TN_STAT_INC st_datagrams_rx_update d) src (frag_bytes gid p len i) rssi snr
      (TREENET_MAX_HOPS - fr_hop_limit f)"
    using carries_frag_bytes [OF assms] by (simp add: tn_deliver_sw_def deliver_up_def Let_def split: option.split)
qed

text \<open>A datagram of 200 bytes: refused without the layer, and its first fragment handed up with its header.\<close>

theorem without_fragmentation_witness:
  "fst (tn_send_datagram_sw False (node_joined 2 3) 9 (Some (replicate 200 7)) 200 False) \<in> {- 2, - 3} \<and>
   tn_deliver_sw False (node_joined 9 4) (frag_frame (node_joined 2 3) False 9 TN_FLAG_FRAG 1 0 (replicate 200 7) 200 0) (- 80) 5 =
     deliver_up (TN_STAT_INC st_datagrams_rx_update (node_joined 9 4)) 2 ([0, 0, 0, 2] @ replicate 174 7) (- 80) 5 0"
proof -
  let ?p = "replicate 200 (7 :: u8)" and ?f = "frag_frame (node_joined 2 3) False 9 TN_FLAG_FRAG 1 0 (replicate 200 7) 200 0"
  have len: "(0 :: nat) < 200" "200 \<le> TREENET_MAX_DATAGRAM" "200 \<le> length ?p" "0 < frag_count 200" "\<not> 200 \<le> TREENET_MTU - TN_FRAME_OVERHEAD"
    by (simp_all add: config frag_count_def)
  have pok: "payload_ok ?f"
    using frag_frame_ok(1) [of "\<lambda>_. True" "node_joined 2 3" False 9] node_joined_listens [of 2 3] by (simp add: listens_def frame_ok_def config)
  have "carries_frag 2 0 ?p 200 0 ?f"
    using pok by (simp add: carries_frag_def frag_frame_def data_frame_def frame_data_def split: prod.splits)
  moreover have "tn_frag_encode (replicate 4 0) \<lparr>fh_dgram_id = 0, fh_index = 0, fh_count = 2\<rparr> = [0, 0, 0, 2]" by code_simp
  then have "frag_bytes 0 ?p 200 0 = [0, 0, 0, 2] @ replicate 174 7"
    by (simp add: frag_bytes_def chunk_size_def frag_count_def config)
  moreover have "fr_hop_limit ?f = TREENET_MAX_HOPS" by (simp add: frag_frame_def data_frame_def split: prod.split)
  ultimately show ?thesis
    using without_fragmentation [OF len(1-3), of "node_joined 2 3" 9 False 2 0 "node_joined 9 4" "- 80" 5] len(4,5) by auto
qed

section \<open>Compile-time checks\<close>

text \<open>The remaining \<open>#error\<close> conditions of the sources, beside those of \<open>config.h\<close>.\<close>

definition frame_check :: "bool \<Rightarrow> bool" where
  "frame_check crc \<longleftrightarrow> \<not> TREENET_MTU \<le> TN_FRAME_OVERHEAD_sw crc"

definition frag_check :: bool where
  "frag_check \<longleftrightarrow> \<not> TREENET_MTU \<le> TN_FRAME_OVERHEAD + TN_FRAG_HDR_LEN"

definition mask_check :: bool where
  "mask_check \<longleftrightarrow> \<not> TREENET_MAX_FRAGMENTS > 16"

definition ring_check :: bool where
  "ring_check \<longleftrightarrow> \<not> TREENET_RX_RING_BYTES AND (TREENET_RX_RING_BYTES - 1) \<noteq> 0"

lemma compile_time_checks_pass: "frame_check crc" frag_check mask_check ring_check
  using is_pow2_power [of 10]
  by (simp_all add: frame_check_def frag_check_def mask_check_def ring_check_def TN_FRAME_OVERHEAD_sw_def TN_FRAME_TRAILER_sw_def config is_pow2_def)

end
