(* ===== verification/Tn_Shape.thy ===== *)
theory Tn_Shape
  imports Tn_Safety Tn_Journey
begin

text \<open>
  The types of the instance. The C declarations of \<open>struct treenet\<close> and its parts (\<open>src/core/internal.h\<close>, \<open>link/neighbor.h\<close>,
  \<open>routing/routing.h\<close>, \<open>mac/dupcache.h\<close>, \<open>core/ringbuf.h\<close>) give every array a fixed size, which the lists of the model do not
  have by their type. \<open>instance_shape\<close> states the declared sizes and the ranges of the cursors into them, and
  \<open>instance_well_typed\<close> shows that every reachable instance keeps them.
\<close>

section \<open>Declared sizes\<close>

definition tx_slot_shape :: "tn_tx_slot_t \<Rightarrow> bool" where
  "tx_slot_shape s \<longleftrightarrow> length (tx_buf s) = TREENET_MTU \<and> (tx_valid s \<longrightarrow> unat (tx_len s) \<le> TREENET_MTU)"

definition reasm_shape :: "tn_reasm_t \<Rightarrow> bool" where
  "reasm_shape r \<longleftrightarrow> length (re_buf r) = TREENET_MAX_DATAGRAM \<and> length (re_frag_len r) = TREENET_MAX_FRAGMENTS \<and>
     (re_valid r \<longrightarrow> unat (re_count r) \<le> TREENET_MAX_FRAGMENTS)"

definition eventq_shape :: "tn_eventq_t \<Rightarrow> bool" where
  "eventq_shape q \<longleftrightarrow> length (eq_ev q) = TREENET_EVENT_QUEUE_SIZE \<and> length (eq_arg q) = TREENET_EVENT_QUEUE_SIZE \<and>
     unat (eq_head q) < TREENET_EVENT_QUEUE_SIZE \<and> unat (eq_tail q) < TREENET_EVENT_QUEUE_SIZE \<and>
     unat (eq_count q) \<le> TREENET_EVENT_QUEUE_SIZE"

definition ringbuf_shape :: "tn_ringbuf_t \<Rightarrow> bool" where
  "ringbuf_shape rb \<longleftrightarrow> length (rb_buf rb) = TREENET_RX_RING_BYTES \<and> unat (rb_capacity rb) = TREENET_RX_RING_BYTES \<and>
     unat (rb_tail rb - rb_head rb) \<le> TREENET_RX_RING_BYTES"

definition instance_shape :: "'w treenet \<Rightarrow> bool" where
  "instance_shape t \<longleftrightarrow>
     length (nt_entries (nd_neighbors t)) = TREENET_MAX_NEIGHBORS \<and> unat (nt_count (nd_neighbors t)) \<le> TREENET_MAX_NEIGHBORS \<and>
     length (rt_entries (nd_routes t)) = TREENET_MAX_ROUTES \<and> unat (rt_count (nd_routes t)) \<le> TREENET_MAX_ROUTES \<and>
     length (du_entries (nd_dup t)) = TREENET_DUP_CACHE_SIZE \<and> ringbuf_shape (nd_rx t) \<and>
     length (nd_tx t) = TREENET_TX_QUEUE_SIZE \<and> list_all tx_slot_shape (nd_tx t) \<and>
     length (nd_reasm t) = TREENET_REASSEMBLY_SLOTS \<and> list_all reasm_shape (nd_reasm t) \<and> eventq_shape (nd_events t)"

section \<open>The storage of the receive ring stays\<close>

lemma rx_loop_capacity: "rb_capacity (nd_rx (rx_loop t meta buf)) = rb_capacity (nd_rx t)"
proof (induction t meta buf rule: rx_loop.induct)
  case (1 t meta buf)
  obtain ok rb meta' buf' where pop: "tn_ringbuf_pop (nd_rx t) meta buf TREENET_MTU = (ok, rb, meta', buf')" by (metis prod_cases4)
  have "rb_capacity rb = rb_capacity (nd_rx t)" using ring_ops_capacity(2) [of "nd_rx t" meta buf TREENET_MTU] pop by simp
  then show ?case
    using 1 [OF pop [symmetric] refl refl refl] nd_staticD(8) [OF rx_one_keeps, of "t\<lparr>nd_rx := rb\<rparr>"]
    by (cases ok) (simp_all add: rx_loop.simps [of t] pop)
qed

lemma poll_capacity: "rb_capacity (nd_rx (treenet_poll_node t)) = rb_capacity (nd_rx t)"
proof -
  have "nd_rx (port_timer_arm x d) = nd_rx x" "nd_rx (poll_maintenance x) = nd_rx x" "nd_rx (tn_tx_poll x) = nd_rx x"
    "nd_rx (tn_events_flush x) = nd_rx x" "nd_rx (tn_routing_tick x now) = nd_rx x" "nd_rx (tn_beacon_tick x now) = nd_rx x"
    for x :: "'a treenet" and d now
    by (rule nd_staticD(8); simp)+
  then show ?thesis by (simp add: treenet_poll_node_def Let_def case_prod_unfold tn_rx_drain_def rx_loop_capacity)
qed

lemma node_step_capacity:
  assumes "node_step E t t'"
  shows "rb_capacity (nd_rx t') = rb_capacity (nd_rx t)"
  using assms
proof cases
  case (step_rx len p rssi snr)
  then show ?thesis by (simp add: treenet_rx_node_def Let_def case_prod_unfold ring_ops_capacity)
next
  case (step_send len p dst)
  then show ?thesis by (simp add: nd_staticD(8) [of "snd (treenet_send_node t dst (Some p) len)" t])
next
  case (step_broadcast len p)
  then show ?thesis by (simp add: nd_staticD(8) [of "snd (treenet_broadcast_node t (Some p) len)" t])
qed (simp_all add: poll_capacity)

lemma init_capacity: "rb_capacity (nd_rx (init_node cfg port w)) = of_nat TREENET_RX_RING_BYTES"
proof -
  have "nd_rx (snd (tn_routing_select_parent x now)) = nd_rx x" "nd_rx (tn_probe_send x) = nd_rx x" for x :: "'a treenet" and now
    by (rule nd_staticD(8); simp)+
  then show ?thesis
    using is_pow2_power [of 10]
    by (simp add: init_node_def Let_def case_prod_unfold init_lora_def) (simp add: tn_ringbuf_init_def config)
qed

lemma reachable_capacity:
  assumes "node_reachable cfg port w E t"
  shows "rb_capacity (nd_rx t) = of_nat TREENET_RX_RING_BYTES"
proof -
  obtain sz st ssz t0 where init: "treenet_init sz st ssz (Some cfg) (Some port) w = Some t0" and run: "(node_step E)\<^sup>*\<^sup>* t0 t"
    using assms by (auto simp: node_reachable_def)
  have "rb_capacity (nd_rx t) = rb_capacity (nd_rx t0)" using run by induction (use node_step_capacity in metis)+
  then show ?thesis using init init_capacity by (auto simp: treenet_init_def split: if_splits)
qed

section \<open>Every reachable instance is well typed\<close>

lemma slots_wf_count: "slots_wf valid key n xs count \<Longrightarrow> length xs = n \<and> unat count \<le> n"
  by (auto simp: slots_wf_def used_slots_def)

lemma node_inv_shape:
  assumes "node_inv Q t" and "rb_capacity (nd_rx t) = of_nat TREENET_RX_RING_BYTES"
  shows "instance_shape t"
proof -
  note inv = node_invD [OF assms(1)]
  have "neighbor_wf (nd_neighbors t)" "route_wf (nd_routes t)"
    using neighbors_inv_wf [OF inv(6)] inv(7) by (auto simp: routes_inv_def)
  then have tables: "length (nt_entries (nd_neighbors t)) = TREENET_MAX_NEIGHBORS \<and> unat (nt_count (nd_neighbors t)) \<le> TREENET_MAX_NEIGHBORS"
      "length (rt_entries (nd_routes t)) = TREENET_MAX_ROUTES \<and> unat (rt_count (nd_routes t)) \<le> TREENET_MAX_ROUTES"
    unfolding neighbor_wf_def route_wf_def by (blast dest: slots_wf_count)+
  have "ring_wf (nd_rx t)" using inv(9) by (auto simp: rx_ok_def ring_repr_def)
  then have ring: "ringbuf_shape (nd_rx t)" using assms(2) by (simp add: ringbuf_shape_def ring_wf_def tn_ringbuf_used_def config)
  have tx: "length (nd_tx t) = TREENET_TX_QUEUE_SIZE" "list_all tx_slot_shape (nd_tx t)"
    using inv(10) by (auto simp: txq_ok_def tx_slot_ok_def tx_slot_shape_def list_all_iff)
  have reasm: "length (nd_reasm t) = TREENET_REASSEMBLY_SLOTS" "list_all reasm_shape (nd_reasm t)"
    using inv(11) by (auto simp: reasm_ok_def reasm_slot_ok_def reasm_shape_def list_all_iff)
  have "eventq_shape (nd_events t)" using inv(12) by (simp add: eventq_wf_def eventq_shape_def config)
  with tables ring tx reasm show ?thesis using inv(8) by (simp add: instance_shape_def dupcache_wf_def)
qed

text \<open>
  Property C24: the types of the C declarations hold. In every state of a node reachable from a successful \<open>treenet_init\<close> by polling, receiving
  arbitrary buffers, sending and broadcasting, every array of the instance has its declared number of elements,
  the cursors and counters of the event queue, the tables, the ring and the reassembly slots are
  indices into them, and the ring never holds more bytes than its storage.
\<close>

theorem instance_well_typed:
  assumes "node_reachable cfg port w E t" and "cfg_ok (\<lambda>_. True) cfg"
  shows "instance_shape t"
proof -
  have "node_inv (\<lambda>_. True) t" by (rule node_reachable_inv [OF assms(1) _ assms(2)]) simp_all
  then show ?thesis using reachable_capacity [OF assms(1)] by (rule node_inv_shape)
qed

theorem instance_well_typed_witness: "instance_shape (treenet_poll_node (node_fresh TREENET_ROLE_NODE 2))"
  using instance_well_typed [OF node_fresh_reachable [of 2 TREENET_ROLE_NODE "\<lambda>_ _. True"]] by simp

end
