(* ===== verification/Tn_Transmit.thy ===== *)
theory Tn_Transmit
  imports Tn_Hop Tn_Safety
begin

text \<open>
  The transmit scheduler over time: what a poll does to a frame that waits in the transmit queue, and that a frame no node acknowledges
  is transmitted a fixed number of times and then given up.
\<close>

section \<open>Frames other than data\<close>

text \<open>The low half of the first byte of a frame is its type.\<close>

lemma header_type: "(frame_header f @ r) ! 0 AND 0x0F = fr_type f AND 0x0F"
  unfolding frame_header_fields(1) nibbles(2) ..

lemma wire_type: "frame_wire f ! 0 AND 0x0F = fr_type f AND 0x0F"
  unfolding frame_wire_def frame_body_def append_assoc by (rule header_type)

lemma encode_type:
  assumes "payload_ok g" and "tn_frame_encode buf cap g = (n, out)" and "n \<noteq> 0"
  shows "n \<le> TREENET_MTU" and "out ! 0 AND 0x0F = fr_type g AND 0x0F"
proof -
  let ?b = "20 + fr_payload_len g"
  have "\<not> (fr_payload_len g > 0 \<and> fr_payload g = None)" using assms(1) by (auto simp: payload_ok_def)
  then have "n = ?b + 2 \<and> n \<le> TREENET_MTU \<and>
      out = put_bytes (put_bytes buf 0 (frame_body g)) ?b (u16_bytes (tn_frame_crc (put_bytes buf 0 (frame_body g)) ?b))"
    using assms(2,3) unfolding tn_frame_encode_def Let_def TN_FRAME_HDR_def TN_FRAME_TRAILER_def TN_FRAME_OFF_PREV_def
      tn_put_bytes header_written body_written [OF assms(1)]
    by (auto split: if_splits)
  then have "n \<le> TREENET_MTU" "\<exists>r. out = frame_header g @ r"
    by (auto simp: put_bytes_put_bytes_adjacent length_frame_body [OF assms(1)]) (simp add: put_bytes_def frame_body_def)
  then show "n \<le> TREENET_MTU" "out ! 0 AND 0x0F = fr_type g AND 0x0F" using header_type by auto
qed

text \<open>A node queues three kinds of frames of its own accord, none of them a data frame.\<close>

definition own_control :: "tn_frame_t \<Rightarrow> bool" where
  "own_control g \<longleftrightarrow> payload_ok g \<and> fr_type g \<in> {TREENET_FRAME_BEACON, TREENET_FRAME_DAO, TREENET_FRAME_PROBE}"

lemma own_control_frames [simp]:
  "own_control (beacon_frame t seq)" "own_control (dao_frame t origin hops seq)" "own_control (probe_frame t seq)"
  by (simp_all add: own_control_def beacon_frame_def dao_frame_def probe_frame_def payload_ok_def frame_zero_def
      tn_beacon_encode_def tn_dao_encode_def config)

definition data_bytes :: "u8 list \<Rightarrow> bool" where
  "data_bytes bs \<longleftrightarrow> bs ! 0 AND 0x0F = TREENET_FRAME_DATA"

lemma data_bytes_wire: "fr_type f = TREENET_FRAME_DATA \<Longrightarrow> data_bytes (frame_wire f)"
  by (simp add: data_bytes_def wire_type config)

section \<open>What other work does to the frame\<close>

text \<open>No slot but \<open>i\<close> holds the bytes \<open>bs\<close>.\<close>

definition alone :: "nat \<Rightarrow> u8 list \<Rightarrow> 'w treenet \<Rightarrow> bool" where
  "alone i bs t \<longleftrightarrow> (\<forall>j<length (nd_tx t). j \<noteq> i \<longrightarrow> tx_valid (nd_tx t ! j) \<longrightarrow> slot_bytes (nd_tx t ! j) \<noteq> bs)"

abbreviation times_sent :: "('w \<Rightarrow> u8 list list) \<Rightarrow> u8 list \<Rightarrow> 'w treenet \<Rightarrow> nat" where
  "times_sent sent bs t \<equiv> count_list (sent (nd_env t)) bs"

text \<open>
  From \<open>t\<close> to \<open>u\<close>, if only slot \<open>i\<close> holds \<open>bs\<close>: the bytes are not transmitted, no other slot receives them, slot \<open>i\<close> is left
  alone if it is in use, and if it was free it may receive another frame, not transmitted yet.
\<close>

definition calm :: "('w \<Rightarrow> u8 list list) \<Rightarrow> u8 list \<Rightarrow> nat \<Rightarrow> 'w treenet \<Rightarrow> 'w treenet \<Rightarrow> bool" where
  "calm sent bs i t u \<longleftrightarrow> length (nd_tx u) = length (nd_tx t) \<and> (alone i bs t \<longrightarrow> alone i bs u \<and>
     times_sent sent bs u = times_sent sent bs t \<and>
     (nd_tx u ! i = nd_tx t ! i \<or> \<not> tx_valid (nd_tx t ! i) \<and>
        (tx_valid (nd_tx u ! i) \<longrightarrow> tx_attempts (nd_tx u ! i) = 0 \<and> slot_bytes (nd_tx u ! i) \<noteq> bs)))"

lemma calm_same: "nd_tx u = nd_tx t \<Longrightarrow> sent (nd_env u) = sent (nd_env t) \<Longrightarrow> calm sent bs i t u"
  by (simp add: calm_def alone_def)

lemma calm_trans [trans]: "calm sent bs i t u \<Longrightarrow> calm sent bs i u v \<Longrightarrow> calm sent bs i t v"
  by (auto simp: calm_def)

lemma calm_congL: "nd_tx t = nd_tx t' \<Longrightarrow> sent (nd_env t) = sent (nd_env t') \<Longrightarrow> calm sent bs i t u = calm sent bs i t' u"
  by (simp add: calm_def alone_def)

lemma calm_congR: "nd_tx u = nd_tx u' \<Longrightarrow> sent (nd_env u) = sent (nd_env u') \<Longrightarrow> calm sent bs i t u = calm sent bs i t u'"
  by (simp add: calm_def alone_def)

text \<open>The functions of a port that records transmissions, other than transmitting.\<close>

lemma port_sent [simp]:
  assumes "port_logs sent (nd_port t)"
  shows "sent (nd_env (snd (port_rnd t))) = sent (nd_env t)" "sent (nd_env (snd (port_now_ms t))) = sent (nd_env t)"
    "sent (nd_env (tn_log t level msg)) = sent (nd_env t)" "sent (nd_env (port_timer_arm t d)) = sent (nd_env t)"
  using assms by (auto simp: port_logs_def port_rnd_def port_now_ms_def tn_log_def port_timer_arm_def case_prod_unfold Let_def split: option.split)

lemma submit_sent:
  assumes "port_logs sent (nd_port t)"
  shows "sent (nd_env (snd (tn_tx_submit t g reliable nh d))) = sent (nd_env t)"
  using assms unfolding tn_tx_submit_def by (simp add: Let_def case_prod_unfold TN_STAT_INC_def split: option.split)

lemma submit_calm:
  assumes "port_logs sent (nd_port t)" and "data_bytes bs" and "own_control g"
  shows "calm sent bs i t (snd (tn_tx_submit t g reliable nh d))"
proof (cases "free_slot t")
  case None
  then show ?thesis by (simp add: submit_full calm_same TN_STAT_INC_def del: find_index_None_iff)
next
  case (Some k)
  obtain n out where enc: "tn_frame_encode (tx_buf (nd_tx t ! k)) TREENET_MTU (g\<lparr>fr_prev := nd_addr t\<rparr>) = (n, out)" by fastforce
  have ok: "payload_ok (g\<lparr>fr_prev := nd_addr t\<rparr>)" using assms(3) by (simp add: own_control_def payload_ok_def cong: option.case_cong)
  have other: "take (unat (of_nat n :: u16)) out \<noteq> bs" if "n \<noteq> 0"
  proof -
    note type = encode_type [OF ok enc that]
    have "unat (of_nat n :: u16) = n" using type(1) by (intro unat_of_nat_lt) (simp add: config)
    moreover have "out ! 0 AND 0x0F \<noteq> TREENET_FRAME_DATA" using type(2) assms(3) by (auto simp: own_control_def config)
    ultimately show ?thesis using assms(2) that by (auto simp: data_bytes_def)
  qed
  note k = find_index_SomeD(1,2) [OF Some]
  show ?thesis
    using k other submit_sent [OF assms(1), of g reliable nh d]
    unfolding tn_tx_submit_def Some option.case Let_def enc prod.case case_prod_unfold
    by (auto simp: calm_def alone_def slot_bytes_def nth_list_update)
qed


section \<open>The stages of a poll\<close>

text \<open>Emitting an event, counting and changes of other fields leave the queue and the port alone.\<close>

lemma calm_updates [simp]:
  "calm sent bs i t (tn_emit_event u ev arg) = calm sent bs i t u" "calm sent bs i t (TN_STAT_INC g u) = calm sent bs i t u"
  "calm sent bs i t (u\<lparr>nd_dao_last_ms := n\<rparr>) = calm sent bs i t u" "calm sent bs i t (u\<lparr>nd_probe_last_ms := n\<rparr>) = calm sent bs i t u"
  by (simp_all add: calm_def alone_def tn_emit_event_def TN_STAT_INC_def)

lemma calm_start [simp]:
  "calm sent bs i (snd (tn_next_seq t)) u = calm sent bs i t u" "calm sent bs i (tn_emit_event t ev arg) u = calm sent bs i t u"
  "calm sent bs i (TN_STAT_INC g t) u = calm sent bs i t u"
  by (simp_all add: calm_def alone_def tn_next_seq_def tn_emit_event_def TN_STAT_INC_def)

lemma calm_own:
  assumes "port_logs sent (nd_port t)" and "data_bytes bs" and "own_control g"
  shows "calm sent bs i t (snd (tn_tx_submit (snd (tn_next_seq t)) g reliable nh d))"
  using submit_calm [of sent "snd (tn_next_seq t)" bs g i reliable nh d] assms by simp

lemma dao_send_calm: "port_logs sent (nd_port t) \<Longrightarrow> data_bytes bs \<Longrightarrow> calm sent bs i t (tn_dao_send t now)"
  using calm_own [of sent t bs] by (simp add: tn_dao_send_def Let_def case_prod_unfold calm_same)

lemma probe_send_calm: "port_logs sent (nd_port t) \<Longrightarrow> data_bytes bs \<Longrightarrow> calm sent bs i t (tn_probe_send t)"
  using calm_own [of sent t bs] by (simp add: tn_probe_send_def Let_def case_prod_unfold)

lemma schedule_calm: "port_logs sent (nd_port t) \<Longrightarrow> calm sent bs i t (beacon_schedule t now)"
  by (intro calm_same) (simp_all add: beacon_schedule_def Let_def case_prod_unfold)

lemma beacon_reset_calm: "port_logs sent (nd_port t) \<Longrightarrow> calm sent bs i t (tn_beacon_reset t now)"
  using schedule_calm [of sent "t\<lparr>nd_trickle_I := TREENET_BEACON_MIN_MS\<rparr>" bs i now]
  by (simp add: tn_beacon_reset_def calm_congL [of "t\<lparr>nd_trickle_I := _\<rparr>" t])

lemma beacon_tick_calm:
  assumes "port_logs sent (nd_port t)" and "data_bytes bs"
  shows "calm sent bs i t (tn_beacon_tick t now)"
proof -
  define x where "x = t\<lparr>nd_beacon_timer := snd (tn_timer_fire (nd_beacon_timer t) now)\<rparr>"
  have x: "nd_tx x = nd_tx t" "nd_env x = nd_env t" "nd_port x = nd_port t" by (simp_all add: x_def)
  have start: "calm sent bs i x u = calm sent bs i t u" for u by (rule calm_congL) (simp_all add: x)
  have sched: "calm sent bs i t (beacon_schedule (y\<lparr>nd_trickle_I := n\<rparr>) now)" if "calm sent bs i t y" "nd_port y = nd_port t" for y n
    by (rule calm_trans [OF that(1)])
      (use schedule_calm [of sent "y\<lparr>nd_trickle_I := n\<rparr>" bs i now] that(2) assms(1) in \<open>simp add: calm_congL [of "y\<lparr>nd_trickle_I := _\<rparr>" y]\<close>)
  have own: "calm sent bs i t (snd (tn_tx_submit (snd (tn_next_seq x)) g reliable nh d))" if "own_control g" for g reliable nh d
    using calm_own [of sent x bs g i reliable nh d] assms that start x(3) by simp
  have send: "calm sent bs i x (tn_beacon_send x now)"
    unfolding tn_beacon_send_def Let_def case_prod_unfold start by (auto intro!: sched simp: x(3) own)
  then show ?thesis
    unfolding tn_beacon_tick_def Let_def case_prod_unfold x_def [symmetric] start
    by (auto intro: calm_same simp: x)
qed

lemma set_parent_calm:
  assumes "port_logs sent (nd_port t)" and "data_bytes bs"
  shows "calm sent bs i t (routing_set_parent t p r now)"
proof -
  have dao: "calm sent bs i t (tn_dao_send (tn_beacon_reset u now) now)" if "nd_tx u = nd_tx t" "nd_env u = nd_env t" "nd_port u = nd_port t" for u
    using calm_trans [OF beacon_reset_calm [of sent u bs i now] dao_send_calm [of sent "tn_beacon_reset u now" bs i now]] assms that
    by (simp add: calm_congL [of t u])
  show ?thesis
    unfolding routing_set_parent_def Let_def
    by (auto simp: tn_emit_event_def TN_STAT_INC_def dao intro: calm_same)
qed

lemma select_parent_calm:
  assumes "port_logs sent (nd_port t)" and "data_bytes bs"
  shows "calm sent bs i t (snd (tn_routing_select_parent t now))"
proof -
  have set: "calm sent bs i t (routing_set_parent (t\<lparr>nd_rank := k\<rparr>) p r now)" for k p r
    using set_parent_calm [of sent "t\<lparr>nd_rank := k\<rparr>" bs i p r now] assms by (simp add: calm_congL [of "t\<lparr>nd_rank := k\<rparr>" t])
  show ?thesis
    unfolding tn_routing_select_parent_def Let_def case_prod_unfold
    by (auto simp: tn_emit_event_def set set_parent_calm [OF assms] split: option.split intro!: calm_same)
qed

lemma select_parent_calm':
  assumes "port_logs sent (nd_port t)" and "data_bytes bs" and "nd_tx u = nd_tx t" and "sent (nd_env u) = sent (nd_env t)" and "nd_port u = nd_port t"
  shows "calm sent bs i t (snd (tn_routing_select_parent u now))"
  using select_parent_calm [of sent u bs i now] calm_congL [of u t sent bs i] assms by simp

lemma link_ack_calm:
  assumes "port_logs sent (nd_port t)" and "data_bytes bs"
  shows "calm sent bs i t (tn_link_ack_result t dst ok)"
  unfolding tn_link_ack_result_def Let_def by (auto simp: select_parent_calm' [OF assms] split: option.split intro: calm_same)

lemma parent_lost_calm:
  assumes "port_logs sent (nd_port t)" and "data_bytes bs" and "nd_tx u = nd_tx t" and "sent (nd_env u) = sent (nd_env t)" and "nd_port u = nd_port t"
  shows "calm sent bs i t (tn_routing_on_parent_lost u now)"
  unfolding tn_routing_on_parent_lost_def Let_def
  by (rule select_parent_calm' [OF assms(1,2)]) (simp_all add: tn_emit_event_def assms(3-5))

lemma log_fields [simp]: "nd_tx (tn_log t level msg) = nd_tx t" "nd_port (tn_log t level msg) = nd_port t"
  by (simp_all add: tn_log_def split: option.split)

lemma routing_tick_calm:
  assumes "port_logs sent (nd_port t)" and "data_bytes bs"
  shows "calm sent bs i t (tn_routing_tick t now)"
  unfolding tn_routing_tick_def by (auto simp: parent_lost_calm [OF assms] assms(1) intro: calm_same)

lemma age_slot_calm:
  assumes "port_logs sent (nd_port t)" and "data_bytes bs"
  shows "calm sent bs i t (age_slot t k)"
  unfolding age_slot_def Let_def by (auto simp: parent_lost_calm [OF assms] tn_emit_event_def intro: calm_same)

lemma foldl_calm:
  assumes "port_logs sent (nd_port t)" and "\<And>t j. port_logs sent (nd_port t) \<Longrightarrow> j \<in> set js \<Longrightarrow> calm sent bs i t (step t j)"
    and "\<And>t j. nd_static (step t j) = nd_static t"
  shows "calm sent bs i t (foldl step t js)"
  using assms(1,2)
proof (induction js arbitrary: t)
  case (Cons j js)
  have "port_logs sent (nd_port (step t j))" using Cons.prems(1) nd_staticD(2) [OF assms(3), of t j] by simp
  then show ?case using calm_trans [OF Cons.prems(2) [of t j] Cons.IH] Cons.prems by simp
qed (simp add: calm_same)

lemma maintenance_calm:
  assumes "port_logs sent (nd_port t)" and "data_bytes bs"
  shows "calm sent bs i t (poll_maintenance t)"
proof -
  let ?r = "t\<lparr>nd_routes := snd (tn_route_expire (nd_routes t) (nd_now_ms t) TREENET_ROUTE_TIMEOUT_MS)\<rparr>"
  define x where "x = tn_expire_reasm (tn_age_neighbors ?r)"
  have port: "nd_port x = nd_port t"
    using nd_staticD(2) [OF loops_keep(1), of ?r] by (simp add: x_def tn_expire_reasm_def)
  have "calm sent bs i ?r (tn_age_neighbors ?r)"
    unfolding tn_age_neighbors_def by (rule foldl_calm) (use assms in \<open>simp_all add: age_slot_calm\<close>)
  then have x: "calm sent bs i t x"
    unfolding x_def tn_expire_reasm_def using calm_congL [of ?r t] calm_congR [of "_\<lparr>nd_reasm := _\<rparr>" "tn_age_neighbors ?r"] by simp
  moreover have "calm sent bs i t (tn_probe_send x)" "calm sent bs i t (tn_dao_send x now)" for now
    using calm_trans [OF x] probe_send_calm [of sent x bs] dao_send_calm [of sent x bs] assms port by auto
  ultimately show ?thesis
    unfolding poll_maintenance_def Let_def x_def [symmetric] by (auto intro: calm_same)
qed

section \<open>The transmit stage\<close>

lemma channel_always_free: "po_channel_free (nd_port t) = None \<Longrightarrow> port_channel_free t = (True, t)"
  by (simp add: port_channel_free_def)

lemma port_tx_sent:
  assumes "port_logs sent (nd_port t)" and "po_tx (nd_port t) \<noteq> None"
  shows "sent (nd_env (snd (port_tx t buf len))) = take len buf # sent (nd_env t)"
  using assms by (auto simp: port_tx_def port_logs_def Let_def case_prod_unfold)

text \<open>The port is one that records transmissions and has no carrier sense.\<close>

definition radio_logs :: "('w \<Rightarrow> u8 list list) \<Rightarrow> 'w treenet \<Rightarrow> bool" where
  "radio_logs sent t \<longleftrightarrow> port_logs sent (nd_port t) \<and> po_tx (nd_port t) \<noteq> None \<and> po_channel_free (nd_port t) = None"

text \<open>A due frame of a slot that still has transmissions left is handed to the radio.\<close>

lemma tx_poll_slot_sends:
  fixes t :: "'w treenet" and i :: nat
  defines "s \<equiv> nd_tx t ! i"
  assumes "tx_valid s" and "\<not> tn_time_after (tx_next_tx_ms s) (nd_now_ms t)" and "\<not> (tx_reliable s \<and> tx_attempts s \<ge> TREENET_MAX_RETRIES)"
    and "radio_logs sent t"
  shows "nd_tx (tx_poll_slot t i) = (nd_tx t)[i := if tx_reliable s
      then s\<lparr>tx_attempts := tx_attempts s + 1, tx_next_tx_ms := nd_now_ms t + TREENET_ACK_TIMEOUT_MS\<rparr> else s\<lparr>tx_valid := False\<rparr>]"
    and "sent (nd_env (tx_poll_slot t i)) = slot_bytes s # sent (nd_env t)"
proof -
  define x where "x = snd (port_tx t (tx_buf s) (unat (tx_len s)))"
  have r: "port_logs sent (nd_port t)" "po_tx (nd_port t) \<noteq> None" "po_channel_free (nd_port t) = None"
    using assms(5) by (simp_all add: radio_logs_def)
  have x: "nd_tx x = nd_tx t" "nd_now_ms x = nd_now_ms t" by (simp_all add: x_def port_tx_def Let_def case_prod_unfold split: option.split)
  have "sent (nd_env x) = slot_bytes s # sent (nd_env t)"
    unfolding x_def slot_bytes_def by (rule port_tx_sent [OF r(1,2)])
  moreover have "nd_tx (tx_poll_slot t i) = (nd_tx t)[i := if tx_reliable s
      then s\<lparr>tx_attempts := tx_attempts s + 1, tx_next_tx_ms := nd_now_ms t + TREENET_ACK_TIMEOUT_MS\<rparr> else s\<lparr>tx_valid := False\<rparr>] \<and>
      nd_env (tx_poll_slot t i) = nd_env x"
    using assms(2-4) x unfolding tx_poll_slot_def Let_def case_prod_unfold s_def [symmetric] channel_always_free [OF r(3)] fst_conv snd_conv x_def [symmetric]
    by (auto simp: TN_STAT_INC_def TN_STAT_ADD_def not_le)
  ultimately show "nd_tx (tx_poll_slot t i) = (nd_tx t)[i := if tx_reliable s
      then s\<lparr>tx_attempts := tx_attempts s + 1, tx_next_tx_ms := nd_now_ms t + TREENET_ACK_TIMEOUT_MS\<rparr> else s\<lparr>tx_valid := False\<rparr>]"
    "sent (nd_env (tx_poll_slot t i)) = slot_bytes s # sent (nd_env t)" by simp_all
qed

text \<open>A due frame that was transmitted often enough is given up: the slot is freed, then the failure of the link is noted.\<close>

lemma tx_poll_slot_gives_up:
  fixes t :: "'w treenet" and j :: nat
  defines "s \<equiv> nd_tx t ! j"
  assumes "tx_valid s" and "\<not> tn_time_after (tx_next_tx_ms s) (nd_now_ms t)" and "tx_reliable s" and "tx_attempts s \<ge> TREENET_MAX_RETRIES"
    and "port_logs sent (nd_port t)" and "data_bytes bs"
  shows "calm sent bs i (t\<lparr>nd_tx := (nd_tx t)[j := s\<lparr>tx_valid := False\<rparr>]\<rparr>) (tx_poll_slot t j)"
proof -
  let ?t = "t\<lparr>nd_tx := (nd_tx t)[j := s\<lparr>tx_valid := False\<rparr>]\<rparr>"
  have "tx_poll_slot t j = tn_emit_event (tn_link_ack_result ?t (tx_ack_dst s) False) TREENET_EV_TX_FAILED Arg_NULL"
    using assms(2-5) unfolding tx_poll_slot_def Let_def s_def [symmetric] by simp
  then show ?thesis using link_ack_calm [of sent ?t bs i "tx_ack_dst s" False] assms(6,7) by simp
qed

lemma tx_poll_slot_idle:
  "\<not> tx_valid (nd_tx t ! j) \<or> tn_time_after (tx_next_tx_ms (nd_tx t ! j)) (nd_now_ms t) \<Longrightarrow> tx_poll_slot t j = t"
  by (auto simp: tx_poll_slot_def Let_def)

lemma tx_poll_other_slot:
  assumes "j \<noteq> i" and "radio_logs sent t" and "data_bytes bs" and "j < length (nd_tx t)"
  shows "calm sent bs i t (tx_poll_slot t j)"
proof -
  let ?s = "nd_tx t ! j"
  let ?t = "t\<lparr>nd_tx := (nd_tx t)[j := ?s\<lparr>tx_valid := False\<rparr>]\<rparr>"
  consider (idle) "\<not> tx_valid ?s \<or> tn_time_after (tx_next_tx_ms ?s) (nd_now_ms t)"
    | (due) "tx_valid ?s" "\<not> tn_time_after (tx_next_tx_ms ?s) (nd_now_ms t)" by blast
  then show ?thesis
  proof cases
    case due
    show ?thesis
    proof (cases "tx_reliable ?s \<and> tx_attempts ?s \<ge> TREENET_MAX_RETRIES")
      case True
      have "calm sent bs i t ?t" using assms(1,4) by (auto simp: calm_def alone_def nth_list_update split: if_splits)
      also have "calm sent bs i ?t (tx_poll_slot t j)"
        using tx_poll_slot_gives_up [OF due] True assms(2,3) by (simp add: radio_logs_def)
      finally show ?thesis .
    next
      case False
      note sends = tx_poll_slot_sends [OF due False assms(2)]
      have "slot_bytes (?s\<lparr>tx_attempts := a, tx_next_tx_ms := n\<rparr>) = slot_bytes ?s" for a n by (simp add: slot_bytes_def)
      then show ?thesis using assms(1,4) due(1) by (auto simp: calm_def alone_def sends nth_list_update)
    qed
  qed (simp add: tx_poll_slot_idle calm_same)
qed

lemma foldl_tx_poll_static: "nd_static (foldl tx_poll_slot t js) = nd_static t"
  by (simp add: foldl_keeps)

lemma radio_logs_static: "nd_static u = nd_static t \<Longrightarrow> radio_logs sent u = radio_logs sent t"
  using nd_staticD(2) [of u t] by (simp add: radio_logs_def)

lemma foldl_other_slots:
  assumes "radio_logs sent t" and "data_bytes bs" and "i \<notin> set js" and "\<forall>j\<in>set js. j < length (nd_tx t)"
  shows "calm sent bs i t (foldl tx_poll_slot t js)"
  using assms(1,3,4)
proof (induction js arbitrary: t)
  case (Cons j js)
  have one: "calm sent bs i t (tx_poll_slot t j)" using Cons.prems by (intro tx_poll_other_slot assms(2)) auto
  then have len: "length (nd_tx (tx_poll_slot t j)) = length (nd_tx t)" by (simp add: calm_def)
  have "calm sent bs i (tx_poll_slot t j) (foldl tx_poll_slot (tx_poll_slot t j) js)"
    using Cons.prems radio_logs_static [of "tx_poll_slot t j" t sent] len by (intro Cons.IH) auto
  then show ?case using calm_trans [OF one] by simp
qed (simp add: calm_same)

lemma tx_poll_split:
  "i < TREENET_TX_QUEUE_SIZE \<Longrightarrow> tn_tx_poll t = foldl tx_poll_slot (tx_poll_slot (foldl tx_poll_slot t [0..<i]) i) [Suc i..<TREENET_TX_QUEUE_SIZE]"
proof -
  assume i: "i < TREENET_TX_QUEUE_SIZE"
  then have "[0..<TREENET_TX_QUEUE_SIZE] = [0..<i] @ i # [Suc i..<TREENET_TX_QUEUE_SIZE]"
    using upt_add_eq_append [of 0 i "TREENET_TX_QUEUE_SIZE - i"] by (simp add: upt_conv_Cons)
  then show ?thesis by (simp add: tn_tx_poll_def)
qed

text \<open>The transmit stage for the one slot that holds the frame: nothing, one more transmission, or the end.\<close>

lemma tx_poll_frame:
  fixes t :: "'w treenet"
  assumes "radio_logs sent t" and "data_bytes (slot_bytes s)" and "i < TREENET_TX_QUEUE_SIZE" and "length (nd_tx t) = TREENET_TX_QUEUE_SIZE"
    and "nd_tx t ! i = s" and "tx_valid s" and "tx_reliable s" and "alone i (slot_bytes s) t"
  defines "u \<equiv> tn_tx_poll t" and "due \<equiv> \<not> tn_time_after (tx_next_tx_ms s) (nd_now_ms t)"
  shows "length (nd_tx u) = TREENET_TX_QUEUE_SIZE"
    and "\<not> due \<Longrightarrow> nd_tx u ! i = s \<and> times_sent sent (slot_bytes s) u = times_sent sent (slot_bytes s) t"
    and "due \<Longrightarrow> tx_attempts s < TREENET_MAX_RETRIES \<Longrightarrow>
      nd_tx u ! i = s\<lparr>tx_attempts := tx_attempts s + 1, tx_next_tx_ms := nd_now_ms t + TREENET_ACK_TIMEOUT_MS\<rparr> \<and>
      times_sent sent (slot_bytes s) u = Suc (times_sent sent (slot_bytes s) t)"
    and "due \<Longrightarrow> tx_attempts s \<ge> TREENET_MAX_RETRIES \<Longrightarrow>
      alone i (slot_bytes s) u \<and> times_sent sent (slot_bytes s) u = times_sent sent (slot_bytes s) t \<and>
      (tx_valid (nd_tx u ! i) \<longrightarrow> tx_attempts (nd_tx u ! i) = 0 \<and> slot_bytes (nd_tx u ! i) \<noteq> slot_bytes s)"
proof -
  let ?bs = "slot_bytes s"
  define a where "a = foldl tx_poll_slot t [0..<i]"
  define b where "b = tx_poll_slot a i"
  have st: "nd_static a = nd_static t" "nd_static b = nd_static t" by (simp_all add: a_def b_def foldl_tx_poll_static)
  note logs = radio_logs_static [OF st(1), of sent] radio_logs_static [OF st(2), of sent]
  have "calm sent ?bs i t a" unfolding a_def using assms(1-4) by (intro foldl_other_slots) auto
  then have a: "length (nd_tx a) = TREENET_TX_QUEUE_SIZE" "alone i ?bs a" "times_sent sent ?bs a = times_sent sent ?bs t" "nd_tx a ! i = s"
    using assms(4-6,8) by (auto simp: calm_def)
  have now: "nd_now_ms a = nd_now_ms t" using nd_staticD(7) [OF st(1)] .
  have split: "u = foldl tx_poll_slot b [Suc i..<TREENET_TX_QUEUE_SIZE]" using tx_poll_split [OF assms(3)] by (simp add: u_def a_def b_def)
  have rest: "calm sent ?bs i b u" if "length (nd_tx b) = TREENET_TX_QUEUE_SIZE"
    unfolding split using assms(1,2) that logs(2) by (intro foldl_other_slots) auto
  have idle: "b = a" if "\<not> due" using that by (auto simp: b_def due_def a(4) now intro: tx_poll_slot_idle)
  have sends: "nd_tx b = (nd_tx a)[i := s\<lparr>tx_attempts := tx_attempts s + 1, tx_next_tx_ms := nd_now_ms t + TREENET_ACK_TIMEOUT_MS\<rparr>]"
      "sent (nd_env b) = ?bs # sent (nd_env a)" if "due" "tx_attempts s < TREENET_MAX_RETRIES"
    using tx_poll_slot_sends [of a i sent] that assms(1,6,7) logs(1) by (simp_all add: b_def due_def a(4) now not_le)
  have gone: "calm sent ?bs i (a\<lparr>nd_tx := (nd_tx a)[i := s\<lparr>tx_valid := False\<rparr>]\<rparr>) b" if "due" "tx_attempts s \<ge> TREENET_MAX_RETRIES"
    using tx_poll_slot_gives_up [of a i sent ?bs i] that assms(1,2,6,7) logs(1) by (simp add: b_def due_def a(4) now radio_logs_def)
  have lb: "length (nd_tx b) = TREENET_TX_QUEUE_SIZE"
    using idle sends(1) gone a(1) by (cases due; cases "tx_attempts s < TREENET_MAX_RETRIES") (auto simp: calm_def not_less)
  show "length (nd_tx u) = TREENET_TX_QUEUE_SIZE" using rest [OF lb] lb by (simp add: calm_def)
  show "nd_tx u ! i = s \<and> times_sent sent ?bs u = times_sent sent ?bs t" if "\<not> due"
    using rest [OF lb] idle [OF that] a assms(6) by (auto simp: calm_def)
  show "nd_tx u ! i = s\<lparr>tx_attempts := tx_attempts s + 1, tx_next_tx_ms := nd_now_ms t + TREENET_ACK_TIMEOUT_MS\<rparr> \<and>
      times_sent sent ?bs u = Suc (times_sent sent ?bs t)" if "due" "tx_attempts s < TREENET_MAX_RETRIES"
  proof -
    have "alone i ?bs b" using a(2) by (simp add: alone_def sends(1) [OF that])
    then show ?thesis using rest [OF lb] sends [OF that] a assms(3,6) by (auto simp: calm_def)
  qed
  show "alone i ?bs u \<and> times_sent sent ?bs u = times_sent sent ?bs t \<and>
      (tx_valid (nd_tx u ! i) \<longrightarrow> tx_attempts (nd_tx u ! i) = 0 \<and> slot_bytes (nd_tx u ! i) \<noteq> ?bs)"
    if "due" "tx_attempts s \<ge> TREENET_MAX_RETRIES"
  proof -
    have "alone i ?bs (a\<lparr>nd_tx := (nd_tx a)[i := s\<lparr>tx_valid := False\<rparr>]\<rparr>)" using a(2) by (simp add: alone_def)
    then show ?thesis using rest [OF lb] gone [OF that] a(1,3) assms(3) by (auto simp: calm_def)
  qed
qed

section \<open>The report to the application\<close>

lemma send_frags_sent:
  "port_logs sent (nd_port t) \<Longrightarrow> sent (nd_env (snd (send_frags flood dst reliable nh gid count p len is t))) = sent (nd_env t)"
proof (induction "is" arbitrary: t)
  case (Cons i "is")
  define x where "x = snd (tn_next_seq t)"
  have x: "nd_port x = nd_port t" "nd_env x = nd_env t" by (simp_all add: x_def tn_next_seq_def)
  have sub: "sent (nd_env (snd (tn_tx_submit x f rel nh d))) = sent (nd_env t)" for f rel nh d
    using submit_sent [of sent x] Cons.prems x by simp
  have "sent (nd_env (snd (send_frags flood dst reliable nh gid count p len is (snd (tn_tx_submit x f rel nh d))))) = sent (nd_env t)" for f rel d
    using Cons.IH [of "snd (tn_tx_submit x f rel nh d)"] Cons.prems x(1) sub by simp
  then show ?case unfolding send_frags.simps Let_def case_prod_unfold x_def [symmetric] by (simp add: sub)
qed simp

lemma send_datagram_sent:
  assumes "port_logs sent (nd_port t)"
  shows "sent (nd_env (snd (tn_send_datagram t dst data len flood))) = sent (nd_env t)"
proof (cases data)
  case (Some p)
  define u where "u = snd (if flood then (TREENET_ADDR_BROADCAST, t) else tn_route_next_hop t dst)"
  define x where "x = snd (tn_next_seq u)"
  have u: "nd_port u = nd_port t" "nd_env u = nd_env t" by (simp_all add: u_def tn_route_next_hop_def Let_def case_prod_unfold split: option.split)
  have x: "nd_port x = nd_port t" "nd_env x = nd_env t" using u by (simp_all add: x_def tn_next_seq_def)
  show ?thesis
    unfolding tn_send_datagram_def Some option.case Let_def case_prod_unfold u_def [symmetric] x_def [symmetric]
    using submit_sent [of sent x] send_frags_sent [of sent x] assms by (simp add: x u)
qed (simp add: tn_send_datagram_def)

lemma public_calls_sent:
  assumes "port_logs sent (nd_port t)"
  shows "sent (nd_env (snd (treenet_broadcast_node t data len))) = sent (nd_env t)"
    "sent (nd_env (snd (treenet_send_node t dst data len))) = sent (nd_env t)"
  using assms by (simp_all add: treenet_broadcast_node_def treenet_send_node_def send_datagram_sent)

lemma run_app_sent: "app_quiet sent a \<Longrightarrow> port_logs sent (nd_port t) \<Longrightarrow> sent (nd_env (run_app a t)) = sent (nd_env t)"
proof (induction a arbitrary: t)
  case (App_send dst data len k)
  then show ?case by (simp add: Let_def public_calls_sent)
next
  case (App_broadcast data len k)
  then show ?case by (simp add: Let_def public_calls_sent)
qed simp_all

lemma flush_loop_keeps_frame:
  assumes "\<And>ev arg. app_quiet sent (g ev arg)" and "port_logs sent (nd_port t)"
  shows "sent (nd_env (flush_loop g t)) = sent (nd_env t) \<and> keeps_slots t (flush_loop g t)"
  using assms
proof (induction g t rule: flush_loop.induct)
  case (1 g t)
  define e where "e = eventq_take (nd_events t)"
  define u where "u = t\<lparr>nd_events := snd e\<rparr>"
  define v where "v = run_app (g (fst (fst e)) (case snd (fst e) of Arg_NULL \<Rightarrow> None | Arg_parent \<Rightarrow> Some (nd_parent u))) u"
  have u: "nd_env u = nd_env t" "nd_port u = nd_port t" "nd_tx u = nd_tx t" by (simp_all add: u_def)
  show ?case
  proof (cases "eq_count (nd_events t) > 0")
    case True
    have step: "flush_loop g t = flush_loop g v"
      using True unfolding v_def u_def e_def by (subst flush_loop.simps) (simp only: Let_def case_prod_unfold if_True)
    have v: "sent (nd_env v) = sent (nd_env t)" "nd_port v = nd_port t"
      unfolding v_def using run_app_sent [OF 1(2), of u] 1(3) u by simp_all
    have "keeps_slots t v" unfolding v_def by (rule run_app_keeps_slots') (simp add: u)
    moreover have "sent (nd_env (flush_loop g v)) = sent (nd_env v) \<and> keeps_slots v (flush_loop g v)"
      unfolding v_def by (rule 1(1) [OF True e_def prod.collapse u_def refl 1(2)]) (use 1(3) u in simp)
    ultimately show ?thesis using keeps_slots_trans v(1) by (auto simp: step)
  qed (simp add: flush_loop.simps [of g t])
qed

lemma report_keeps_frame:
  assumes "port_logs sent (nd_port t)" and "cfg_quiet sent (nd_cfg t)"
  shows "sent (nd_env (poll_report t)) = sent (nd_env t) \<and> keeps_slots t (poll_report t)"
proof -
  let ?e = "tn_events_flush t"
  have "sent (nd_env ?e) = sent (nd_env t) \<and> keeps_slots t ?e"
    unfolding tn_events_flush_def using flush_loop_keeps_frame [of sent _ t] assms by (auto simp: cfg_quiet_def split: option.split)
  moreover have "port_logs sent (nd_port ?e)" using assms(1) nd_staticD(2) [OF housekeeping_keeps(4), of t] by simp
  moreover have "nd_tx (port_timer_arm x d) = nd_tx x" for x :: "'a treenet" and d by (simp add: port_timer_arm_def split: option.split)
  ultimately show ?thesis unfolding poll_report_def Let_def by (auto intro: keeps_slots_tx)
qed

section \<open>One poll of a waiting frame\<close>

text \<open>
  Slot \<open>i\<close> of \<open>t\<close> is \<open>s\<close>: a reliable data frame that waits for its acknowledgement. Nothing is received, the port records transmissions, and
  the callbacks do not reach around the library to the radio.
\<close>

definition waiting :: "('w \<Rightarrow> u8 list list) \<Rightarrow> nat \<Rightarrow> tn_tx_slot_t \<Rightarrow> 'w treenet \<Rightarrow> bool" where
  "waiting sent i s t \<longleftrightarrow> node_inv (\<lambda>_. True) t \<and> nd_initialized t \<and> ring_repr (nd_rx t) [] \<and> radio_logs sent t \<and> cfg_quiet sent (nd_cfg t) \<and>
     i < TREENET_TX_QUEUE_SIZE \<and> nd_tx t ! i = s \<and> tx_valid s \<and> tx_reliable s \<and> data_bytes (slot_bytes s)"

text \<open>The frame in slot \<open>i\<close> is due at the time a poll in the environment \<open>w\<close> reads.\<close>

definition is_due :: "nat \<Rightarrow> 'w treenet \<Rightarrow> 'w \<Rightarrow> bool" where
  "is_due i t w \<longleftrightarrow> \<not> tn_time_after (tx_next_tx_ms (nd_tx t ! i)) (fst (port_now_ms (t\<lparr>nd_env := w\<rparr>)))"

lemma poll_waiting:
  assumes "waiting sent i s t" and "sent w = sent (nd_env t)" and "alone i (slot_bytes s) t"
  defines "u \<equiv> poll_work (poll_clock (t\<lparr>nd_env := w\<rparr>))" and "now \<equiv> fst (port_now_ms (t\<lparr>nd_env := w\<rparr>))"
  shows "poll_in t w = poll_report u" and "length (nd_tx u) = TREENET_TX_QUEUE_SIZE"
    and "times_sent sent bs (poll_in t w) = times_sent sent bs u"
    and "\<not> is_due i t w \<Longrightarrow> waiting sent i s (poll_in t w) \<and> times_sent sent (slot_bytes s) u = times_sent sent (slot_bytes s) t"
    and "is_due i t w \<Longrightarrow> tx_attempts s < TREENET_MAX_RETRIES \<Longrightarrow>
      waiting sent i (s\<lparr>tx_attempts := tx_attempts s + 1, tx_next_tx_ms := now + TREENET_ACK_TIMEOUT_MS\<rparr>) (poll_in t w) \<and>
      times_sent sent (slot_bytes s) u = Suc (times_sent sent (slot_bytes s) t)"
    and "is_due i t w \<Longrightarrow> tx_attempts s \<ge> TREENET_MAX_RETRIES \<Longrightarrow>
      alone i (slot_bytes s) u \<and> times_sent sent (slot_bytes s) u = times_sent sent (slot_bytes s) t \<and>
      (tx_valid (nd_tx u ! i) \<longrightarrow> tx_attempts (nd_tx u ! i) = 0 \<and> slot_bytes (nd_tx u ! i) \<noteq> slot_bytes s)"
proof -
  let ?bs = "slot_bytes s"
  define x where "x = poll_clock (t\<lparr>nd_env := w\<rparr>)"
  define y where "y = poll_maintenance (tn_routing_tick (tn_beacon_tick x (nd_now_ms x)) (nd_now_ms x))"
  have t: "node_inv (\<lambda>_. True) t" "nd_initialized t" "ring_repr (nd_rx t) []" "radio_logs sent t" "cfg_quiet sent (nd_cfg t)"
      "i < TREENET_TX_QUEUE_SIZE" "nd_tx t ! i = s" "tx_valid s" "tx_reliable s" "data_bytes ?bs"
    using assms(1) by (simp_all add: waiting_def)
  have x: "nd_static x = nd_static (t\<lparr>nd_now_ms := now\<rparr>)" "nd_tx x = nd_tx t"
    using nd_queueD(1) [OF poll_clock_fields(4), of "t\<lparr>nd_env := w\<rparr>"] by (simp_all add: x_def now_def) (simp add: nd_static_def)
  have xs: "nd_port x = nd_port t" "nd_now_ms x = now" "nd_rx x = nd_rx t" "nd_cfg x = nd_cfg t" "nd_initialized x"
    using nd_staticD [OF x(1)] t(2) by simp_all
  have logs: "port_logs sent (nd_port t)" using t(4) by (simp add: radio_logs_def)
  have sent_x: "sent (nd_env x) = sent (nd_env t)"
    using port_sent(2) [of sent "t\<lparr>nd_env := w\<rparr>"] logs assms(2) by (simp add: x_def poll_clock_def)
  have len: "length (nd_tx t) = TREENET_TX_QUEUE_SIZE" using node_invD(10) [OF t(1)] by (simp add: txq_ok_def)
  have y_static: "nd_static y = nd_static x" by (simp add: y_def)
  note ys = nd_staticD [OF y_static]
  have "calm sent ?bs i x (tn_beacon_tick x (nd_now_ms x))" using beacon_tick_calm [of sent x ?bs] logs t(10) xs(1) by simp
  also have "calm sent ?bs i \<dots> (tn_routing_tick (tn_beacon_tick x (nd_now_ms x)) (nd_now_ms x))"
    using routing_tick_calm [of sent "tn_beacon_tick x (nd_now_ms x)" ?bs] logs t(10) xs(1) by simp
  also have "calm sent ?bs i \<dots> y"
    unfolding y_def by (rule maintenance_calm) (use logs t(10) xs(1) in simp_all)
  finally have y: "length (nd_tx y) = TREENET_TX_QUEUE_SIZE" "nd_tx y ! i = s" "alone i ?bs y" "times_sent sent bs' y = times_sent sent bs' t" if "bs' = ?bs" for bs'
    using assms(3) len t(7,8) that x(2) sent_x by (auto simp: calm_def alone_def)
  have u: "u = tn_tx_poll y" by (simp add: u_def y_def poll_work_def Let_def x_def)
  have "radio_logs sent y" using t(4) ys(2) xs(1) by (simp add: radio_logs_def)
  note tx = tx_poll_frame [OF this t(10,6) y(1) [OF refl] y(2) [OF refl] t(8,9) y(3) [OF refl], folded u]
  show poll: "poll_in t w = poll_report u"
    using poll_parts [of "t\<lparr>nd_env := w\<rparr>"] drain_empty [of x] t(2,3) xs(3) by (simp add: u_def x_def)
  show "length (nd_tx u) = TREENET_TX_QUEUE_SIZE" by (rule tx(1))
  have us: "nd_static u = nd_static x" using y_static by (simp add: u)
  have report: "sent (nd_env (poll_in t w)) = sent (nd_env u) \<and> keeps_slots u (poll_in t w)"
    unfolding poll by (rule report_keeps_frame) (use nd_staticD(1,2) [OF us] xs(1,4) logs t(5) in simp_all)
  then show "times_sent sent bs (poll_in t w) = times_sent sent bs u" by simp
  have later: "waiting sent i s' (poll_in t w)" if "nd_tx u ! i = s'" "tx_valid s'" "tx_reliable s'" "slot_bytes s' = ?bs" for s'
  proof -
    have "nd_static (poll_in t w) = nd_static u" unfolding poll poll_report_def Let_def by simp
    then have "nd_static (poll_in t w) = nd_static (t\<lparr>nd_now_ms := now\<rparr>)" using us x(1) by simp
    note st = nd_staticD [OF this]
    have "node_inv (\<lambda>_. True) (poll_in t w)" "ring_repr (nd_rx (poll_in t w)) []"
      using t(1) poll_drains [of "\<lambda>_. True" "t\<lparr>nd_env := w\<rparr>"] t(2) by simp_all
    moreover have "nd_tx (poll_in t w) ! i = s'" using report that(1,2) t(6) tx(1) by (simp add: keeps_slots_def)
    ultimately show ?thesis using that st t by (simp add: waiting_def radio_logs_def)
  qed
  have due: "is_due i t w \<longleftrightarrow> \<not> tn_time_after (tx_next_tx_ms s) (nd_now_ms y)"
    using t(7) ys(7) xs(2) by (simp add: is_due_def now_def)
  show "waiting sent i s (poll_in t w) \<and> times_sent sent ?bs u = times_sent sent ?bs t" if "\<not> is_due i t w"
    using tx(2) that later [of s] t(8,9) y(4) by (simp add: due)
  show "waiting sent i (s\<lparr>tx_attempts := tx_attempts s + 1, tx_next_tx_ms := now + TREENET_ACK_TIMEOUT_MS\<rparr>) (poll_in t w) \<and>
      times_sent sent ?bs u = Suc (times_sent sent ?bs t)" if "is_due i t w" "tx_attempts s < TREENET_MAX_RETRIES"
    using tx(3) that later t(8,9) y(4) xs(2) ys(7) by (simp add: due slot_bytes_def)
  show "alone i ?bs u \<and> times_sent sent ?bs u = times_sent sent ?bs t \<and>
      (tx_valid (nd_tx u ! i) \<longrightarrow> tx_attempts (nd_tx u ! i) = 0 \<and> slot_bytes (nd_tx u ! i) \<noteq> ?bs)"
    if "is_due i t w" "tx_attempts s \<ge> TREENET_MAX_RETRIES"
    using tx(4) that y(4) by (simp add: due)
qed


section \<open>The life of a reliable frame\<close>

text \<open>
  Polls in the environments \<open>ws\<close> one after the other, the number of them at which the frame in slot \<open>i\<close> is due, and what is assumed about
  them: between the polls the environment changes without touching the record of transmissions, and no other slot holds the same bytes.
\<close>

primrec polls :: "'w treenet \<Rightarrow> 'w list \<Rightarrow> 'w treenet" where
  "polls t [] = t"
| "polls t (w # ws) = polls (poll_in t w) ws"

primrec due_polls :: "nat \<Rightarrow> 'w treenet \<Rightarrow> 'w list \<Rightarrow> nat" where
  "due_polls i t [] = 0"
| "due_polls i t (w # ws) = (if is_due i t w then 1 else 0) + due_polls i (poll_in t w) ws"

primrec undisturbed :: "('w \<Rightarrow> u8 list list) \<Rightarrow> nat \<Rightarrow> u8 list \<Rightarrow> 'w treenet \<Rightarrow> 'w list \<Rightarrow> bool" where
  "undisturbed sent i bs t [] \<longleftrightarrow> True"
| "undisturbed sent i bs t (w # ws) \<longleftrightarrow> sent w = sent (nd_env t) \<and> alone i bs t \<and> undisturbed sent i bs (poll_in t w) ws"

lemma unat_retry: "a < TREENET_MAX_RETRIES \<Longrightarrow> unat (a + 1) = Suc (unat a)"
  by (auto simp: word_less_nat_alt unat_plus_if' config)

lemma polls_wait:
  "waiting sent i s t \<Longrightarrow> undisturbed sent i (slot_bytes s) t ws \<Longrightarrow> unat (tx_attempts s) + due_polls i t ws \<le> unat TREENET_MAX_RETRIES \<Longrightarrow>
   \<exists>due. waiting sent i (s\<lparr>tx_attempts := tx_attempts s + of_nat (due_polls i t ws), tx_next_tx_ms := due\<rparr>) (polls t ws) \<and>
     times_sent sent (slot_bytes s) (polls t ws) = times_sent sent (slot_bytes s) t + due_polls i t ws"
proof (induction ws arbitrary: t s)
  case Nil
  then show ?case by (intro exI [of _ "tx_next_tx_ms s"]) simp
next
  case (Cons w ws)
  have w: "sent w = sent (nd_env t)" "alone i (slot_bytes s) t" using Cons.prems(2) by simp_all
  note poll = poll_waiting [OF Cons.prems(1) w]
  show ?case
  proof (cases "is_due i t w")
    case True
    let ?s = "s\<lparr>tx_attempts := tx_attempts s + 1, tx_next_tx_ms := fst (port_now_ms (t\<lparr>nd_env := w\<rparr>)) + TREENET_ACK_TIMEOUT_MS\<rparr>"
    have a: "tx_attempts s < TREENET_MAX_RETRIES" using Cons.prems(3) True by (simp add: word_less_nat_alt)
    have b: "slot_bytes ?s = slot_bytes s" by (simp add: slot_bytes_def)
    show ?thesis
      using Cons.IH [of ?s "poll_in t w"] poll(3) poll(5) [OF True a] Cons.prems(2,3) True unat_retry [OF a] unfolding b by (simp add: add.assoc)
  next
    case False
    then show ?thesis using Cons.IH [of s "poll_in t w"] poll(3,4) Cons.prems(2,3) by simp
  qed
qed

text \<open>
  Property C15: a reliable frame is transmitted \<open>TREENET_MAX_RETRIES\<close> times and then given up. A node has a reliable data frame in transmit slot
  \<open>i\<close> and is polled (the whole \<open>treenet_poll\<close>, with its beacons, its maintenance and the callbacks) any number of times while nothing
  is received. Each poll at or after the time the slot is due hands the frame to the radio exactly once, unchanged, and no other poll does; the slot
  counts the attempts. When \<open>TREENET_MAX_RETRIES\<close> transmissions are reached, the next such poll does not transmit the frame but
  gives it up: by the time the poll reports to the application, no slot of the queue holds the frame, and slot \<open>i\<close> is free unless a new
  frame that was not transmitted yet was put there. So the number of transmissions is exactly \<open>TREENET_MAX_RETRIES\<close> in total, the first one
  included, and no frame occupies the queue forever. The port is one that records transmissions and has no carrier
  sense; between polls the record stays as it is and no other slot holds the same bytes.
\<close>

theorem reliable_frame_settles:
  assumes "node_inv Q t" and "nd_initialized t" and "ring_repr (nd_rx t) []" and "radio_logs sent t" and "cfg_quiet sent (nd_cfg t)"
    and "i < TREENET_TX_QUEUE_SIZE" and "nd_tx t ! i = s" and "tx_valid s" and "tx_reliable s"
    and "slot_bytes s = frame_wire f" and "fr_type f = TREENET_FRAME_DATA"
    and "undisturbed sent i (frame_wire f) t ws" and "unat (tx_attempts s) + due_polls i t ws \<le> unat TREENET_MAX_RETRIES"
  shows "(\<exists>due. nd_tx (polls t ws) ! i = s\<lparr>tx_attempts := tx_attempts s + of_nat (due_polls i t ws), tx_next_tx_ms := due\<rparr>) \<and>
    times_sent sent (frame_wire f) (polls t ws) = times_sent sent (frame_wire f) t + due_polls i t ws \<and>
    (\<forall>w u. unat (tx_attempts s) + due_polls i t ws = unat TREENET_MAX_RETRIES \<and> undisturbed sent i (frame_wire f) (polls t ws) [w] \<and>
        is_due i (polls t ws) w \<and> u = poll_work (poll_clock ((polls t ws)\<lparr>nd_env := w\<rparr>)) \<longrightarrow>
      poll_in (polls t ws) w = poll_report u \<and>
      (\<forall>j<length (nd_tx u). tx_valid (nd_tx u ! j) \<longrightarrow> slot_bytes (nd_tx u ! j) \<noteq> frame_wire f) \<and>
      (tx_valid (nd_tx u ! i) \<longrightarrow> tx_attempts (nd_tx u ! i) = 0) \<and>
      times_sent sent (frame_wire f) (poll_in (polls t ws) w) = times_sent sent (frame_wire f) (polls t ws))"
proof -
  have "node_inv (\<lambda>_. True) t" using assms(5) by (intro node_inv_change [OF assms(1)] port_ok_True cfg_quiet_ok) simp_all
  then have "waiting sent i s t" using assms(2-9) data_bytes_wire [OF assms(11)] by (simp add: waiting_def assms(10))
  from polls_wait [OF this] obtain due where
    wait: "waiting sent i (s\<lparr>tx_attempts := tx_attempts s + of_nat (due_polls i t ws), tx_next_tx_ms := due\<rparr>) (polls t ws)"
      (is "waiting _ _ ?s _")
    and count: "times_sent sent (frame_wire f) (polls t ws) = times_sent sent (frame_wire f) t + due_polls i t ws"
    using assms(10,12,13) by auto
  have bytes: "slot_bytes ?s = frame_wire f" using assms(10) by (simp add: slot_bytes_def)
  have slot: "nd_tx (polls t ws) ! i = ?s" using wait by (simp add: waiting_def)
  have gone: "poll_in (polls t ws) w = poll_report u \<and>
      (\<forall>j<length (nd_tx u). tx_valid (nd_tx u ! j) \<longrightarrow> slot_bytes (nd_tx u ! j) \<noteq> frame_wire f) \<and>
      (tx_valid (nd_tx u ! i) \<longrightarrow> tx_attempts (nd_tx u ! i) = 0) \<and>
      times_sent sent (frame_wire f) (poll_in (polls t ws) w) = times_sent sent (frame_wire f) (polls t ws)"
    if "unat (tx_attempts s) + due_polls i t ws = unat TREENET_MAX_RETRIES" "undisturbed sent i (frame_wire f) (polls t ws) [w]"
      "is_due i (polls t ws) w" "u = poll_work (poll_clock ((polls t ws)\<lparr>nd_env := w\<rparr>))" for w u
  proof -
    have "tx_attempts ?s = TREENET_MAX_RETRIES" using that(1) by (simp add: word_unat_eq_iff unat_of_nat unat_word_ariths config)
    moreover have "sent w = sent (nd_env (polls t ws))" "alone i (slot_bytes ?s) (polls t ws)" using that(2) by (simp_all add: bytes)
    note poll = poll_waiting [OF wait this, folded that(4), unfolded bytes]
    ultimately show ?thesis using poll(1,3) poll(6) [OF that(3)] by (auto simp: alone_def)
  qed
  show ?thesis using slot count gone by blast
qed

text \<open>A Master with one reliable frame in its queue, transmitted \<open>n\<close> times so far; the environment is the record of transmissions.\<close>

definition one_waiting :: "u8 \<Rightarrow> u8 list list treenet" where
  "one_waiting n =
     (let t = snd (tn_tx_submit (init_node (cfg_plain TREENET_ROLE_MASTER 1) port_log []) (frame_via 3) True 3 0)
      in t\<lparr>nd_tx := (nd_tx t)[0 := (nd_tx t ! 0)\<lparr>tx_attempts := n\<rparr>]\<rparr>)"

lemma one_waiting_facts:
  assumes "n \<le> TREENET_MAX_RETRIES"
  shows "node_inv (\<lambda>_. True) (one_waiting n)" "nd_initialized (one_waiting n)" "ring_repr (nd_rx (one_waiting n)) []"
    "radio_logs id (one_waiting n)" "cfg_quiet id (nd_cfg (one_waiting n))" "nd_env (one_waiting n) = []"
    "tx_valid (nd_tx (one_waiting n) ! 0)" "tx_reliable (nd_tx (one_waiting n) ! 0)" "tx_attempts (nd_tx (one_waiting n) ! 0) = n"
    "slot_bytes (nd_tx (one_waiting n) ! 0) = frame_wire ((frame_via 3)\<lparr>fr_prev := 1\<rparr>)"
    "alone 0 bs (one_waiting n)" "is_due 0 (one_waiting n) []"
proof -
  define b where "b = init_node (cfg_plain TREENET_ROLE_MASTER 1) port_log []"
  have inv: "node_inv (\<lambda>_. True) b"
    unfolding b_def by (rule init_node_inv [of 0 "Some 0" 0]) (simp_all add: init_args_ok_def port_log_def cfg_plain_def cfg_ok_def config)
  have b: "nd_tx b = replicate TREENET_TX_QUEUE_SIZE tx_slot_zero" "nd_now_ms b = 5000" "nd_port b = port_log" "nd_cfg b = cfg_plain TREENET_ROLE_MASTER 1"
      "nd_env b = []" "nd_net_id b = 1" "nd_addr b = 1" "nd_initialized b"
      "nd_rx b = tn_ringbuf_init \<lparr>rb_buf = [], rb_capacity = 0, rb_head = 0, rb_tail = 0, rb_dropped = 0\<rparr> (replicate TREENET_RX_RING_BYTES 0) TREENET_RX_RING_BYTES"
    by (simp_all add: b_def init_node_def node_cleared_def port_rnd_def port_now_ms_def port_log_def init_lora_def cfg_plain_def tn_routing_select_parent_def)
  have f: "frame_ok (nd_net_id b) (frame_via 3)" "fr_payload_len (frame_via 3) \<le> 178" "free_slot b = Some 0"
    using frame_via_ok [of 3] by (simp_all add: b)
  obtain s where s: "tn_tx_submit b (frame_via 3) True 3 0 = (0, (snd (port_rnd b))\<lparr>nd_tx := (nd_tx b)[0 := s]\<rparr>)"
      "holds_frame s ((frame_via 3)\<lparr>fr_prev := nd_addr b\<rparr>) True 3"
      "tx_next_tx_ms s = nd_now_ms b + 0 + tn_rand_below (fst (port_rnd b)) TREENET_CW_MAX * TREENET_SLOT_MS"
    by (rule submit_ok [OF inv f, of True 3 0])
  let ?t = "snd (tn_tx_submit b (frame_via 3) True 3 0)"
  have t: "nd_tx ?t = (nd_tx b)[0 := s]" "nd_static ?t = nd_static b" "nd_env ?t = []"
    using s(1) b by (simp_all add: port_rnd_def port_log_def)
  have one: "one_waiting n = ?t\<lparr>nd_tx := (nd_tx ?t)[0 := (nd_tx ?t ! 0)\<lparr>tx_attempts := n\<rparr>]\<rparr>"
    by (simp add: one_waiting_def b_def Let_def)
  have tx: "nd_tx (one_waiting n) = (nd_tx b)[0 := s\<lparr>tx_attempts := n\<rparr>]" using b(1) by (simp add: one t(1) config)
  have slot: "nd_tx (one_waiting n) ! 0 = s\<lparr>tx_attempts := n\<rparr>" using b(1) by (simp add: tx config)
  have st: "nd_static (one_waiting n) = nd_static b" using t(2) by (simp add: one)
  note fields = nd_staticD [OF st]
  have t_inv: "node_inv (\<lambda>_. True) ?t" by (rule tn_tx_submit_inv [OF inv f(1)])
  then have "tx_slot_ok (nd_addr ?t) (nd_net_id ?t) (nd_tx ?t ! 0)"
    by (intro txq_ok_nth node_invD(10)) (simp_all add: config)
  then have "tx_slot_ok (nd_addr ?t) (nd_net_id ?t) ((nd_tx ?t ! 0)\<lparr>tx_attempts := n\<rparr>)"
    using assms s(2) b(1) by (simp add: tx_slot_ok_def t(1) config holds_frame_def)
  note queue = txq_ok_update [OF node_invD(10) [OF t_inv] this, of 0]
  show "node_inv (\<lambda>_. True) (one_waiting n)" unfolding one using t_inv queue by (simp add: node_inv_def)
  show "nd_initialized (one_waiting n)" "radio_logs id (one_waiting n)" "cfg_quiet id (nd_cfg (one_waiting n))" "nd_env (one_waiting n) = []"
    using fields b t(3) by (simp_all add: radio_logs_def port_logs_def port_log_def cfg_quiet_def cfg_plain_def one)
  show "ring_repr (nd_rx (one_waiting n)) []"
    using ring_repr_init [of 10 "replicate TREENET_RX_RING_BYTES 0"] fields(8) by (simp add: b(9) config)
  show "tx_valid (nd_tx (one_waiting n) ! 0)" "tx_reliable (nd_tx (one_waiting n) ! 0)" "tx_attempts (nd_tx (one_waiting n) ! 0) = n"
    "slot_bytes (nd_tx (one_waiting n) ! 0) = frame_wire ((frame_via 3)\<lparr>fr_prev := 1\<rparr>)"
    using s(2) b(7) by (simp_all add: slot holds_frame_def slot_bytes_def)
  show "alone 0 bs (one_waiting n)" by (simp add: alone_def tx b(1) tx_slot_zero_def)
  have "tx_next_tx_ms s = 5000" using s(3) b by (simp add: port_rnd_def port_log_def tn_rand_below_def)
  then show "is_due 0 (one_waiting n) []"
    using fields(2) b(3) by (simp add: is_due_def slot port_now_ms_def port_log_def)
qed

theorem reliable_frame_settles_witness:
  "times_sent id (frame_wire ((frame_via 3)\<lparr>fr_prev := 1\<rparr>)) (polls (one_waiting 0) [[]]) = 1 \<and>
   tx_attempts (nd_tx (polls (one_waiting 0) [[]]) ! 0) = 1 \<and>
   tx_valid (nd_tx (one_waiting 3) ! 0) \<and>
   (\<exists>u. treenet_poll_node (one_waiting 3) = poll_report u \<and>
      (\<forall>j<length (nd_tx u). tx_valid (nd_tx u ! j) \<longrightarrow> slot_bytes (nd_tx u ! j) \<noteq> frame_wire ((frame_via 3)\<lparr>fr_prev := 1\<rparr>)))"
proof -
  let ?f = "(frame_via 3)\<lparr>fr_prev := 1\<rparr>"
  have le: "0 \<le> TREENET_MAX_RETRIES" "3 \<le> TREENET_MAX_RETRIES" by (simp_all add: config)
  note a = one_waiting_facts [OF le(1)] and z = one_waiting_facts [OF le(2)]
  have q: "0 < TREENET_TX_QUEUE_SIZE" "fr_type ?f = TREENET_FRAME_DATA" by (simp_all add: config)
  have "undisturbed id 0 (frame_wire ?f) (one_waiting 0) [[]]" "due_polls 0 (one_waiting 0) [[]] = 1"
    using a(6,11,12) by simp_all
  then have once: "times_sent id (frame_wire ?f) (polls (one_waiting 0) [[]]) = 1" "tx_attempts (nd_tx (polls (one_waiting 0) [[]]) ! 0) = 1"
    using reliable_frame_settles [OF a(1-5) q(1) refl a(7,8,10) q(2), of "[[]]"] a(6,9) by (auto simp: config)
  have none: "undisturbed id 0 (frame_wire ?f) (one_waiting 3) []" "due_polls 0 (one_waiting 3) [] = 0" by simp_all
  have w: "undisturbed id 0 (frame_wire ?f) (polls (one_waiting 3) []) [[]]" using z(6,11) by simp
  have same: "(one_waiting 3)\<lparr>nd_env := []\<rparr> = one_waiting 3" using z(6) by simp
  have "treenet_poll_node (one_waiting 3) = poll_report (poll_work (poll_clock (one_waiting 3))) \<and>
      (\<forall>j<length (nd_tx (poll_work (poll_clock (one_waiting 3)))). tx_valid (nd_tx (poll_work (poll_clock (one_waiting 3))) ! j) \<longrightarrow>
        slot_bytes (nd_tx (poll_work (poll_clock (one_waiting 3))) ! j) \<noteq> frame_wire ?f)"
    using reliable_frame_settles [OF z(1-5) q(1) refl z(7,8,10) q(2) none(1)] z(9,12) w by (simp add: same config)
  with once z(7) show ?thesis by blast
qed

end
