(* ===== verification/Tn_RingbufConc.thy ===== *)
theory Tn_RingbufConc
  imports Tn_Ringbuf
begin

text \<open>
  The receive ring of \<open>src/core/ringbuf.c\<close> with its two sides running concurrently: the producer
  (\<open>treenet_rx\<close>, often an interrupt) and the consumer (the poll loop) share the storage and the
  two positions without a lock. Each operation is split into its accesses to shared memory, in the
  order the code and its fences give them: a read of one position, the copy of a single byte, the
  publication of a position. \<open>push_step\<close> and \<open>pop_step\<close> are these accesses, \<open>spsc_step\<close> interleaves
  them arbitrarily. Run without interruption they are \<open>tn_ringbuf_push\<close> and \<open>tn_ringbuf_pop\<close>
  (\<open>push_alone\<close>, \<open>pop_alone\<close>); interleaved, no record is lost, torn or reordered. The accesses of
  one side take effect in program order; \<open>Tn_RingbufWeak\<close> looks at a core that does not keep it.
\<close>

section \<open>The two sides as sequences of memory accesses\<close>

text \<open>Where the producer stands in \<open>tn_ringbuf_push\<close>; the local variables are arguments.\<close>

datatype producer =
    P_idle
  | P_start rx_record
  | P_tail rx_record u32
  | P_head rx_record u32 u32
  | P_write rx_record u32 nat

text \<open>The result is the record accepted, if this step publishes one.\<close>

fun push_step :: "tn_ringbuf_t \<Rightarrow> producer \<Rightarrow> tn_ringbuf_t \<times> producer \<times> rx_record option" where
  "push_step rb P_idle = (rb, P_idle, None)"
| "push_step rb (P_start r) =
     (if rb_capacity rb = 0 then (rb\<lparr>rb_dropped := rb_dropped rb + 1\<rparr>, P_idle, None)
      else (rb, P_tail r (rb_tail rb), None))"
| "push_step rb (P_tail r tail) = (rb, P_head r tail (rb_head rb), None)"
| "push_step rb (P_head r tail head) =
     (if rb_capacity rb - (tail - head) < of_nat TN_RX_HDR + ucast (rm_len (fst r))
      then (rb\<lparr>rb_dropped := rb_dropped rb + 1\<rparr>, P_idle, None)
      else (rb, P_write r tail 0, None))"
| "push_step rb (P_write r tail i) =
     (if i < TN_RX_HDR + unat (rm_len (fst r))
      then (ring_write_at rb (tail + of_nat i) [enc_rec r ! i] 1, P_write r tail (Suc i), None)
      else (rb\<lparr>rb_tail := tail + (of_nat TN_RX_HDR + ucast (rm_len (fst r)))\<rparr>, P_idle, Some r))"

text \<open>Where the consumer stands in \<open>tn_ringbuf_pop\<close>, with the bytes it has copied so far.\<close>

datatype consumer =
    C_idle
  | C_start
  | C_head u32
  | C_snap u32 u32
  | C_hdr u32 u32 "u8 list"
  | C_data u32 tn_rx_meta_t "u8 list"

definition hdr_meta :: "u8 list \<Rightarrow> tn_rx_meta_t" where
  "hdr_meta hdr = \<lparr>rm_len = tn_get_u16 hdr 0, rm_rssi_dbm = tn_get_u16 hdr 2, rm_snr_db = hdr ! 4\<rparr>"

fun pop_step :: "nat \<Rightarrow> tn_ringbuf_t \<Rightarrow> consumer \<Rightarrow> tn_ringbuf_t \<times> consumer \<times> rx_record option" where
  "pop_step cap rb C_idle = (rb, C_idle, None)"
| "pop_step cap rb C_start = (if rb_capacity rb = 0 then (rb, C_idle, None) else (rb, C_head (rb_head rb), None))"
| "pop_step cap rb (C_head head) = (rb, C_snap head (rb_tail rb), None)"
| "pop_step cap rb (C_snap head tail) =
     (if tail - head < of_nat TN_RX_HDR then (rb, C_idle, None) else (rb, C_hdr head tail [], None))"
| "pop_step cap rb (C_hdr head tail bs) =
     (if length bs < TN_RX_HDR
      then (rb, C_hdr head tail (bs @ ring_read_at rb (head + of_nat (length bs)) [0] 1), None)
      else let m = hdr_meta bs
           in if unat (rm_len m) > cap then (rb\<lparr>rb_head := tail\<rparr>, C_idle, None)
              else if tail - head < of_nat TN_RX_HDR + ucast (rm_len m) then (rb, C_idle, None)
              else (rb, C_data head m [], None))"
| "pop_step cap rb (C_data head m bs) =
     (if length bs < unat (rm_len m)
      then (rb, C_data head m (bs @ ring_read_at rb (head + of_nat TN_RX_HDR + of_nat (length bs)) [0] 1), None)
      else (rb\<lparr>rb_head := head + of_nat TN_RX_HDR + ucast (rm_len m)\<rparr>, C_idle, Some (m, bs)))"

section \<open>Interleaving\<close>

text \<open>The shared ring, the two sides, and what was accepted and delivered so far.\<close>

record spsc =
  sp_ring :: tn_ringbuf_t
  sp_prod :: producer
  sp_cons :: consumer
  sp_sent :: "rx_record list"
  sp_got :: "rx_record list"

definition produce :: "spsc \<Rightarrow> spsc" where
  "produce s = (case push_step (sp_ring s) (sp_prod s) of
     (rb, p, r) \<Rightarrow> s\<lparr>sp_ring := rb, sp_prod := p, sp_sent := sp_sent s @ (case r of None \<Rightarrow> [] | Some x \<Rightarrow> [x])\<rparr>)"

definition consume :: "spsc \<Rightarrow> spsc" where
  "consume s = (case pop_step TREENET_MTU (sp_ring s) (sp_cons s) of
     (rb, c, r) \<Rightarrow> s\<lparr>sp_ring := rb, sp_cons := c, sp_got := sp_got s @ (case r of None \<Rightarrow> [] | Some x \<Rightarrow> [x])\<rparr>)"

inductive spsc_step :: "spsc \<Rightarrow> spsc \<Rightarrow> bool" where
  call_push: "sp_prod s = P_idle \<Longrightarrow> rec_fits r \<Longrightarrow> spsc_step s (s\<lparr>sp_prod := P_start r\<rparr>)"
| run_push: "spsc_step s (produce s)"
| call_pop: "sp_cons s = C_idle \<Longrightarrow> spsc_step s (s\<lparr>sp_cons := C_start\<rparr>)"
| run_pop: "spsc_step s (consume s)"

definition spsc_init :: "tn_ringbuf_t \<Rightarrow> spsc" where
  "spsc_init rb = \<lparr>sp_ring = rb, sp_prod = P_idle, sp_cons = C_idle, sp_sent = [], sp_got = []\<rparr>"

section \<open>Invariant\<close>

text \<open>What the producer knows: the room it found stays, since the consumer only makes more.\<close>

fun prod_ok :: "tn_ringbuf_t \<Rightarrow> producer \<Rightarrow> bool" where
  "prod_ok rb P_idle = True"
| "prod_ok rb (P_start r) = rec_fits r"
| "prod_ok rb (P_tail r tail) = (rec_fits r \<and> tail = rb_tail rb)"
| "prod_ok rb (P_head r tail head) =
     (rec_fits r \<and> tail = rb_tail rb \<and> tn_ringbuf_used rb \<le> unat (tail - head) \<and> unat (tail - head) \<le> length (rb_buf rb))"
| "prod_ok rb (P_write r tail i) =
     (rec_fits r \<and> tail = rb_tail rb \<and> tn_ringbuf_used rb + length (enc_rec r) \<le> length (rb_buf rb) \<and>
      i \<le> length (enc_rec r) \<and> ring_slice rb (unat tail) i = take i (enc_rec r))"

text \<open>What the consumer knows: the producer position it read is the end of a record.\<close>

definition rec_end :: "rx_record list \<Rightarrow> nat \<Rightarrow> bool" where
  "rec_end rs n \<longleftrightarrow> (\<exists>k. n = length (concat (map enc_rec (take k rs))))"

fun cons_ok :: "tn_ringbuf_t \<Rightarrow> rx_record list \<Rightarrow> consumer \<Rightarrow> bool" where
  "cons_ok rb rs C_idle = True"
| "cons_ok rb rs C_start = True"
| "cons_ok rb rs (C_head head) = (head = rb_head rb)"
| "cons_ok rb rs (C_snap head tail) = (head = rb_head rb \<and> rec_end rs (unat (tail - head)))"
| "cons_ok rb rs (C_hdr head tail bs) =
     (head = rb_head rb \<and> rec_end rs (unat (tail - head)) \<and> TN_RX_HDR \<le> unat (tail - head) \<and>
      length bs \<le> TN_RX_HDR \<and> bs = take (length bs) (concat (map enc_rec rs)))"
| "cons_ok rb rs (C_data head m bs) =
     (head = rb_head rb \<and> (\<exists>d rest. rs = (m, d) # rest \<and> length bs \<le> length d \<and> bs = take (length bs) d))"

definition spsc_ok :: "spsc \<Rightarrow> rx_record list \<Rightarrow> bool" where
  "spsc_ok s rs \<longleftrightarrow> ring_repr (sp_ring s) rs \<and> list_all rec_fits rs \<and> sp_sent s = sp_got s @ rs \<and>
     prod_ok (sp_ring s) (sp_prod s) \<and> cons_ok (sp_ring s) rs (sp_cons s)"


section \<open>Producer accesses\<close>

lemma ring_length_le: "ring_wf rb \<Longrightarrow> length (rb_buf rb) \<le> 2 ^ 31"
proof -
  assume "ring_wf rb"
  then obtain k where "k < 32" "length (rb_buf rb) = 2 ^ k" by (rule ring_wf_capacity)
  moreover from this have "(2::nat) ^ k \<le> 2 ^ 31" by (intro power_increasing) simp_all
  ultimately show ?thesis by simp
qed

lemma pos_plus_mod:
  assumes "ring_wf rb" and "n < 2 ^ 32"
  shows "unat (p + of_nat n :: u32) mod length (rb_buf rb) = (unat p + n) mod length (rb_buf rb)"
proof -
  obtain k where "k < 32" "length (rb_buf rb) = 2 ^ k" using ring_wf_capacity [OF assms(1)] .
  moreover have "unat (of_nat n :: u32) = n" using assms(2) by (intro unat_of_nat_lt) simp
  ultimately show ?thesis using unat_add_mod_pow2 [of k p "of_nat n"] by simp
qed

text \<open>One byte written behind the published part: the published bytes and the bytes written before it stay.\<close>

lemma ring_write_byte:
  fixes rb b i
  assumes "ring_wf rb" and "tn_ringbuf_used rb + i < length (rb_buf rb)"
  defines "rb' \<equiv> ring_write_at rb (rb_tail rb + of_nat i) [b] 1"
  shows "ring_wf rb'" and "length (rb_buf rb') = length (rb_buf rb)" and "tn_ringbuf_used rb' = tn_ringbuf_used rb"
    and "ring_bytes rb' = ring_bytes rb"
    and "ring_slice rb' (unat (rb_tail rb)) (Suc i) = ring_slice rb (unat (rb_tail rb)) i @ [b]"
proof -
  let ?c = "length (rb_buf rb)" and ?u = "tn_ringbuf_used rb" and ?h = "unat (rb_head rb)" and ?t = "unat (rb_tail rb)"
  have one: "unat (1 :: u32) \<le> ?c" using assms(2) by simp
  show wf: "ring_wf rb'" and len: "length (rb_buf rb') = ?c" unfolding rb'_def using assms(1) one by simp_all
  show used: "tn_ringbuf_used rb' = ?u" by (simp add: rb'_def tn_ringbuf_used_def)
  have pos: "unat (rb_tail rb + of_nat i) mod ?c = (?t + i) mod ?c"
    using pos_plus_mod [OF assms(1), of i] assms(2) ring_length_le [OF assms(1)] by simp
  then have pos': "unat (rb_tail rb + of_nat i) mod ?c = (?h + (?u + i)) mod ?c"
    using tail_mod [OF assms(1)] by (metis add.assoc mod_add_left_eq)
  have "ring_slice rb' ?h (?u + i) = ring_slice rb ?h (?u + i)"
    unfolding rb'_def using assms(1,2) pos' by (intro ring_slice_write_before) simp_all
  then show "ring_bytes rb' = ring_bytes rb"
    unfolding ring_bytes_slice used ring_slice_append by (simp add: rb'_def)
  have "ring_slice rb' ?t i = ring_slice rb ?t i"
    unfolding rb'_def using assms(1,2) pos by (intro ring_slice_write_before) simp_all
  moreover have "ring_slice rb' (?t + i) 1 = [b]"
    using ring_slice_write_same [OF assms(1) one, of "[b]" "rb_tail rb + of_nat i"] ring_slice_mod [of "?t + i" rb' "unat (rb_tail rb + of_nat i)" 1] pos len
    by (simp add: rb'_def)
  ultimately show "ring_slice rb' ?t (Suc i) = ring_slice rb ?t i @ [b]"
    using ring_slice_append [of rb' ?t i 1] by simp
qed

lemma length_enc_fits: "rec_fits r \<Longrightarrow> length (enc_rec r) = TN_RX_HDR + unat (rm_len (fst r))"
  by (simp add: rec_fits_def length_enc_rec config)

text \<open>Moving the producer position past the bytes of a record appends it.\<close>

lemma ring_publish:
  fixes rb r
  assumes "ring_wf rb" and "rec_fits r" and "tn_ringbuf_used rb + length (enc_rec r) \<le> length (rb_buf rb)"
    and "ring_slice rb (unat (rb_tail rb)) (length (enc_rec r)) = enc_rec r"
  defines "rb' \<equiv> rb\<lparr>rb_tail := rb_tail rb + (of_nat TN_RX_HDR + ucast (rm_len (fst r)))\<rparr>"
  shows "ring_wf rb'" and "ring_bytes rb' = ring_bytes rb @ enc_rec r"
proof -
  let ?n = "length (enc_rec r)"
  have n: "?n = 5 + unat (rm_len (fst r))" using assms(2) by (simp add: rec_fits_def length_enc_rec)
  have used: "tn_ringbuf_used rb' = tn_ringbuf_used rb + ?n"
    using used_plus [OF assms(1) _ unat_rx_need, of "rm_len (fst r)"] assms(3) n by (simp add: rb'_def tn_ringbuf_used_def)
  then show "ring_wf rb'" using assms(1,3) by (simp add: ring_wf_def rb'_def)
  have "ring_slice rb (unat (rb_head rb) + tn_ringbuf_used rb) ?n = enc_rec r"
    using ring_slice_mod [OF tail_mod [OF assms(1)], of ?n] assms(4) by simp
  then show "ring_bytes rb' = ring_bytes rb @ enc_rec r"
    unfolding ring_bytes_slice used ring_slice_append by (simp add: rb'_def)
qed

text \<open>An access of the producer keeps the ring; the queue grows by the record it publishes.\<close>

lemma push_step_ok:
  assumes "ring_repr rb rs" and "prod_ok rb p" and "push_step rb p = (rb', p', r)"
  shows "ring_repr rb' (rs @ (case r of None \<Rightarrow> [] | Some x \<Rightarrow> [x]))" and "prod_ok rb' p'"
    and "list_all rec_fits (case r of None \<Rightarrow> [] | Some x \<Rightarrow> [x])" and "rb_head rb' = rb_head rb"
proof -
  have wf: "ring_wf rb" and ok: "list_all rec_ok rs" and bytes: "ring_bytes rb = concat (map enc_rec rs)"
    using assms(1) by (simp_all add: ring_repr_def)
  have drop: "ring_repr (rb\<lparr>rb_dropped := d\<rparr>) rs" for d
    using assms(1) by (simp add: ring_repr_def ring_wf_def ring_bytes_def tn_ringbuf_used_def)
  have "ring_repr rb' (rs @ (case r of None \<Rightarrow> [] | Some x \<Rightarrow> [x])) \<and> prod_ok rb' p' \<and>
      list_all rec_fits (case r of None \<Rightarrow> [] | Some x \<Rightarrow> [x]) \<and> rb_head rb' = rb_head rb"
  proof (cases p)
    case (P_head x tail head)
    then have x: "rec_fits x" "unat (tail - head) \<le> length (rb_buf rb)" using assms(2) by auto
    have "unat (rb_capacity rb) = length (rb_buf rb)" using wf by (simp add: ring_wf_def)
    then have "unat (rb_capacity rb - (tail - head)) = length (rb_buf rb) - unat (tail - head)"
      using x by (subst unat_sub) (simp_all add: word_le_nat_alt)
    then have "rb_capacity rb - (tail - head) < of_nat TN_RX_HDR + ucast (rm_len (fst x)) \<longleftrightarrow>
        length (rb_buf rb) - unat (tail - head) < length (enc_rec x)"
      using x by (simp only: word_less_nat_alt unat_rx_need) (simp add: length_enc_fits config)
    then show ?thesis using assms P_head drop by (auto simp: ring_slice_def split: if_splits)
  next
    case (P_write x tail i)
    then have x: "rec_fits x" "tail = rb_tail rb" "tn_ringbuf_used rb + length (enc_rec x) \<le> length (rb_buf rb)"
        "i \<le> length (enc_rec x)" "ring_slice rb (unat tail) i = take i (enc_rec x)" using assms(2) by auto
    show ?thesis
    proof (cases "i < length (enc_rec x)")
      case True
      then have "tn_ringbuf_used rb + i < length (rb_buf rb)" using x(3) by simp
      note w = ring_write_byte [OF wf this, of "enc_rec x ! i"]
      have "rb' = ring_write_at rb (rb_tail rb + of_nat i) [enc_rec x ! i] 1" "p' = P_write x tail (Suc i)" "r = None"
        using assms(3) P_write True x(2) length_enc_fits [OF x(1)] by auto
      then show ?thesis using w x True ok bytes by (simp add: ring_repr_def take_Suc_conv_app_nth)
    next
      case False
      then have "i = length (enc_rec x)" using x(4) by simp
      moreover from this have "rb' = rb\<lparr>rb_tail := rb_tail rb + (of_nat TN_RX_HDR + ucast (rm_len (fst x)))\<rparr>" "p' = P_idle" "r = Some x"
        using assms(3) P_write x(2) length_enc_fits [OF x(1)] by auto
      ultimately show ?thesis
        using ring_publish [OF wf x(1,3)] x ok bytes by (simp add: ring_repr_def rec_fits_def)
    qed
  qed (use assms wf drop in \<open>auto simp: ring_wf_def tn_ringbuf_used_def split: if_splits\<close>)
  then show "ring_repr rb' (rs @ (case r of None \<Rightarrow> [] | Some x \<Rightarrow> [x]))" "prod_ok rb' p'"
    "list_all rec_fits (case r of None \<Rightarrow> [] | Some x \<Rightarrow> [x])" "rb_head rb' = rb_head rb" by simp_all
qed

lemma rec_end_append: "rec_end rs n \<Longrightarrow> rec_end (rs @ qs) n"
proof -
  assume "rec_end rs n"
  then obtain k where "n = length (concat (map enc_rec (take k rs)))" by (auto simp: rec_end_def)
  then have "n = length (concat (map enc_rec (take (min k (length rs)) (rs @ qs))))" by (simp add: min_def)
  then show ?thesis unfolding rec_end_def by blast
qed

lemma cons_ok_append: "cons_ok rb rs c \<Longrightarrow> rb_head rb' = rb_head rb \<Longrightarrow> cons_ok rb' (rs @ qs) c"
  by (cases c) (auto simp: rec_end_append min_def dest: arg_cong [of _ _ length])


section \<open>Consumer accesses\<close>

text \<open>The room the producer found only grows when the consumer moves on.\<close>

lemma prod_ok_advance:
  assumes "ring_wf rb" and "n \<le> tn_ringbuf_used rb" and "unat x = n" and "prod_ok rb p"
  shows "prod_ok (rb\<lparr>rb_head := rb_head rb + x\<rparr>) p"
proof -
  have "tn_ringbuf_used (rb\<lparr>rb_head := rb_head rb + x\<rparr>) = tn_ringbuf_used rb - n"
    using used_minus [OF assms(1-3)] by (simp add: tn_ringbuf_used_def)
  then show ?thesis using assms(4) by (cases p) auto
qed

lemma ring_read_byte:
  assumes "ring_wf rb" and "off < tn_ringbuf_used rb" and "unat x = off"
  shows "ring_read_at rb (rb_head rb + x) [0] 1 = [ring_bytes rb ! off]"
  using ring_read_front [OF assms(1), of off 1 x "[0]"] assms(2,3) by (simp add: take_Suc_conv_app_nth hd_drop_conv_nth take_Suc)

text \<open>A producer position beyond a header is beyond a whole record.\<close>

lemma rec_end_front:
  assumes "rec_end rs n" and "TN_RX_HDR \<le> n" and "list_all rec_fits rs"
  obtains m d rest where "rs = (m, d) # rest" and "length (enc_rec (m, d)) \<le> n" and "length d = unat (rm_len m)"
proof -
  obtain k where k: "n = length (concat (map enc_rec (take k rs)))" using assms(1) by (auto simp: rec_end_def)
  have "take k rs \<noteq> []" using k assms(2) by (cases "take k rs = []") (simp_all add: config)
  then obtain r rest where "rs = r # rest" "0 < k" by (cases rs) auto
  with k assms(3) show ?thesis by (intro that [of "fst r" "snd r" rest]) (auto simp: take_Cons' rec_fits_def rec_ok_def)
qed

lemma rec_end_le: "rec_end rs n \<Longrightarrow> n \<le> length (concat (map enc_rec rs))"
proof -
  assume "rec_end rs n"
  then obtain k where "n = length (concat (map enc_rec (take k rs)))" by (auto simp: rec_end_def)
  moreover have "concat (map enc_rec rs) = concat (map enc_rec (take k rs)) @ concat (map enc_rec (drop k rs))"
    by (metis append_take_drop_id concat_append map_append)
  ultimately show ?thesis by simp
qed

lemma hdr_meta_front: "hdr_meta (take TN_RX_HDR (enc_rec (m, d) @ xs)) = m"
  using rec_header_fields [of m "[]"] by (simp add: hdr_meta_def enc_rec_def config)

lemma take_Suc_snoc: "n < length xs \<Longrightarrow> ys = take n xs \<Longrightarrow> ys @ [xs ! n] = take (Suc n) xs"
  by (simp add: take_Suc_conv_app_nth)

text \<open>The consumer copies a byte of the header, or knows the record after the last one.\<close>

lemma pop_hdr_ok:
  assumes "ring_repr rb rs" and "list_all rec_fits rs" and "cons_ok rb rs (C_hdr head tail bs)"
    and "pop_step TREENET_MTU rb (C_hdr head tail bs) = (rb', c', r)"
  shows "rb' = rb \<and> r = None \<and> cons_ok rb rs c'"
proof -
  have wf: "ring_wf rb" and bytes: "ring_bytes rb = concat (map enc_rec rs)" using assms(1) by (simp_all add: ring_repr_def)
  have used: "tn_ringbuf_used rb = length (concat (map enc_rec rs))" using bytes by (simp flip: length_ring_bytes)
  have c: "head = rb_head rb" "rec_end rs (unat (tail - head))" "TN_RX_HDR \<le> unat (tail - head)"
      "length bs \<le> TN_RX_HDR" "bs = take (length bs) (concat (map enc_rec rs))"
    using assms(3) unfolding cons_ok.simps by blast+
  show ?thesis
  proof (cases "length bs < TN_RX_HDR")
    case True
    have l: "length bs < tn_ringbuf_used rb" using True c(3) rec_end_le [OF c(2)] used by simp
    have "unat (of_nat (length bs) :: u32) = length bs" using True by (intro unat_of_nat_lt) (simp add: config)
    from ring_read_byte [OF wf l this]
    have "c' = C_hdr head tail (bs @ [concat (map enc_rec rs) ! length bs])" "rb' = rb" "r = None"
      using assms(4) True c(1) bytes by auto
    then show ?thesis using c True l used take_Suc_snoc [OF _ c(5)] by auto
  next
    case False
    obtain m d rest where rs: "rs = (m, d) # rest" "length (enc_rec (m, d)) \<le> unat (tail - head)" "length d = unat (rm_len m)"
      using rec_end_front [OF c(2,3) assms(2)] .
    have "bs = take TN_RX_HDR (enc_rec (m, d) @ concat (map enc_rec rest))" using False c(4,5) rs(1) by simp
    then have m: "hdr_meta bs = m" by (simp only: hdr_meta_front)
    moreover have "unat (rm_len m) \<le> TREENET_MTU" using assms(2) rs(1) by (simp add: rec_fits_def)
    moreover have "\<not> tail - head < of_nat TN_RX_HDR + ucast (rm_len m)"
      using rs(2,3) by (simp only: word_less_nat_alt unat_rx_need) (simp add: enc_rec_def)
    ultimately have "c' = C_data head m []" "rb' = rb" "r = None" using assms(4) False by (auto simp: Let_def)
    then show ?thesis using c(1) rs(1) by simp
  qed
qed

text \<open>The consumer copies a byte of the payload, or takes the record off the queue after the last one.\<close>

lemma pop_data_ok:
  assumes "ring_repr rb rs" and "list_all rec_fits rs" and "prod_ok rb p" and "cons_ok rb rs (C_data head m bs)"
    and "pop_step TREENET_MTU rb (C_data head m bs) = (rb', c', r)"
  obtains "rb' = rb" and "r = None" and "cons_ok rb rs c'"
  | d rest where "rs = (m, d) # rest" and "r = Some (m, d)" and "c' = C_idle" and "ring_repr rb' rest" and "prod_ok rb' p"
proof -
  have wf: "ring_wf rb" and bytes: "ring_bytes rb = concat (map enc_rec rs)" using assms(1) by (simp_all add: ring_repr_def)
  have used: "tn_ringbuf_used rb = length (concat (map enc_rec rs))" using bytes by (simp flip: length_ring_bytes)
  obtain d rest where c: "head = rb_head rb" "rs = (m, d) # rest" "length bs \<le> length d" "bs = take (length bs) d"
    using assms(4) by auto
  have d: "length d = unat (rm_len m)" "length d < 2 ^ 16" using assms(2) c(2) unat_u16_less [of "rm_len m"] by (simp_all add: rec_fits_def rec_ok_def)
  show thesis
  proof (cases "length bs < length d")
    case True
    have l: "5 + length bs < tn_ringbuf_used rb" using True used c(2) by (simp add: enc_rec_def)
    have "unat (of_nat (5 + length bs) :: u32) = 5 + length bs" using True d(2) by (intro unat_of_nat_lt) simp
    from ring_read_byte [OF wf l this]
    have "ring_read_at rb (head + of_nat TN_RX_HDR + of_nat (length bs)) [0] 1 = [d ! length bs]"
      using bytes c(1,2) True by (simp add: config add.assoc enc_rec_def nth_append)
    then have "c' = C_data head m (bs @ [d ! length bs])" "rb' = rb" "r = None" using assms(5) True d(1) by auto
    then show thesis using c True take_Suc_snoc [OF True c(4)] by (intro that(1)) auto
  next
    case False
    have n: "5 + unat (rm_len m) \<le> tn_ringbuf_used rb" using used c(2) d(1) by (simp add: enc_rec_def)
    have "bs = d" using False c(3,4) by simp
    then have r: "rb' = rb\<lparr>rb_head := rb_head rb + (of_nat TN_RX_HDR + ucast (rm_len m))\<rparr>" "c' = C_idle" "r = Some (m, d)"
      using assms(5) d(1) c(1) by (auto simp: add.assoc)
    then have "ring_repr rb' rest" "prod_ok rb' p"
      using ring_advance [OF wf n unat_rx_need] prod_ok_advance [OF wf n unat_rx_need assms(3)] bytes c(2) assms(1) d(1)
      by (simp_all add: ring_repr_def enc_rec_def)
    with c(2) r(2,3) show thesis by (intro that(2))
  qed
qed

text \<open>An access of the consumer takes the oldest record off the queue or changes nothing but the consumer itself.\<close>

lemma pop_step_ok:
  assumes "ring_repr rb rs" and "list_all rec_fits rs" and "prod_ok rb p" and "cons_ok rb rs c"
    and "pop_step TREENET_MTU rb c = (rb', c', r)"
  obtains qs where "rs = (case r of None \<Rightarrow> [] | Some x \<Rightarrow> [x]) @ qs" and "ring_repr rb' qs"
    and "prod_ok rb' p" and "cons_ok rb' qs c'"
proof -
  note result = that
  have stay: thesis if "rb' = rb" "r = None" "cons_ok rb rs c'" using that assms(1,3) by (intro result [of rs]) simp_all
  show thesis
  proof (cases c)
    case (C_head head)
    have "tn_ringbuf_used rb = length (concat (map enc_rec rs))" using assms(1) by (simp add: ring_repr_def flip: length_ring_bytes)
    then have "rec_end rs (unat (rb_tail rb - rb_head rb))"
      unfolding rec_end_def by (intro exI [of _ "length rs"]) (simp add: tn_ringbuf_used_def)
    then show thesis using stay assms(4,5) C_head by auto
  next
    case (C_snap head tail)
    then show thesis using stay assms(4,5) by (auto simp: word_less_nat_alt config split: if_splits)
  next
    case (C_hdr head tail bs)
    then show thesis using pop_hdr_ok [OF assms(1,2)] assms(4,5) stay by blast
  next
    case (C_data head m bs)
    show thesis
      by (rule pop_data_ok [OF assms(1-3) assms(4,5) [unfolded C_data]]) (auto intro: stay result)
  qed (use stay assms(4,5) in \<open>auto split: if_splits\<close>)
qed

section \<open>Every interleaving\<close>

lemma spsc_ok_step:
  assumes "spsc_step s s'" and "spsc_ok s rs"
  shows "\<exists>qs. spsc_ok s' qs"
  using assms
proof cases
  case run_push
  obtain rb p r where e: "push_step (sp_ring s) (sp_prod s) = (rb, p, r)" by (cases "push_step (sp_ring s) (sp_prod s)")
  have "spsc_ok s' (rs @ (case r of None \<Rightarrow> [] | Some x \<Rightarrow> [x]))"
    using push_step_ok [OF _ _ e, of rs] cons_ok_append [of "sp_ring s" rs "sp_cons s" rb] assms(2)
    by (simp add: run_push produce_def e spsc_ok_def)
  then show ?thesis ..
next
  case run_pop
  obtain rb c r where e: "pop_step TREENET_MTU (sp_ring s) (sp_cons s) = (rb, c, r)"
    by (cases "pop_step TREENET_MTU (sp_ring s) (sp_cons s)")
  obtain qs where "rs = (case r of None \<Rightarrow> [] | Some x \<Rightarrow> [x]) @ qs" "ring_repr rb qs" "prod_ok rb (sp_prod s)" "cons_ok rb qs c"
    using pop_step_ok [OF _ _ _ _ e] assms(2) by (auto simp: spsc_ok_def)
  then have "spsc_ok s' qs" using assms(2) by (simp add: run_pop consume_def e spsc_ok_def)
  then show ?thesis ..
qed (auto simp: spsc_ok_def)

lemma spsc_reachable_ok:
  assumes "spsc_step\<^sup>*\<^sup>* (spsc_init rb) s" and "ring_repr rb []"
  shows "\<exists>rs. spsc_ok s rs"
  using assms(1)
proof induction
  case base
  have "spsc_ok (spsc_init rb) []" using assms(2) by (simp add: spsc_ok_def spsc_init_def)
  then show ?case ..
qed (use spsc_ok_step in blast)

text \<open>Each call takes a bounded number of the caller's own steps, whatever the other side does.\<close>

fun prod_left :: "producer \<Rightarrow> nat" where
  "prod_left P_idle = 0"
| "prod_left (P_start r) = 9 + unat (rm_len (fst r))"
| "prod_left (P_tail r tail) = 8 + unat (rm_len (fst r))"
| "prod_left (P_head r tail head) = 7 + unat (rm_len (fst r))"
| "prod_left (P_write r tail i) = 6 + unat (rm_len (fst r)) - i"

fun cons_left :: "consumer \<Rightarrow> nat" where
  "cons_left C_idle = 0"
| "cons_left C_start = TREENET_MTU + 10"
| "cons_left (C_head head) = TREENET_MTU + 9"
| "cons_left (C_snap head tail) = TREENET_MTU + 8"
| "cons_left (C_hdr head tail bs) = TREENET_MTU + 7 - length bs"
| "cons_left (C_data head m bs) = 1 + unat (rm_len m) - length bs"

lemma push_step_left:
  "p \<noteq> P_idle \<Longrightarrow> prod_ok rb p \<Longrightarrow> prod_left (fst (snd (push_step rb p))) < prod_left p"
  by (cases "(rb, p)" rule: push_step.cases) (auto simp: length_enc_fits config)

lemma length_ring_read_one: "ring_wf rb \<Longrightarrow> length (ring_read_at rb pos [0] 1) = 1"
  using ring_read_at_eq [of rb 1 "[0]" pos] ring_wf_capacity [of rb] by (simp add: Suc_leI) (metis Suc_leI length_ring_slice zero_less_numeral zero_less_power)

lemma pop_step_left:
  assumes "ring_wf rb" and "c \<noteq> C_idle" and "cons_ok rb rs c" and "list_all rec_fits rs"
  shows "cons_left (fst (snd (pop_step TREENET_MTU rb c))) < cons_left c"
  using assms by (cases "(TREENET_MTU, rb, c)" rule: pop_step.cases) (auto simp: length_ring_read_one config Let_def rec_fits_def rec_ok_def)


section \<open>Uninterrupted runs are the sequential operations\<close>

lemma ring_buf_ext:
  assumes "0 < length xs" and "length ys = length xs"
    and "\<And>j. j < length xs \<Longrightarrow> xs ! ((p + j) mod length xs) = ys ! ((p + j) mod length xs)"
  shows "xs = ys"
proof (rule nth_equalityI)
  fix q assume q: "q < length xs"
  let ?c = "length xs"
  let ?j = "(q + ?c - p mod ?c) mod ?c"
  have "(p + ?j) mod ?c = (p mod ?c + (q + ?c - p mod ?c)) mod ?c" by (metis mod_add_left_eq mod_add_right_eq)
  also have "p mod ?c + (q + ?c - p mod ?c) = q + ?c" using mod_less_divisor [OF assms(1), of p] by linarith
  finally have "(p + ?j) mod ?c = q" using q by simp
  then show "xs ! q = ys ! q" using assms(3) [of ?j] assms(1) by simp
qed (use assms in simp)

text \<open>A copy can be cut anywhere.\<close>

lemma ring_write_split:
  assumes "ring_wf rb" and "length xs + length ys \<le> length (rb_buf rb)"
  shows "ring_write_at rb pos (xs @ ys) (of_nat (length xs + length ys)) =
    ring_write_at (ring_write_at rb pos xs (of_nat (length xs))) (pos + of_nat (length xs)) ys (of_nat (length ys))"
    (is "?l = ?r")
proof -
  let ?c = "length (rb_buf rb)" and ?rb1 = "ring_write_at rb pos xs (of_nat (length xs))" and ?nx = "length xs" and ?ny = "length ys"
  have un: "unat (of_nat m :: u32) = m" if "m \<le> ?c" for m
    using that ring_length_le [OF assms(1)] by (intro unat_of_nat_lt) simp
  have n: "unat (of_nat ?nx :: u32) = ?nx" "unat (of_nat ?ny :: u32) = ?ny" "unat (of_nat (?nx + ?ny) :: u32) = ?nx + ?ny"
    using assms(2) by (intro un, simp)+
  have c: "0 < ?c" using ring_wf_capacity [OF assms(1)] by (metis zero_less_numeral zero_less_power)
  have wf1: "ring_wf ?rb1" and len1: "length (rb_buf ?rb1) = ?c" using assms n by simp_all
  have pos: "(unat (pos + of_nat ?nx) + i) mod ?c = (unat pos + (?nx + i)) mod ?c" for i
    using pos_plus_mod [OF assms(1), of ?nx pos] assms(2) ring_length_le [OF assms(1)] by (simp add: add.assoc [symmetric]) (metis mod_add_left_eq)
  have "rb_buf ?l = rb_buf ?r"
  proof (rule ring_buf_ext [where p = "unat pos"])
    fix j assume "j < length (rb_buf ?l)"
    then have j: "j < ?c" using assms n by simp
    have l: "rb_buf ?l ! ((unat pos + j) mod ?c) = (if j < ?nx + ?ny then (xs @ ys) ! j else rb_buf rb ! ((unat pos + j) mod ?c))"
      using ring_write_at_nth [OF assms(1), of "of_nat (?nx + ?ny)" "xs @ ys" j pos] assms(2) n(3) j by simp
    have r1: "rb_buf ?rb1 ! ((unat pos + j) mod ?c) = (if j < ?nx then xs ! j else rb_buf rb ! ((unat pos + j) mod ?c))"
      using ring_write_at_nth [OF assms(1), of "of_nat ?nx" xs j pos] assms(2) n(1) j by simp
    define i where "i = (if ?nx \<le> j then j - ?nx else j + ?c - ?nx)"
    have i: "i < ?c" "(unat pos + (?nx + i)) mod ?c = (unat pos + j) mod ?c"
      using j assms(2) by (auto simp: i_def) (simp flip: add.assoc)
    have "rb_buf ?r ! ((unat pos + j) mod ?c) = (if i < ?ny then ys ! i else rb_buf ?rb1 ! ((unat pos + j) mod ?c))"
      using ring_write_at_nth [OF wf1, of "of_nat ?ny" ys i "pos + of_nat ?nx"] assms(2) n(2) i len1 pos by simp
    then have "rb_buf ?l ! ((unat pos + j) mod ?c) = rb_buf ?r ! ((unat pos + j) mod ?c)"
      using l r1 j assms(2) by (auto simp: i_def nth_append split: if_splits)
    then show "rb_buf ?l ! ((unat pos + j) mod length (rb_buf ?l)) = rb_buf ?r ! ((unat pos + j) mod length (rb_buf ?l))"
      using assms n by simp
  qed (use assms n c wf1 len1 in simp_all)
  then show ?thesis by (simp add: ring_write_at_def Let_def)
qed

fun push_run :: "nat \<Rightarrow> tn_ringbuf_t \<Rightarrow> producer \<Rightarrow> tn_ringbuf_t \<times> producer \<times> rx_record option" where
  "push_run 0 rb p = (rb, p, None)"
| "push_run (Suc n) rb p =
     (case push_step rb p of (rb', p', r) \<Rightarrow> if p' = P_idle then (rb', p', r) else push_run n rb' p')"

fun pop_run :: "nat \<Rightarrow> nat \<Rightarrow> tn_ringbuf_t \<Rightarrow> consumer \<Rightarrow> tn_ringbuf_t \<times> consumer \<times> rx_record option" where
  "pop_run cap 0 rb c = (rb, c, None)"
| "pop_run cap (Suc n) rb c =
     (case pop_step cap rb c of (rb', c', r) \<Rightarrow> if c' = C_idle then (rb', c', r) else pop_run cap n rb' c')"


lemma push_run_write:
  assumes "ring_wf rb" and "rec_fits r" and "i \<le> length (enc_rec r)" and "length (enc_rec r) \<le> length (rb_buf rb)"
  shows "push_run (Suc (length (enc_rec r) - i)) rb (P_write r tail i) =
    ((ring_write_at rb (tail + of_nat i) (drop i (enc_rec r)) (of_nat (length (enc_rec r) - i)))
       \<lparr>rb_tail := tail + (of_nat TN_RX_HDR + ucast (rm_len (fst r)))\<rparr>, P_idle, Some r)"
  using assms
proof (induction "length (enc_rec r) - i" arbitrary: rb i)
  case 0
  then show ?case using length_enc_fits [of r] by (simp add: ring_write_at_def memcpy_def put_bytes_def)
next
  case (Suc n)
  let ?rb1 = "ring_write_at rb (tail + of_nat i) [enc_rec r ! i] 1"
  have i: "i < length (enc_rec r)" "n = length (enc_rec r) - Suc i" using Suc.hyps(2) by simp_all
  have "1 \<le> length (rb_buf rb)" using i Suc.prems(4) by simp
  then have rb1: "ring_wf ?rb1" "length (rb_buf ?rb1) = length (rb_buf rb)" using Suc.prems(1) by simp_all
  have step: "push_step rb (P_write r tail i) = (?rb1, P_write r tail (Suc i), None)"
    using i length_enc_fits [OF Suc.prems(2)] by simp
  have "push_run (Suc (length (enc_rec r) - i)) rb (P_write r tail i) = push_run (Suc n) ?rb1 (P_write r tail (Suc i))"
    by (simp only: Suc.hyps(2) [symmetric] push_run.simps(2) step) simp
  also have "\<dots> = ((ring_write_at ?rb1 (tail + of_nat (Suc i)) (drop (Suc i) (enc_rec r)) (of_nat n))
      \<lparr>rb_tail := tail + (of_nat TN_RX_HDR + ucast (rm_len (fst r)))\<rparr>, P_idle, Some r)"
    using Suc.hyps(1) [OF i(2) rb1(1) Suc.prems(2)] i Suc.prems(4) rb1(2) by simp
  also have "ring_write_at ?rb1 (tail + of_nat (Suc i)) (drop (Suc i) (enc_rec r)) (of_nat n) =
      ring_write_at rb (tail + of_nat i) (drop i (enc_rec r)) (of_nat (length (enc_rec r) - i))"
    using ring_write_split [OF Suc.prems(1), of "[enc_rec r ! i]" "drop (Suc i) (enc_rec r)" "tail + of_nat i"] i Suc.prems(4) Suc.hyps(2)
    by (simp add: Cons_nth_drop_Suc add_ac)
  finally show ?case .
qed

text \<open>The producer's accesses without interruption are \<open>tn_ringbuf_push\<close>.\<close>

lemma push_alone:
  assumes "ring_wf rb" and "rec_fits r"
  shows "push_run (9 + unat (rm_len (fst r))) rb (P_start r) =
    (snd (tn_ringbuf_push rb (fst r) (snd r)), P_idle, if fst (tn_ringbuf_push rb (fst r) (snd r)) then Some r else None)"
proof -
  let ?n = "length (enc_rec r)" and ?m = "fst r" and ?d = "snd r"
  have n: "?n = 5 + unat (rm_len ?m)" "length ?d = unat (rm_len ?m)" using assms(2) by (simp_all add: rec_fits_def length_enc_rec rec_ok_def)
  have start: "push_run (9 + unat (rm_len ?m)) rb (P_start r) = push_run (Suc (Suc ?n)) rb (P_head r (rb_tail rb) (rb_head rb))"
    using ring_capacity_nonzero [OF assms(1)] n(1) by (simp add: eval_nat_numeral)
  show ?thesis
  proof (cases "?n \<le> length (rb_buf rb) - tn_ringbuf_used rb")
    case True
    then have room: "5 + unat (rm_len ?m) \<le> length (rb_buf rb) - tn_ringbuf_used rb" using n by simp
    have c: "\<not> rb_capacity rb - (rb_tail rb - rb_head rb) < of_nat TN_RX_HDR + ucast (rm_len ?m)"
      using assms(1) room by (simp only: word_less_nat_alt unat_free unat_rx_need not_less)
    have "push_run (Suc (Suc ?n)) rb (P_head r (rb_tail rb) (rb_head rb)) = push_run (Suc (?n - 0)) rb (P_write r (rb_tail rb) 0)"
      using c by simp
    also have "\<dots> = ((ring_write_at rb (rb_tail rb) (enc_rec r) (of_nat ?n))\<lparr>rb_tail := rb_tail rb + (of_nat TN_RX_HDR + ucast (rm_len ?m))\<rparr>, P_idle, Some r)"
      using push_run_write [OF assms, of 0 "rb_tail rb"] True by simp
    also have "ring_write_at rb (rb_tail rb) (enc_rec r) (of_nat ?n) =
        ring_write_at (ring_write_at rb (rb_tail rb) (rec_header ?m) (of_nat TN_RX_HDR)) (rb_tail rb + of_nat TN_RX_HDR) ?d (ucast (rm_len ?m))"
      using ring_write_split [OF assms(1), of "rec_header ?m" ?d "rb_tail rb"] True n by (simp add: enc_rec_def config)
    finally show ?thesis using push_room [OF assms(1) room, of ?d] start by simp
  next
    case False
    then have full: "length (rb_buf rb) - tn_ringbuf_used rb < 5 + unat (rm_len ?m)" using n by simp
    then have c: "rb_capacity rb - (rb_tail rb - rb_head rb) < of_nat TN_RX_HDR + ucast (rm_len ?m)"
      using assms(1) by (simp only: word_less_nat_alt unat_free unat_rx_need)
    then show ?thesis using push_full [OF assms(1) full, of ?d] start by simp
  qed
qed


lemma ring_read_one:
  assumes "ring_wf rb" and "i < 2 ^ 32"
  shows "ring_slice rb (unat p) i @ ring_read_at rb (p + of_nat i) [0] 1 = ring_slice rb (unat p) (Suc i)"
proof -
  have "1 \<le> length (rb_buf rb)" using ring_wf_capacity [OF assms(1)] by (metis Suc_leI One_nat_def zero_less_numeral zero_less_power)
  then have "ring_read_at rb (p + of_nat i) [0] 1 = ring_slice rb (unat (p + of_nat i)) 1"
    using ring_read_at_eq [OF assms(1), of 1 "[0]" "p + of_nat i"] by simp
  also have "\<dots> = ring_slice rb (unat p + i) 1" using pos_plus_mod [OF assms, of p] by (rule ring_slice_mod)
  finally show ?thesis using ring_slice_append [of rb "unat p" i 1] by simp
qed

lemma pop_run_hdr:
  assumes "ring_wf rb" and "i \<le> TN_RX_HDR"
  shows "pop_run cap (n + (TN_RX_HDR - i)) rb (C_hdr h t (ring_slice rb (unat h) i)) = pop_run cap n rb (C_hdr h t (ring_slice rb (unat h) TN_RX_HDR))"
  using assms(2)
proof (induction "TN_RX_HDR - i" arbitrary: i)
  case (Suc k)
  then have i: "i < TN_RX_HDR" "TN_RX_HDR - i = Suc (TN_RX_HDR - Suc i)" "k = TN_RX_HDR - Suc i" by simp_all
  have "i < 2 ^ 32" using i(1) by (simp add: config)
  then have "pop_step cap rb (C_hdr h t (ring_slice rb (unat h) i)) = (rb, C_hdr h t (ring_slice rb (unat h) (Suc i)), None)"
    using i(1) ring_read_one [OF assms(1), of i h] by simp
  then show ?case using Suc.hyps(1) [OF i(3)] i(1) by (simp only: i(2) add_Suc_right pop_run.simps(2)) simp
qed simp

lemma pop_run_data:
  fixes h :: u32
  assumes "ring_wf rb" and "i \<le> unat (rm_len m)"
  defines "p \<equiv> unat (h + of_nat TN_RX_HDR)"
  shows "pop_run cap (n + (unat (rm_len m) - i)) rb (C_data h m (ring_slice rb p i)) = pop_run cap n rb (C_data h m (ring_slice rb p (unat (rm_len m))))"
  using assms(2)
proof (induction "unat (rm_len m) - i" arbitrary: i)
  case (Suc k)
  then have i: "i < unat (rm_len m)" "unat (rm_len m) - i = Suc (unat (rm_len m) - Suc i)" "k = unat (rm_len m) - Suc i" by simp_all
  have "i < 2 ^ 32" using i(1) unat_u16_less [of "rm_len m"] by simp
  then have "pop_step cap rb (C_data h m (ring_slice rb p i)) = (rb, C_data h m (ring_slice rb p (Suc i)), None)"
    using i(1) ring_read_one [OF assms(1), of i "h + of_nat TN_RX_HDR"] by (simp add: p_def)
  then show ?case using Suc.hyps(1) [OF i(3)] i(1) by (simp only: i(2) add_Suc_right pop_run.simps(2)) simp
qed simp

text \<open>The consumer reaches the end of the header.\<close>

lemma pop_run_start:
  assumes "ring_wf rb"
  shows "pop_run cap (cap + 11) rb C_start = (if rb_tail rb - rb_head rb < of_nat TN_RX_HDR then (rb, C_idle, None)
    else pop_run cap (Suc (cap + 2)) rb (C_hdr (rb_head rb) (rb_tail rb) (ring_slice rb (unat (rb_head rb)) TN_RX_HDR)))"
proof -
  let ?h = "rb_head rb" and ?t = "rb_tail rb"
  have start: "pop_run cap (cap + 11) rb C_start = pop_run cap (cap + 9) rb (C_snap ?h ?t)"
    using ring_capacity_nonzero [OF assms] by (simp add: eval_nat_numeral)
  show ?thesis
  proof (cases "?t - ?h < of_nat TN_RX_HDR")
    case False
    then have "pop_run cap (cap + 9) rb (C_snap ?h ?t) = pop_run cap (cap + 3 + (TN_RX_HDR - 0)) rb (C_hdr ?h ?t (ring_slice rb (unat ?h) 0))"
      by (simp add: eval_nat_numeral config ring_slice_def)
    then show ?thesis using pop_run_hdr [OF assms, of 0 cap "cap + 3" ?h ?t] start False by (simp add: eval_nat_numeral)
  qed (simp add: start eval_nat_numeral)
qed

text \<open>The consumer's accesses without interruption are \<open>tn_ringbuf_pop\<close>, whatever the ring holds.\<close>

text \<open>The atomic pop once the snapshot holds a header: the stored metadata decides between dropping everything,
  waiting and copying the record out.\<close>

lemma pop_decides:
  assumes "ring_wf rb" and "tn_ringbuf_pop rb meta out cap = (res, rb', meta', out')" and "\<not> rb_tail rb - rb_head rb < of_nat TN_RX_HDR"
  defines "m \<equiv> hdr_meta (ring_slice rb (unat (rb_head rb)) TN_RX_HDR)"
  shows "(if unat (rm_len m) > cap then (False, rb\<lparr>rb_head := rb_tail rb\<rparr>, m, out)
      else if rb_tail rb - rb_head rb < of_nat TN_RX_HDR + ucast (rm_len m) then (False, rb, m, out)
      else (True, rb\<lparr>rb_head := rb_head rb + of_nat TN_RX_HDR + ucast (rm_len m)\<rparr>, m,
             ring_read_at rb (rb_head rb + of_nat TN_RX_HDR) out (ucast (rm_len m)))) = (res, rb', meta', out')"
proof -
  let ?h = "rb_head rb" and ?t = "rb_tail rb"
  let ?hdr = "ring_slice rb (unat ?h) TN_RX_HDR"
  have fit: "tn_ringbuf_used rb \<le> length (rb_buf rb)" "5 \<le> tn_ringbuf_used rb"
    using assms(1,3) by (simp_all add: ring_wf_def word_less_nat_alt tn_ringbuf_used_def config)
  have meta: "meta\<lparr>rm_len := tn_get_u16 ?hdr 0, rm_rssi_dbm := tn_get_u16 ?hdr 2, rm_snr_db := ?hdr ! 4\<rparr> = m"
    by (cases meta) (simp add: m_def hdr_meta_def)
  have hdr: "ring_read_at rb ?h (replicate TN_RX_HDR 0) (of_nat TN_RX_HDR) = ?hdr"
    using ring_read_at_eq [OF assms(1), of "of_nat TN_RX_HDR" "replicate TN_RX_HDR 0" ?h] fit by (simp add: config)
  show ?thesis
    using assms(2,3) ring_capacity_nonzero [OF assms(1)] unfolding tn_ringbuf_pop_def Let_def hdr meta by simp
qed

lemma pop_alone:
  assumes "ring_wf rb" and "cap \<le> length out" and "tn_ringbuf_pop rb meta out cap = (res, rb', meta', out')"
  shows "pop_run cap (cap + 11) rb C_start = (rb', C_idle, if res then Some (meta', take (unat (rm_len meta')) out') else None)"
proof (cases "rb_tail rb - rb_head rb < of_nat TN_RX_HDR")
  case True
  then have "(res, rb') = (False, rb)" using assms(3) by (simp add: tn_ringbuf_pop_def Let_def split: if_splits)
  then show ?thesis using pop_run_start [OF assms(1)] True by simp
next
  case hdr: False
  let ?h = "rb_head rb" and ?t = "rb_tail rb"
  let ?hdr = "ring_slice rb (unat ?h) TN_RX_HDR"
  define m where "m = hdr_meta ?hdr"
  note pop = pop_decides [OF assms(1,3) hdr, folded m_def]
  have snap: "pop_run cap (cap + 11) rb C_start = pop_run cap (Suc (cap + 2)) rb (C_hdr ?h ?t ?hdr)"
    using pop_run_start [OF assms(1)] hdr by simp
  have decide: "pop_step cap rb (C_hdr ?h ?t ?hdr) = (if unat (rm_len m) > cap then (rb\<lparr>rb_head := ?t\<rparr>, C_idle, None)
      else if ?t - ?h < of_nat TN_RX_HDR + ucast (rm_len m) then (rb, C_idle, None) else (rb, C_data ?h m [], None))"
    by (simp add: m_def Let_def)
  show ?thesis
  proof (cases "unat (rm_len m) > cap \<or> ?t - ?h < of_nat TN_RX_HDR + ucast (rm_len m)")
    case True
    then show ?thesis unfolding snap pop_run.simps(2) decide using pop by (auto split: if_splits)
  next
    case False
    let ?p = "unat (?h + of_nat TN_RX_HDR)" and ?l = "unat (rm_len m)"
    have "5 + ?l \<le> tn_ringbuf_used rb" "tn_ringbuf_used rb \<le> length (rb_buf rb)"
      using False assms(1) by (simp_all add: not_less word_le_nat_alt unat_rx_need tn_ringbuf_used_def ring_wf_def)
    then have "ring_read_at rb (?h + of_nat TN_RX_HDR) out (ucast (rm_len m)) = ring_slice rb ?p ?l @ drop ?l out"
      using ring_read_at_eq [OF assms(1), of "ucast (rm_len m)" out "?h + of_nat TN_RX_HDR"] False assms(2) by simp
    with pop False have r: "res" "rb' = rb\<lparr>rb_head := ?h + of_nat TN_RX_HDR + ucast (rm_len m)\<rparr>" "meta' = m" "take ?l out' = ring_slice rb ?p ?l"
      by auto
    have steps: "Suc (Suc (cap - ?l)) + (?l - 0) = cap + 2" using False by simp
    have "pop_run cap (cap + 11) rb C_start = pop_run cap (Suc (Suc (cap - ?l)) + (?l - 0)) rb (C_data ?h m (ring_slice rb ?p 0))"
      unfolding snap pop_run.simps(2) [of _ "cap + 2"] decide steps using False by (simp add: ring_slice_def del: pop_run.simps)
    also have "\<dots> = pop_run cap (Suc (Suc (cap - ?l))) rb (C_data ?h m (ring_slice rb ?p ?l))"
      by (rule pop_run_data [OF assms(1)]) simp
    finally show ?thesis using r by simp
  qed
qed


section \<open>Correctness of the lock-free ring\<close>

text \<open>
  Property C13: the lock-free ring works under concurrency. Let one producer and one consumer run on an initialised ring, their accesses to shared memory
  (positions and single bytes) in program order on each side and interleaved in any way. At every moment the records delivered so far are a prefix of the records accepted so far, in order
  and byte for byte, and the ring between the two positions holds exactly the remaining ones: no record is lost, duplicated, torn or
  seen half-written. And neither side ever waits: a call that is under way comes closer to its end with each of the caller's own steps,
  of which there are at most 9 plus the payload length for a push and 10 plus the MTU for a pop.
\<close>

theorem ringbuf_concurrent:
  assumes "k < 32" and "length storage = 2 ^ k" and "spsc_step\<^sup>*\<^sup>* (spsc_init (tn_ringbuf_init rb storage (2 ^ k))) s"
  shows "(\<exists>pending. sp_sent s = sp_got s @ pending \<and> ring_repr (sp_ring s) pending) \<and>
    (sp_prod s \<noteq> P_idle \<longrightarrow> prod_left (sp_prod (produce s)) < prod_left (sp_prod s)) \<and>
    (sp_cons s \<noteq> C_idle \<longrightarrow> cons_left (sp_cons (consume s)) < cons_left (sp_cons s))"
proof -
  obtain rs where ok: "spsc_ok s rs" using spsc_reachable_ok [OF assms(3) ring_repr_init [OF assms(1,2)]] by blast
  then have "ring_wf (sp_ring s)" by (simp add: spsc_ok_def ring_repr_def)
  with ok show ?thesis
    using push_step_left [of "sp_prod s" "sp_ring s"] pop_step_left [of "sp_ring s" "sp_cons s" rs]
    by (auto simp: spsc_ok_def produce_def consume_def case_prod_unfold)
qed

lemma spsc_push_run:
  assumes "push_run n (sp_ring s) (sp_prod s) = (rb, P_idle, r)" and "sp_prod s \<noteq> P_idle"
  shows "spsc_step\<^sup>*\<^sup>* s (s\<lparr>sp_ring := rb, sp_prod := P_idle, sp_sent := sp_sent s @ (case r of None \<Rightarrow> [] | Some x \<Rightarrow> [x])\<rparr>)"
  using assms
proof (induction n arbitrary: s)
  case (Suc n)
  obtain rb1 p1 r1 where e: "push_step (sp_ring s) (sp_prod s) = (rb1, p1, r1)" by (cases "push_step (sp_ring s) (sp_prod s)")
  note step = run_push [of s]
  show ?case
  proof (cases "p1 = P_idle")
    case True
    then show ?thesis using Suc.prems e step by (auto simp: produce_def)
  next
    case False
    then have "r1 = None" using e by (cases "(sp_ring s, sp_prod s)" rule: push_step.cases) (auto split: if_splits)
    then show ?thesis
      using Suc.IH [of "produce s"] Suc.prems e False converse_rtranclp_into_rtranclp [of spsc_step, OF step] by (simp add: produce_def)
  qed
qed simp

lemma spsc_pop_run:
  assumes "pop_run TREENET_MTU n (sp_ring s) (sp_cons s) = (rb, c, r)" and "sp_cons s \<noteq> C_idle"
  shows "spsc_step\<^sup>*\<^sup>* s (s\<lparr>sp_ring := rb, sp_cons := c, sp_got := sp_got s @ (case r of None \<Rightarrow> [] | Some x \<Rightarrow> [x])\<rparr>)"
  using assms
proof (induction n arbitrary: s)
  case (Suc n)
  obtain rb1 c1 r1 where e: "pop_step TREENET_MTU (sp_ring s) (sp_cons s) = (rb1, c1, r1)"
    by (cases "pop_step TREENET_MTU (sp_ring s) (sp_cons s)")
  note step = run_pop [of s]
  show ?case
  proof (cases "c1 = C_idle")
    case True
    then show ?thesis using Suc.prems e step by (auto simp: consume_def)
  next
    case False
    then have "r1 = None" using e by (cases "(TREENET_MTU, sp_ring s, sp_cons s)" rule: pop_step.cases) (auto simp: Let_def split: if_splits)
    then show ?thesis
      using Suc.IH [of "consume s"] Suc.prems e False converse_rtranclp_into_rtranclp [of spsc_step, OF step] by (simp add: consume_def)
  qed
qed auto

text \<open>An accepted push in one go, the consumer standing still.\<close>

lemma spsc_push_call:
  assumes "sp_prod s = P_idle" and "ring_wf (sp_ring s)" and "rec_fits r" and "tn_ringbuf_push (sp_ring s) (fst r) (snd r) = (True, rb)"
  shows "spsc_step\<^sup>*\<^sup>* s (s\<lparr>sp_ring := rb, sp_sent := sp_sent s @ [r]\<rparr>)"
proof -
  have "spsc_step s (s\<lparr>sp_prod := P_start r\<rparr>)" using assms(1,3) by (rule call_push)
  moreover have "spsc_step\<^sup>*\<^sup>* (s\<lparr>sp_prod := P_start r\<rparr>) (s\<lparr>sp_prod := P_start r, sp_ring := rb, sp_prod := P_idle, sp_sent := sp_sent s @ [r]\<rparr>)"
    using spsc_push_run [of "9 + unat (rm_len (fst r))" "s\<lparr>sp_prod := P_start r\<rparr>"] push_alone [OF assms(2,3)] assms(4) by simp
  moreover have "s\<lparr>sp_prod := P_start r, sp_ring := rb, sp_prod := P_idle, sp_sent := sp_sent s @ [r]\<rparr> = s\<lparr>sp_ring := rb, sp_sent := sp_sent s @ [r]\<rparr>"
    using assms(1) by (cases s) simp
  ultimately show ?thesis by (metis converse_rtranclp_into_rtranclp)
qed

text \<open>The producer is in the middle of its second record while the consumer takes the first.\<close>

definition ring_half :: tn_ringbuf_t where
  "ring_half = ring_write_at (snd (tn_ringbuf_push ring_example (fst (rec_example [1, 2, 3])) [1, 2, 3])) 8 [2] 1"

definition spsc_mid :: spsc where
  "spsc_mid = \<lparr>sp_ring = ring_half\<lparr>rb_head := 8\<rparr>, sp_prod = P_write (rec_example [4, 5]) 8 1, sp_cons = C_idle,
     sp_sent = [rec_example [1, 2, 3]], sp_got = [rec_example [1, 2, 3]]\<rparr>"

lemma rec_example_fits: "rec_fits (rec_example [1, 2, 3])" "rec_fits (rec_example [4, 5])"
  by (simp_all add: rec_example_def rec_fits_def rec_ok_def config)

lemma snd_rec_example: "snd (rec_example bs) = bs"
  by (simp add: rec_example_def)

lemma ring_half_eval:
  "fst (tn_ringbuf_push ring_example (fst (rec_example [1, 2, 3])) [1, 2, 3])"
  "tn_ringbuf_pop ring_half (fst (rec_example [])) (replicate TREENET_MTU 0) TREENET_MTU =
     (True, ring_half\<lparr>rb_head := 8\<rparr>, fst (rec_example [1, 2, 3]), [1, 2, 3] @ replicate 197 0)"
  "push_step (snd (tn_ringbuf_push ring_example (fst (rec_example [1, 2, 3])) [1, 2, 3])) (P_write (rec_example [4, 5]) 8 0) =
     (ring_half, P_write (rec_example [4, 5]) 8 1, None)"
  by code_simp+


lemma spsc_mid_reachable: "spsc_step\<^sup>*\<^sup>* (spsc_init ring_example) spsc_mid"
proof -
  let ?r1 = "rec_example [1, 2, 3]" and ?r2 = "rec_example [4, 5]"
  let ?one = "snd (tn_ringbuf_push ring_example (fst ?r1) [1, 2, 3])"
  have wf: "ring_wf ring_example" using ring_repr_init [of 4 "replicate 16 0"] by (simp add: ring_repr_def ring_example_def)
  let ?s2 = "(spsc_init ring_example)\<lparr>sp_ring := ?one, sp_sent := [?r1]\<rparr>"
  have "tn_ringbuf_push ring_example (fst ?r1) (snd ?r1) = (True, ?one)" using ring_half_eval(1) by (simp add: prod_eq_iff snd_rec_example)
  then have a: "spsc_step\<^sup>*\<^sup>* (spsc_init ring_example) ?s2"
    using spsc_push_call [of "spsc_init ring_example" ?r1 ?one] wf rec_example_fits(1) by (simp add: spsc_init_def)
  let ?h = "?s2\<lparr>sp_ring := ring_half, sp_prod := P_write ?r2 8 1\<rparr>"
  have pos: "rb_capacity ?one = 16" "rb_tail ?one = 8" "rb_head ?one = 0" by code_simp+
  have "spsc_step ?s2 (?s2\<lparr>sp_prod := P_start ?r2\<rparr>)" by (rule call_push) (simp_all add: spsc_init_def rec_example_fits)
  moreover have "spsc_step (?s2\<lparr>sp_prod := P_start ?r2\<rparr>) (?s2\<lparr>sp_prod := P_tail ?r2 8\<rparr>)"
    using run_push [of "?s2\<lparr>sp_prod := P_start ?r2\<rparr>"] pos by (simp add: produce_def spsc_init_def)
  moreover have "spsc_step (?s2\<lparr>sp_prod := P_tail ?r2 8\<rparr>) (?s2\<lparr>sp_prod := P_head ?r2 8 0\<rparr>)"
    using run_push [of "?s2\<lparr>sp_prod := P_tail ?r2 8\<rparr>"] pos by (simp add: produce_def spsc_init_def)
  moreover have "spsc_step (?s2\<lparr>sp_prod := P_head ?r2 8 0\<rparr>) (?s2\<lparr>sp_prod := P_write ?r2 8 0\<rparr>)"
    using run_push [of "?s2\<lparr>sp_prod := P_head ?r2 8 0\<rparr>"] pos by (simp add: produce_def spsc_init_def rec_example_def config)
  moreover have "spsc_step (?s2\<lparr>sp_prod := P_write ?r2 8 0\<rparr>) ?h"
    using run_push [of "?s2\<lparr>sp_prod := P_write ?r2 8 0\<rparr>"] ring_half_eval(3) by (simp add: produce_def spsc_init_def del: push_step.simps)
  ultimately have b: "spsc_step\<^sup>*\<^sup>* ?s2 ?h" by (meson converse_rtranclp_into_rtranclp rtranclp.rtrancl_refl)
  have one: "ring_wf ?one" using push_ring_repr [of ring_example "[]" "fst ?r1" "[1, 2, 3]"] ring_repr_init [of 4 "replicate 16 0"] rec_example_fits(1)
    by (simp add: ring_repr_def ring_example_def rec_fits_def snd_rec_example rec_ok_def)
  then have "length (rb_buf ?one) = 16" by (simp add: ring_wf_def pos)
  with one have "ring_wf ring_half" unfolding ring_half_def by (intro ring_wf_write) simp_all
  note pop = pop_alone [OF this _ ring_half_eval(2)]
  have "spsc_step ?h (?h\<lparr>sp_cons := C_start\<rparr>)" by (rule call_pop) (simp add: spsc_init_def)
  moreover have "spsc_step\<^sup>*\<^sup>* (?h\<lparr>sp_cons := C_start\<rparr>) spsc_mid"
    using spsc_pop_run [of "TREENET_MTU + 11" "?h\<lparr>sp_cons := C_start\<rparr>"] pop
    by (simp add: spsc_init_def spsc_mid_def rec_example_def)
  ultimately have "spsc_step\<^sup>*\<^sup>* ?h spsc_mid" by (rule converse_rtranclp_into_rtranclp)
  with a b show ?thesis by (meson rtranclp_trans)
qed

theorem ringbuf_concurrent_witness:
  "sp_sent spsc_mid = sp_got spsc_mid @ [] \<and> ring_repr (sp_ring spsc_mid) [] \<and>
   prod_left (sp_prod (produce spsc_mid)) < prod_left (sp_prod spsc_mid)"
  using ringbuf_concurrent [of 4 "replicate 16 0", OF _ _ spsc_mid_reachable [unfolded ring_example_def]] by (simp add: spsc_mid_def)

end
