(* ===== verification/Tn_RingbufWeak.thy ===== *)
theory Tn_RingbufWeak
  imports Tn_RingbufConc
begin

text \<open>
  The receive ring on a core that may perform a load after a later store. \<open>Tn_RingbufConc\<close> executes the accesses in program
  order; here the store of \<open>head\<close> that ends \<open>tn_ringbuf_pop\<close> may become visible while bytes of the record are still to be read,
  unless the barrier in front of it orders the two. With an ordering barrier the ring keeps its guarantee
  (\<open>ringbuf_ordered_release\<close>); with the one the code has, a compiler barrier, a producer on another core can overwrite
  the record that is being read (\<open>ringbuf_unordered_release\<close>).
\<close>

section \<open>Barriers\<close>

text \<open>The barriers of \<open>src/core/util.h\<close> for GCC and Clang. \<open>TN_BARRIER\<close> is an empty \<open>asm\<close> statement with a memory clobber,
  which restrains the compiler and emits no instruction; the other two are a release and an acquire fence, and both order
  every earlier load before every later store.\<close>

datatype tn_fence = TN_BARRIER | TN_PUBLISH | TN_CONSUME

fun orders_load_store :: "tn_fence \<Rightarrow> bool" where
  "orders_load_store TN_BARRIER = False"
| "orders_load_store TN_PUBLISH = True"
| "orders_load_store TN_CONSUME = True"

text \<open>The barrier between the copy of the payload and the store of \<open>head\<close>.\<close>

definition pop_release_fence :: tn_fence where
  "pop_release_fence = TN_BARRIER"

section \<open>Accesses out of order\<close>

text \<open>Beside the accesses in program order, the consumer's store of \<open>head\<close> may be performed as soon as the length of the record
  is known. The store at its place in the program then writes the same value again, since no one else writes \<open>head\<close>.\<close>

inductive weak_step :: "tn_fence \<Rightarrow> spsc \<Rightarrow> spsc \<Rightarrow> bool" for b where
  in_order: "spsc_step s s' \<Longrightarrow> weak_step b s s'"
| early_release: "\<not> orders_load_store b \<Longrightarrow> sp_cons s = C_data head m bs \<Longrightarrow>
    weak_step b s (s\<lparr>sp_ring := (sp_ring s)\<lparr>rb_head := head + of_nat TN_RX_HDR + ucast (rm_len m)\<rparr>\<rparr>)"

lemma weak_step_ordered: "orders_load_store b \<Longrightarrow> weak_step b = spsc_step"
  by (intro ext) (auto elim: weak_step.cases intro: in_order)

lemma weak_in_order: "spsc_step\<^sup>*\<^sup>* s s' \<Longrightarrow> (weak_step b)\<^sup>*\<^sup>* s s'"
  by (erule rtranclp_mono [THEN predicate2D, rotated]) (blast intro: in_order)

section \<open>What the barrier decides\<close>

text \<open>With a barrier that orders the loads before the store, the records delivered are a prefix of the records accepted.\<close>

theorem ringbuf_ordered_release:
  assumes "k < 32" and "length storage = 2 ^ k" and "orders_load_store b"
    and "(weak_step b)\<^sup>*\<^sup>* (spsc_init (tn_ringbuf_init rb storage (2 ^ k))) s"
  shows "\<exists>pending. sp_sent s = sp_got s @ pending \<and> ring_repr (sp_ring s) pending"
proof -
  have "spsc_step\<^sup>*\<^sup>* (spsc_init (tn_ringbuf_init rb storage (2 ^ k))) s" using assms(4) by (simp add: weak_step_ordered [OF assms(3)])
  then obtain rs where "spsc_ok s rs" using spsc_reachable_ok [OF _ ring_repr_init [OF assms(1,2)]] by blast
  then show ?thesis by (auto simp: spsc_ok_def)
qed

text \<open>The first two records fill the ring. The consumer reads the header of the first and releases its bytes, the producer writes the
  third record over them, and only then are the bytes read.\<close>

definition ring_with :: "u8 list \<Rightarrow> u8 list \<Rightarrow> u32 \<Rightarrow> u32 \<Rightarrow> tn_ringbuf_t" where
  "ring_with first second head tail = \<lparr>rb_buf = [3, 0, 176, 255, 251] @ first @ (if second = [] then replicate 8 0 else [3, 0, 176, 255, 251] @ second),
     rb_capacity = 16, rb_head = head, rb_tail = tail, rb_dropped = 0\<rparr>"

lemma rec_example_three: "rec_fits (rec_example [a, b, c])"
  by (simp add: rec_example_def rec_fits_def rec_ok_def config)

lemma ring_with_pushes:
  "tn_ringbuf_push ring_example (fst (rec_example [1, 2, 3])) (snd (rec_example [1, 2, 3])) = (True, ring_with [1, 2, 3] [] 0 8)"
  "tn_ringbuf_push (ring_with [1, 2, 3] [] 0 8) (fst (rec_example [4, 5, 6])) (snd (rec_example [4, 5, 6])) = (True, ring_with [1, 2, 3] [4, 5, 6] 0 16)"
  "tn_ringbuf_push (ring_with [1, 2, 3] [4, 5, 6] 8 16) (fst (rec_example [7, 8, 9])) (snd (rec_example [7, 8, 9])) = (True, ring_with [7, 8, 9] [4, 5, 6] 8 24)"
  by code_simp+

lemma ring_with_pops:
  "pop_run TREENET_MTU 9 (ring_with [1, 2, 3] [4, 5, 6] 0 16) C_start = (ring_with [1, 2, 3] [4, 5, 6] 0 16, C_data 0 (fst (rec_example [1, 2, 3])) [], None)"
  "pop_run TREENET_MTU 4 (ring_with [7, 8, 9] [4, 5, 6] 8 24) (C_data 0 (fst (rec_example [1, 2, 3])) []) =
     (ring_with [7, 8, 9] [4, 5, 6] 8 24, C_idle, Some (rec_example [7, 8, 9]))"
  by code_simp+

lemma ring_with_wf:
  "ring_wf ring_example" "ring_wf (ring_with [1, 2, 3] [] 0 8)" "ring_wf (ring_with [1, 2, 3] [4, 5, 6] 8 16)"
proof -
  show "ring_wf ring_example" using ring_repr_init [of 4 "replicate 16 0"] by (simp add: ring_repr_def ring_example_def)
qed (simp_all add: ring_wf_def ring_with_def tn_ringbuf_used_def exI [of _ 4])

text \<open>With the barrier of the code, three records are accepted and the first one delivered carries the payload of the third.\<close>

theorem ringbuf_unordered_release:
  "\<exists>s. (weak_step pop_release_fence)\<^sup>*\<^sup>* (spsc_init ring_example) s \<and>
     sp_sent s = [rec_example [1, 2, 3], rec_example [4, 5, 6], rec_example [7, 8, 9]] \<and>
     sp_got s = [rec_example [7, 8, 9]] \<and> \<not> (\<exists>pending. sp_sent s = sp_got s @ pending)"
proof -
  let ?s = "\<lambda>rb c sent got. \<lparr>sp_ring = rb, sp_prod = P_idle, sp_cons = c, sp_sent = sent, sp_got = got\<rparr>"
  let ?r1 = "rec_example [1, 2, 3]" and ?r2 = "rec_example [4, 5, 6]" and ?r3 = "rec_example [7, 8, 9]"
  let ?full = "ring_with [1, 2, 3] [4, 5, 6] 0 16" and ?free = "ring_with [1, 2, 3] [4, 5, 6] 8 16" and ?over = "ring_with [7, 8, 9] [4, 5, 6] 8 24"
  let ?read = "C_data 0 (fst ?r1) []"
  have one: "spsc_step\<^sup>*\<^sup>* (spsc_init ring_example) (?s (ring_with [1, 2, 3] [] 0 8) C_idle [?r1] [])"
    using spsc_push_call [of "spsc_init ring_example"] ring_with_pushes(1) ring_with_wf(1) rec_example_three by (simp add: spsc_init_def)
  have two: "spsc_step\<^sup>*\<^sup>* (?s (ring_with [1, 2, 3] [] 0 8) C_idle [?r1] []) (?s ?full C_idle [?r1, ?r2] [])"
    using spsc_push_call [of "?s (ring_with [1, 2, 3] [] 0 8) C_idle [?r1] []"] ring_with_pushes(2) ring_with_wf(2) rec_example_three by simp
  have call: "spsc_step (?s ?full C_idle [?r1, ?r2] []) (?s ?full C_start [?r1, ?r2] [])"
    using call_pop [of "?s ?full C_idle [?r1, ?r2] []"] by simp
  have header: "spsc_step\<^sup>*\<^sup>* (?s ?full C_start [?r1, ?r2] []) (?s ?full ?read [?r1, ?r2] [])"
    using spsc_pop_run [of 9 "?s ?full C_start [?r1, ?r2] []"] ring_with_pops(1) by simp
  have early: "weak_step pop_release_fence (?s ?full ?read [?r1, ?r2] []) (?s ?free ?read [?r1, ?r2] [])"
    using early_release [of pop_release_fence "?s ?full ?read [?r1, ?r2] []"]
    by (simp add: pop_release_fence_def ring_with_def rec_example_def config)
  have three: "spsc_step\<^sup>*\<^sup>* (?s ?free ?read [?r1, ?r2] []) (?s ?over ?read [?r1, ?r2, ?r3] [])"
    using spsc_push_call [of "?s ?free ?read [?r1, ?r2] []"] ring_with_pushes(3) ring_with_wf(3) rec_example_three by simp
  have payload: "spsc_step\<^sup>*\<^sup>* (?s ?over ?read [?r1, ?r2, ?r3] []) (?s ?over C_idle [?r1, ?r2, ?r3] [?r3])"
    using spsc_pop_run [of 4 "?s ?over ?read [?r1, ?r2, ?r3] []"] ring_with_pops(2) by simp
  note before = weak_in_order [OF rtranclp_trans [OF one rtranclp_trans [OF two converse_rtranclp_into_rtranclp [OF call header]]]]
    and after = weak_in_order [OF rtranclp_trans [OF three payload]]
  have "(weak_step pop_release_fence)\<^sup>*\<^sup>* (spsc_init ring_example) (?s ?over C_idle [?r1, ?r2, ?r3] [?r3])"
    by (rule rtranclp_trans [OF before converse_rtranclp_into_rtranclp [OF early after]])
  then show ?thesis by (intro exI [of _ "?s ?over C_idle [?r1, ?r2, ?r3] [?r3]"]) (simp add: rec_example_def)
qed

end
