(* ===== verification/Tn_Sim.thy ===== *)
theory Tn_Sim
  imports Tn_Node
begin

text \<open>
  The network simulator \<open>sim/sim.h\<close> and \<open>sim/sim.c\<close>: nodes on a plane that run the library over a shared channel.

  The simulator is the environment of the instances it runs: \<open>nd_env\<close> of an instance is the \<open>sim_t\<close> its port functions
  work on. \<open>sim_t\<close> holds everything of \<open>struct sim\<close> but the instances, and the global \<open>g_current\<close> (\<open>None\<close> for -1);
  \<open>g_sim\<close> is the one simulator there is. The instances are a list beside it, and the pointer \<open>net\<close> of a node is
  the position in that list. To run an instance, its \<open>nd_env\<close> is set to the simulator and the simulator is
  read back from it.

  C's type \<open>double\<close> is the type variable \<open>'d\<close>; the operations, literals and conversions the code uses are a record \<open>'d fp\<close>
  of parameters. The observation hooks act on a state of the host of type \<open>'u\<close>. Allocation results are arguments:
  whether \<open>calloc\<close> succeeds, and the address \<open>malloc\<close> returns, if any.
\<close>

section \<open>Data\<close>

text \<open>\<open>fp_lit m k\<close> is the literal \<open>m\<close> scaled by ten to the power of minus \<open>k\<close>.\<close>

record 'd fp =
  fp_add :: "'d \<Rightarrow> 'd \<Rightarrow> 'd"
  fp_sub :: "'d \<Rightarrow> 'd \<Rightarrow> 'd"
  fp_mul :: "'d \<Rightarrow> 'd \<Rightarrow> 'd"
  fp_div :: "'d \<Rightarrow> 'd \<Rightarrow> 'd"
  fp_sqrt :: "'d \<Rightarrow> 'd"
  fp_log10 :: "'d \<Rightarrow> 'd"
  fp_pow :: "'d \<Rightarrow> 'd \<Rightarrow> 'd"
  fp_less :: "'d \<Rightarrow> 'd \<Rightarrow> bool"
  fp_lit :: "int \<Rightarrow> nat \<Rightarrow> 'd"
  fp_of_u32 :: "u32 \<Rightarrow> 'd"
  fp_to_i16 :: "'d \<Rightarrow> i16"
  fp_to_i8 :: "'d \<Rightarrow> i8"

definition SIM_MAX_NODES :: nat where [config]: "SIM_MAX_NODES = 32"

definition SIM_CHANNEL_CAPACITY :: nat where [config]: "SIM_CHANNEL_CAPACITY = 512"

definition SIM_STEP_MS :: u32 where [config]: "SIM_STEP_MS = 10"

definition SIM_SNR_THRESHOLD_DB :: "'d fp \<Rightarrow> 'd" where
  "SIM_SNR_THRESHOLD_DB fp = fp_lit fp (- 20) 0"

record 'd sim_node_t =
  sn_addr :: treenet_addr_t
  sn_role :: treenet_role_t
  sn_x :: 'd
  sn_y :: 'd
  sn_active :: bool
  sn_net :: "nat option"
  sn_datagrams_rx :: u32
  sn_events :: u32
  sn_last_src :: u32
  sn_last_len :: u32
  sn_last_rssi :: i16
  sn_last_snr :: i8
  sn_last_timer_arm :: u32
  sn_max_timer_arm :: u32
  sn_timer_arm_count :: u32

record sim_txrec_t =
  tr_sender :: treenet_addr_t
  tr_len :: u16
  tr_buf :: "u8 list"

record ('d, 'u) sim_t =
  sm_now_ms :: u32
  sm_rnd :: u32
  sm_tx_power_dbm :: 'd
  sm_sensitivity_dbm :: 'd
  sm_noise_floor_dbm :: 'd
  sm_ref_loss_db :: 'd
  sm_path_loss_exp :: 'd
  sm_range_m :: 'd
  sm_bit_error_rate :: 'd
  sm_radio_sf :: u8
  sm_radio_bw_hz :: u32
  sm_net_id :: u16
  sm_count :: nat
  sm_nodes :: "'d sim_node_t list"
  sm_channel :: "sim_txrec_t list"
  sm_channel_count :: nat
  sm_pending_rx :: "nat list"
  sm_first_rec :: "nat option list"
  sm_first_rssi :: "i16 list"
  sm_first_snr :: "i8 list"
  sm_user_recv :: "('d sim_node_t \<Rightarrow> treenet_addr_t \<Rightarrow> u8 list \<Rightarrow> i16 \<Rightarrow> i8 \<Rightarrow> u8 \<Rightarrow> 'u \<Rightarrow> 'u) option"
  sm_user_event :: "('d sim_node_t \<Rightarrow> treenet_event_t \<Rightarrow> 'u \<Rightarrow> 'u) option"
  sm_current :: "nat option"
  sm_user :: 'u

text \<open>The simulator with the instances it runs.\<close>

record ('d, 'u) sim_sys =
  ss_sim :: "('d, 'u) sim_t"
  ss_nets :: "('d, 'u) sim_t treenet list"

abbreviation upd_node :: "nat \<Rightarrow> ('d sim_node_t \<Rightarrow> 'd sim_node_t) \<Rightarrow> ('d, 'u) sim_t \<Rightarrow> ('d, 'u) sim_t" where
  "upd_node i g s \<equiv> s\<lparr>sm_nodes := (sm_nodes s)[i := g (sm_nodes s ! i)]\<rparr>"

abbreviation upd_sim :: "(('d, 'u) sim_t \<Rightarrow> ('d, 'u) sim_t) \<Rightarrow> ('d, 'u) sim_sys \<Rightarrow> ('d, 'u) sim_sys" where
  "upd_sim g y \<equiv> y\<lparr>ss_sim := g (ss_sim y)\<rparr>"

section \<open>Random numbers\<close>

definition sim_rnd_raw :: "('d, 'u) sim_t \<Rightarrow> u32 \<times> ('d, 'u) sim_t" where
  "sim_rnd_raw s =
     (let x = sm_rnd s;
          x = x XOR push_bit 13 x;
          x = x XOR drop_bit 17 x;
          x = x XOR push_bit 5 x;
          s = s\<lparr>sm_rnd := (if x \<noteq> 0 then x else 0x12345678)\<rparr>
      in (sm_rnd s, s))"

definition sim_rnd_unit :: "'d fp \<Rightarrow> ('d, 'u) sim_t \<Rightarrow> 'd \<times> ('d, 'u) sim_t" where
  "sim_rnd_unit fp s =
     (let (r, s) = sim_rnd_raw s
      in (fp_div fp (fp_of_u32 fp (drop_bit 8 r)) (fp_of_u32 fp (push_bit 24 1)), s))"

section \<open>Port and application callbacks\<close>

definition sim_tx :: "u8 list \<Rightarrow> ('d, 'u) sim_t \<Rightarrow> int \<times> ('d, 'u) sim_t" where
  "sim_tx buf s =
     (case sm_current s of
        None \<Rightarrow> (- 1, s)
      | Some cur \<Rightarrow>
          if sm_channel_count s \<ge> SIM_CHANNEL_CAPACITY then (- 1, s)
          else if length buf > TREENET_MTU then (- 1, s)
          else
            let c = sm_channel_count s;
                r = sm_channel s ! c;
                r = r\<lparr>tr_sender := sn_addr (sm_nodes s ! cur), tr_len := of_nat (length buf),
                      tr_buf := memcpy (tr_buf r) 0 buf (length buf)\<rparr>
            in (0, s\<lparr>sm_channel := (sm_channel s)[c := r], sm_channel_count := Suc c\<rparr>))"

definition sim_now_cb :: "('d, 'u) sim_t \<Rightarrow> u32 \<times> ('d, 'u) sim_t" where
  "sim_now_cb s = (sm_now_ms s, s)"

definition sim_rnd_cb :: "('d, 'u) sim_t \<Rightarrow> u32 \<times> ('d, 'u) sim_t" where
  "sim_rnd_cb s = sim_rnd_raw s"

definition sim_channel_free_cb :: "('d, 'u) sim_t \<Rightarrow> bool \<times> ('d, 'u) sim_t" where
  "sim_channel_free_cb s = (True, s)"

definition sim_timer_arm_cb :: "u32 \<Rightarrow> ('d, 'u) sim_t \<Rightarrow> ('d, 'u) sim_t" where
  "sim_timer_arm_cb delay_ms s =
     (case sm_current s of
        None \<Rightarrow> s
      | Some cur \<Rightarrow>
          upd_node cur (\<lambda>n.
            let n = n\<lparr>sn_last_timer_arm := delay_ms\<rparr>;
                n = (if delay_ms \<noteq> UINT32_MAX \<and> delay_ms > sn_max_timer_arm n then n\<lparr>sn_max_timer_arm := delay_ms\<rparr> else n)
            in n\<lparr>sn_timer_arm_count := sn_timer_arm_count n + 1\<rparr>) s)"

text \<open>The loops of the two callbacks look for the node that owns the instance \<open>net\<close>.\<close>

definition sim_owner :: "nat \<Rightarrow> ('d, 'u) sim_t \<Rightarrow> nat option" where
  "sim_owner net s = find_index (\<lambda>n. sn_net n = Some net) (take (sm_count s) (sm_nodes s))"

definition sim_note_recv :: "nat \<Rightarrow> treenet_addr_t \<Rightarrow> u8 list \<Rightarrow> i16 \<Rightarrow> i8 \<Rightarrow> u8 \<Rightarrow> ('d, 'u) sim_t \<Rightarrow> ('d, 'u) sim_t" where
  "sim_note_recv net src data rssi snr hops s =
     (case sim_owner net s of
        None \<Rightarrow> s
      | Some i \<Rightarrow>
          let s = upd_node i (\<lambda>n. n\<lparr>sn_datagrams_rx := sn_datagrams_rx n + 1, sn_last_src := src, sn_last_len := of_nat (length data),
                                   sn_last_rssi := rssi, sn_last_snr := snr\<rparr>) s
          in case sm_user_recv s of
               None \<Rightarrow> s
             | Some user_recv \<Rightarrow> s\<lparr>sm_user := user_recv (sm_nodes s ! i) src data rssi snr hops (sm_user s)\<rparr>)"

definition sim_note_event :: "nat \<Rightarrow> treenet_event_t \<Rightarrow> ('d, 'u) sim_t \<Rightarrow> ('d, 'u) sim_t" where
  "sim_note_event net ev s =
     (case sim_owner net s of
        None \<Rightarrow> s
      | Some i \<Rightarrow>
          let s = upd_node i (\<lambda>n. n\<lparr>sn_events := sn_events n + 1\<rparr>) s
          in case sm_user_event s of
               None \<Rightarrow> s
             | Some user_event \<Rightarrow> s\<lparr>sm_user := user_event (sm_nodes s ! i) ev (sm_user s)\<rparr>)"

definition sim_on_recv :: "nat \<Rightarrow> treenet_addr_t \<Rightarrow> u8 list \<Rightarrow> i16 \<Rightarrow> i8 \<Rightarrow> u8 \<Rightarrow> ('d, 'u) sim_t app" where
  "sim_on_recv net src data rssi snr hops = App_world (sim_note_recv net src data rssi snr hops) (\<lambda>_. App_done)"

definition sim_on_event :: "nat \<Rightarrow> treenet_event_t \<Rightarrow> treenet_addr_t option \<Rightarrow> ('d, 'u) sim_t app" where
  "sim_on_event net ev arg = App_world (sim_note_event net ev) (\<lambda>_. App_done)"

section \<open>The channel\<close>

definition sim_link :: "'d fp \<Rightarrow> ('d, 'u) sim_t \<Rightarrow> 'd sim_node_t \<Rightarrow> 'd sim_node_t \<Rightarrow> (i16 \<times> i8) option \<times> ('d, 'u) sim_t" where
  "sim_link fp s a b =
     (let dx = fp_sub fp (sn_x a) (sn_x b);
          dy = fp_sub fp (sn_y a) (sn_y b);
          d = fp_sqrt fp (fp_add fp (fp_mul fp dx dx) (fp_mul fp dy dy));
          d = (if fp_less fp d (fp_lit fp 1 0) then fp_lit fp 1 0 else d)
      in if fp_less fp (sm_range_m s) d then (None, s)
         else
           let loss = fp_add fp (sm_ref_loss_db s) (fp_mul fp (fp_mul fp (fp_lit fp 10 0) (sm_path_loss_exp s)) (fp_log10 fp d));
               rssi = fp_sub fp (sm_tx_power_dbm s) loss;
               snr = fp_sub fp rssi (sm_noise_floor_dbm s)
           in if fp_less fp rssi (sm_sensitivity_dbm s) then (None, s)
              else if fp_less fp snr (SIM_SNR_THRESHOLD_DB fp) then (None, s)
              else
                let margin = fp_sub fp rssi (sm_sensitivity_dbm s);
                    p_loss = fp_pow fp (fp_lit fp 5 1) (fp_div fp margin (fp_lit fp 3 0));
                    (u, s) = sim_rnd_unit fp s
                in if fp_less fp u p_loss then (None, s)
                   else (Some (fp_to_i16 fp rssi, fp_to_i8 fp snr), s))"

text \<open>The first pass of \<open>sim_deliver\<close>: node \<open>j\<close> and record \<open>r\<close>.\<close>

definition deliver_hear :: "'d fp \<Rightarrow> nat \<Rightarrow> ('d, 'u) sim_t \<Rightarrow> nat \<Rightarrow> ('d, 'u) sim_t" where
  "deliver_hear fp r s j =
     (let rec = sm_channel s ! r;
          n = sm_nodes s ! j
      in if \<not> sn_active n \<or> sn_addr n = tr_sender rec then s
         else
           case find_index (\<lambda>k. sn_addr k = tr_sender rec) (take (sm_count s) (sm_nodes s)) of
             None \<Rightarrow> s
           | Some k \<Rightarrow>
               if \<not> sn_active (sm_nodes s ! k) then s
               else
                 case sim_link fp s (sm_nodes s ! k) n of
                   (None, s) \<Rightarrow> s
                 | (Some (rssi, snr), s) \<Rightarrow>
                     let s = (if sm_pending_rx s ! j = 0
                              then s\<lparr>sm_first_rec := (sm_first_rec s)[j := Some r], sm_first_rssi := (sm_first_rssi s)[j := rssi],
                                     sm_first_snr := (sm_first_snr s)[j := snr]\<rparr> else s)
                     in s\<lparr>sm_pending_rx := (sm_pending_rx s)[j := sm_pending_rx s ! j + 1]\<rparr>)"

definition deliver_clear :: "('d, 'u) sim_t \<Rightarrow> nat \<Rightarrow> ('d, 'u) sim_t" where
  "deliver_clear s i = s\<lparr>sm_pending_rx := (sm_pending_rx s)[i := 0], sm_first_rec := (sm_first_rec s)[i := None]\<rparr>"

definition deliver_pass1 :: "'d fp \<Rightarrow> ('d, 'u) sim_t \<Rightarrow> ('d, 'u) sim_t" where
  "deliver_pass1 fp s =
     foldl (\<lambda>s r. foldl (deliver_hear fp r) s [0..<sm_count s]) (foldl deliver_clear s [0..<sm_count s]) [0..<sm_channel_count s]"

text \<open>The error injection: byte \<open>b\<close>, bit \<open>k\<close>.\<close>

definition flip_bit_at :: "'d fp \<Rightarrow> u8 list \<times> ('d, 'u) sim_t \<Rightarrow> nat \<times> nat \<Rightarrow> u8 list \<times> ('d, 'u) sim_t" where
  "flip_bit_at fp = (\<lambda>(data, s) (b, k).
     let (u, s) = sim_rnd_unit fp s
     in if fp_less fp u (sm_bit_error_rate s) then (data[b := data ! b XOR push_bit k 1], s) else (data, s))"

definition corrupt :: "'d fp \<Rightarrow> u8 list \<Rightarrow> nat \<Rightarrow> ('d, 'u) sim_t \<Rightarrow> u8 list \<times> ('d, 'u) sim_t" where
  "corrupt fp buf len s = foldl (flip_bit_at fp) (take len buf, s) (List.product [0..<len] [0..<8])"

text \<open>The second pass of \<open>sim_deliver\<close> for node \<open>j\<close>.\<close>

definition deliver_to :: "'d fp \<Rightarrow> ('d, 'u) sim_sys \<Rightarrow> nat \<Rightarrow> ('d, 'u) sim_sys" where
  "deliver_to fp y j =
     (let s = ss_sim y
      in if sm_pending_rx s ! j \<noteq> 1 then y
         else
           case sm_first_rec s ! j of
             None \<Rightarrow> y
           | Some r \<Rightarrow>
               let rec = sm_channel s ! r;
                   len = unat (tr_len rec);
                   (data, s) = (if fp_less fp (fp_lit fp 0 0) (sm_bit_error_rate s) then corrupt fp (tr_buf rec) len s
                                else (tr_buf rec, s));
                   y = y\<lparr>ss_sim := s\<rparr>
               in case sn_net (sm_nodes s ! j) of
                    None \<Rightarrow> y
                  | Some i \<Rightarrow>
                      y\<lparr>ss_nets := (ss_nets y)[i := snd (treenet_rx_node (ss_nets y ! i) (Some data) len
                                                    (sm_first_rssi s ! j) (sm_first_snr s ! j))]\<rparr>)"

definition sim_deliver :: "'d fp \<Rightarrow> ('d, 'u) sim_sys \<Rightarrow> ('d, 'u) sim_sys" where
  "sim_deliver fp y =
     (let y = upd_sim (deliver_pass1 fp) y;
          y = foldl (deliver_to fp) y [0..<sm_count (ss_sim y)]
      in upd_sim (\<lambda>s. s\<lparr>sm_channel_count := 0\<rparr>) y)"

section \<open>Public interface\<close>

text \<open>A simulator that may be \<open>NULL\<close> is an \<open>option\<close>; a pointer to a node is its position.\<close>

definition sim_node_zero :: "'d fp \<Rightarrow> 'd sim_node_t" where
  "sim_node_zero fp =
     \<lparr>sn_addr = 0, sn_role = TREENET_ROLE_NODE, sn_x = fp_lit fp 0 0, sn_y = fp_lit fp 0 0, sn_active = False, sn_net = None,
      sn_datagrams_rx = 0, sn_events = 0, sn_last_src = 0, sn_last_len = 0, sn_last_rssi = 0, sn_last_snr = 0,
      sn_last_timer_arm = 0, sn_max_timer_arm = 0, sn_timer_arm_count = 0\<rparr>"

definition sim_txrec_zero :: sim_txrec_t where
  "sim_txrec_zero = \<lparr>tr_sender = 0, tr_len = 0, tr_buf = replicate TREENET_MTU 0\<rparr>"

definition sim_create :: "'d fp \<Rightarrow> bool \<Rightarrow> u32 \<Rightarrow> 'd \<Rightarrow> 'd \<Rightarrow> 'd \<Rightarrow> 'u \<Rightarrow> ('d, 'u) sim_sys option" where
  "sim_create fp calloc_ok seed tx_power_dbm sensitivity_dbm noise_floor_dbm host =
     (if \<not> calloc_ok then None
      else Some \<lparr>ss_sim =
        \<lparr>sm_now_ms = 0, sm_rnd = (if seed \<noteq> 0 then seed else 1), sm_tx_power_dbm = tx_power_dbm,
         sm_sensitivity_dbm = sensitivity_dbm, sm_noise_floor_dbm = noise_floor_dbm, sm_ref_loss_db = fp_lit fp 40 0,
         sm_path_loss_exp = fp_lit fp 27 1, sm_range_m = fp_lit fp 1000000000 0, sm_bit_error_rate = fp_lit fp 0 0,
         sm_radio_sf = 9, sm_radio_bw_hz = 125000, sm_net_id = 1, sm_count = 0,
         sm_nodes = replicate SIM_MAX_NODES (sim_node_zero fp), sm_channel = replicate SIM_CHANNEL_CAPACITY sim_txrec_zero,
         sm_channel_count = 0, sm_pending_rx = replicate SIM_MAX_NODES 0, sm_first_rec = replicate SIM_MAX_NODES (Some 0),
         sm_first_rssi = replicate SIM_MAX_NODES 0, sm_first_snr = replicate SIM_MAX_NODES 0,
         sm_user_recv = None, sm_user_event = None, sm_current = None, sm_user = host\<rparr>, ss_nets = []\<rparr>)"

definition sim_port :: "('d, 'u) sim_t treenet_port_t" where
  "sim_port =
     \<lparr>po_tx = Some sim_tx, po_now_ms = Some sim_now_cb, po_rnd = Some sim_rnd_cb, po_channel_free = Some sim_channel_free_cb,
      po_log = None, po_timer_arm = Some sim_timer_arm_cb\<rparr>"

definition sim_cfg :: "'d fp \<Rightarrow> nat \<Rightarrow> treenet_addr_t \<Rightarrow> treenet_role_t \<Rightarrow> bool \<Rightarrow> ('d, 'u) sim_t \<Rightarrow> ('d, 'u) sim_t treenet_config_t" where
  "sim_cfg fp net addr role reliable s =
     \<lparr>cf_addr = addr, cf_role = role, cf_net_id = sm_net_id s, cf_on_recv = Some (sim_on_recv net), cf_on_event = Some (sim_on_event net),
      cf_reliable = reliable,
      cf_radio = \<lparr>ra_frequency_hz = 0, ra_spreading_factor = sm_radio_sf s, ra_bandwidth_hz = sm_radio_bw_hz s, ra_coding_rate = 1,
                  ra_tx_power_dbm = fp_to_i8 fp (sm_tx_power_dbm s)\<rparr>\<rparr>"

definition sim_add_node_to ::
    "'d fp \<Rightarrow> nat \<Rightarrow> nat option \<Rightarrow> ('d, 'u) sim_sys \<Rightarrow> treenet_addr_t \<Rightarrow> treenet_role_t \<Rightarrow> 'd \<Rightarrow> 'd \<Rightarrow> bool
      \<Rightarrow> nat option \<times> ('d, 'u) sim_sys" where
  "sim_add_node_to fp sizeof_treenet ctx y addr role px py reliable =
     (let s = ss_sim y
      in if sm_count s \<ge> SIM_MAX_NODES then (None, y)
         else if addr = TREENET_ADDR_INVALID \<or> addr = TREENET_ADDR_BROADCAST then (None, y)
         else
           let c = sm_count s;
               s = upd_node c (\<lambda>n. (sim_node_zero fp)\<lparr>sn_addr := addr, sn_role := role, sn_x := px, sn_y := py, sn_active := True\<rparr>) s
           in if ctx = None then (None, y\<lparr>ss_sim := s\<rparr>)
              else
                let net = length (ss_nets y)
                in case treenet_init sizeof_treenet ctx sizeof_treenet (Some (sim_cfg fp net addr role reliable s)) (Some sim_port) s of
                     None \<Rightarrow> (None, y\<lparr>ss_sim := s\<rparr>)
                   | Some t \<Rightarrow>
                       let s = nd_env t;
                           s = upd_node c (\<lambda>n. n\<lparr>sn_net := Some net\<rparr>) s;
                           s = s\<lparr>sm_count := c + 1\<rparr>
                       in (Some c, \<lparr>ss_sim = s, ss_nets = ss_nets y @ [t]\<rparr>))"

definition sim_add_node ::
    "'d fp \<Rightarrow> nat \<Rightarrow> nat option \<Rightarrow> ('d, 'u) sim_sys option \<Rightarrow> treenet_addr_t \<Rightarrow> treenet_role_t \<Rightarrow> 'd \<Rightarrow> 'd \<Rightarrow> bool
      \<Rightarrow> nat option \<times> ('d, 'u) sim_sys option" where
  "sim_add_node fp sizeof_treenet ctx yp addr role px py reliable =
     (case yp of
        None \<Rightarrow> (None, None)
      | Some y \<Rightarrow> map_prod id Some (sim_add_node_to fp sizeof_treenet ctx y addr role px py reliable))"

text \<open>
  \<open>sim_destroy\<close> gives back the memory of the instances, in the order of the nodes, and of the simulator; afterwards there is no active
  simulator. The result is the list of the instances freed and what \<open>g_sim\<close> is then.
\<close>

definition sim_destroy :: "('d, 'u) sim_sys option \<Rightarrow> nat option list \<times> ('d, 'u) sim_sys option" where
  "sim_destroy yp =
     (case yp of
        None \<Rightarrow> ([], None)
      | Some y \<Rightarrow> (map sn_net (take (sm_count (ss_sim y)) (sm_nodes (ss_sim y))), None))"

definition sim_find :: "('d, 'u) sim_sys option \<Rightarrow> treenet_addr_t \<Rightarrow> nat option" where
  "sim_find yp addr =
     (case yp of
        None \<Rightarrow> None
      | Some y \<Rightarrow> find_index (\<lambda>n. sn_addr n = addr) (take (sm_count (ss_sim y)) (sm_nodes (ss_sim y))))"

definition sim_move_node :: "('d, 'u) sim_sys option \<Rightarrow> treenet_addr_t \<Rightarrow> 'd \<Rightarrow> 'd \<Rightarrow> ('d, 'u) sim_sys option" where
  "sim_move_node yp addr px py =
     (case sim_find yp addr of
        None \<Rightarrow> yp
      | Some i \<Rightarrow> map_option (upd_sim (upd_node i (\<lambda>n. n\<lparr>sn_x := px, sn_y := py\<rparr>))) yp)"

definition sim_set_active :: "('d, 'u) sim_sys option \<Rightarrow> treenet_addr_t \<Rightarrow> bool \<Rightarrow> ('d, 'u) sim_sys option" where
  "sim_set_active yp addr active =
     (case sim_find yp addr of
        None \<Rightarrow> yp
      | Some i \<Rightarrow> map_option (upd_sim (upd_node i (\<lambda>n. n\<lparr>sn_active := active\<rparr>))) yp)"

definition sim_node_count :: "('d, 'u) sim_sys option \<Rightarrow> nat" where
  "sim_node_count yp = (case yp of Some y \<Rightarrow> sm_count (ss_sim y) | None \<Rightarrow> 0)"

definition sim_node_at :: "('d, 'u) sim_sys option \<Rightarrow> nat \<Rightarrow> nat option" where
  "sim_node_at yp i = (case yp of None \<Rightarrow> None | Some y \<Rightarrow> if i \<ge> sm_count (ss_sim y) then None else Some i)"

definition sim_now :: "('d, 'u) sim_sys option \<Rightarrow> u32" where
  "sim_now yp = (case yp of Some y \<Rightarrow> sm_now_ms (ss_sim y) | None \<Rightarrow> 0)"

definition sim_set_path_loss :: "('d, 'u) sim_sys option \<Rightarrow> 'd \<Rightarrow> 'd \<Rightarrow> ('d, 'u) sim_sys option" where
  "sim_set_path_loss yp ref_loss_db exponent =
     map_option (upd_sim (\<lambda>s. s\<lparr>sm_ref_loss_db := ref_loss_db, sm_path_loss_exp := exponent\<rparr>)) yp"

definition sim_set_range :: "'d fp \<Rightarrow> ('d, 'u) sim_sys option \<Rightarrow> 'd \<Rightarrow> ('d, 'u) sim_sys option" where
  "sim_set_range fp yp range_m =
     map_option (upd_sim (\<lambda>s. s\<lparr>sm_range_m := (if fp_less fp (fp_lit fp 0 0) range_m then range_m else fp_lit fp 1000000000 0)\<rparr>)) yp"

definition sim_set_bit_error_rate :: "'d fp \<Rightarrow> ('d, 'u) sim_sys option \<Rightarrow> 'd \<Rightarrow> ('d, 'u) sim_sys option" where
  "sim_set_bit_error_rate fp yp ber =
     map_option (upd_sim (\<lambda>s. s\<lparr>sm_bit_error_rate := (if fp_less fp (fp_lit fp 0 0) ber then ber else fp_lit fp 0 0)\<rparr>)) yp"

definition sim_set_radio :: "('d, 'u) sim_sys option \<Rightarrow> u8 \<Rightarrow> u32 \<Rightarrow> ('d, 'u) sim_sys option" where
  "sim_set_radio yp sf bw_hz =
     map_option (upd_sim (\<lambda>s. s\<lparr>sm_radio_sf := (if sf \<noteq> 0 then sf else 9), sm_radio_bw_hz := (if bw_hz \<noteq> 0 then bw_hz else 125000)\<rparr>)) yp"

definition sim_set_net_id :: "('d, 'u) sim_sys option \<Rightarrow> u16 \<Rightarrow> ('d, 'u) sim_sys option" where
  "sim_set_net_id yp net_id = map_option (upd_sim (\<lambda>s. s\<lparr>sm_net_id := net_id\<rparr>)) yp"

definition sim_set_callbacks where
  "sim_set_callbacks yp recv event = map_option (upd_sim (\<lambda>s. s\<lparr>sm_user_recv := recv, sm_user_event := event\<rparr>)) yp"

text \<open>Polling node \<open>i\<close>, one step of the clock, and \<open>sim_run\<close>.\<close>

definition sim_poll :: "('d, 'u) sim_sys \<Rightarrow> nat \<Rightarrow> ('d, 'u) sim_sys" where
  "sim_poll y i =
     (let s = ss_sim y
      in if \<not> sn_active (sm_nodes s ! i) then y
         else
           let s = s\<lparr>sm_current := Some i\<rparr>;
               y = y\<lparr>ss_sim := s\<rparr>
           in case sn_net (sm_nodes s ! i) of
                None \<Rightarrow> y
              | Some k \<Rightarrow>
                  let t = treenet_poll_node ((ss_nets y ! k)\<lparr>nd_env := s\<rparr>)
                  in \<lparr>ss_sim = nd_env t, ss_nets = (ss_nets y)[k := t]\<rparr>)"

definition sim_step :: "'d fp \<Rightarrow> ('d, 'u) sim_sys \<Rightarrow> ('d, 'u) sim_sys" where
  "sim_step fp y =
     (let y = foldl sim_poll y [0..<sm_count (ss_sim y)];
          y = upd_sim (\<lambda>s. s\<lparr>sm_current := None\<rparr>) y;
          y = sim_deliver fp y
      in upd_sim (\<lambda>s. s\<lparr>sm_now_ms := sm_now_ms s + SIM_STEP_MS\<rparr>) y)"

definition sim_run :: "'d fp \<Rightarrow> ('d, 'u) sim_sys option \<Rightarrow> u32 \<Rightarrow> ('d, 'u) sim_sys option" where
  "sim_run fp yp ms =
     (let steps = (ms + SIM_STEP_MS - 1) div SIM_STEP_MS
      in map_option (sim_step fp ^^ unat steps) yp)"

end
