(* ===== verification/Tn_Network.thy ===== *)
theory Tn_Network
  imports Tn_Sim Tn_Poll
begin

text \<open>
  A simulated network: the invariant of the simulator and of all instances it runs, which every call of its interface
  keeps; what is on the channel; the collision rule; time and random numbers.
\<close>

section \<open>Random numbers and time\<close>

lemma xor_push_nonzero:
  fixes x :: "'a :: len word"
  assumes "0 < k" and "x \<noteq> 0"
  shows "x XOR push_bit k x \<noteq> 0" and "x XOR drop_bit k x \<noteq> 0"
proof -
  have "\<not> bit x n" if "x XOR push_bit k x = 0" for n
  proof (induction n rule: less_induct)
    case (less n)
    have "bit (x XOR push_bit k x) n = False" using that by simp
    then show ?case using less assms(1) by (cases "n < LENGTH('a)") (auto simp: bit_xor_iff bit_push_bit_iff dest: bit_imp_le_length)
  qed
  then show "x XOR push_bit k x \<noteq> 0" using assms(2) by (metis bit_0_eq bot_apply bit_eqI bot_bool_def)
  have "n \<le> LENGTH('a) \<Longrightarrow> \<not> bit x (LENGTH('a) - n)" if "x XOR drop_bit k x = 0" for n
  proof (induction n rule: less_induct)
    case (less n)
    have "bit (x XOR drop_bit k x) (LENGTH('a) - n) = False" using that by simp
    moreover have "\<not> bit x (k + (LENGTH('a) - n))"
    proof (cases "k < n")
      case True
      then have "k + (LENGTH('a) - n) = LENGTH('a) - (n - k)" using less.prems by simp
      then show ?thesis using less.IH [of "n - k"] less.prems True assms(1) by simp
    next
      case False
      then show ?thesis using less.prems by (auto dest: bit_imp_le_length)
    qed
    ultimately show ?case by (simp add: bit_xor_iff bit_drop_bit_eq)
  qed
  then have "\<not> bit x n" if "x XOR drop_bit k x = 0" for n
    using that by (metis diff_diff_cancel bit_imp_le_length diff_le_self less_imp_le)
  then show "x XOR drop_bit k x \<noteq> 0" using assms(2) by (metis bit_0_eq bot_apply bit_eqI bot_bool_def)
qed

text \<open>
  The generator of the simulator never gets stuck. From a nonzero state, which is what \<open>sim_create\<close> starts with, the xorshift step gives a
  nonzero state, so the replacement value in \<open>sim_rnd_raw\<close> is never used and the state sequence is that of xorshift32.
\<close>

lemma sim_rnd_never_stuck:
  assumes "sm_rnd s \<noteq> 0"
  shows "fst (sim_rnd_raw s) = (let x = sm_rnd s; x = x XOR push_bit 13 x; x = x XOR drop_bit 17 x in x XOR push_bit 5 x) \<and>
    sm_rnd (snd (sim_rnd_raw s)) = fst (sim_rnd_raw s) \<and> fst (sim_rnd_raw s) \<noteq> 0"
proof -
  have "(let x = sm_rnd s; x = x XOR push_bit 13 x; x = x XOR drop_bit 17 x in x XOR push_bit 5 x) \<noteq> 0"
    using assms unfolding Let_def by (intro xor_push_nonzero) simp_all
  then show ?thesis by (simp add: sim_rnd_raw_def Let_def)
qed

section \<open>The invariant of the simulator\<close>

text \<open>
  A record on the channel is a complete frame whose previous hop is its sender. The part of the node table the instances depend on is its
  skeleton: how many nodes there are, and address, instance and activity of each.
\<close>

definition rec_valid :: "sim_txrec_t \<Rightarrow> bool" where
  "rec_valid r \<longleftrightarrow> (\<exists>net. wire_ok (tr_sender r) net (take (unat (tr_len r)) (tr_buf r))) \<and> unat (tr_len r) \<le> TREENET_MTU"

definition skeleton :: "('d, 'u) sim_t \<Rightarrow> nat \<times> (treenet_addr_t \<times> nat option \<times> bool) list" where
  "skeleton s = (sm_count s, map (\<lambda>n. (sn_addr n, sn_net n, sn_active n)) (sm_nodes s))"

definition sim_ok :: "('d, 'u) sim_t \<Rightarrow> bool" where
  "sim_ok s \<longleftrightarrow> sm_rnd s \<noteq> 0 \<and> sm_count s \<le> SIM_MAX_NODES \<and> length (sm_nodes s) = SIM_MAX_NODES \<and>
     length (sm_channel s) = SIM_CHANNEL_CAPACITY \<and> list_all (\<lambda>r. length (tr_buf r) = TREENET_MTU) (sm_channel s) \<and>
     sm_channel_count s \<le> SIM_CHANNEL_CAPACITY \<and> list_all rec_valid (take (sm_channel_count s) (sm_channel s)) \<and>
     length (sm_pending_rx s) = SIM_MAX_NODES \<and> length (sm_first_rec s) = SIM_MAX_NODES \<and>
     length (sm_first_rssi s) = SIM_MAX_NODES \<and> length (sm_first_snr s) = SIM_MAX_NODES"

text \<open>What holds while node \<open>cur\<close> is polled, or while no node is.\<close>

definition sim_env :: "nat option \<Rightarrow> nat \<times> (treenet_addr_t \<times> nat option \<times> bool) list \<Rightarrow> u32 \<Rightarrow> ('d, 'u) sim_t \<Rightarrow> bool" where
  "sim_env cur sk now s \<longleftrightarrow> sim_ok s \<and> sm_current s = cur \<and> skeleton s = sk \<and> sm_now_ms s = now"

lemma skeleton_addr: "skeleton s = sk \<Longrightarrow> i < length (sm_nodes s) \<Longrightarrow> fst (snd sk ! i) = sn_addr (sm_nodes s ! i)"
  by (auto simp: skeleton_def)

lemma skeleton_upd_node:
  "(\<And>n. (sn_addr (g n), sn_net (g n), sn_active (g n)) = (sn_addr n, sn_net n, sn_active n)) \<Longrightarrow> skeleton (upd_node i g s) = skeleton s"
  by (cases "i < length (sm_nodes s)") (simp_all add: skeleton_def map_update list_update_same_conv list_update_beyond not_less)

lemma sim_env_upd_node:
  assumes "sim_env cur sk now s" and "\<And>n. (sn_addr (g n), sn_net (g n), sn_active (g n)) = (sn_addr n, sn_net n, sn_active n)"
  shows "sim_env cur sk now (upd_node i g s)"
proof -
  have "skeleton (upd_node i g s) = skeleton s" by (rule skeleton_upd_node [OF assms(2)])
  then show ?thesis using assms(1) by (simp add: sim_env_def sim_ok_def)
qed

lemma sim_env_user: "sim_env cur sk now (s\<lparr>sm_user := u\<rparr>) = sim_env cur sk now s"
  by (simp add: sim_env_def sim_ok_def skeleton_def)

lemma sim_env_rnd: "sim_env cur sk now s \<Longrightarrow> sim_env cur sk now (snd (sim_rnd_raw s))"
  by (auto simp: sim_env_def sim_ok_def skeleton_def sim_rnd_raw_def Let_def)

lemma sim_tx_env:
  assumes "sim_env cur sk now s" and "wire_ok addr net buf" and "\<And>i. cur = Some i \<Longrightarrow> i < SIM_MAX_NODES \<and> fst (snd sk ! i) = addr"
  shows "sim_env cur sk now (snd (sim_tx buf s))"
proof (cases "cur = None \<or> sm_channel_count s \<ge> SIM_CHANNEL_CAPACITY \<or> length buf > TREENET_MTU")
  case True
  then show ?thesis using assms(1) by (auto simp: sim_tx_def sim_env_def split: option.splits)
next
  case False
  then obtain i where i: "cur = Some i" "sm_channel_count s < SIM_CHANNEL_CAPACITY" "length buf \<le> TREENET_MTU" by auto
  define c where "c = sm_channel_count s"
  define r where "r = (sm_channel s ! c)\<lparr>tr_sender := sn_addr (sm_nodes s ! i), tr_len := of_nat (length buf),
      tr_buf := memcpy (tr_buf (sm_channel s ! c)) 0 buf (length buf)\<rparr>"
  have s: "sim_ok s" "sm_current s = Some i" "skeleton s = sk" "sm_now_ms s = now" using assms(1) i(1) by (simp_all add: sim_env_def)
  have c: "c < length (sm_channel s)" using i(2) s(1) by (simp add: c_def sim_ok_def)
  have tx: "snd (sim_tx buf s) = s\<lparr>sm_channel := (sm_channel s)[c := r], sm_channel_count := Suc c\<rparr>"
    using i s(2) by (simp add: sim_tx_def c_def r_def Let_def not_le)
  have addr: "sn_addr (sm_nodes s ! i) = addr"
    using assms(3) [OF i(1)] s(1) skeleton_addr [OF s(3), of i] by (simp add: sim_ok_def)
  have len: "unat (of_nat (length buf) :: u16) = length buf" using i(3) by (intro unat_of_nat_lt) (simp add: config)
  have old: "length (tr_buf (sm_channel s ! c)) = TREENET_MTU" using s(1) c by (simp add: sim_ok_def list_all_length)
  then have r: "length (tr_buf r) = TREENET_MTU" "take (unat (tr_len r)) (tr_buf r) = buf" "tr_sender r = addr" "unat (tr_len r) \<le> TREENET_MTU"
    using i(3) len addr by (simp_all add: r_def memcpy_def put_bytes_def)
  then have "rec_valid r" using assms(2) by (auto simp: rec_valid_def)
  then have "list_all rec_valid (take (Suc c) ((sm_channel s)[c := r]))"
    using s(1) c by (simp add: sim_ok_def take_Suc_conv_app_nth c_def)
  moreover have "list_all (\<lambda>r. length (tr_buf r) = TREENET_MTU) ((sm_channel s)[c := r])"
    using s(1) r(1) by (simp add: sim_ok_def list_all_update)
  ultimately show ?thesis unfolding tx using s i(1,2) by (simp add: sim_env_def sim_ok_def skeleton_def c_def)
qed

lemma sim_callbacks_env:
  assumes "sim_env cur sk now s"
  shows "sim_env cur sk now (snd (sim_now_cb s))" and "sim_env cur sk now (snd (sim_rnd_cb s))" and "sim_env cur sk now (snd (sim_channel_free_cb s))"
    and "sim_env cur sk now (sim_timer_arm_cb d s)" and "sim_env cur sk now (sim_note_recv net src data rssi snr hops s)"
    and "sim_env cur sk now (sim_note_event net ev s)"
  using assms sim_env_rnd [OF assms]
  by (auto simp: sim_now_cb_def sim_rnd_cb_def sim_channel_free_cb_def sim_timer_arm_cb_def sim_note_recv_def sim_note_event_def sim_env_user Let_def
      split: option.split intro!: sim_env_upd_node)

lemma sim_port_ok:
  assumes "\<And>i. cur = Some i \<Longrightarrow> i < SIM_MAX_NODES \<and> fst (snd sk ! i) = addr"
  shows "port_ok (sim_env cur sk now) addr net sim_port"
  using sim_tx_env [OF _ _ assms] sim_callbacks_env [of cur sk now] by (auto simp: port_ok_def sim_port_def)

definition sim_cfg_for :: "nat \<Rightarrow> ('d, 'u) sim_t treenet_config_t \<Rightarrow> bool" where
  "sim_cfg_for k cfg \<longleftrightarrow> cf_on_recv cfg = Some (sim_on_recv k) \<and> cf_on_event cfg = Some (sim_on_event k)"

lemma sim_cfg_ok: "sim_cfg_for k cfg \<Longrightarrow> cfg_ok (sim_env cur sk now) cfg"
  using sim_callbacks_env [of cur sk now] by (auto simp: sim_cfg_for_def cfg_ok_def sim_on_recv_def sim_on_event_def)

text \<open>The instance of node \<open>k\<close>, with address \<open>addr\<close>.\<close>

definition net_ok :: "treenet_addr_t \<Rightarrow> nat \<Rightarrow> ('d, 'u) sim_t treenet \<Rightarrow> bool" where
  "net_ok addr k t \<longleftrightarrow> node_inv (\<lambda>_. True) t \<and> nd_initialized t \<and> nd_addr t = addr \<and> nd_port t = sim_port \<and> sim_cfg_for k (nd_cfg t)"

definition sys_inv :: "('d, 'u) sim_sys \<Rightarrow> bool" where
  "sys_inv y \<longleftrightarrow> sim_ok (ss_sim y) \<and> length (ss_nets y) = sm_count (ss_sim y) \<and>
     (\<forall>j < sm_count (ss_sim y). sn_net (sm_nodes (ss_sim y) ! j) = Some j \<and> net_ok (sn_addr (sm_nodes (ss_sim y) ! j)) j (ss_nets y ! j))"

lemma sys_invD:
  assumes "sys_inv y"
  shows "sim_ok (ss_sim y)" and "length (ss_nets y) = sm_count (ss_sim y)"
    and "\<And>j. j < sm_count (ss_sim y) \<Longrightarrow> sn_net (sm_nodes (ss_sim y) ! j) = Some j"
    and "\<And>j. j < sm_count (ss_sim y) \<Longrightarrow> net_ok (sn_addr (sm_nodes (ss_sim y) ! j)) j (ss_nets y ! j)"
    and "\<And>j. j < sm_count (ss_sim y) \<Longrightarrow> j < SIM_MAX_NODES" and "sm_count (ss_sim y) \<le> SIM_MAX_NODES"
    and "length (sm_nodes (ss_sim y)) = SIM_MAX_NODES"
  using assms by (auto simp: sys_inv_def sim_ok_def)

lemma sys_inv_sim:
  assumes "sys_inv y" and "sim_ok s" and "sm_count s = sm_count (ss_sim y)"
    and "\<And>j. j < sm_count s \<Longrightarrow> sn_net (sm_nodes s ! j) = sn_net (sm_nodes (ss_sim y) ! j) \<and> sn_addr (sm_nodes s ! j) = sn_addr (sm_nodes (ss_sim y) ! j)"
  shows "sys_inv (y\<lparr>ss_sim := s\<rparr>)"
  using assms by (simp add: sys_inv_def)

lemma skeleton_eqD:
  assumes "skeleton s = skeleton s'"
  shows "sm_count s = sm_count s'" and "length (sm_nodes s) = length (sm_nodes s')"
    and "i < length (sm_nodes s) \<Longrightarrow> sn_addr (sm_nodes s ! i) = sn_addr (sm_nodes s' ! i) \<and> sn_net (sm_nodes s ! i) = sn_net (sm_nodes s' ! i) \<and>
      sn_active (sm_nodes s ! i) = sn_active (sm_nodes s' ! i)"
proof -
  have m: "map (\<lambda>n. (sn_addr n, sn_net n, sn_active n)) (sm_nodes s) = map (\<lambda>n. (sn_addr n, sn_net n, sn_active n)) (sm_nodes s')"
    using assms by (simp add: skeleton_def)
  show "sm_count s = sm_count s'" using assms by (simp add: skeleton_def)
  show len: "length (sm_nodes s) = length (sm_nodes s')" using m by (rule map_eq_imp_length_eq)
  show "i < length (sm_nodes s) \<Longrightarrow> sn_addr (sm_nodes s ! i) = sn_addr (sm_nodes s' ! i) \<and> sn_net (sm_nodes s ! i) = sn_net (sm_nodes s' ! i) \<and>
      sn_active (sm_nodes s ! i) = sn_active (sm_nodes s' ! i)"
    using arg_cong [OF m, of "\<lambda>xs. xs ! i"] len by simp
qed

lemma sys_inv_skeleton: "sys_inv y \<Longrightarrow> sim_ok s \<Longrightarrow> skeleton s = skeleton (ss_sim y) \<Longrightarrow> sys_inv (y\<lparr>ss_sim := s\<rparr>)"
  using skeleton_eqD [of s "ss_sim y"] sys_invD(5,7) [of y] by (intro sys_inv_sim) auto

section \<open>Every call keeps the invariant\<close>

lemma net_ok_env:
  assumes "net_ok addr k t" and "sim_env cur sk now s" and "\<And>i. cur = Some i \<Longrightarrow> i < SIM_MAX_NODES \<and> fst (snd sk ! i) = addr"
  shows "node_inv (sim_env cur sk now) (t\<lparr>nd_env := s\<rparr>)"
proof (rule node_inv_change)
  show "node_inv (\<lambda>_. True) (t\<lparr>nd_env := s\<rparr>)" using assms(1) by (simp add: net_ok_def)
  show "port_ok (sim_env cur sk now) (nd_addr (t\<lparr>nd_env := s\<rparr>)) (nd_net_id (t\<lparr>nd_env := s\<rparr>)) (nd_port (t\<lparr>nd_env := s\<rparr>))"
    using sim_port_ok [OF assms(3)] assms(1) by (simp add: net_ok_def)
  show "cfg_ok (sim_env cur sk now) (nd_cfg (t\<lparr>nd_env := s\<rparr>))" using sim_cfg_ok [of k "nd_cfg t" cur sk now] assms(1) by (simp add: net_ok_def)
qed (use assms(2) in simp)

lemma treenet_poll_initialized: "nd_initialized t \<Longrightarrow> nd_initialized (treenet_poll_node t)"
  by (simp add: treenet_poll_node_eq Let_def poll_body_initialized nd_staticD(6) [OF housekeeping_keeps(4)])

lemma net_ok_poll:
  assumes "net_ok addr k t" and "sim_env cur sk now s" and "\<And>i. cur = Some i \<Longrightarrow> i < SIM_MAX_NODES \<and> fst (snd sk ! i) = addr"
  shows "net_ok addr k (treenet_poll_node (t\<lparr>nd_env := s\<rparr>))" and "sim_env cur sk now (nd_env (treenet_poll_node (t\<lparr>nd_env := s\<rparr>)))"
proof -
  let ?t = "t\<lparr>nd_env := s\<rparr>"
  have inv: "node_inv (sim_env cur sk now) (treenet_poll_node ?t)" using net_ok_env [OF assms] by simp
  then show "sim_env cur sk now (nd_env (treenet_poll_node ?t))" by (rule node_invD(5))
  have "nd_identity (treenet_poll_node ?t) = nd_identity t" using treenet_poll_node_identity [of ?t] by (simp add: nd_identity_def)
  then show "net_ok addr k (treenet_poll_node ?t)"
    using assms(1) node_inv_weaken [OF inv] treenet_poll_initialized [of ?t] by (simp add: net_ok_def nd_identity_def)
qed

text \<open>Polling node \<open>i\<close>.\<close>

lemma sim_poll_inv:
  assumes "sys_inv y" and "i < sm_count (ss_sim y)"
  shows "sys_inv (sim_poll y i)" and "skeleton (ss_sim (sim_poll y i)) = skeleton (ss_sim y)" and "sm_now_ms (ss_sim (sim_poll y i)) = sm_now_ms (ss_sim y)"
proof -
  define s where "s = (ss_sim y)\<lparr>sm_current := Some i\<rparr>"
  note inv = sys_invD [OF assms(1)] and net = sys_invD(3) [OF assms(1,2)]
  have sk: "skeleton s = skeleton (ss_sim y)" by (simp add: s_def skeleton_def)
  have env: "sim_env (Some i) (skeleton (ss_sim y)) (sm_now_ms (ss_sim y)) s"
    using inv(1) by (simp add: sim_env_def sk) (simp add: s_def sim_ok_def)
  have cur: "j < SIM_MAX_NODES \<and> fst (snd (skeleton (ss_sim y)) ! j) = sn_addr (sm_nodes (ss_sim y) ! i)" if "Some i = Some j" for j
    using that inv(5) [of i] inv(7) assms(2) skeleton_addr [of "ss_sim y", OF refl, of i] by simp
  define t where "t = treenet_poll_node ((ss_nets y ! i)\<lparr>nd_env := s\<rparr>)"
  note t = net_ok_poll [OF inv(4) [OF assms(2)] env cur, folded t_def]
  have poll: "sim_poll y i = (if sn_active (sm_nodes (ss_sim y) ! i) then \<lparr>ss_sim = nd_env t, ss_nets = (ss_nets y)[i := t]\<rparr> else y)"
    using net by (simp add: sim_poll_def t_def s_def Let_def)
  have env': "sim_ok (nd_env t)" "skeleton (nd_env t) = skeleton (ss_sim y)" "sm_now_ms (nd_env t) = sm_now_ms (ss_sim y)"
    using t(2) by (simp_all add: sim_env_def)
  have "sys_inv (y\<lparr>ss_nets := (ss_nets y)[i := t]\<rparr>)" using assms t(1) inv(2) by (auto simp: sys_inv_def nth_list_update)
  from sys_inv_skeleton [OF this env'(1)] env'(2) have "sys_inv \<lparr>ss_sim = nd_env t, ss_nets = (ss_nets y)[i := t]\<rparr>"
    by (simp add: sys_inv_def)
  then show "sys_inv (sim_poll y i)" "skeleton (ss_sim (sim_poll y i)) = skeleton (ss_sim y)" "sm_now_ms (ss_sim (sim_poll y i)) = sm_now_ms (ss_sim y)"
    using assms(1) env' by (simp_all add: poll)
qed

lemma sim_polls_inv:
  assumes "sys_inv y" and "set js \<subseteq> {..<sm_count (ss_sim y)}"
  shows "sys_inv (foldl sim_poll y js) \<and> skeleton (ss_sim (foldl sim_poll y js)) = skeleton (ss_sim y) \<and>
    sm_now_ms (ss_sim (foldl sim_poll y js)) = sm_now_ms (ss_sim y)"
  using assms
proof (induction js arbitrary: y)
  case (Cons j js)
  then have j: "j < sm_count (ss_sim y)" by simp
  note p = sim_poll_inv [OF Cons.prems(1) j]
  have "sm_count (ss_sim (sim_poll y j)) = sm_count (ss_sim y)" using skeleton_eqD(1) [OF p(2)] .
  then show ?case using Cons.IH [OF p(1)] Cons.prems(2) p(2,3) by simp
qed simp

text \<open>Resolving the channel changes the random state and the scratch arrays only.\<close>

definition radio_view where
  "radio_view s = (sm_now_ms s, sm_bit_error_rate s, sm_count s, sm_nodes s, sm_channel s, sm_channel_count s, sm_current s)"

definition radio_step :: "('d, 'u) sim_t \<Rightarrow> ('d, 'u) sim_t \<Rightarrow> bool" where
  "radio_step s s' \<longleftrightarrow> radio_view s' = radio_view s \<and> (sm_rnd s \<noteq> 0 \<longrightarrow> sm_rnd s' \<noteq> 0) \<and> length (sm_pending_rx s') = length (sm_pending_rx s) \<and>
     length (sm_first_rec s') = length (sm_first_rec s) \<and> length (sm_first_rssi s') = length (sm_first_rssi s) \<and>
     length (sm_first_snr s') = length (sm_first_snr s)"

lemma radio_step_refl: "radio_step s s"
  by (simp add: radio_step_def)

lemma radio_step_trans: "radio_step s s' \<Longrightarrow> radio_step s' s'' \<Longrightarrow> radio_step s s''"
  by (auto simp: radio_step_def)

lemma radio_stepD:
  assumes "radio_step s s'"
  shows "sm_count s' = sm_count s" and "sm_nodes s' = sm_nodes s" and "sm_channel s' = sm_channel s" and "sm_channel_count s' = sm_channel_count s"
    and "sm_now_ms s' = sm_now_ms s" and "sm_current s' = sm_current s" and "sm_bit_error_rate s' = sm_bit_error_rate s" and "sim_ok s \<Longrightarrow> sim_ok s'"
  using assms by (simp_all add: radio_step_def radio_view_def sim_ok_def)

lemma rnd_unit_radio: "radio_step s (snd (sim_rnd_unit fp s))"
  by (simp add: radio_step_def radio_view_def sim_rnd_unit_def sim_rnd_raw_def Let_def)

lemma link_radio: "radio_step s (snd (sim_link fp s a b))"
  using rnd_unit_radio [of s fp] by (simp add: sim_link_def Let_def case_prod_unfold radio_step_refl)

text \<open>Whether and how node \<open>j\<close> hears record \<open>r\<close>, and what \<open>sim_deliver\<close> notes down then.\<close>

definition hears :: "'d fp \<Rightarrow> ('d, 'u) sim_t \<Rightarrow> nat \<Rightarrow> nat \<Rightarrow> (i16 \<times> i8) option \<times> ('d, 'u) sim_t" where
  "hears fp s r j =
     (let rec = sm_channel s ! r; n = sm_nodes s ! j
      in if \<not> sn_active n \<or> sn_addr n = tr_sender rec then (None, s)
         else
           case find_index (\<lambda>k. sn_addr k = tr_sender rec) (take (sm_count s) (sm_nodes s)) of
             None \<Rightarrow> (None, s)
           | Some k \<Rightarrow> if \<not> sn_active (sm_nodes s ! k) then (None, s) else sim_link fp s (sm_nodes s ! k) n)"

definition note_heard :: "nat \<Rightarrow> nat \<Rightarrow> (i16 \<times> i8) option \<Rightarrow> ('d, 'u) sim_t \<Rightarrow> ('d, 'u) sim_t" where
  "note_heard r j o' s =
     (case o' of
        None \<Rightarrow> s
      | Some (rssi, snr) \<Rightarrow>
          let s = (if sm_pending_rx s ! j = 0
                   then s\<lparr>sm_first_rec := (sm_first_rec s)[j := Some r], sm_first_rssi := (sm_first_rssi s)[j := rssi],
                          sm_first_snr := (sm_first_snr s)[j := snr]\<rparr> else s)
          in s\<lparr>sm_pending_rx := (sm_pending_rx s)[j := sm_pending_rx s ! j + 1]\<rparr>)"

lemma deliver_hear_eq: "deliver_hear fp r s j = note_heard r j (fst (hears fp s r j)) (snd (hears fp s r j))"
proof (cases "find_index (\<lambda>k. sn_addr k = tr_sender (sm_channel s ! r)) (take (sm_count s) (sm_nodes s))")
  case None
  show ?thesis unfolding deliver_hear_def hears_def Let_def None option.case by (simp add: note_heard_def)
next
  case (Some k)
  obtain h s' where "sim_link fp s (sm_nodes s ! k) (sm_nodes s ! j) = (h, s')" by fastforce
  then show ?thesis unfolding deliver_hear_def hears_def Let_def Some option.case by (cases h) (auto simp: note_heard_def)
qed

lemma hears_radio: "radio_step s (snd (hears fp s r j))"
  using link_radio [of s fp] by (simp add: hears_def Let_def radio_step_refl split: option.split)

lemma note_heard_radio: "radio_step s (note_heard r j o' s)"
  by (simp add: note_heard_def radio_step_def radio_view_def Let_def split: option.split)

lemma deliver_hear_radio: "radio_step s (deliver_hear fp r s j)"
  unfolding deliver_hear_eq by (rule radio_step_trans [OF hears_radio note_heard_radio])

lemma foldl_radio: "(\<And>s x. radio_step s (f s x)) \<Longrightarrow> radio_step s (foldl f s xs)"
  by (induction xs arbitrary: s) (auto intro: radio_step_refl radio_step_trans)

lemma pass1_radio: "radio_step s (deliver_pass1 fp s)"
proof -
  have "radio_step s (foldl deliver_clear s js)" for s :: "('a, 'b) sim_t" and js
    by (rule foldl_radio) (simp add: deliver_clear_def radio_step_def radio_view_def)
  moreover have "radio_step s (foldl (\<lambda>s r. foldl (deliver_hear fp r) s [0..<sm_count s]) s rs)" for s :: "('a, 'b) sim_t" and rs
    by (intro foldl_radio deliver_hear_radio)
  ultimately show ?thesis unfolding deliver_pass1_def by (rule radio_step_trans)
qed

lemma corrupt_radio: "radio_step s (snd (corrupt fp buf len s)) \<and> length (fst (corrupt fp buf len s)) = min len (length buf)"
proof -
  have "radio_step s (snd (foldl (flip_bit_at fp) (d, s) ps)) \<and> length (fst (foldl (flip_bit_at fp) (d, s) ps)) = length d" for d s and ps :: "(nat \<times> nat) list"
  proof (induction ps arbitrary: d s)
    case (Cons x ps)
    have "radio_step s (snd (flip_bit_at fp (d, s) x)) \<and> length (fst (flip_bit_at fp (d, s) x)) = length d"
      using rnd_unit_radio [of s fp] by (simp add: flip_bit_at_def case_prod_unfold Let_def)
    then show ?case using Cons.IH [of "snd (flip_bit_at fp (d, s) x)" "fst (flip_bit_at fp (d, s) x)"] by (auto intro: radio_step_trans)
  qed (simp add: radio_step_refl)
  from this [of s "take len buf"] show ?thesis by (simp add: corrupt_def)
qed

text \<open>After the first pass a pending frame is one of the channel.\<close>

definition firsts_ok :: "('d, 'u) sim_t \<Rightarrow> bool" where
  "firsts_ok s \<longleftrightarrow> list_all (\<lambda>o'. \<forall>r. o' = Some r \<longrightarrow> r < sm_channel_count s) (take (sm_count s) (sm_first_rec s))"

lemma firsts_okD:
  assumes "firsts_ok s" and "sim_ok s" and "j < sm_count s" and "sm_first_rec s ! j = Some r"
  shows "r < sm_channel_count s"
proof -
  have "sm_first_rec s ! j \<in> set (take (sm_count s) (sm_first_rec s))" using assms(2,3) by (auto simp: in_set_conv_nth sim_ok_def)
  then show ?thesis using assms(1,4) by (auto simp: firsts_ok_def list_all_iff)
qed

lemma foldl_clear:
  assumes "length (sm_first_rec s) = m" and "length (sm_pending_rx s) = m" and "n \<le> m"
  shows "length (sm_first_rec (foldl deliver_clear s [0..<n])) = m \<and> length (sm_pending_rx (foldl deliver_clear s [0..<n])) = m \<and>
    (\<forall>j<n. sm_first_rec (foldl deliver_clear s [0..<n]) ! j = None \<and> sm_pending_rx (foldl deliver_clear s [0..<n]) ! j = 0)"
  using assms(3)
proof (induction n)
  case (Suc n)
  then show ?case by (auto simp: deliver_clear_def nth_list_update less_Suc_eq)
qed (use assms in simp)

lemma hear_firsts: "firsts_ok s \<Longrightarrow> r < sm_channel_count s \<Longrightarrow> firsts_ok (deliver_hear fp r s j)"
proof -
  assume a: "firsts_ok s" "r < sm_channel_count s"
  let ?s = "snd (hears fp s r j)"
  have same: "sm_first_rec (snd (sim_link fp s n m)) = sm_first_rec s" for n m
    by (simp add: sim_link_def sim_rnd_unit_def sim_rnd_raw_def Let_def case_prod_unfold)
  have "sm_first_rec ?s = sm_first_rec s" using same by (simp add: hears_def Let_def split: option.split)
  then have "firsts_ok ?s" "r < sm_channel_count ?s" using a radio_stepD(1,4) [OF hears_radio [of s fp r j]] by (simp_all add: firsts_ok_def)
  then show ?thesis unfolding deliver_hear_eq by (auto simp: note_heard_def firsts_ok_def Let_def take_update_swap intro!: list_all_update split: option.split)
qed

lemma pass1_firsts: "sim_ok s \<Longrightarrow> firsts_ok (deliver_pass1 fp s)"
proof -
  assume "sim_ok s"
  let ?c = "foldl deliver_clear s [0..<sm_count s]"
  have clear: "sm_count ?c = sm_count s" "sm_channel_count ?c = sm_channel_count s"
    using radio_stepD(1,4) [of s ?c] foldl_radio [of deliver_clear s] by (simp_all add: deliver_clear_def radio_step_def radio_view_def)
  have "firsts_ok ?c"
    using \<open>sim_ok s\<close> foldl_clear [of s SIM_MAX_NODES "sm_count s"] by (simp add: firsts_ok_def clear list_all_length sim_ok_def)
  have inner: "firsts_ok (foldl (deliver_hear fp r) s js) \<and> sm_channel_count (foldl (deliver_hear fp r) s js) = sm_channel_count s"
    if "firsts_ok s" "r < sm_channel_count s" for s :: "('a, 'b) sim_t" and r js
    using that
  proof (induction js arbitrary: s)
    case (Cons j js)
    then show ?case using hear_firsts [OF Cons.prems, of fp j] radio_stepD(4) [OF deliver_hear_radio [of s fp r j]] by simp
  qed simp
  have "firsts_ok (foldl (\<lambda>s r. foldl (deliver_hear fp r) s [0..<sm_count s]) s rs)"
    if "firsts_ok s" "set rs \<subseteq> {..<sm_channel_count s}" for s :: "('a, 'b) sim_t" and rs
    using that
  proof (induction rs arbitrary: s)
    case (Cons r rs)
    then show ?case using inner [OF Cons.prems(1), of r "[0..<sm_count s]"] by simp
  qed simp
  from this [of ?c "[0..<sm_channel_count s]"] show ?thesis
    using \<open>firsts_ok ?c\<close> by (simp add: deliver_pass1_def clear subset_iff)
qed

lemma treenet_rx_net_ok:
  assumes "net_ok addr k t" and "len \<le> length p"
  shows "net_ok addr k (snd (treenet_rx_node t (Some p) len rssi snr))"
proof -
  have "nd_identity (snd (treenet_rx_node t (Some p) len rssi snr)) = nd_identity t \<and>
      nd_initialized (snd (treenet_rx_node t (Some p) len rssi snr)) = nd_initialized t"
    by (simp add: treenet_rx_node_def Let_def case_prod_unfold nd_identity_def)
  then show ?thesis
    using assms treenet_rx_node_inv [of "\<lambda>_. True" t "Some p" len rssi snr] by (simp add: net_ok_def nd_identity_def)
qed

lemma corrupt_keep:
  assumes "\<And>s k. h (s\<lparr>sm_rnd := k\<rparr>) = h s"
  shows "h (snd (corrupt fp b n s)) = h s"
proof -
  have "h (snd (flip_bit_at fp x p)) = h (snd x)" for x p
    using assms by (simp add: flip_bit_at_def sim_rnd_unit_def sim_rnd_raw_def case_prod_unfold Let_def)
  then have "h (snd (foldl (flip_bit_at fp) x ps)) = h (snd x)" for x ps by (induction ps arbitrary: x) simp_all
  then show ?thesis by (simp add: corrupt_def)
qed

lemma corrupt_keeps [simp]:
  "sm_first_rec (snd (corrupt fp b n s)) = sm_first_rec s" "sm_first_rssi (snd (corrupt fp b n s)) = sm_first_rssi s"
  "sm_first_snr (snd (corrupt fp b n s)) = sm_first_snr s" "sm_pending_rx (snd (corrupt fp b n s)) = sm_pending_rx s"
  by (rule corrupt_keep, simp)+

lemma deliver_to_inv:
  assumes "sys_inv y" and "firsts_ok (ss_sim y)" and "j < sm_count (ss_sim y)"
  shows "sys_inv (deliver_to fp y j)" and "radio_step (ss_sim y) (ss_sim (deliver_to fp y j))"
    and "sm_first_rec (ss_sim (deliver_to fp y j)) = sm_first_rec (ss_sim y)"
proof -
  let ?s = "ss_sim y"
  have all: "sys_inv (deliver_to fp y j) \<and> radio_step ?s (ss_sim (deliver_to fp y j)) \<and> sm_first_rec (ss_sim (deliver_to fp y j)) = sm_first_rec ?s"
  proof (cases "sm_pending_rx ?s ! j = 1 \<and> sm_first_rec ?s ! j \<noteq> None")
    case True
    then obtain r where r: "sm_first_rec ?s ! j = Some r" by auto
    then have rc: "r < sm_channel_count ?s" using firsts_okD [OF assms(2) sys_invD(1) [OF assms(1)] assms(3)] by simp
    note ok = sys_invD(1) [OF assms(1)]
    define rec where "rec = sm_channel ?s ! r"
    define x where "x = (if fp_less fp (fp_lit fp 0 0) (sm_bit_error_rate ?s) then corrupt fp (tr_buf rec) (unat (tr_len rec)) ?s else (tr_buf rec, ?s))"
    have rec: "length (tr_buf rec) = TREENET_MTU" "unat (tr_len rec) \<le> TREENET_MTU"
      using ok rc by (auto simp: sim_ok_def list_all_length rec_def rec_valid_def)
    have cf: "sm_first_rec (snd (corrupt fp b n ?s)) = sm_first_rec ?s" for b n
      by (simp add: corrupt_keeps)
    have x: "radio_step ?s (snd x)" "unat (tr_len rec) \<le> length (fst x)" "sm_first_rec (snd x) = sm_first_rec ?s"
      using corrupt_radio [of ?s fp "tr_buf rec" "unat (tr_len rec)"] rec cf by (auto simp: x_def radio_step_refl)
    note xs = radio_stepD [OF x(1)]
    define t where "t = snd (treenet_rx_node (ss_nets y ! j) (Some (fst x)) (unat (tr_len rec)) (sm_first_rssi (snd x) ! j) (sm_first_snr (snd x) ! j))"
    have d: "deliver_to fp y j = y\<lparr>ss_sim := snd x, ss_nets := (ss_nets y)[j := t]\<rparr>"
      unfolding deliver_to_def Let_def rec_def [symmetric] r option.case x_def [symmetric] case_prod_unfold t_def
      using True sys_invD(3) [OF assms(1,3)] xs(2) r by (simp add: x_def [symmetric] rec_def [symmetric])
    have "net_ok (sn_addr (sm_nodes ?s ! j)) j t" unfolding t_def by (rule treenet_rx_net_ok [OF sys_invD(4) [OF assms(1,3)] x(2)])
    then have "sys_inv (deliver_to fp y j)"
      using assms(1,3) xs(1,2,8) unfolding d by (auto simp: sys_inv_def nth_list_update)
    then show ?thesis using x by (simp add: d)
  next
    case False
    then have "deliver_to fp y j = y" by (auto simp: deliver_to_def Let_def)
    then show ?thesis using assms(1) by (simp add: radio_step_refl)
  qed
  then show "sys_inv (deliver_to fp y j)" "radio_step ?s (ss_sim (deliver_to fp y j))" "sm_first_rec (ss_sim (deliver_to fp y j)) = sm_first_rec ?s"
    by blast+
qed

lemma deliver_all_inv:
  assumes "sys_inv y" and "firsts_ok (ss_sim y)" and "set js \<subseteq> {..<sm_count (ss_sim y)}"
  shows "sys_inv (foldl (deliver_to fp) y js) \<and> radio_step (ss_sim y) (ss_sim (foldl (deliver_to fp) y js))"
  using assms
proof (induction js arbitrary: y)
  case (Cons j js)
  then have j: "j < sm_count (ss_sim y)" by simp
  note d = deliver_to_inv [OF Cons.prems(1,2) j, of fp] and r = radio_stepD [OF deliver_to_inv(2) [OF Cons.prems(1,2) j, of fp]]
  have "firsts_ok (ss_sim (deliver_to fp y j))" using Cons.prems(2) d(3) r(1,4) by (simp add: firsts_ok_def)
  then show ?case using Cons.IH [OF d(1)] Cons.prems(3) r(1) radio_step_trans [OF d(2)] by simp
qed (simp add: radio_step_refl)

lemma sim_deliver_inv:
  assumes "sys_inv y"
  shows "sys_inv (sim_deliver fp y)" and "sm_channel_count (ss_sim (sim_deliver fp y)) = 0" and "sm_now_ms (ss_sim (sim_deliver fp y)) = sm_now_ms (ss_sim y)"
    and "sm_current (ss_sim (sim_deliver fp y)) = sm_current (ss_sim y)" and "sm_nodes (ss_sim (sim_deliver fp y)) = sm_nodes (ss_sim y)"
    and "sm_count (ss_sim (sim_deliver fp y)) = sm_count (ss_sim y)"
proof -
  let ?y = "upd_sim (deliver_pass1 fp) y"
  note p = radio_stepD [OF pass1_radio [of "ss_sim y" fp]]
  have y: "sys_inv ?y" using sys_inv_sim [OF assms p(8)] sys_invD(1) [OF assms] p(1,2) by simp
  define z where "z = foldl (deliver_to fp) ?y [0..<sm_count (ss_sim ?y)]"
  have z: "sys_inv z" "radio_step (ss_sim ?y) (ss_sim z)"
    using deliver_all_inv [OF y, of "[0..<sm_count (ss_sim ?y)]" fp] pass1_firsts [OF sys_invD(1) [OF assms]] by (simp_all add: z_def subset_iff)
  note zs = radio_stepD [OF z(2)]
  have d: "sim_deliver fp y = upd_sim (\<lambda>s. s\<lparr>sm_channel_count := 0\<rparr>) z" by (simp add: sim_deliver_def z_def Let_def)
  show "sys_inv (sim_deliver fp y)" unfolding d using z(1) by (simp add: sys_inv_def sim_ok_def)
  show "sm_channel_count (ss_sim (sim_deliver fp y)) = 0" "sm_now_ms (ss_sim (sim_deliver fp y)) = sm_now_ms (ss_sim y)"
    "sm_current (ss_sim (sim_deliver fp y)) = sm_current (ss_sim y)" "sm_nodes (ss_sim (sim_deliver fp y)) = sm_nodes (ss_sim y)"
    "sm_count (ss_sim (sim_deliver fp y)) = sm_count (ss_sim y)"
    using zs p unfolding d by simp_all
qed

text \<open>Between two calls no node is being polled and the channel is empty.\<close>

definition sys_idle :: "('d, 'u) sim_sys \<Rightarrow> bool" where
  "sys_idle y \<longleftrightarrow> sys_inv y \<and> sm_current (ss_sim y) = None \<and> sm_channel_count (ss_sim y) = 0"

lemma sim_step_inv:
  assumes "sys_inv y"
  shows "sys_idle (sim_step fp y)" and "sm_now_ms (ss_sim (sim_step fp y)) = sm_now_ms (ss_sim y) + SIM_STEP_MS"
    and "skeleton (ss_sim (sim_step fp y)) = skeleton (ss_sim y)"
proof -
  define p where "p = foldl sim_poll y [0..<sm_count (ss_sim y)]"
  have p: "sys_inv p" "skeleton (ss_sim p) = skeleton (ss_sim y)" "sm_now_ms (ss_sim p) = sm_now_ms (ss_sim y)"
    using sim_polls_inv [OF assms, of "[0..<sm_count (ss_sim y)]"] by (simp_all add: p_def subset_iff)
  define q where "q = upd_sim (\<lambda>s. s\<lparr>sm_current := None\<rparr>) p"
  have q: "sys_inv q" "sm_now_ms (ss_sim q) = sm_now_ms (ss_sim y)" "sm_current (ss_sim q) = None" "skeleton (ss_sim q) = skeleton (ss_sim y)"
    using p by (simp_all add: q_def sys_inv_def sim_ok_def) (simp add: skeleton_def)
  note d = sim_deliver_inv [OF q(1), of fp]
  have s: "sim_step fp y = upd_sim (\<lambda>s. s\<lparr>sm_now_ms := sm_now_ms s + SIM_STEP_MS\<rparr>) (sim_deliver fp q)"
    by (simp add: sim_step_def p_def q_def Let_def)
  have "sys_inv (sim_step fp y)" unfolding s using d(1) by (simp add: sys_inv_def sim_ok_def)
  then show "sys_idle (sim_step fp y)" unfolding sys_idle_def s using d(2,4) q(3) by simp
  show "sm_now_ms (ss_sim (sim_step fp y)) = sm_now_ms (ss_sim y) + SIM_STEP_MS" "skeleton (ss_sim (sim_step fp y)) = skeleton (ss_sim y)"
    unfolding s using d(3,5,6) q(2,4) by (simp_all add: skeleton_def)
qed

lemma sim_steps_inv:
  "sys_idle y \<Longrightarrow> sys_idle ((sim_step fp ^^ n) y) \<and> sm_now_ms (ss_sim ((sim_step fp ^^ n) y)) = sm_now_ms (ss_sim y) + of_nat n * SIM_STEP_MS \<and>
   skeleton (ss_sim ((sim_step fp ^^ n) y)) = skeleton (ss_sim y)"
proof (induction n)
  case (Suc n)
  then have "sys_inv ((sim_step fp ^^ n) y)" by (simp add: sys_idle_def)
  from sim_step_inv [OF this, of fp] Suc show ?case by (simp add: algebra_simps)
qed simp

lemma init_node_initialized: "nd_initialized (init_node cfg port w)"
  by (simp add: init_node_def Let_def case_prod_unfold nd_staticD(6) [OF housekeeping_keeps(3)])

text \<open>Queueing frames, initialisation and sending transmit nothing.\<close>

lemma rnd_only_channel: "nd_port t = sim_port \<Longrightarrow> sm_channel_count (nd_env (snd (port_rnd t))) = sm_channel_count (nd_env t)"
  by (simp add: port_rnd_def sim_port_def sim_rnd_cb_def sim_rnd_raw_def Let_def)

lemma submit_channel: "nd_port t = sim_port \<Longrightarrow> sm_channel_count (nd_env (snd (tn_tx_submit t f r n d))) = sm_channel_count (nd_env t)"
  by (simp add: rnd_only_channel tn_tx_submit_def TN_STAT_INC_def Let_def case_prod_unfold split: option.split)

lemma init_channel:
  assumes "sm_channel_count s = 0"
  shows "sm_channel_count (nd_env (init_node cfg sim_port s)) = 0"
proof -
  have now: "sm_channel_count (nd_env (snd (port_now_ms t))) = sm_channel_count (nd_env t)" if "nd_port t = sim_port" for t :: "('a, 'b) sim_t treenet"
    using that by (simp add: port_now_ms_def sim_port_def sim_now_cb_def)
  have probe: "sm_channel_count (nd_env (tn_probe_send t)) = sm_channel_count (nd_env t)" if "nd_port t = sim_port" for t :: "('a, 'b) sim_t treenet"
    using that by (simp add: tn_probe_send_def tn_next_seq_def submit_channel Let_def case_prod_unfold)
  have sel: "nd_env (snd (tn_routing_select_parent t n)) = nd_env t" if "nd_role t = TREENET_ROLE_MASTER" for t :: "('a, 'b) sim_t treenet" and n
    using that by (simp add: tn_routing_select_parent_def tn_emit_event_def Let_def)
  show ?thesis
    unfolding init_node_def Let_def case_prod_unfold using assms by (simp add: probe sel rnd_only_channel now init_lora_def node_cleared_def)
qed

text \<open>A node initialised inside an idle simulation satisfies its invariant and leaves the simulation as it was, its
  random state and counters apart.\<close>

lemma treenet_init_in_sim:
  assumes "sim_ok s" and "sm_current s = None" and "sm_channel_count s = 0"
    and "treenet_init sz ctx sz (Some (sim_cfg fp c addr role reliable s)) (Some sim_port) s = Some t"
  shows "net_ok addr c t" and "sim_ok (nd_env t)" and "sm_current (nd_env t) = None" and "skeleton (nd_env t) = skeleton s"
    and "sm_channel_count (nd_env t) = 0"
proof -
  let ?cfg = "sim_cfg fp c addr role reliable s" and ?Q = "sim_env None (skeleton s) (sm_now_ms s)"
  have args: "init_args_ok sz ctx sz (Some ?cfg) (Some sim_port)" and t: "t = init_node ?cfg sim_port s"
    using assms(4) by (auto simp: treenet_init_def split: if_splits)
  have "sim_cfg_for c ?cfg" by (simp add: sim_cfg_for_def sim_cfg_def)
  then have tinv: "node_inv ?Q t"
    unfolding t using assms(1,2) by (intro init_node_inv [OF args] sim_port_ok sim_cfg_ok) (simp_all add: sim_env_def)
  have id: "nd_addr t = addr" "nd_port t = sim_port" "nd_cfg t = ?cfg"
    using init_node_identity [of ?cfg sim_port s] by (simp_all add: t nd_identity_def sim_cfg_def)
  show "net_ok addr c t"
    using node_inv_weaken [OF tinv] id \<open>sim_cfg_for c ?cfg\<close> init_node_initialized [of ?cfg sim_port s] by (simp add: net_ok_def t)
  show "sim_ok (nd_env t)" "sm_current (nd_env t) = None" "skeleton (nd_env t) = skeleton s"
    using node_invD(5) [OF tinv] by (simp_all add: sim_env_def)
  show "sm_channel_count (nd_env t) = 0" using init_channel [of s] assms(2,3) by (simp add: t)
qed

text \<open>Appending the new instance keeps the correspondence between simulated nodes and instances.\<close>

lemma sys_inv_append:
  assumes "sys_inv y" and "length (ss_nets y) = c" and "c < SIM_MAX_NODES" and "sim_ok s" and "sim_ok s'" and "skeleton s' = skeleton s"
    and "\<And>j. j < c \<Longrightarrow> sm_nodes s ! j = sm_nodes (ss_sim y) ! j" and "sn_addr (sm_nodes s ! c) = addr" and "net_ok addr c t"
  shows "sys_inv \<lparr>ss_sim = (upd_node c (\<lambda>n. n\<lparr>sn_net := Some c\<rparr>) s')\<lparr>sm_count := c + 1\<rparr>, ss_nets = ss_nets y @ [t]\<rparr>"
proof -
  note inv = sys_invD [OF assms(1)]
  have lens: "length (sm_nodes s) = SIM_MAX_NODES" "length (sm_nodes s') = SIM_MAX_NODES"
    using assms(4,5) by (simp_all add: sim_ok_def)
  have nodes: "sn_addr (sm_nodes s' ! j) = sn_addr (sm_nodes s ! j)" "sn_net (sm_nodes s' ! j) = sn_net (sm_nodes s ! j)"
    if "j < SIM_MAX_NODES" for j using skeleton_eqD(3) [OF assms(6), of j] that lens by simp_all
  have old: "sn_net (sm_nodes s ! j) = Some j" "net_ok (sn_addr (sm_nodes s ! j)) j (ss_nets y ! j)" if "j < c" for j
    using that inv(2) inv(3,4) [of j] assms(2) by (simp_all add: assms(7))
  show ?thesis
    using assms(2,3,5,8,9) lens old nodes by (auto simp: sys_inv_def sim_ok_def nth_append nth_list_update less_Suc_eq)
qed

lemma sim_add_node_inv:
  assumes "sys_idle y"
  shows "sys_idle (snd (sim_add_node_to fp sz ctx y addr role px py reliable))"
proof -
  note inv = sys_invD [of y] and idle = assms [unfolded sys_idle_def]
  define c where "c = sm_count (ss_sim y)"
  define s where "s = upd_node c (\<lambda>n. (sim_node_zero fp)\<lparr>sn_addr := addr, sn_role := role, sn_x := px, sn_y := py, sn_active := True\<rparr>) (ss_sim y)"
  have len: "length (ss_nets y) = c" using inv(2) idle by (simp add: c_def)
  have s: "sim_ok s" "sm_current s = None" "sm_channel_count s = 0" "sm_count s = c" using idle inv(1) by (simp_all add: s_def sim_ok_def c_def)
  have ys: "sys_idle (y\<lparr>ss_sim := s\<rparr>)" using idle s sys_inv_sim [of y s] by (simp add: sys_idle_def) (simp add: s_def c_def)
  show ?thesis
  proof (cases "c \<ge> SIM_MAX_NODES \<or> addr = TREENET_ADDR_INVALID \<or> addr = TREENET_ADDR_BROADCAST")
    case True
    then show ?thesis using assms by (auto simp: sim_add_node_to_def Let_def c_def)
  next
    case False
    define i where "i = treenet_init sz ctx sz (Some (sim_cfg fp c addr role reliable s)) (Some sim_port) s"
    have step: "snd (sim_add_node_to fp sz ctx y addr role px py reliable) = (if ctx = None then y\<lparr>ss_sim := s\<rparr> else
        case i of None \<Rightarrow> y\<lparr>ss_sim := s\<rparr>
        | Some t \<Rightarrow> \<lparr>ss_sim = (upd_node c (\<lambda>n. n\<lparr>sn_net := Some c\<rparr>) (nd_env t))\<lparr>sm_count := c + 1\<rparr>, ss_nets = ss_nets y @ [t]\<rparr>)"
      unfolding sim_add_node_to_def Let_def c_def [symmetric] s_def [symmetric] len i_def [symmetric]
      using False by (auto split: option.split)
    show ?thesis
    proof (cases i)
      case None
      then show ?thesis using ys by (simp add: step)
    next
      case (Some t)
      note t = treenet_init_in_sim [OF s(1-3) Some [unfolded i_def]]
      have "sn_addr (sm_nodes s ! c) = addr" using s(1) False by (simp add: s_def c_def sim_ok_def)
      then have "sys_inv \<lparr>ss_sim = (upd_node c (\<lambda>n. n\<lparr>sn_net := Some c\<rparr>) (nd_env t))\<lparr>sm_count := c + 1\<rparr>, ss_nets = ss_nets y @ [t]\<rparr>"
        using idle False by (intro sys_inv_append [OF _ len _ s(1) t(2,4) _ _ t(1)]) (simp_all add: s_def c_def)
      then show ?thesis using step Some t(3,5) ys by (cases ctx) (simp_all add: sys_idle_def)
    qed
  qed
qed

lemma nth_update_in: "j < length xs \<Longrightarrow> xs[i := x] ! j = (if i = j then x else xs ! j)"
  by auto

text \<open>Setters and moves touch neither addresses, instances, channel nor random state.\<close>

lemma sys_idle_set:
  assumes "sys_idle y" and "\<And>s. (sm_rnd (g s), sm_count (g s), length (sm_nodes (g s)), sm_channel (g s), sm_channel_count (g s), sm_current (g s)) =
      (sm_rnd s, sm_count s, length (sm_nodes s), sm_channel s, sm_channel_count s, sm_current s)"
    and "\<And>s. (sm_pending_rx (g s), sm_first_rec (g s), sm_first_rssi (g s), sm_first_snr (g s)) = (sm_pending_rx s, sm_first_rec s, sm_first_rssi s, sm_first_snr s)"
    and "\<And>s j. j < length (sm_nodes s) \<Longrightarrow> sn_net (sm_nodes (g s) ! j) = sn_net (sm_nodes s ! j) \<and> sn_addr (sm_nodes (g s) ! j) = sn_addr (sm_nodes s ! j)"
  shows "sys_idle (upd_sim g y)"
proof -
  have s: "sim_ok (ss_sim y)" using sys_invD(1) assms(1) by (auto simp: sys_idle_def)
  then have "sim_ok (g (ss_sim y))" using assms(2,3) [of "ss_sim y"] by (simp add: sim_ok_def)
  moreover have "j < length (sm_nodes (ss_sim y))" if "j < sm_count (ss_sim y)" for j using s that by (simp add: sim_ok_def)
  ultimately show ?thesis using assms(1,2,4) sys_inv_sim [of y "g (ss_sim y)"] by (simp add: sys_idle_def)
qed

text \<open>The host uses the library on the instance of node \<open>i\<close>, as the examples do: it sends a datagram.\<close>

definition sim_host_send :: "('d, 'u) sim_sys \<Rightarrow> nat \<Rightarrow> treenet_addr_t \<Rightarrow> u8 list \<Rightarrow> nat \<Rightarrow> ('d, 'u) sim_sys" where
  "sim_host_send y i dst p len =
     (case sn_net (sm_nodes (ss_sim y) ! i) of
        None \<Rightarrow> y
      | Some k \<Rightarrow> let t = snd (treenet_send_node ((ss_nets y ! k)\<lparr>nd_env := ss_sim y\<rparr>) dst (Some p) len)
                  in \<lparr>ss_sim = nd_env t, ss_nets = (ss_nets y)[k := t]\<rparr>)"

lemma send_frags_channel:
  "nd_port t = sim_port \<Longrightarrow> sm_channel_count (nd_env (snd (send_frags flood dst rel nh gid count p len js t))) = sm_channel_count (nd_env t)"
  by (induction js arbitrary: t) (simp_all add: TN_STAT_INC_def Let_def case_prod_unfold submit_channel tn_next_seq_def)

lemma send_channel:
  assumes "nd_port t = sim_port"
  shows "sm_channel_count (nd_env (snd (treenet_send_node t dst (Some p) len))) = sm_channel_count (nd_env t)"
proof -
  have dg: "sm_channel_count (nd_env (snd (tn_send_datagram t dst (Some p) len flood))) = sm_channel_count (nd_env t)" for dst flood
  proof -
    define x where "x = snd (if flood then (TREENET_ADDR_BROADCAST, t) else tn_route_next_hop t dst)"
    have x: "nd_port x = sim_port" "nd_env x = nd_env t" using assms by (simp_all add: x_def)
    then have y: "nd_port (snd (tn_next_seq x)) = sim_port" "nd_env (snd (tn_next_seq x)) = nd_env t" by (simp_all add: tn_next_seq_def)
    show ?thesis
      unfolding tn_send_datagram_def option.case Let_def case_prod_unfold x_def [symmetric]
      using x y by (simp add: submit_channel send_frags_channel TN_STAT_INC_def)
  qed
  show ?thesis by (simp add: treenet_send_node_def treenet_broadcast_node_def dg)
qed

lemma sim_host_send_inv:
  assumes "sys_idle y" and "i < sm_count (ss_sim y)" and "len \<le> length p"
  shows "sys_idle (sim_host_send y i dst p len)" and "skeleton (ss_sim (sim_host_send y i dst p len)) = skeleton (ss_sim y)"
proof -
  have y: "sys_inv y" "sm_current (ss_sim y) = None" "sm_channel_count (ss_sim y) = 0" using assms(1) by (simp_all add: sys_idle_def)
  note net = sys_invD(3,4) [OF y(1) assms(2)]
  let ?Q = "sim_env None (skeleton (ss_sim y)) (sm_now_ms (ss_sim y))" and ?t = "(ss_nets y ! i)\<lparr>nd_env := ss_sim y\<rparr>"
  have inv: "node_inv ?Q ?t" by (rule net_ok_env [OF net(2)]) (use y sys_invD(1) in \<open>auto simp: sim_env_def\<close>)
  define t where "t = snd (treenet_send_node ?t dst (Some p) len)"
  have tinv: "node_inv ?Q t" unfolding t_def by (rule treenet_send_node_inv [OF inv]) (use assms(3) in simp)
  have "nd_static t = nd_static ?t" by (simp add: t_def)
  then have ok: "net_ok (sn_addr (sm_nodes (ss_sim y) ! i)) i t"
    using net(2) node_inv_weaken [OF tinv] nd_staticD [of t ?t] by (simp add: net_ok_def)
  have env: "sim_ok (nd_env t)" "sm_current (nd_env t) = None" "skeleton (nd_env t) = skeleton (ss_sim y)"
    using node_invD(5) [OF tinv] by (simp_all add: sim_env_def)
  have ch: "sm_channel_count (nd_env t) = 0" using send_channel [of ?t] net(2) y(3) by (simp add: t_def net_ok_def)
  have "sys_inv (y\<lparr>ss_nets := (ss_nets y)[i := t]\<rparr>)" using y(1) ok sys_invD(2) [OF y(1)] assms(2) by (auto simp: sys_inv_def nth_list_update)
  from sys_inv_skeleton [OF this env(1)] env(3) have "sys_inv \<lparr>ss_sim = nd_env t, ss_nets = (ss_nets y)[i := t]\<rparr>" by (simp add: sys_inv_def)
  then show "sys_idle (sim_host_send y i dst p len)" using net(1) env(2) ch by (simp add: sim_host_send_def t_def sys_idle_def Let_def)
  show "skeleton (ss_sim (sim_host_send y i dst p len)) = skeleton (ss_sim y)" using net(1) env(3) by (simp add: sim_host_send_def t_def Let_def)
qed

section \<open>Reachable networks\<close>

inductive sim_call :: "'d fp \<Rightarrow> ('d, 'u) sim_sys \<Rightarrow> ('d, 'u) sim_sys \<Rightarrow> bool" for fp where
  call_add: "sim_add_node fp sz ctx (Some y) addr role px py reliable = (r, Some y') \<Longrightarrow> sim_call fp y y'"
| call_move: "sim_move_node (Some y) addr px py = Some y' \<Longrightarrow> sim_call fp y y'"
| call_active: "sim_set_active (Some y) addr a = Some y' \<Longrightarrow> sim_call fp y y'"
| call_path_loss: "sim_set_path_loss (Some y) l e = Some y' \<Longrightarrow> sim_call fp y y'"
| call_range: "sim_set_range fp (Some y) m = Some y' \<Longrightarrow> sim_call fp y y'"
| call_ber: "sim_set_bit_error_rate fp (Some y) b = Some y' \<Longrightarrow> sim_call fp y y'"
| call_radio: "sim_set_radio (Some y) sf bw = Some y' \<Longrightarrow> sim_call fp y y'"
| call_net_id: "sim_set_net_id (Some y) nid = Some y' \<Longrightarrow> sim_call fp y y'"
| call_callbacks: "sim_set_callbacks (Some y) recv event = Some y' \<Longrightarrow> sim_call fp y y'"
| call_run: "sim_run fp (Some y) ms = Some y' \<Longrightarrow> sim_call fp y y'"
| call_send: "i < sm_count (ss_sim y) \<Longrightarrow> len \<le> length p \<Longrightarrow> sim_call fp y (sim_host_send y i dst p len)"

lemma sim_call_idle:
  assumes "sim_call fp y y'" and "sys_idle y"
  shows "sys_idle y'"
  using assms(1)
proof cases
  case (call_add sz ctx addr role px py reliable r)
  then show ?thesis using sim_add_node_inv [OF assms(2), of fp sz ctx addr role px py reliable] by (auto simp: sim_add_node_def map_prod_def case_prod_unfold)
next
  case (call_move addr px py)
  then show ?thesis using assms(2) by (auto simp: sim_move_node_def nth_update_in split: option.splits intro!: sys_idle_set)
next
  case (call_active addr a)
  then show ?thesis using assms(2) by (auto simp: sim_set_active_def nth_update_in split: option.splits intro!: sys_idle_set)
next
  case (call_run ms)
  then show ?thesis using sim_steps_inv [OF assms(2)] by (auto simp: sim_run_def Let_def)
next
  case (call_send i len p dst)
  then show ?thesis using sim_host_send_inv [OF assms(2)] by simp
qed (use assms(2) in \<open>auto simp: sim_set_path_loss_def sim_set_range_def sim_set_bit_error_rate_def sim_set_radio_def sim_set_net_id_def
    sim_set_callbacks_def intro!: sys_idle_set\<close>)

lemma sim_create_idle: "sim_create fp ok seed p se nf host = Some y \<Longrightarrow> sys_idle y"
  by (auto simp: sim_create_def sys_idle_def sys_inv_def sim_ok_def list_all_iff sim_txrec_zero_def split: if_splits)

lemma sim_reachable_idle:
  assumes "sim_create fp ok seed p se nf host = Some y0" and "(sim_call fp)\<^sup>*\<^sup>* y0 y"
  shows "sys_idle y"
  using assms(2) by induction (use sim_create_idle [OF assms(1)] sim_call_idle in blast)+

text \<open>
  Property C37: a simulated network. Whatever calls the host makes after creating the simulator (adding, moving, failing nodes, changing the radio model, running,
  sending from any node), every instance satisfies the node invariant, belongs to the node that points to it and has its address; between calls the
  channel is empty; and running for \<open>ms\<close> milliseconds moves the clock on by \<open>ms\<close> rounded up to a multiple of ten, with the same nodes; destroying the
  simulator frees every instance exactly once.
\<close>

theorem simulated_network_invariant:
  assumes "sim_create fp ok seed pw sens noise host = Some y0" and "(sim_call fp)\<^sup>*\<^sup>* y0 y"
  shows "sm_count (ss_sim y) \<le> SIM_MAX_NODES \<and> sm_channel_count (ss_sim y) = 0 \<and>
    (\<forall>j < sm_count (ss_sim y). sn_net (sm_nodes (ss_sim y) ! j) = Some j \<and> node_inv (\<lambda>_. True) (ss_nets y ! j) \<and>
      nd_addr (ss_nets y ! j) = sn_addr (sm_nodes (ss_sim y) ! j)) \<and>
    sim_now (sim_run fp (Some y) ms) = sim_now (Some y) + (ms + 9) div 10 * 10 \<and>
    sim_node_count (sim_run fp (Some y) ms) = sim_node_count (Some y) \<and>
    sim_destroy (Some y) = (map Some [0..<length (ss_nets y)], None)"
proof -
  have y: "sys_idle y" by (rule sim_reachable_idle [OF assms])
  then have inv: "sys_inv y" "sm_channel_count (ss_sim y) = 0" by (simp_all add: sys_idle_def)
  have "sim_now (sim_run fp (Some y) ms) = sim_now (Some y) + (ms + 9) div 10 * 10 \<and> sim_node_count (sim_run fp (Some y) ms) = sim_node_count (Some y)"
    using sim_steps_inv [OF y, of "unat ((ms + 9) div 10)" fp] skeleton_eqD(1) by (fastforce simp: sim_now_def sim_run_def sim_node_count_def Let_def config add.commute)
  moreover have "sim_destroy (Some y) = (map Some [0..<length (ss_nets y)], None)"
    using sys_invD(1,2,7) [OF inv(1)] by (auto simp: sim_destroy_def sim_ok_def intro!: nth_equalityI) (use sys_invD(3) [OF inv(1)] in simp)
  ultimately show ?thesis using sys_invD [OF inv(1)] inv(2) by (auto simp: net_ok_def)
qed

text \<open>
  Property C38: what is on the air. At every moment of a step, that is after some of the nodes were polled, each record on the channel is a complete frame of at most
  \<open>TREENET_MTU\<close> bytes that decodes, and its previous hop is the node the channel records as its sender.
\<close>

theorem channel_holds_sender_frames:
  assumes "sim_create fp ok seed pw sens noise host = Some y0" and "(sim_call fp)\<^sup>*\<^sup>* y0 y" and "k \<le> sm_count (ss_sim y)"
    and "ss_sim (foldl sim_poll y [0..<k]) = s"
  shows "list_all (\<lambda>rec. unat (tr_len rec) \<le> TREENET_MTU \<and>
      (\<exists>f. tn_frame_decode (Some (take (unat (tr_len rec)) (tr_buf rec))) (unat (tr_len rec)) = Some f \<and> fr_prev f = tr_sender rec))
    (take (sm_channel_count s) (sm_channel s))"
proof -
  have "sys_inv y" using sim_reachable_idle [OF assms(1,2)] by (simp add: sys_idle_def)
  then have "sys_inv (foldl sim_poll y [0..<k])" using sim_polls_inv [of y "[0..<k]"] assms(3) by (simp add: subset_iff)
  then have ok: "sim_ok s" using sys_invD(1) assms(4) by blast
  show ?thesis
    unfolding list_all_iff
  proof (intro ballI)
    fix rec assume "rec \<in> set (take (sm_channel_count s) (sm_channel s))"
    then have rec: "rec_valid rec" "length (tr_buf rec) = TREENET_MTU" using ok in_set_takeD by (fastforce simp: sim_ok_def list_all_iff)+
    then obtain net where "wire_ok (tr_sender rec) net (take (unat (tr_len rec)) (tr_buf rec))" "unat (tr_len rec) \<le> TREENET_MTU" by (auto simp: rec_valid_def)
    moreover from this have "min (length (tr_buf rec)) (unat (tr_len rec)) = unat (tr_len rec)" using rec(2) by simp
    ultimately show "unat (tr_len rec) \<le> TREENET_MTU \<and>
        (\<exists>f. tn_frame_decode (Some (take (unat (tr_len rec)) (tr_buf rec))) (unat (tr_len rec)) = Some f \<and> fr_prev f = tr_sender rec)"
      by (auto simp: wire_ok_def split: option.splits)
  qed
qed

section \<open>The collision rule\<close>

text \<open>The receptions of the first pass, in order: record, node, RSSI and SNR.\<close>

fun receptions :: "'d fp \<Rightarrow> ('d, 'u) sim_t \<Rightarrow> (nat \<times> nat) list \<Rightarrow> (nat \<times> nat \<times> i16 \<times> i8) list" where
  "receptions fp s [] = []"
| "receptions fp s ((r, j) # ps) =
     (case fst (hears fp s r j) of None \<Rightarrow> [] | Some (rssi, snr) \<Rightarrow> [(r, j, rssi, snr)]) @ receptions fp (deliver_hear fp r s j) ps"

definition heard_by :: "nat \<Rightarrow> (nat \<times> nat \<times> i16 \<times> i8) list \<Rightarrow> (nat \<times> i16 \<times> i8) list" where
  "heard_by j hs = map (\<lambda>(r, _, q). (r, q)) (filter (\<lambda>(_, i, _). i = j) hs)"

lemma hears_scratch:
  "sm_pending_rx (snd (hears fp s r j)) = sm_pending_rx s" "sm_first_rec (snd (hears fp s r j)) = sm_first_rec s"
  "sm_first_rssi (snd (hears fp s r j)) = sm_first_rssi s" "sm_first_snr (snd (hears fp s r j)) = sm_first_snr s"
  by (simp_all add: hears_def sim_link_def sim_rnd_unit_def sim_rnd_raw_def Let_def case_prod_unfold split: option.split)

text \<open>The scratch entry of node \<open>j\<close> as a function of what it heard.\<close>

definition scratch_of :: "('d, 'u) sim_t \<Rightarrow> nat \<Rightarrow> nat \<times> nat option \<times> i16 \<times> i8" where
  "scratch_of s j = (sm_pending_rx s ! j, sm_first_rec s ! j, sm_first_rssi s ! j, sm_first_snr s ! j)"

fun note_scratch :: "nat \<times> nat option \<times> i16 \<times> i8 \<Rightarrow> nat \<times> i16 \<times> i8 \<Rightarrow> nat \<times> nat option \<times> i16 \<times> i8" where
  "note_scratch (n, q) (r, rssi, snr) = (Suc n, if n = 0 then (Some r, rssi, snr) else q)"

lemma heard_by_append: "heard_by j (xs @ ys) = heard_by j xs @ heard_by j ys"
  by (simp add: heard_by_def)

lemma deliver_hear_scratch:
  assumes "sim_ok s" and "j < SIM_MAX_NODES"
  shows "scratch_of (deliver_hear fp r s i) j = foldl note_scratch (scratch_of s j)
    (heard_by j (case fst (hears fp s r i) of None \<Rightarrow> [] | Some (rssi, snr) \<Rightarrow> [(r, i, rssi, snr)]))"
proof (cases "fst (hears fp s r i)")
  case None
  then show ?thesis by (simp add: deliver_hear_eq note_heard_def scratch_of_def hears_scratch heard_by_def)
next
  case (Some h)
  obtain rssi snr where h: "h = (rssi, snr)" by fastforce
  have len: "j < length (sm_pending_rx s)" "j < length (sm_first_rec s)" "j < length (sm_first_rssi s)" "j < length (sm_first_snr s)"
    using assms by (simp_all add: sim_ok_def)
  then show ?thesis unfolding deliver_hear_eq Some h
    by (simp add: note_heard_def scratch_of_def hears_scratch heard_by_def Let_def nth_update_in)
qed

abbreviation hear_pair :: "'d fp \<Rightarrow> ('d, 'u) sim_t \<Rightarrow> nat \<times> nat \<Rightarrow> ('d, 'u) sim_t" where
  "hear_pair fp s p \<equiv> deliver_hear fp (fst p) s (snd p)"

lemma hear_all_scratch:
  "sim_ok s \<Longrightarrow> j < SIM_MAX_NODES \<Longrightarrow> scratch_of (foldl (hear_pair fp) s ps) j = foldl note_scratch (scratch_of s j) (heard_by j (receptions fp s ps))"
proof (induction ps arbitrary: s)
  case (Cons p ps)
  obtain r i where p: "p = (r, i)" by fastforce
  have "sim_ok (deliver_hear fp r s i)" using radio_stepD(8) [OF deliver_hear_radio Cons.prems(1)] .
  then show ?case using Cons.IH Cons.prems deliver_hear_scratch [OF Cons.prems, of fp r i] by (simp add: p heard_by_append)
qed (simp add: heard_by_def)

lemma note_scratch_all: "foldl note_scratch (0, None, q) hs = (length hs, case hs of [] \<Rightarrow> (None, q) | (r, q') # _ \<Rightarrow> (Some r, q'))"
proof (cases hs)
  case (Cons h hs')
  have "foldl note_scratch (Suc n, q) hs' = (Suc (n + length hs'), q)" for n q by (induction hs' arbitrary: n) auto
  from this [of 0] Cons show ?thesis by (cases h) auto
qed simp

lemma pass1_pairs:
  "deliver_pass1 fp s = foldl (hear_pair fp) (foldl deliver_clear s [0..<sm_count s]) (List.product [0..<sm_channel_count s] [0..<sm_count s])"
proof -
  have inner: "foldl (hear_pair fp) s (map (Pair r) js) = foldl (deliver_hear fp r) s js" for s :: "('a, 'b) sim_t" and r js
    by (induction js arbitrary: s) simp_all
  have same: "sm_count (foldl (deliver_hear fp r) s js) = sm_count s" for s :: "('a, 'b) sim_t" and r js
    using radio_stepD(1) [OF foldl_radio [OF deliver_hear_radio]] .
  have "foldl (\<lambda>s r. foldl (deliver_hear fp r) s [0..<sm_count s]) s rs = foldl (hear_pair fp) s (List.product rs [0..<sm_count s])" for s :: "('a, 'b) sim_t" and rs
    by (induction rs arbitrary: s) (simp_all add: inner same)
  moreover have "sm_count (foldl deliver_clear s [0..<sm_count s]) = sm_count s"
    by (rule radio_stepD(1) [OF foldl_radio]) (simp add: deliver_clear_def radio_step_def radio_view_def)
  ultimately show ?thesis by (simp add: deliver_pass1_def)
qed

text \<open>All receptions of one call of \<open>sim_deliver\<close>.\<close>

definition all_receptions :: "'d fp \<Rightarrow> ('d, 'u) sim_t \<Rightarrow> (nat \<times> nat \<times> i16 \<times> i8) list" where
  "all_receptions fp s = receptions fp (foldl deliver_clear s [0..<sm_count s]) (List.product [0..<sm_channel_count s] [0..<sm_count s])"

lemma pass1_scratch:
  assumes "sim_ok s" and "j < sm_count s"
  shows "\<exists>q. scratch_of (deliver_pass1 fp s) j = (length (heard_by j (all_receptions fp s)),
     case heard_by j (all_receptions fp s) of [] \<Rightarrow> (None, q) | (r, q') # _ \<Rightarrow> (Some r, q'))"
proof -
  let ?c = "foldl deliver_clear s [0..<sm_count s]"
  have "radio_step s ?c" by (rule foldl_radio) (simp add: deliver_clear_def radio_step_def radio_view_def)
  then have ok: "sim_ok ?c" using assms(1) radio_stepD(8) by blast
  have j: "j < SIM_MAX_NODES" using assms by (simp add: sim_ok_def)
  have "scratch_of ?c j = (0, None, sm_first_rssi ?c ! j, sm_first_snr ?c ! j)"
    using foldl_clear [of s SIM_MAX_NODES "sm_count s"] assms by (simp add: scratch_of_def sim_ok_def)
  then show ?thesis
    unfolding pass1_pairs hear_all_scratch [OF ok j] all_receptions_def by (auto simp: note_scratch_all)
qed

text \<open>What the second pass does to the instance of node \<open>j\<close> on a clean channel.\<close>

definition rx_once :: "('d, 'u) sim_t \<Rightarrow> nat \<Rightarrow> ('d, 'u) sim_t treenet \<Rightarrow> ('d, 'u) sim_t treenet" where
  "rx_once s j t =
     (case (sm_pending_rx s ! j = 1, sm_first_rec s ! j) of
        (True, Some r) \<Rightarrow> snd (treenet_rx_node t (Some (tr_buf (sm_channel s ! r))) (unat (tr_len (sm_channel s ! r)))
                              (sm_first_rssi s ! j) (sm_first_snr s ! j))
      | _ \<Rightarrow> t)"

lemma deliver_to_clean:
  assumes "\<not> fp_less fp (fp_lit fp 0 0) (sm_bit_error_rate (ss_sim y))" and "sn_net (sm_nodes (ss_sim y) ! i) = Some i"
  shows "deliver_to fp y i = y\<lparr>ss_nets := (ss_nets y)[i := rx_once (ss_sim y) i (ss_nets y ! i)]\<rparr>"
  using assms by (auto simp: deliver_to_def rx_once_def Let_def split: option.split)

lemma deliver_all_clean:
  assumes "\<not> fp_less fp (fp_lit fp 0 0) (sm_bit_error_rate (ss_sim y))" and "\<And>i. i < n \<Longrightarrow> sn_net (sm_nodes (ss_sim y) ! i) = Some i" and "n \<le> length (ss_nets y)"
  shows "ss_sim (foldl (deliver_to fp) y [0..<n]) = ss_sim y \<and> length (ss_nets (foldl (deliver_to fp) y [0..<n])) = length (ss_nets y) \<and>
    (\<forall>j<length (ss_nets y). ss_nets (foldl (deliver_to fp) y [0..<n]) ! j = (if j < n then rx_once (ss_sim y) j (ss_nets y ! j) else ss_nets y ! j))"
  using assms(2,3)
proof (induction n)
  case (Suc n)
  let ?z = "foldl (deliver_to fp) y [0..<n]"
  have z: "ss_sim ?z = ss_sim y" "length (ss_nets ?z) = length (ss_nets y)"
      "\<And>j. j < length (ss_nets y) \<Longrightarrow> ss_nets ?z ! j = (if j < n then rx_once (ss_sim y) j (ss_nets y ! j) else ss_nets y ! j)"
    using Suc.IH Suc.prems by simp_all
  have "deliver_to fp ?z n = ?z\<lparr>ss_nets := (ss_nets ?z)[n := rx_once (ss_sim y) n (ss_nets ?z ! n)]\<rparr>"
    using deliver_to_clean [of fp ?z n] assms(1) Suc.prems(1) [of n] z(1) by simp
  then show ?case using z Suc.prems(2) by (auto simp: nth_update_in)
qed simp

text \<open>
  Property C39: the collision rule. When the channel is resolved without error injection, a node that heard exactly one of the transmissions of the step
  receives that frame, unchanged and with the RSSI and SNR of that link; a node that heard none, or more than one at the same time, receives
  nothing: its instance is as before.
\<close>

theorem collision_rule:
  assumes "sys_inv y" and "\<not> fp_less fp (fp_lit fp 0 0) (sm_bit_error_rate (ss_sim y))" and "j < sm_count (ss_sim y)"
  shows "ss_nets (sim_deliver fp y) ! j =
    (case heard_by j (all_receptions fp (ss_sim y)) of
       [(r, rssi, snr)] \<Rightarrow> snd (treenet_rx_node (ss_nets y ! j) (Some (tr_buf (sm_channel (ss_sim y) ! r)))
                             (unat (tr_len (sm_channel (ss_sim y) ! r))) rssi snr)
     | _ \<Rightarrow> ss_nets y ! j)"
proof -
  define s where "s = deliver_pass1 fp (ss_sim y)"
  note r = radio_stepD [OF pass1_radio [of "ss_sim y" fp], folded s_def] and inv = sys_invD [OF assms(1)]
  have "ss_nets (sim_deliver fp y) ! j = rx_once s j (ss_nets y ! j)"
    using deliver_all_clean [of fp "y\<lparr>ss_sim := s\<rparr>" "sm_count (ss_sim y)"] assms(2,3) inv(2,3) r
    by (simp add: sim_deliver_def Let_def flip: s_def)
  moreover obtain q where q: "scratch_of s j = (length (heard_by j (all_receptions fp (ss_sim y))),
     case heard_by j (all_receptions fp (ss_sim y)) of [] \<Rightarrow> (None, q) | (r, q') # _ \<Rightarrow> (Some r, q'))"
    using pass1_scratch [OF inv(1) assms(3), of fp] unfolding s_def by blast
  ultimately show ?thesis
    using r(3) by (auto simp: rx_once_def scratch_of_def split: list.splits)
qed

section \<open>A concrete network\<close>

text \<open>
  Arithmetic in which every comparison fails, as it does when every value is a NaN: each active node hears each transmission. Two
  nodes in this world.
\<close>

definition fp_nan :: "unit fp" where
  "fp_nan = \<lparr>fp_add = \<lambda>_ _. (), fp_sub = \<lambda>_ _. (), fp_mul = \<lambda>_ _. (), fp_div = \<lambda>_ _. (), fp_sqrt = \<lambda>_. (), fp_log10 = \<lambda>_. (), fp_pow = \<lambda>_ _. (),
     fp_less = \<lambda>_ _. False, fp_lit = \<lambda>_ _. (), fp_of_u32 = \<lambda>_. (), fp_to_i16 = \<lambda>_. - 80, fp_to_i8 = \<lambda>_. 5\<rparr>"

definition sim_empty :: "(unit, unit) sim_sys" where
  "sim_empty = the (sim_create fp_nan True 7 () () () ())"

definition sim_one :: "(unit, unit) sim_sys" where
  "sim_one = snd (sim_add_node_to fp_nan 0 (Some 0) sim_empty 1 TREENET_ROLE_MASTER () () True)"

definition sim_two :: "(unit, unit) sim_sys" where
  "sim_two = snd (sim_add_node_to fp_nan 0 (Some 0) sim_one 2 TREENET_ROLE_NODE () () True)"

lemma sim_empty: "sim_create fp_nan True 7 () () () () = Some sim_empty"
  by (simp add: sim_empty_def sim_create_def)

lemma sim_cfg_args_ok:
  assumes "addr \<noteq> TREENET_ADDR_INVALID" and "addr \<noteq> TREENET_ADDR_BROADCAST" and "\<And>k. role \<noteq> TREENET_ROLE_OTHER k"
  shows "init_args_ok sz ctx sz (Some (sim_cfg fp n addr role rel s)) (Some sim_port) \<longleftrightarrow> (\<exists>a. ctx = Some a \<and> a AND 7 = 0)"
  using assms by (auto simp: init_args_ok_def sim_cfg_def sim_port_def split: option.splits treenet_role_t.splits)

lemma sim_add_count:
  assumes "sys_idle y" and "sm_count (ss_sim y) < SIM_MAX_NODES" and "addr \<noteq> TREENET_ADDR_INVALID" and "addr \<noteq> TREENET_ADDR_BROADCAST"
    and "\<And>k. role \<noteq> TREENET_ROLE_OTHER k"
  shows "sm_count (ss_sim (snd (sim_add_node_to fp sz ctx y addr role px py rel))) =
    (if \<exists>a. ctx = Some a \<and> a AND 7 = 0 then Suc (sm_count (ss_sim y)) else sm_count (ss_sim y))"
  using assms(2-4) by (auto simp: sim_add_node_to_def treenet_init_def Let_def sim_cfg_args_ok [OF assms(3-5)] split: option.split)

lemma sim_add_ok:
  assumes "sys_idle y" and "sm_count (ss_sim y) < SIM_MAX_NODES" and "addr \<noteq> TREENET_ADDR_INVALID" and "addr \<noteq> TREENET_ADDR_BROADCAST"
    and "role = TREENET_ROLE_MASTER \<or> role = TREENET_ROLE_NODE"
  shows "sm_count (ss_sim (snd (sim_add_node_to fp 0 (Some 0) y addr role px py rel))) = Suc (sm_count (ss_sim y))"
  using sim_add_count [OF assms(1-4), of role fp 0 "Some 0" px py rel] assms(5) by auto

lemma sim_calls_two: "(sim_call fp_nan)\<^sup>*\<^sup>* sim_empty sim_two" "sm_count (ss_sim sim_two) = 2" "sys_idle sim_two"
proof -
  have "sim_call fp_nan y (snd (sim_add_node_to fp_nan 0 (Some 0) y addr role () () True))" for addr role and y :: "(unit, unit) sim_sys"
    by (rule call_add [of fp_nan 0 "Some 0" y addr role "()" "()" True]) (simp add: sim_add_node_def map_prod_def case_prod_unfold)
  then have c: "sim_call fp_nan sim_empty sim_one" "sim_call fp_nan sim_one sim_two" unfolding sim_one_def sim_two_def by blast+
  have e: "sys_idle sim_empty" "sm_count (ss_sim sim_empty) = 0" using sim_create_idle [OF sim_empty] by (simp_all add: sim_empty_def sim_create_def)
  note one = sim_call_idle [OF c(1) e(1)]
  have n1: "sm_count (ss_sim sim_one) = 1" using sim_add_ok [OF e(1), of 1 TREENET_ROLE_MASTER fp_nan "()" "()" True] e(2) by (simp add: sim_one_def config)
  show "sm_count (ss_sim sim_two) = 2"
    using sim_add_ok [OF one, of 2 TREENET_ROLE_NODE fp_nan "()" "()" True] n1 by (simp add: sim_two_def config)
  show "sys_idle sim_two" by (rule sim_call_idle [OF c(2) one])
  show "(sim_call fp_nan)\<^sup>*\<^sup>* sim_empty sim_two" using c by (meson converse_rtranclp_into_rtranclp r_into_rtranclp)
qed

theorem simulated_network_invariant_witness:
  "sim_node_count (sim_run fp_nan (Some sim_two) 25) = 2 \<and> sim_now (sim_run fp_nan (Some sim_two) 25) = sim_now (Some sim_two) + 30 \<and>
   node_inv (\<lambda>_. True) (ss_nets sim_two ! 0) \<and> node_inv (\<lambda>_. True) (ss_nets sim_two ! 1)"
  using simulated_network_invariant [OF sim_empty sim_calls_two(1), of 25] sim_calls_two(2) by (simp add: sim_node_count_def)

theorem channel_holds_sender_frames_witness:
  "list_all (\<lambda>rec. unat (tr_len rec) \<le> TREENET_MTU \<and>
      (\<exists>f. tn_frame_decode (Some (take (unat (tr_len rec)) (tr_buf rec))) (unat (tr_len rec)) = Some f \<and> fr_prev f = tr_sender rec))
    (take (sm_channel_count (ss_sim (foldl sim_poll sim_two [0, 1]))) (sm_channel (ss_sim (foldl sim_poll sim_two [0, 1]))))"
proof -
  have "[0..<2] = [0, 1 :: nat]" by (simp add: upt_rec)
  then show ?thesis using channel_holds_sender_frames [OF sim_empty sim_calls_two(1), of 2, OF _ refl] sim_calls_two(2) by simp
qed

lemma sim_add_skeleton_at:
  assumes "sys_idle y" and "sm_count (ss_sim y) < SIM_MAX_NODES" and "addr \<noteq> TREENET_ADDR_INVALID" and "addr \<noteq> TREENET_ADDR_BROADCAST"
    and "\<And>k. role \<noteq> TREENET_ROLE_OTHER k" and "ad AND 7 = 0"
  shows "snd (skeleton (ss_sim (snd (sim_add_node_to fp sz (Some ad) y addr role px py rel)))) =
    (snd (skeleton (ss_sim y)))[sm_count (ss_sim y) := (addr, Some (sm_count (ss_sim y)), True)]"
proof -
  define c where "c = sm_count (ss_sim y)"
  define s where "s = upd_node c (\<lambda>n. (sim_node_zero fp)\<lparr>sn_addr := addr, sn_role := role, sn_x := px, sn_y := py, sn_active := True\<rparr>) (ss_sim y)"
  have inv: "sys_inv y" "sm_current (ss_sim y) = None" using assms(1) by (simp_all add: sys_idle_def)
  have len: "length (ss_nets y) = c" using sys_invD(2) [OF inv(1)] by (simp add: c_def)
  have s: "sim_ok s" "sm_current s = None" using inv sys_invD(1) [OF inv(1)] by (simp_all add: s_def sim_ok_def)
  let ?cfg = "sim_cfg fp c addr role rel s"
  have args: "init_args_ok sz (Some ad) sz (Some ?cfg) (Some sim_port)" using sim_cfg_args_ok [OF assms(3-5)] assms(6) by blast
  have "sim_cfg_for c ?cfg" by (simp add: sim_cfg_for_def sim_cfg_def)
  then have "node_inv (sim_env None (skeleton s) (sm_now_ms s)) (init_node ?cfg sim_port s)"
    using s by (intro init_node_inv [OF args] sim_port_ok sim_cfg_ok) (simp_all add: sim_env_def)
  from node_invD(5) [OF this] have sk: "skeleton (nd_env (init_node ?cfg sim_port s)) = skeleton s" by (simp add: sim_env_def)
  have c: "c < length (sm_nodes s)" "c < length (sm_nodes (ss_sim y))" using s(1) assms(2) by (simp_all add: sim_ok_def c_def s_def)
  have "snd (skeleton (ss_sim (snd (sim_add_node_to fp sz (Some ad) y addr role px py rel)))) = (snd (skeleton s))[c := (addr, Some c, True)]"
    unfolding sim_add_node_to_def Let_def c_def [symmetric] s_def [symmetric] len treenet_init_def
    using assms(2-4) args sk c skeleton_eqD(2) [OF sk] skeleton_eqD(3) [OF sk, of c] by (simp add: c_def [symmetric] skeleton_def map_update) (simp add: s_def)
  then show ?thesis using c by (simp add: s_def skeleton_def map_update c_def)
qed

lemma sim_add_skeleton:
  assumes "sys_idle y" and "sm_count (ss_sim y) < SIM_MAX_NODES" and "addr \<noteq> TREENET_ADDR_INVALID" and "addr \<noteq> TREENET_ADDR_BROADCAST"
    and "role = TREENET_ROLE_MASTER \<or> role = TREENET_ROLE_NODE"
  shows "snd (skeleton (ss_sim (snd (sim_add_node_to fp 0 (Some 0) y addr role px py rel)))) =
    (snd (skeleton (ss_sim y)))[sm_count (ss_sim y) := (addr, Some (sm_count (ss_sim y)), True)]"
  using sim_add_skeleton_at [OF assms(1-4), of role 0 fp 0 px py rel] assms(5) by auto

text \<open>The two nodes with one transmission of node 1 on the air.\<close>

definition rec_air :: sim_txrec_t where
  "rec_air = \<lparr>tr_sender = 1, tr_len = 24, tr_buf = frame_wire ((frame_via 2)\<lparr>fr_prev := 1\<rparr>) @ replicate (TREENET_MTU - 24) 0\<rparr>"

definition sim_air :: "(unit, unit) sim_sys" where
  "sim_air = upd_sim (\<lambda>s. s\<lparr>sm_channel := (sm_channel s)[0 := rec_air], sm_channel_count := 1\<rparr>) sim_two"

lemma rec_air_ok: "length (tr_buf rec_air) = TREENET_MTU" "rec_valid rec_air"
proof -
  let ?f = "(frame_via 2)\<lparr>fr_prev := 1\<rparr>"
  have f: "payload_ok ?f" "frame_fields_ok ?f" "fr_payload_len ?f = 2" "fr_net_id ?f = 1"
    using frame_ok_stamp [OF frame_via_ok [of 2], of 1] by (simp_all add: frame_ok_def) (simp_all add: frame_via_def)
  have len: "length (frame_wire ?f) = 24" using length_frame_body [OF f(1)] f(3) by (simp add: frame_wire_def)
  then show "length (tr_buf rec_air) = TREENET_MTU" by (simp add: rec_air_def config)
  obtain g where "tn_frame_decode (Some (frame_wire ?f)) 24 = Some g" "fr_prev g = 1" "fr_net_id g = 1"
    using tn_frame_decode_wire [OF f(1,2), of "[]"] f(3) by (auto simp: frame_via_def config)
  then show "rec_valid rec_air" using len by (auto simp: rec_valid_def rec_air_def wire_ok_def config)
qed

lemma sim_air_ok: "sys_inv sim_air" "sm_count (ss_sim sim_air) = 2" "sm_channel_count (ss_sim sim_air) = 1" "sm_channel (ss_sim sim_air) ! 0 = rec_air"
proof -
  have two: "sys_inv sim_two" using sim_calls_two(3) by (simp add: sys_idle_def)
  note ok = sys_invD(1) [OF two]
  have "0 < length (sm_channel (ss_sim sim_two))" using ok by (simp add: sim_ok_def config)
  then show ch: "sm_channel (ss_sim sim_air) ! 0 = rec_air" by (simp add: sim_air_def)
  have "take 1 ((sm_channel (ss_sim sim_two))[0 := rec_air]) = [rec_air]"
    using \<open>0 < length (sm_channel (ss_sim sim_two))\<close> by (cases "sm_channel (ss_sim sim_two)") simp_all
  then have "sim_ok (ss_sim sim_air)"
    using ok rec_air_ok by (simp add: sim_ok_def sim_air_def list_all_update) (simp add: config)
  then show "sys_inv sim_air" using sys_inv_sim [OF two] by (simp add: sim_air_def)
  show "sm_count (ss_sim sim_air) = 2" "sm_channel_count (ss_sim sim_air) = 1" using sim_calls_two(2) by (simp_all add: sim_air_def)
qed

lemma sim_air_nodes:
  "sn_addr (sm_nodes (ss_sim sim_air) ! 0) = 1" "sn_active (sm_nodes (ss_sim sim_air) ! 0)"
  "sn_addr (sm_nodes (ss_sim sim_air) ! 1) = 2" "sn_active (sm_nodes (ss_sim sim_air) ! 1)"
proof -
  have e: "sys_idle sim_empty" "sm_count (ss_sim sim_empty) = 0" "length (snd (skeleton (ss_sim sim_empty))) = 32"
    using sim_create_idle [OF sim_empty] by (simp_all add: sim_empty_def sim_create_def skeleton_def config)
  have one: "sys_idle sim_one" "sm_count (ss_sim sim_one) = 1"
    using sim_add_node_inv [OF e(1)] sim_add_ok [OF e(1), of 1 TREENET_ROLE_MASTER fp_nan "()" "()" True] e(2) by (simp_all add: sim_one_def config)
  have "snd (skeleton (ss_sim sim_two)) = (snd (skeleton (ss_sim sim_empty)))[0 := (1, Some 0, True), 1 := (2, Some 1, True)]"
    using sim_add_skeleton [OF e(1), of 1 TREENET_ROLE_MASTER fp_nan "()" "()" True] sim_add_skeleton [OF one(1), of 2 TREENET_ROLE_NODE fp_nan "()" "()" True] e(2) one(2)
    by (simp add: sim_one_def [symmetric] sim_two_def [symmetric] config)
  moreover have "length (sm_nodes (ss_sim sim_two)) = 32" using sys_invD(7) [of sim_two] sim_calls_two(3) by (simp add: sys_idle_def config)
  ultimately have "map (\<lambda>n. (sn_addr n, sn_net n, sn_active n)) (sm_nodes (ss_sim sim_two)) ! 0 = (1, Some 0, True)"
      "map (\<lambda>n. (sn_addr n, sn_net n, sn_active n)) (sm_nodes (ss_sim sim_two)) ! 1 = (2, Some 1, True)" "length (sm_nodes (ss_sim sim_two)) = 32"
    using e(3) by (simp_all add: skeleton_def)
  then show "sn_addr (sm_nodes (ss_sim sim_air) ! 0) = 1" "sn_active (sm_nodes (ss_sim sim_air) ! 0)"
      "sn_addr (sm_nodes (ss_sim sim_air) ! 1) = 2" "sn_active (sm_nodes (ss_sim sim_air) ! 1)"
    by (simp_all add: sim_air_def)
qed

lemma sim_air_receptions: "all_receptions fp_nan (ss_sim sim_air) = [(0, 1, - 80, 5)]"
proof -
  define c where "c = foldl deliver_clear (ss_sim sim_air) [0..<2]"
  have "radio_step (ss_sim sim_air) c"
    unfolding c_def by (rule foldl_radio) (simp add: deliver_clear_def radio_step_def radio_view_def)
  note c = radio_stepD [OF this]
  have f: "find_index (\<lambda>k. sn_addr k = 1) (take 2 (sm_nodes c)) = Some 0"
    using sim_air_nodes sys_invD(7) [OF sim_air_ok(1)] by (simp add: c find_index_Some_iff config)
  have "hears fp_nan c 0 0 = (None, c)" "deliver_hear fp_nan 0 c 0 = c"
    using sim_air_nodes sim_air_ok by (simp_all add: hears_def deliver_hear_def c rec_air_def Let_def)
  moreover have "fst (hears fp_nan c 0 1) = Some (- 80, 5)"
    using sim_air_nodes sim_air_ok f by (simp add: hears_def c rec_air_def sim_link_def fp_nan_def Let_def case_prod_unfold)
  ultimately show ?thesis
    unfolding all_receptions_def sim_air_ok(2,3) c_def [symmetric] by (simp add: upt_rec)
qed

theorem collision_rule_witness:
  "ss_nets (sim_deliver fp_nan sim_air) ! 1 = snd (treenet_rx_node (ss_nets sim_air ! 1) (Some (tr_buf rec_air)) 24 (- 80) 5) \<and>
   ss_nets (sim_deliver fp_nan sim_air) ! 0 = ss_nets sim_air ! 0"
proof -
  have nan: "\<not> fp_less fp_nan () ()" by (simp add: fp_nan_def)
  have "tr_len rec_air = 24" by (simp add: rec_air_def)
  then show ?thesis
    using collision_rule [OF sim_air_ok(1), of fp_nan 1] collision_rule [OF sim_air_ok(1), of fp_nan 0] sim_air_ok(2,4)
    by (simp add: sim_air_receptions heard_by_def nan)
qed

end
