(* ===== verification/Tn_Example.thy ===== *)
theory Tn_Example
  imports Tn_Network
begin

text \<open>
  The desktop example \<open>examples/desktop_mesh/main.c\<close>: it builds a chain of seven nodes in the simulator, lets the tree form, sends
  unicast and broadcast datagrams and prints what happens. Standard output is the host state of the simulator, a string; the
  conversions of \<open>printf\<close> it uses are modelled. \<open>None\<close> as the result of \<open>main\<close> stands for the dereference of
  a null pointer: the program does not check the pointers it gets from \<open>sim_find\<close>.
\<close>

section \<open>Output\<close>

text \<open>\<open>%u\<close>, \<open>%d\<close>, and a field of minimal width \<open>w\<close> aligned to the left.\<close>

fun dec :: "nat \<Rightarrow> string" where
  "dec n = (if n < 10 then [char_of (48 + n)] else dec (n div 10) @ [char_of (48 + n mod 10)])"

declare dec.simps [simp del]

definition dec_int :: "int \<Rightarrow> string" where
  "dec_int k = (if k < 0 then CHR ''-'' # dec (nat (- k)) else dec (nat k))"

definition pad :: "nat \<Rightarrow> string \<Rightarrow> string" where
  "pad w s = s @ replicate (w - length s) CHR '' ''"

abbreviation newline :: string where "newline \<equiv> [CHR 0x0A]"

text \<open>\<open>%.*s\<close> prints at most the given number of bytes and stops at a null byte.\<close>

definition chars :: "u8 list \<Rightarrow> string" where
  "chars bs = map (\<lambda>b. char_of (unat b)) (takeWhile (\<lambda>b. b \<noteq> 0) bs)"

definition bytes :: "string \<Rightarrow> u8 list" where
  "bytes s = map (\<lambda>c. of_nat (of_char c)) s"

definition role_name :: "treenet_role_t \<Rightarrow> string" where
  "role_name r =
     (case r of
        TREENET_ROLE_MASTER \<Rightarrow> ''master''
      | TREENET_ROLE_REPEATER \<Rightarrow> ''repeater''
      | TREENET_ROLE_LEAF \<Rightarrow> ''leaf''
      | _ \<Rightarrow> ''node'')"

definition on_recv :: "'d sim_node_t \<Rightarrow> treenet_addr_t \<Rightarrow> u8 list \<Rightarrow> i16 \<Rightarrow> i8 \<Rightarrow> u8 \<Rightarrow> string \<Rightarrow> string" where
  "on_recv node src data rssi snr hops out =
     out @ ''  node '' @ dec (unat (sn_addr node)) @ '' <= from '' @ dec (unat src) @ '' ('' @ dec (length data) @ '' bytes, rssi '' @
     dec_int (sint rssi) @ '', snr '' @ dec_int (sint snr) @ '', '' @ dec (unat hops) @ '' hops): '' @ chars data @ newline"

fun event_name :: "treenet_event_t \<Rightarrow> string" where
  "event_name TREENET_EV_NETWORK_READY = ''NETWORK_READY''"
| "event_name TREENET_EV_JOINED = ''JOINED''"
| "event_name TREENET_EV_PARENT_CHANGED = ''PARENT_CHANGED''"
| "event_name TREENET_EV_NEIGHBOR_ADDED = ''NEIGHBOR_ADDED''"
| "event_name TREENET_EV_NEIGHBOR_REMOVED = ''NEIGHBOR_REMOVED''"
| "event_name TREENET_EV_ROUTE_LOST = ''ROUTE_LOST''"
| "event_name TREENET_EV_TX_DONE = ''TX_DONE''"
| "event_name TREENET_EV_TX_FAILED = ''TX_FAILED''"
| "event_name TREENET_EV_DISCONNECTED = ''DISCONNECTED''"

definition on_event :: "'d sim_node_t \<Rightarrow> treenet_event_t \<Rightarrow> string \<Rightarrow> string" where
  "on_event node ev out = out @ ''  node '' @ dec (unat (sn_addr node)) @ '' event: '' @ event_name ev @ newline"

section \<open>The program\<close>

text \<open>\<open>printf\<close>; without a simulator nothing more is ever printed before the program fails.\<close>

definition say :: "string \<Rightarrow> ('d, string) sim_sys option \<Rightarrow> ('d, string) sim_sys option" where
  "say msg yp = map_option (upd_sim (\<lambda>s. s\<lparr>sm_user := sm_user s @ msg\<rparr>)) yp"

text \<open>The nodes: address, role and position on the line.\<close>

definition mesh_nodes :: "(treenet_addr_t \<times> treenet_role_t \<times> int) list" where
  "mesh_nodes =
     [(1, TREENET_ROLE_MASTER, 0), (2, TREENET_ROLE_NODE, 200), (3, TREENET_ROLE_NODE, 400), (4, TREENET_ROLE_NODE, 600),
      (5, TREENET_ROLE_NODE, 800), (6, TREENET_ROLE_NODE, 1000), (7, TREENET_ROLE_LEAF, 1200)]"

fun add_nodes :: "'d fp \<Rightarrow> nat \<Rightarrow> (nat option \<times> treenet_addr_t \<times> treenet_role_t \<times> int) list \<Rightarrow> ('d, string) sim_sys option \<Rightarrow>
    ('d, string) sim_sys option" where
  "add_nodes fp sz [] yp = yp"
| "add_nodes fp sz ((ctx, addr, role, x) # ns) yp =
     add_nodes fp sz ns (snd (sim_add_node fp sz ctx yp addr role (fp_lit fp x 0) (fp_lit fp 0 0) True))"

definition build_mesh :: "'d fp \<Rightarrow> nat \<Rightarrow> bool \<Rightarrow> nat option list \<Rightarrow> ('d, string) sim_sys option" where
  "build_mesh fp sz calloc_ok ctxs =
     (let yp = sim_create fp calloc_ok 1234 (fp_lit fp 20 0) (fp_lit fp (- 137) 0) (fp_lit fp (- 120) 0)
                 (''treenity '' @ treenet_version @ '' desktop example'' @ newline @ newline);
          yp = sim_set_path_loss yp (fp_lit fp 40 0) (fp_lit fp 3 0);
          yp = sim_set_range fp yp (fp_lit fp 250 0);
          yp = sim_set_callbacks yp (Some on_recv) (Some on_event)
      in add_nodes fp sz (zip ctxs mesh_nodes) yp)"

text \<open>The instance of node \<open>i\<close>, and a call of the library on it.\<close>

definition node_net :: "('d, 'u) sim_sys \<Rightarrow> nat \<Rightarrow> ('d, 'u) sim_t treenet option" where
  "node_net y i = map_option (\<lambda>k. (ss_nets y ! k)\<lparr>nd_env := ss_sim y\<rparr>) (sn_net (sm_nodes (ss_sim y) ! i))"

definition call_net :: "(('d, 'u) sim_t treenet option \<Rightarrow> 'r \<times> ('d, 'u) sim_t treenet option) \<Rightarrow> ('d, 'u) sim_sys \<Rightarrow> nat \<Rightarrow> 'r \<times> ('d, 'u) sim_sys" where
  "call_net g y i =
     (case (sn_net (sm_nodes (ss_sim y) ! i), g (node_net y i)) of
        (Some k, r, Some t) \<Rightarrow> (r, \<lparr>ss_sim = nd_env t, ss_nets = (ss_nets y)[k := t]\<rparr>)
      | (_, r, _) \<Rightarrow> (r, y))"

definition topology_line :: "('d, string) sim_sys \<Rightarrow> nat \<Rightarrow> string" where
  "topology_line y i =
     (let n = sm_nodes (ss_sim y) ! i;
          t = node_net y i
      in ''  node '' @ dec (unat (sn_addr n)) @ '': role='' @ pad 8 (role_name (treenet_role t)) @ '' rank='' @ pad 5 (dec (unat (treenet_rank t))) @
         '' parent='' @ pad 3 (dec (unat (treenet_parent t))) @ '' connected='' @ (if treenet_is_connected t then ''yes'' else ''no'') @
         '' wake='' @ dec (unat (sn_last_timer_arm n)) @ ''ms'' @ newline)"

definition show_topology :: "('d, string) sim_sys option \<Rightarrow> ('d, string) sim_sys option" where
  "show_topology yp =
     (case yp of
        None \<Rightarrow> None
      | Some y \<Rightarrow> say (concat (map (topology_line y) [0..<sim_node_count yp])) yp)"

text \<open>\<open>treenet_send(sim_find(s, from)->net, to, msg, strlen(msg))\<close>, and what follows it.\<close>

definition send_from :: "'d fp \<Rightarrow> treenet_addr_t \<Rightarrow> treenet_addr_t \<Rightarrow> string \<Rightarrow> ('d, string) sim_sys \<Rightarrow> ('d, string) sim_sys option" where
  "send_from fp src dst msg y =
     (case sim_find (Some y) src of
        None \<Rightarrow> None
      | Some i \<Rightarrow>
          let (rc, y) = call_net (\<lambda>t. treenet_send t dst (Some (bytes msg)) (length msg)) y i
          in if rc = 0 then sim_run fp (Some y) 5000 else say (''  no route'' @ newline) (Some y))"

definition broadcast_from :: "'d fp \<Rightarrow> treenet_addr_t \<Rightarrow> string \<Rightarrow> ('d, string) sim_sys \<Rightarrow> ('d, string) sim_sys option" where
  "broadcast_from fp src msg y =
     (case sim_find (Some y) src of
        None \<Rightarrow> None
      | Some i \<Rightarrow> sim_run fp (Some (snd (call_net (\<lambda>t. treenet_broadcast t (Some (bytes msg)) (length msg)) y i))) 10000)"

definition stats_line :: "treenet_stats_t \<Rightarrow> string" where
  "stats_line st =
     newline @ ''node 3 statistics: tx='' @ dec (unat (st_frames_tx st)) @ '' rx='' @ dec (unat (st_frames_rx st)) @
     '' retx='' @ dec (unat (st_retransmissions st)) @ '' beacons_tx='' @ dec (unat (st_beacons_tx st)) @
     '' beacons_rx='' @ dec (unat (st_beacons_rx st)) @ '' parent_changes='' @ dec (unat (st_parent_changes st)) @
     '' airtime='' @ dec (unat (st_airtime_ms st)) @ ''ms'' @ newline"

text \<open>The exit code, everything printed, and the instances \<open>sim_destroy\<close> frees.\<close>

definition main :: "'d fp \<Rightarrow> nat \<Rightarrow> bool \<Rightarrow> nat option list \<Rightarrow> (int \<times> string \<times> nat option list) option" where
  "main fp sz calloc_ok ctxs =
     (let yp = build_mesh fp sz calloc_ok ctxs;
          yp = say (''forming the mesh...'' @ newline) yp;
          yp = sim_run fp yp 120000;
          yp = say (newline @ ''topology after convergence:'' @ newline) yp;
          yp = show_topology yp;
          yp = say (newline @ ''master sends a unicast to node 6:'' @ newline) yp;
          yp = Option.bind yp (send_from fp 1 6 ''hello from the master'');
          yp = say (newline @ ''leaf (node 7) sends a reading to the master:'' @ newline) yp;
          yp = Option.bind yp (send_from fp 7 1 ''temp=21.5'');
          yp = say (newline @ ''master sends a unicast to the leaf (node 7):'' @ newline) yp;
          yp = Option.bind yp (send_from fp 1 7 ''set-interval=60'');
          yp = say (newline @ ''node 3 broadcasts to everyone:'' @ newline) yp;
          yp = Option.bind yp (broadcast_from fp 3 ''broadcast!'')
      in Option.bind yp (\<lambda>y.
           Option.bind (sim_find (Some y) 3) (\<lambda>i.
             Option.bind (treenet_stats (node_net y i)) (\<lambda>st.
               Some (0, sm_user (ss_sim y) @ stats_line st @ newline @ ''done.'' @ newline, fst (sim_destroy (Some y)))))))"


section \<open>Numbers are printed faithfully\<close>

definition read_dec :: "string \<Rightarrow> nat" where
  "read_dec s = foldl (\<lambda>v c. 10 * v + (of_char c - 48)) 0 s"

lemma read_dec_dec: "read_dec (dec n) = n"
proof (induction n rule: dec.induct)
  case (1 n)
  have digit: "of_char (char_of (48 + k) :: char) = (48 + k :: nat)" if "k < 10" for k :: nat
    using that by (simp add: of_char_of take_bit_nat_eq_self)
  show ?case
  proof (cases "n < 10")
    case True
    then show ?thesis by (simp add: dec.simps [of n] read_dec_def digit)
  next
    case False
    then have "read_dec (dec n) = 10 * read_dec (dec (n div 10)) + n mod 10"
      by (subst dec.simps) (simp add: read_dec_def digit)
    then show ?thesis using 1 False by simp
  qed
qed

section \<open>The addresses of the simulated nodes\<close>

definition addrs :: "('d, 'u) sim_sys \<Rightarrow> treenet_addr_t list" where
  "addrs y = map sn_addr (take (sm_count (ss_sim y)) (sm_nodes (ss_sim y)))"

lemma addrs_alt: "addrs y = map fst (take (fst (skeleton (ss_sim y))) (snd (skeleton (ss_sim y))))"
  by (simp add: addrs_def skeleton_def take_map)

lemma addrs_skeleton: "skeleton (ss_sim y) = skeleton (ss_sim z) \<Longrightarrow> addrs y = addrs z"
  by (simp add: addrs_alt)

lemma length_addrs: "sys_idle y \<Longrightarrow> length (addrs y) = sm_count (ss_sim y)"
  using sys_invD(6,7) [of y] by (simp add: addrs_def sys_idle_def)

lemma sim_find_addrs:
  "sim_find (Some y) a = None \<longleftrightarrow> a \<notin> set (addrs y)"
  "sim_find (Some y) a = Some i \<Longrightarrow> i < sm_count (ss_sim y)"
  by (auto simp: sim_find_def addrs_def find_index_None_iff dest: find_index_SomeD(1))

definition aligned :: "nat option \<Rightarrow> bool" where
  "aligned ctx = (case ctx of None \<Rightarrow> False | Some a \<Rightarrow> a AND 7 = 0)"

lemma aligned_iff: "aligned ctx \<longleftrightarrow> (\<exists>a. ctx = Some a \<and> a AND 7 = 0)"
  by (simp add: aligned_def split: option.split)

lemma sim_add_addrs:
  assumes "sys_idle y" and "sm_count (ss_sim y) < SIM_MAX_NODES" and "addr \<noteq> TREENET_ADDR_INVALID" and "addr \<noteq> TREENET_ADDR_BROADCAST"
    and "\<And>k. role \<noteq> TREENET_ROLE_OTHER k"
  shows "addrs (snd (sim_add_node_to fp sz ctx y addr role px py rel)) = addrs y @ (if aligned ctx then [addr] else [])"
proof -
  let ?y' = "snd (sim_add_node_to fp sz ctx y addr role px py rel)" and ?c = "sm_count (ss_sim y)"
  have len: "?c < length (sm_nodes (ss_sim y))" using assms(1,2) sys_invD(7) [of y] by (simp add: sys_idle_def)
  show ?thesis
  proof (cases "aligned ctx")
    case True
    then obtain a where a: "ctx = Some a" "a AND 7 = 0" by (auto simp: aligned_iff)
    have "map sn_addr (sm_nodes (ss_sim ?y')) = (map sn_addr (sm_nodes (ss_sim y)))[?c := addr]"
      using arg_cong [OF sim_add_skeleton_at [OF assms a(2), of fp sz px py rel], of "map fst"] a(1) by (simp add: skeleton_def map_update comp_def)
    moreover have "sm_count (ss_sim ?y') = Suc ?c" using sim_add_count [OF assms, of fp sz ctx px py rel] True by (simp add: aligned_iff)
    ultimately have "addrs ?y' = take (Suc ?c) ((map sn_addr (sm_nodes (ss_sim y)))[?c := addr])" by (simp add: addrs_def flip: take_map)
    then show ?thesis using True len by (simp add: take_Suc_conv_app_nth addrs_def take_map)
  next
    case False
    then have "ctx = None \<or> \<not> init_args_ok sz ctx sz (Some (sim_cfg fp n addr role rel s)) (Some sim_port)" for n and s :: "('a, 'b) sim_t"
      by (auto simp: aligned_iff sim_cfg_args_ok [OF assms(3-5)])
    then have "ss_sim ?y' = upd_node ?c (\<lambda>n. (sim_node_zero fp)\<lparr>sn_addr := addr, sn_role := role, sn_x := px, sn_y := py, sn_active := True\<rparr>) (ss_sim y)"
      using assms(2-4) by (auto simp: sim_add_node_to_def treenet_init_def Let_def)
    then show ?thesis using False by (simp add: addrs_def)
  qed
qed

text \<open>The simulator exists, is idle, and has nodes with these addresses.\<close>

definition mesh_up :: "treenet_addr_t list \<Rightarrow> ('d, 'u) sim_sys option \<Rightarrow> bool" where
  "mesh_up as yp \<longleftrightarrow> (\<exists>y. yp = Some y \<and> sys_idle y \<and> addrs y = as)"

lemma mesh_up_setters:
  assumes "mesh_up as yp"
  shows "mesh_up as (say msg yp)" and "mesh_up as (sim_set_path_loss yp l e)" and "mesh_up as (sim_set_range fp yp m)"
    and "mesh_up as (sim_set_callbacks yp r v)" and "mesh_up as (sim_run fp yp ms)"
proof -
  obtain y where y: "yp = Some y" "sys_idle y" "addrs y = as" using assms by (auto simp: mesh_up_def)
  show "mesh_up as (say msg yp)" "mesh_up as (sim_set_path_loss yp l e)" "mesh_up as (sim_set_range fp yp m)" "mesh_up as (sim_set_callbacks yp r v)"
    using y by (auto simp: mesh_up_def addrs_def say_def sim_set_path_loss_def sim_set_range_def sim_set_callbacks_def intro!: sys_idle_set)
  have "addrs ((sim_step fp ^^ n) y) = as" "sys_idle ((sim_step fp ^^ n) y)" for n
    using sim_steps_inv [OF y(2), of n fp] y(3) addrs_skeleton by blast+
  then show "mesh_up as (sim_run fp yp ms)" by (simp add: y(1) mesh_up_def sim_run_def Let_def)
qed

lemma mesh_up_add:
  assumes "mesh_up as yp" and "length as < SIM_MAX_NODES" and "addr \<noteq> TREENET_ADDR_INVALID" and "addr \<noteq> TREENET_ADDR_BROADCAST"
    and "\<And>k. role \<noteq> TREENET_ROLE_OTHER k"
  shows "mesh_up (as @ (if aligned ctx then [addr] else [])) (snd (sim_add_node fp sz ctx yp addr role px py rel))"
proof -
  obtain y where y: "yp = Some y" "sys_idle y" "addrs y = as" using assms(1) by (auto simp: mesh_up_def)
  then have "sm_count (ss_sim y) < SIM_MAX_NODES" using assms(2) length_addrs [of y] by simp
  from sim_add_addrs [OF y(2) this assms(3-5)] sim_add_node_inv [OF y(2)] y(1,3) show ?thesis
    by (simp add: mesh_up_def sim_add_node_def)
qed


lemma mesh_up_add_nodes:
  assumes "mesh_up as yp" and "length as + length ns \<le> SIM_MAX_NODES"
    and "list_all (\<lambda>(ctx, addr, role, x). addr \<noteq> TREENET_ADDR_INVALID \<and> addr \<noteq> TREENET_ADDR_BROADCAST \<and> (\<forall>k. role \<noteq> TREENET_ROLE_OTHER k)) ns"
  shows "mesh_up (as @ map (fst \<circ> snd) (filter (aligned \<circ> fst) ns)) (add_nodes fp sz ns yp)"
  using assms
proof (induction fp sz ns yp arbitrary: as rule: add_nodes.induct)
  case (2 fp sz ctx addr role x ns yp)
  have "mesh_up (as @ (if aligned ctx then [addr] else [])) (snd (sim_add_node fp sz ctx yp addr role (fp_lit fp x 0) (fp_lit fp 0 0) True))"
    using 2(2-4) by (intro mesh_up_add) auto
  from 2(1) [OF this] 2(3,4) show ?case by (cases "aligned ctx") simp_all
qed simp

text \<open>The addresses whose instances could be allocated.\<close>

definition mesh_addrs :: "nat option list \<Rightarrow> treenet_addr_t list" where
  "mesh_addrs ctxs = map (fst \<circ> snd) (filter (aligned \<circ> fst) (zip ctxs mesh_nodes))"

lemma build_mesh_up:
  "build_mesh fp sz False ctxs = None"
  "length ctxs \<le> 7 \<Longrightarrow> mesh_up (mesh_addrs ctxs) (build_mesh fp sz True ctxs)"
proof -
  have none: "add_nodes fp sz ns None = None" for ns :: "(nat option \<times> treenet_addr_t \<times> treenet_role_t \<times> int) list"
    by (induction fp sz ns "None :: ('a, string) sim_sys option" rule: add_nodes.induct) (simp_all add: sim_add_node_def)
  show "build_mesh fp sz False ctxs = None"
    by (simp add: build_mesh_def sim_create_def sim_set_path_loss_def sim_set_range_def sim_set_callbacks_def Let_def none)
  assume len: "length ctxs \<le> 7"
  let ?msg = "''treenity '' @ treenet_version @ '' desktop example'' @ newline @ newline"
  let ?y = "sim_create fp True 1234 (fp_lit fp 20 0) (fp_lit fp (- 137) 0) (fp_lit fp (- 120) 0) ?msg"
  obtain y where y: "?y = Some y" by (simp add: sim_create_def)
  have "mesh_up [] ?y" using sim_create_idle [OF y] y by (auto simp: mesh_up_def addrs_def sim_create_def)
  then have up: "mesh_up [] (sim_set_callbacks (sim_set_range fp (sim_set_path_loss ?y (fp_lit fp 40 0) (fp_lit fp 3 0)) (fp_lit fp 250 0)) (Some on_recv) (Some on_event))"
    by (intro mesh_up_setters)
  have nodes: "list_all (\<lambda>(ctx, addr, role, x). addr \<noteq> TREENET_ADDR_INVALID \<and> addr \<noteq> TREENET_ADDR_BROADCAST \<and> (\<forall>k. role \<noteq> TREENET_ROLE_OTHER k)) (zip ctxs mesh_nodes)"
    by (auto simp: list_all_iff mesh_nodes_def config dest!: set_zip_rightD)
  show "mesh_up (mesh_addrs ctxs) (build_mesh fp sz True ctxs)"
    using mesh_up_add_nodes [OF up _ nodes, of fp sz] len
    by (simp add: build_mesh_def Let_def mesh_addrs_def mesh_nodes_def config)
qed

section \<open>Using the instances\<close>

lemma call_net_send:
  assumes "sys_idle y" and "i < sm_count (ss_sim y)"
  shows "snd (call_net (\<lambda>t. treenet_send t dst (Some p) len) y i) = sim_host_send y i dst p len"
    and "snd (call_net (\<lambda>t. treenet_broadcast t (Some p) len) y i) = sim_host_send y i TREENET_ADDR_BROADCAST p len"
    and "node_net y i \<noteq> None"
  using sys_invD(3) [of y i] assms
  by (simp_all add: call_net_def node_net_def sim_host_send_def treenet_send_def treenet_broadcast_def treenet_send_node_def treenet_broadcast_node_def
      sys_idle_def Let_def case_prod_unfold map_prod_def)

lemma mesh_up_sends:
  assumes "mesh_up as (Some y)"
  shows "if src \<in> set as then mesh_up as (send_from fp src dst msg y) else send_from fp src dst msg y = None"
    and "if src \<in> set as then mesh_up as (broadcast_from fp src msg y) else broadcast_from fp src msg y = None"
proof -
  have y: "sys_idle y" "addrs y = as" using assms by (simp_all add: mesh_up_def)
  have "(if src \<in> set as then mesh_up as (send_from fp src dst msg y) else send_from fp src dst msg y = None) \<and>
    (if src \<in> set as then mesh_up as (broadcast_from fp src msg y) else broadcast_from fp src msg y = None)"
  proof (cases "sim_find (Some y) src")
    case None
    then show ?thesis using sim_find_addrs(1) [of y src] y(2) by (simp add: send_from_def broadcast_from_def)
  next
    case (Some i)
    note i = sim_find_addrs(2) [OF Some]
    have up: "mesh_up as (Some (sim_host_send y i d (bytes msg) (length msg)))" for d
      using sim_host_send_inv [OF y(1) i, of "length msg" "bytes msg" d] y(2) addrs_skeleton by (simp add: mesh_up_def bytes_def) blast
    show ?thesis
      using Some sim_find_addrs(1) [of y src] y(2) up mesh_up_setters(1,5) [OF up] call_net_send(1,2) [OF y(1) i]
      by (simp add: send_from_def broadcast_from_def Let_def case_prod_unfold)
  qed
  then show "if src \<in> set as then mesh_up as (send_from fp src dst msg y) else send_from fp src dst msg y = None"
    "if src \<in> set as then mesh_up as (broadcast_from fp src msg y) else broadcast_from fp src msg y = None" by simp_all
qed


text \<open>As long as \<open>P\<close> holds the mesh is up; otherwise the program has failed.\<close>

definition up_if :: "bool \<Rightarrow> treenet_addr_t list \<Rightarrow> ('d, 'u) sim_sys option \<Rightarrow> bool" where
  "up_if P as yp \<longleftrightarrow> (if P then mesh_up as yp else yp = None)"

lemma up_if_bind:
  assumes "up_if P as yp" and "\<And>y. mesh_up as (Some y) \<Longrightarrow> up_if P' as (g y)"
  shows "up_if (P \<and> P') as (Option.bind yp g)"
proof (cases P)
  case True
  then obtain y where "yp = Some y" "mesh_up as (Some y)" using assms(1) by (auto simp: up_if_def mesh_up_def)
  then show ?thesis using assms(2) [of y] True by simp
qed (use assms(1) in \<open>simp add: up_if_def\<close>)

lemma up_if_say: "up_if P as yp \<Longrightarrow> up_if P as (say msg yp)"
  by (cases P) (simp add: up_if_def mesh_up_setters, simp add: up_if_def say_def)

lemma up_if_run: "up_if P as yp \<Longrightarrow> up_if P as (sim_run fp yp ms)" for yp :: "('d, string) sim_sys option"
  by (cases P) (simp add: up_if_def mesh_up_setters, simp add: up_if_def sim_run_def)

lemma up_if_topology: "up_if P as yp \<Longrightarrow> up_if P as (show_topology yp)"
  by (cases yp) (simp_all add: show_topology_def up_if_say)

lemma up_if_send: "up_if P as yp \<Longrightarrow> up_if (P \<and> src \<in> set as) as (Option.bind yp (send_from fp src dst msg))"
  by (rule up_if_bind) (assumption | simp only: up_if_def, rule mesh_up_sends(1))+

lemma up_if_broadcast: "up_if P as yp \<Longrightarrow> up_if (P \<and> src \<in> set as) as (Option.bind yp (broadcast_from fp src msg))"
  by (rule up_if_bind) (assumption | simp only: up_if_def, rule mesh_up_sends(2))+

lemma up_if_build: "length ctxs \<le> 7 \<Longrightarrow> up_if calloc_ok (mesh_addrs ctxs) (build_mesh fp sz calloc_ok ctxs)"
  by (cases calloc_ok) (simp_all add: up_if_def build_mesh_up)

lemma mesh_addrs_members:
  assumes "length ctxs = 7"
  shows "1 \<in> set (mesh_addrs ctxs) \<longleftrightarrow> aligned (ctxs ! 0)" and "3 \<in> set (mesh_addrs ctxs) \<longleftrightarrow> aligned (ctxs ! 2)"
    and "7 \<in> set (mesh_addrs ctxs) \<longleftrightarrow> aligned (ctxs ! 6)" and "length (mesh_addrs ctxs) = length (filter aligned ctxs)"
proof -
  obtain a b c d e f g where "ctxs = [a, b, c, d, e, f, g]" using assms by (auto simp: length_Suc_conv eval_nat_numeral)
  then show "1 \<in> set (mesh_addrs ctxs) \<longleftrightarrow> aligned (ctxs ! 0)" "3 \<in> set (mesh_addrs ctxs) \<longleftrightarrow> aligned (ctxs ! 2)"
      "7 \<in> set (mesh_addrs ctxs) \<longleftrightarrow> aligned (ctxs ! 6)"
    by (auto simp: mesh_addrs_def mesh_nodes_def)
  have "filter aligned (map fst (zip ctxs mesh_nodes)) = map fst (filter (aligned \<circ> fst) (zip ctxs mesh_nodes))" by (simp add: filter_map comp_def)
  moreover have "map fst (zip ctxs mesh_nodes) = ctxs" using assms by (simp add: mesh_nodes_def)
  ultimately show "length (mesh_addrs ctxs) = length (filter aligned ctxs)" by (simp add: mesh_addrs_def)
qed

text \<open>The end of the program: statistics of node 3 and clean-up.\<close>

lemma finish_outcome:
  assumes "up_if P as yp" and "3 \<in> set as \<or> \<not> P"
    and "r = Option.bind yp (\<lambda>y. Option.bind (sim_find (Some y) 3) (\<lambda>i. Option.bind (treenet_stats (node_net y i))
          (\<lambda>st. Some (0 :: int, sm_user (ss_sim y) @ stats_line st @ newline @ ''done.'' @ newline, fst (sim_destroy (Some y))))))"
  shows "(r \<noteq> None \<longleftrightarrow> P) \<and> (r = Some (rc, out, freed) \<longrightarrow> rc = 0 \<and> freed = map Some [0..<length as])"
proof (cases P)
  case True
  then obtain y where y: "yp = Some y" "sys_idle y" "addrs y = as" using assms(1) by (auto simp: up_if_def mesh_up_def)
  obtain i where i: "sim_find (Some y) 3 = Some i" using sim_find_addrs(1) [of y 3] y(3) assms(2) True by auto
  obtain t where t: "node_net y i = Some t" using call_net_send(3) [OF y(2) sim_find_addrs(2) [OF i]] by auto
  have inv: "sys_inv y" using y(2) by (simp add: sys_idle_def)
  have "fst (sim_destroy (Some y)) = map Some [0..<length as]"
    using sys_invD(3,6,7) [OF inv] length_addrs [OF y(2)] y(3) by (auto simp: sim_destroy_def intro!: nth_equalityI)
  then show ?thesis using assms(3) True by (simp add: y(1) i t treenet_stats_def)
qed (use assms in \<open>simp add: up_if_def\<close>)

text \<open>
  Property C40: the example runs to its end if it gets the memory it relies on. It returns 0, and \<open>sim_destroy\<close> then frees
  every instance that was created exactly once, if and only if the simulator and the instances of the nodes 1, 3 and 7 can be allocated (at
  addresses aligned for \<open>treenet_init\<close>); otherwise it dereferences a null pointer, since neither the result of \<open>sim_create\<close> nor
  those of \<open>sim_add_node\<close> and \<open>sim_find\<close> are checked. What the channel does in between does not matter: \<open>fp\<close> is arbitrary.
\<close>

theorem example_main_outcome:
  assumes "length ctxs = 7"
  shows "(main fp sz calloc_ok ctxs \<noteq> None \<longleftrightarrow> calloc_ok \<and> aligned (ctxs ! 0) \<and> aligned (ctxs ! 2) \<and> aligned (ctxs ! 6)) \<and>
    (main fp sz calloc_ok ctxs = Some (rc, out, freed) \<longrightarrow> rc = 0 \<and> freed = map Some [0..<length (filter aligned ctxs)])"
proof -
  let ?as = "mesh_addrs ctxs"
  note m = mesh_addrs_members [OF assms]
  have "up_if calloc_ok ?as (build_mesh fp sz calloc_ok ctxs)" using assms by (intro up_if_build) simp
  note formed = up_if_say [OF up_if_topology [OF up_if_say [OF up_if_run [OF up_if_say [OF this]]]]]
  note talk = up_if_broadcast [OF up_if_say [OF up_if_send [OF up_if_say [OF up_if_send [OF up_if_say [OF up_if_send [OF formed]]]]]]]
  have "(main fp sz calloc_ok ctxs \<noteq> None \<longleftrightarrow> (((calloc_ok \<and> 1 \<in> set ?as) \<and> 7 \<in> set ?as) \<and> 1 \<in> set ?as) \<and> 3 \<in> set ?as) \<and>
      (main fp sz calloc_ok ctxs = Some (rc, out, freed) \<longrightarrow> rc = 0 \<and> freed = map Some [0..<length ?as])"
    by (rule finish_outcome [OF talk]) (simp_all add: main_def Let_def)
  then show ?thesis using m by auto
qed

theorem example_main_outcome_witness:
  "main fp_nan 0 True (replicate 7 (Some 0)) \<noteq> None \<and> main fp_nan 0 False (replicate 7 (Some 0)) = None \<and>
   main fp_nan 0 True (None # replicate 6 (Some 0)) = None"
proof -
  have "main fp_nan 0 True (replicate 7 (Some 0)) \<noteq> None"
    using conjunct1 [OF example_main_outcome [of "replicate 7 (Some 0)" fp_nan 0 True]] by (simp add: aligned_def)
  moreover have "main fp_nan 0 False (replicate 7 (Some 0)) = None"
    using conjunct1 [OF example_main_outcome [of "replicate 7 (Some 0)" fp_nan 0 False]] by (cases "main fp_nan 0 False (replicate 7 (Some 0))") auto
  moreover have "main fp_nan 0 True (None # replicate 6 (Some 0)) = None"
    using conjunct1 [OF example_main_outcome [of "None # replicate 6 (Some 0)" fp_nan 0 True]]
    by (cases "main fp_nan 0 True (None # replicate 6 (Some 0))") (auto simp: aligned_def)
  ultimately show ?thesis by blast
qed

end
