(* ===== verification/Spec2Isabelle.thy ===== *)
theory Spec2Isabelle
  imports Tn_Dodag Tn_Join Tn_Flood Tn_Switches Tn_Shape Tn_Transmit Tn_RingbufWeak Tn_Example
begin

text \<open>
  \<^bold>\<open>treenity: a verified model of a LoRa mesh stack\<close>

  \<^bold>\<open>The program.\<close> treenity is a C library that turns radio nodes into a self-organising tree: a
  Master is the root, every other node selects a parent by the rank it would have below it
  (\<open>src/routing/routing.c\<close>), learns its links from beacons and frames (\<open>src/link\<close>), announces itself upwards
  with destination advertisements so that routers can send downwards, forwards and
  acknowledges data hop by hop, fragments large datagrams and floods broadcasts
  (\<open>src/api/treenet.c\<close>). The frame format, checksum, duplicate cache and airtime estimate are in \<open>src/mac\<close>;
  ring buffer, timers, averages and byte order in \<open>src/core\<close>. The host calls \<open>treenet_rx\<close> from its radio
  interrupt, \<open>treenet_poll\<close> from its main loop and \<open>treenet_send\<close>/\<open>treenet_broadcast\<close> from the application;
  the library calls back through the port (\<open>include/treenet/port.h\<close>) and the application callbacks. \<open>sim/sim.c\<close> runs many
  instances over a simulated channel; \<open>examples/desktop_mesh/main.c\<close> is a program that uses it.

  \<^bold>\<open>The model, theory by theory.\<close>
  \<^item> \<open>Tn_Prelude\<close>: machine types, byte arrays, table search; \<open>Tn_Config\<close>: \<open>config.h\<close>, \<open>types.h\<close> at their default values.
  \<^item> \<open>Tn_Util\<close> (\<open>core/util.h\<close>), \<open>Tn_Ewma\<close> (\<open>core/ewma.h\<close>), \<open>Tn_Timer\<close> (\<open>core/timer.c\<close>), \<open>Tn_Dupcache\<close> (\<open>mac/dupcache.c\<close>),
    \<open>Tn_Airtime\<close> (\<open>mac/airtime.c\<close>), \<open>Tn_Crc\<close> and \<open>Tn_Frame\<close> (\<open>mac/frame.c\<close>).
  \<^item> \<open>Tn_Fifo\<close>: the queue interfaces (locales \<open>bounded_fifo\<close>, \<open>recent_fifo\<close>); \<open>Tn_Ringbuf\<close> (\<open>core/ringbuf.c\<close>) and
    \<open>Tn_Events\<close> (the event queue of \<open>core/internal.h\<close>) interpret them; \<open>Tn_RingbufConc\<close> runs the two sides of the ring
    concurrently, one memory access at a time, and \<open>Tn_RingbufWeak\<close> on a core that delays loads past a store.
  \<^item> \<open>Tn_Slots\<close>: fixed tables with validity flags as finite maps; \<open>Tn_Neighbor\<close> (\<open>link/neighbor.c\<close>) and \<open>Tn_Routes\<close> (the route table
    of \<open>routing/routing.c\<close>) build on it.
  \<^item> \<open>Tn_Context\<close>: \<open>struct treenet\<close> as the record \<open>'w treenet\<close>, the port as a record of functions on an environment of type
    \<open>'w\<close>, sequence numbers, logging, \<open>tn_tx_submit\<close>.
  \<^item> \<open>Tn_Beacon\<close> (\<open>link/beacon.c\<close>), \<open>Tn_Routing\<close> (the rest of \<open>routing.c\<close>), \<open>Tn_Dataplane\<close> (sending, introspection and
    application callbacks) and \<open>Tn_Node\<close> (acknowledgements, scheduler, reassembly, frame processing, receive loop,
    housekeeping, deadlines, \<open>treenet_poll\<close>, \<open>treenet_rx\<close>, \<open>treenet_init\<close>): \<open>api/treenet.c\<close>.
  \<^item> \<open>Tn_Sim\<close>: \<open>sim/sim.c\<close> and \<open>sim/sim.h\<close>; \<open>Tn_Example\<close>: \<open>examples/desktop_mesh/main.c\<close>, with the text it prints as part
    of the simulator's user data and a dereferenced null pointer as \<open>None\<close>.
  \<^item> \<open>Tn_Switches\<close>: the operations that a feature switch of \<open>config.h\<close> varies, with the switch as an argument, and the compile-time checks;
    the other theories have the switches at their default.

  State is passed explicitly; a pointer that may be \<open>NULL\<close> is an option; an array is a list of fixed length, a pointer into
  an array an index; integers keep their width. A function keeps the name it has in C; a loop body or a branch that has its
  own definition is mapped to the lines it translates. An operation on an instance that may be \<open>NULL\<close> or not initialised has a version with
  the suffix \<open>_node\<close> for the case that it is neither. An application callback is a value of \<open>'w app\<close>: a finite tree of changes to
  the environment and of calls back into the library (\<open>treenet_send\<close>, \<open>treenet_broadcast\<close>) that may depend on their results.

  \<^bold>\<open>What is proved.\<close>
  \<^item> A node in every reachable state (\<open>Tn_NodeInv\<close>, \<open>Tn_Safety\<close>, \<open>Tn_Shape\<close>): whatever frames it receives and whatever its application
    does, its tables and queues are well formed, its place in the tree is consistent, every buffer handed to the
    radio is a complete frame with its own address as previous hop, its beacons pass the checks of the receivers, and
    its arrays and cursors stay within their declarations in C.
  \<^item> The tree (\<open>Tn_Parent\<close>, \<open>Tn_Dodag\<close>): what parent selection chooses on every branch; once every node of a network has chosen, with no
    candidate worse than its last beacon said, the parent pointers form trees with a Master at the root.
  \<^item> Datagrams (\<open>Tn_Send\<close>, \<open>Tn_Reasm\<close>, \<open>Tn_Handlers\<close>, \<open>Tn_Transmit\<close>): a send enters the queue as a whole or not at all; fragments
    reassemble in any order; data is delivered, forwarded and repeated once; advertisements make a node
    reachable; over whole polls, a reliable frame is transmitted exactly \<open>TREENET_MAX_RETRIES\<close> times and then removed from the queue.
  \<^item> From application to application (\<open>Tn_Journey\<close>, \<open>Tn_Flood\<close>): a datagram, in one frame or in fragments that arrive in any order, passes any chain of
    routers within the hop limit and is delivered once with exactly its bytes (fragments: as long as no poll finds the last one older than the
    lifetime of an incomplete datagram); a broadcast is delivered by and repeated at every node of such a chain.
  \<^item> Two nodes in dialogue (\<open>Tn_Hop\<close>, \<open>Tn_Join\<close>): the receiver queues an acknowledgement, which settles the frame it is for; one beacon is enough to join, and the parent
    learns the route to the new node. Frames go through encoder, ring, decoder and the whole receive path on both sides.
  \<^item> The poll (\<open>Tn_Poll\<close>): it ends with nothing pending, and a poll before the armed deadline does nothing.
  \<^item> Components: round trip (with and without checksum trailer), exact domain and error detection of the codec; the checksum against the bit-serial register; the
    airtime formula over the integers; the ring as a bounded queue from any state, sequentially and concurrently; the queue of recent events; neighbour and route tables as maps;
    the exact lifetime of an entry of the duplicate cache; link cost; time across the wrap of the counter.
  \<^item> The simulated network (\<open>Tn_Network\<close>): the invariant of all its nodes, what is on the air, and the collision rule; when the
    desktop example runs to its end (\<open>Tn_Example\<close>).
  \<^item> Seven theorems state behaviour that the comments of the code do not intend: \<open>healthy_links_unusable_after_2_31\<close>,
    \<open>own_child_becomes_parent\<close>, \<open>flood_window_correct\<close>, \<open>dupcache_stale_entry_resurrects\<close>, \<open>ack_settles_wrong_frame\<close>,
    \<open>ringbuf_unordered_release\<close>, \<open>without_fragmentation\<close>.

  \<^bold>\<open>Bounds and termination.\<close> No operation of the model uses fuel. The receive loop of \<open>tn_rx_drain\<close> ends because each round
  removes bytes from the ring, the event loop because a callback cannot emit events and each round takes one; the
  steps of the simulator are counted by the 32-bit argument of \<open>sim_run\<close>. \<open>push_run\<close> and \<open>pop_run\<close> of \<open>Tn_RingbufConc\<close>
  count the steps of one uninterrupted call; the counts in \<open>push_alone\<close> and \<open>pop_alone\<close> are enough for every record.

  \<^bold>\<open>Parameters.\<close> Port functions and application callbacks are arguments, restricted only by named hypotheses
  (\<open>port_ok\<close>, \<open>cfg_ok\<close>: they keep a predicate of the environment) where a theorem speaks of the environment.
  The size and alignment of the instance storage, the results of \<open>malloc\<close> and \<open>calloc\<close>, and the floating-point operations of the
  simulator (the record \<open>fp\<close>) are arguments; nothing is assumed of them.

  \<^bold>\<open>Left out of the data.\<close> The opaque \<open>user\<close> pointer of \<open>treenet_config_t\<close>, which the library only passes on (the state a callback keeps is part
  of the environment \<open>'w\<close>); the scratch buffer \<open>work\<close> of \<open>struct treenet\<close>, which no function uses; its \<open>rx_storage\<close> is the
  list of bytes of the ring. \<open>treenet_context_size\<close> is an argument of \<open>treenet_init\<close>. The hooks of \<open>sim_set_callbacks\<close> may change the user data of
  the host only.

  \<^bold>\<open>Not modelled.\<close> Whole nodes with a feature switch at other than its default value, which are only
  modelled operation by operation; reorderings of memory accesses other than the one
  of \<open>Tn_RingbufWeak\<close>; tests.
\<close>

end
